(* ===== verification/Prelude.thy ===== *)
theory Prelude
  imports Complex_Main "HOL-Library.Word" "HOL-Library.AList"
begin

text \<open>
  Shared vocabulary of the development: byte strings and machine words, the result type in which
  every \<^verbatim>\<open>error\<close> return and \<^verbatim>\<open>throw\<close> of the source is a value, big-endian encodings with their
  decoders, length-prefixed byte strings, and finite maps (the Go \<^verbatim>\<open>map\<close> and the JavaScript
  \<^verbatim>\<open>Map\<close>) with sums over their entries.  The collections \<open>enc_simps\<close>, \<open>word_facts\<close> and \<open>map_laws\<close>
  gather what the component proofs use.
\<close>

section \<open>Types and collections\<close>

type_synonym byte = "8 word"
type_synonym u16 = "16 word"
type_synonym u32 = "32 word"
type_synonym u64 = "64 word"
type_synonym bytes = "byte list"

text \<open>\<open>('e, 'a) result\<close>: \<open>Inl\<close> is the error of the source, \<open>Inr\<close> the value it returns.\<close>

type_synonym ('e, 'a) result = "'e + 'a"

named_theorems enc_simps "length and prefix facts of the byte encodings"
named_theorems word_facts "reading word arithmetic as arithmetic on naturals"
named_theorems map_laws "lookup after an update or a deletion"

definition bindR :: "('e, 'a) result \<Rightarrow> ('a \<Rightarrow> ('e, 'b) result) \<Rightarrow> ('e, 'b) result" where
  "bindR m f = (case m of Inl e \<Rightarrow> Inl e | Inr x \<Rightarrow> f x)"

lemma bindR_simps [simp]:
  "bindR (Inl e) f = Inl e"
  "bindR (Inr x) f = f x"
  by (simp_all add: bindR_def)

lemma bindR_eq_Inr:
  "bindR m f = Inr y \<longleftrightarrow> (\<exists>x. m = Inr x \<and> f x = Inr y)"
  by (cases m) auto

lemma bindR_eq_Inl:
  "bindR m f = Inl e \<longleftrightarrow> m = Inl e \<or> (\<exists>x. m = Inr x \<and> f x = Inl e)"
  by (cases m) auto

definition opt_val :: "'b \<Rightarrow> ('a \<Rightarrow> 'b) \<Rightarrow> 'a option \<Rightarrow> 'b" where
  "opt_val d f x = (case x of None \<Rightarrow> d | Some v \<Rightarrow> f v)"

lemma opt_val_simps [simp]: "opt_val d f None = d" "opt_val d f (Some v) = f v"
  by (simp_all add: opt_val_def)

section \<open>Big-endian integers\<close>

text \<open>\<open>be_bytes n v\<close>: the \<open>n\<close> low bytes of \<open>v\<close>, most significant first; \<open>be_nat\<close> reads them back.\<close>

fun be_bytes :: "nat \<Rightarrow> nat \<Rightarrow> bytes" where
  "be_bytes 0 v = []"
| "be_bytes (Suc n) v = of_nat (v div 256 ^ n) # be_bytes n v"

fun be_nat :: "bytes \<Rightarrow> nat" where
  "be_nat [] = 0"
| "be_nat (b # bs) = unat b * 256 ^ length bs + be_nat bs"

text \<open>The same over the integers, whose numerals evaluate in binary.\<close>

fun be_int :: "nat \<Rightarrow> int \<Rightarrow> bytes" where
  "be_int 0 v = []"
| "be_int (Suc n) v = of_int (v div 256 ^ n) # be_int n v"

lemma be_bytes_code [code]: "be_bytes n v = be_int n (int v)"
proof (induction n)
  case (Suc n)
  have "int v div 256 ^ n = int (v div 256 ^ n)" by (simp add: zdiv_int)
  then show ?case using Suc by simp
qed simp

lemma length_be_bytes [simp, enc_simps]: "length (be_bytes n v) = n"
  by (induction n) auto

lemma be_nat_be_bytes: "be_nat (be_bytes n v) = v mod 256 ^ n"
proof (induction n)
  case 0
  then show ?case by simp
next
  case (Suc n)
  have "unat (of_nat (v div 256 ^ n) :: byte) = v div 256 ^ n mod 256"
    by (simp add: unat_of_nat)
  then have "be_nat (be_bytes (Suc n) v) = (v div 256 ^ n mod 256) * 256 ^ n + v mod 256 ^ n"
    using Suc by simp
  also have "\<dots> = v mod (256 ^ n * 256)"
    by (subst mod_mult2_eq) (simp add: mult.commute)
  finally show ?case by (simp add: mult.commute)
qed

lemma be_bytes_inj:
  assumes "be_bytes n v = be_bytes n w" "v < 256 ^ n" "w < 256 ^ n"
  shows "v = w"
  using assms by (metis be_nat_be_bytes mod_less)

lemma be_bytes_8_unat_inj [simp]:
  "be_bytes 8 (unat (a :: u64)) = be_bytes 8 (unat b) \<longleftrightarrow> a = b"
proof
  assume "be_bytes 8 (unat a) = be_bytes 8 (unat b)"
  moreover have "unat (x :: u64) < 256 ^ 8" for x
    using unsigned_less [of x] by simp
  ultimately have "unat a = unat b" by (blast intro: be_bytes_inj)
  then show "a = b" by (rule unsigned_word_eqI)
qed simp

section \<open>Length-prefixed byte strings\<close>

text \<open>The encoding of \<^verbatim>\<open>HashWriter.WriteBytes\<close> and \<^verbatim>\<open>writeLenPrefixed\<close>: eight bytes of length, then the data.\<close>

definition len_prefixed :: "bytes \<Rightarrow> bytes" where
  "len_prefixed b = be_bytes 8 (length b) @ b"

lemma length_len_prefixed [simp, enc_simps]: "length (len_prefixed b) = 8 + length b"
  by (simp add: len_prefixed_def)

text \<open>Length prefixes make concatenation unambiguous.\<close>

lemma len_prefixed_append_inj:
  assumes eq: "len_prefixed a @ r = len_prefixed b @ s"
    and "length a < 2 ^ 64" "length b < 2 ^ 64"
  shows "a = b \<and> r = s"
proof -
  have "be_bytes 8 (length a) = be_bytes 8 (length b)" and rest: "a @ r = b @ s"
    using eq by (simp_all add: len_prefixed_def)
  then have "length a = length b"
    using assms(2,3) by (intro be_bytes_inj [where n = 8]) simp_all
  with rest show ?thesis by simp
qed

lemma fixed_append_inj:
  assumes "a @ r = b @ s" "length a = length b"
  shows "a = b \<and> r = s"
  using assms by simp

section \<open>Unsigned 64-bit arithmetic\<close>

lemma unat_u64_less [word_facts]: "unat (a :: u64) < 18446744073709551616"
  using unsigned_less [of a] by simp

lemma unat_u64_le [word_facts]: "unat (a :: u64) \<le> 18446744073709551615"
  using unat_u64_less [of a] by linarith

lemma unat_add_exact [word_facts]:
  "unat (a :: u64) + unat b < 2 ^ 64 \<Longrightarrow> unat (a + b) = unat a + unat b"
  by (simp add: unat_word_ariths)

lemma unat_sub_exact [word_facts]:
  "(b :: u64) \<le> a \<Longrightarrow> unat (a - b) = unat a - unat b"
  by (simp add: unat_sub)

lemma unat_le_exact [word_facts]: "(a :: u64) \<le> b \<longleftrightarrow> unat a \<le> unat b"
  by (simp add: word_le_nat_alt)

lemma unat_less_exact [word_facts]: "(a :: u64) < b \<longleftrightarrow> unat a < unat b"
  by (simp add: word_less_nat_alt)

section \<open>Finite maps and sums over their entries\<close>

text \<open>
  The sum of a weight over the entries of a map, in whatever order they are listed: a Go loop
  \<^verbatim>\<open>for k, v := range m\<close> sees them in an unspecified order.
\<close>

definition msum :: "('k \<Rightarrow> 'v \<Rightarrow> nat) \<Rightarrow> ('k \<times> 'v) list \<Rightarrow> nat" where
  "msum f es = (\<Sum>(k, v)\<leftarrow>es. f k v)"

lemma msum_simps [simp]:
  "msum f [] = 0"
  "msum f ((k, v) # es) = f k v + msum f es"
  "msum f (es @ fs) = msum f es + msum f fs"
  by (simp_all add: msum_def)

lemma msum_filter:
  "msum f (filter P es) = msum (\<lambda>k v. if P (k, v) then f k v else 0) es"
  by (induction es) (auto simp: msum_def)

lemma msum_plus: "msum (\<lambda>k v. f k v + g k v) es = msum f es + msum g es"
  by (induction es) (auto simp: msum_def)

lemma msum_dom:
  assumes "distinct (map fst es)"
  shows "msum f es = (\<Sum>k\<in>dom (map_of es). f k (the (map_of es k)))"
  using assms
proof (induction es)
  case Nil
  then show ?case by simp
next
  case (Cons e es)
  obtain k v where e: "e = (k, v)" by (cases e)
  have k: "k \<notin> dom (map_of es)" using Cons.prems e by (auto simp: dom_map_of_conv_image_fst)
  have "(\<Sum>j\<in>dom (map_of es). f j (the (map_of (e # es) j)))
      = (\<Sum>j\<in>dom (map_of es). f j (the (map_of es j)))"
    using k e by (intro sum.cong) auto
  moreover have "dom (map_of (e # es)) = insert k (dom (map_of es))"
    using e by auto
  ultimately show ?case
    using Cons k e by (simp del: map_of.simps add: finite_dom_map_of) simp
qed

text \<open>
  The interface every component relies on: lookup, store, delete, and the list of entries a loop
  visits.  The laws say what a lookup returns after each operation and that entries never repeat a key.
\<close>

locale go_map =
  fixes get :: "'m \<Rightarrow> 'k \<Rightarrow> 'v option"
    and put :: "'k \<Rightarrow> 'v \<Rightarrow> 'm \<Rightarrow> 'm"
    and del :: "'k \<Rightarrow> 'm \<Rightarrow> 'm"
    and entries :: "'m \<Rightarrow> ('k \<times> 'v) list"
    and ok :: "'m \<Rightarrow> bool"
  assumes get_entries: "ok m \<Longrightarrow> get m = map_of (entries m)"
    and distinct_entries: "ok m \<Longrightarrow> distinct (map fst (entries m))"
    and get_put: "ok m \<Longrightarrow> get (put k v m) = (get m)(k \<mapsto> v)"
    and get_del: "ok m \<Longrightarrow> get (del k m) = (get m)(k := None)"
    and ok_put: "ok m \<Longrightarrow> ok (put k v m)"
    and ok_del: "ok m \<Longrightarrow> ok (del k m)"
begin

lemma msum_get:
  "ok m \<Longrightarrow> msum f (entries m) = (\<Sum>k\<in>dom (get m). f k (the (get m k)))"
  by (simp add: msum_dom distinct_entries get_entries)

lemma finite_get: "ok m \<Longrightarrow> finite (dom (get m))"
  by (simp add: get_entries finite_dom_map_of)

lemma msum_split:
  assumes "ok m"
  shows "msum f (entries m)
    = opt_val 0 (f k) (get m k) + (\<Sum>j\<in>dom (get m) - {k}. f j (the (get m j)))"
proof (cases "get m k")
  case None
  then have "dom (get m) - {k} = dom (get m)" by auto
  with None show ?thesis by (simp add: msum_get [OF assms])
next
  case (Some v)
  then have "k \<in> dom (get m)" by auto
  with Some show ?thesis
    by (simp add: msum_get [OF assms] sum.remove [OF finite_get [OF assms]])
qed

lemma msum_put:
  assumes "ok m"
  shows "msum f (entries (put k v m)) + opt_val 0 (f k) (get m k) = msum f (entries m) + f k v"
proof -
  have "msum f (entries (put k v m))
      = f k v + (\<Sum>j\<in>dom (get m) - {k}. f j (the (get (put k v m) j)))"
    using msum_split [OF ok_put [OF assms], of f k v k] by (simp add: get_put [OF assms])
  also have "(\<Sum>j\<in>dom (get m) - {k}. f j (the (get (put k v m) j)))
      = (\<Sum>j\<in>dom (get m) - {k}. f j (the (get m j)))"
    by (intro sum.cong) (auto simp: get_put [OF assms])
  finally show ?thesis using msum_split [OF assms, of f k] by simp
qed

lemma msum_del:
  assumes "ok m"
  shows "msum f (entries (del k m)) + opt_val 0 (f k) (get m k) = msum f (entries m)"
proof -
  have "msum f (entries (del k m)) = (\<Sum>j\<in>dom (get m) - {k}. f j (the (get (del k m) j)))"
    using msum_split [OF ok_del [OF assms], of f k k] by (simp add: get_del [OF assms])
  also have "\<dots> = (\<Sum>j\<in>dom (get m) - {k}. f j (the (get m j)))"
    by (intro sum.cong) (auto simp: get_del [OF assms])
  finally show ?thesis using msum_split [OF assms, of f k] by simp
qed

lemma msum_ge:
  assumes "ok m" "get m k = Some v"
  shows "f k v \<le> msum f (entries m)"
  using msum_split [OF assms(1), of f k] assms(2) by simp

lemma msum_order_irrelevant:
  assumes "ok m" "ok n" "get m = get n"
  shows "msum f (entries m) = msum f (entries n)"
  by (simp add: msum_get assms)

end

text \<open>
  The model's maps: association lists without repeated keys, in the order the entries are visited.
\<close>

type_synonym ('k, 'v) gomap = "('k \<times> 'v) list"

abbreviation mget :: "('k, 'v) gomap \<Rightarrow> 'k \<Rightarrow> 'v option" where
  "mget m k \<equiv> map_of m k"

abbreviation mput :: "'k \<Rightarrow> 'v \<Rightarrow> ('k, 'v) gomap \<Rightarrow> ('k, 'v) gomap" where
  "mput \<equiv> AList.update"

abbreviation mdel :: "'k \<Rightarrow> ('k, 'v) gomap \<Rightarrow> ('k, 'v) gomap" where
  "mdel \<equiv> AList.delete"

definition mok :: "('k, 'v) gomap \<Rightarrow> bool" where
  "mok m \<longleftrightarrow> distinct (map fst m)"

lemma mok_Nil [simp]: "mok []"
  by (simp add: mok_def)

interpretation gm: go_map mget mput mdel "\<lambda>m. m" mok
  by unfold_locales
    (auto simp: mok_def AList.update_conv' AList.delete_conv' AList.distinct_update
      AList.distinct_delete)

lemmas map_get_laws [simp, map_laws] = AList.update_conv' AList.delete_conv'
lemmas map_ok_laws [simp, intro, map_laws] = gm.ok_put gm.ok_del

end
