(* ===== verification/GoCrypto.thy ===== *)
theory GoCrypto
  imports Prelude
begin

text \<open>
  The node's \<^verbatim>\<open>internal/crypto\<close> package: hexadecimal text, addresses with their checksum, and the
  Ed25519 wrappers.  A Go string is its bytes.  SHA-256 and Ed25519 are parameters: the fields of
  \<open>prims\<close>; \<open>sha256_len\<close> names the only fact about SHA-256 that the code relies on to be safe.
\<close>

section \<open>Primitives\<close>

record prims =
  sha256 :: "bytes \<Rightarrow> bytes"
  ed25519_Sign :: "bytes \<Rightarrow> bytes \<Rightarrow> bytes"
  ed25519_Verify :: "bytes \<Rightarrow> bytes \<Rightarrow> bytes \<Rightarrow> bool"

definition sha256_len :: "prims \<Rightarrow> bool" where
  "sha256_len P \<longleftrightarrow> (\<forall>x. length (sha256 P x) = 32)"

text \<open>A signature made with a private key verifies under the public key stored in its last 32 bytes.\<close>

definition ed25519_correct :: "prims \<Rightarrow> bytes \<Rightarrow> bool" where
  "ed25519_correct P priv \<longleftrightarrow>
     (\<forall>m. length (ed25519_Sign P priv m) = 64 \<and> ed25519_Verify P (drop 32 priv) m (ed25519_Sign P priv m))"

definition go :: "string \<Rightarrow> bytes" where
  "go s = map (\<lambda>c. of_nat (of_char c)) s"

text \<open>\<^verbatim>\<open>copy(dst[:], src)\<close> into a zeroed array of \<open>n\<close> bytes.\<close>

definition copy_into :: "nat \<Rightarrow> bytes \<Rightarrow> bytes" where
  "copy_into n src = take n src @ replicate (n - length src) 0"

lemma copy_into_exact [simp]: "length src = n \<Longrightarrow> copy_into n src = src"
  by (simp add: copy_into_def)

lemma length_copy_into [simp]: "length (copy_into n src) = n"
  by (simp add: copy_into_def)

section \<open>encoding/hex\<close>

datatype hex_error = InvalidByteError byte | ErrLength

definition hex_char :: "nat \<Rightarrow> byte" where
  "hex_char n = of_nat (if n < 10 then 48 + n else 87 + n)"

definition hex_val :: "byte \<Rightarrow> nat option" where
  "hex_val c = (let n = unat c in
     if 48 \<le> n \<and> n \<le> 57 then Some (n - 48)
     else if 97 \<le> n \<and> n \<le> 102 then Some (n - 87)
     else if 65 \<le> n \<and> n \<le> 70 then Some (n - 55)
     else None)"

fun EncodeToString :: "bytes \<Rightarrow> bytes" where
  "EncodeToString [] = []"
| "EncodeToString (b # bs) = hex_char (unat b div 16) # hex_char (unat b mod 16) # EncodeToString bs"

fun DecodeString :: "bytes \<Rightarrow> (hex_error, bytes) result" where
  "DecodeString [] = Inr []"
| "DecodeString [p] = (case hex_val p of None \<Rightarrow> Inl (InvalidByteError p) | Some _ \<Rightarrow> Inl ErrLength)"
| "DecodeString (p # q # s) =
     (case hex_val p of None \<Rightarrow> Inl (InvalidByteError p)
      | Some a \<Rightarrow> (case hex_val q of None \<Rightarrow> Inl (InvalidByteError q)
        | Some b \<Rightarrow> bindR (DecodeString s) (\<lambda>r. Inr (of_nat (16 * a + b) # r))))"

section \<open>Addresses\<close>

abbreviation addressBodyLen :: nat where "addressBodyLen \<equiv> 20"
abbreviation addressChecksumLen :: nat where "addressChecksumLen \<equiv> 4"
abbreviation AddressLen :: nat where "AddressLen \<equiv> 24"

definition AddressPrefix :: bytes where
  "AddressPrefix = go ''drana1''"

type_synonym address = bytes
type_synonym pubkey = bytes
type_synonym privkey = bytes

definition zeroAddress :: address where
  "zeroAddress = replicate AddressLen 0"

definition AddressFromPublicKey :: "prims \<Rightarrow> pubkey \<Rightarrow> address" where
  "AddressFromPublicKey P pubKey =
     (let pubKeyHash = sha256 P pubKey;
          body = copy_into addressBodyLen (take addressBodyLen pubKeyHash);
          checksumFull = sha256 P body
      in body @ copy_into addressChecksumLen (take addressChecksumLen checksumFull))"

definition Address_String :: "address \<Rightarrow> bytes" where
  "Address_String a = AddressPrefix @ EncodeToString a"

datatype address_error =
    AddressChecksumMismatch
  | AddressTooShort
  | AddressBadPrefix
  | AddressBadHex hex_error
  | AddressBadLength nat

definition Address_Validate :: "prims \<Rightarrow> address \<Rightarrow> (address_error, unit) result" where
  "Address_Validate P a =
     (let body = take addressBodyLen a; checksumFull = sha256 P body
      in if list_all (\<lambda>i. a ! (addressBodyLen + i) = checksumFull ! i) [0..<addressChecksumLen]
         then Inr () else Inl AddressChecksumMismatch)"

definition Address_IsZero :: "address \<Rightarrow> bool" where
  "Address_IsZero a \<longleftrightarrow> a = zeroAddress"

definition ParseAddress :: "prims \<Rightarrow> bytes \<Rightarrow> (address_error, address) result" where
  "ParseAddress P s =
     (if length s < length AddressPrefix then Inl AddressTooShort
      else if take (length AddressPrefix) s \<noteq> AddressPrefix then Inl AddressBadPrefix
      else case DecodeString (drop (length AddressPrefix) s) of
        Inl err \<Rightarrow> Inl (AddressBadHex err)
      | Inr b \<Rightarrow>
          if length b \<noteq> AddressLen then Inl (AddressBadLength (length b))
          else (let addr = copy_into AddressLen b
                in bindR (Address_Validate P addr) (\<lambda>_. Inr addr)))"

section \<open>Keys\<close>

text \<open>\<open>gen\<close> is what \<^verbatim>\<open>ed25519.GenerateKey(rand.Reader)\<close> returned: an error, or a key pair.\<close>

definition GenerateKeyPair :: "('e, bytes \<times> bytes) result \<Rightarrow> ('e, pubkey \<times> privkey) result" where
  "GenerateKeyPair gen =
     (case gen of Inl err \<Rightarrow> Inl err
      | Inr (pub, priv) \<Rightarrow> Inr (copy_into 32 pub, copy_into 64 priv))"

definition Sign :: "prims \<Rightarrow> privkey \<Rightarrow> bytes \<Rightarrow> bytes" where
  "Sign P privKey message = ed25519_Sign P privKey message"

definition Verify :: "prims \<Rightarrow> pubkey \<Rightarrow> bytes \<Rightarrow> bytes \<Rightarrow> bool" where
  "Verify P pubKey message sig =
     (if length sig \<noteq> 64 then False else ed25519_Verify P pubKey message sig)"

section \<open>Facts about hexadecimal text\<close>

lemma hex_val_hex_char: "n < 16 \<Longrightarrow> hex_val (hex_char n) = Some n"
  by (simp add: hex_val_def hex_char_def unat_of_nat Let_def del: of_nat_add)

lemma hex_val_less: "hex_val c = Some n \<Longrightarrow> n < 16"
  by (auto simp: hex_val_def Let_def split: if_splits)

lemma byte_nibbles: "of_nat (16 * (unat (b :: byte) div 16) + unat b mod 16) = b"
  by simp

lemma Decode_Encode [simp]: "DecodeString (EncodeToString bs) = Inr bs"
proof (induction bs)
  case Nil
  then show ?case by simp
next
  case (Cons b bs)
  have "unat b < 256" using unsigned_less [of b, where ?'a = nat] by simp
  then have "unat b div 16 < 16" by simp
  with Cons show ?case by (simp add: hex_val_hex_char del: of_nat_add of_nat_mult)
qed

lemma length_EncodeToString [simp, enc_simps]: "length (EncodeToString bs) = 2 * length bs"
  by (induction bs) auto

lemma length_DecodeString: "DecodeString s = Inr b \<Longrightarrow> length s = 2 * length b"
proof (induction s arbitrary: b rule: DecodeString.induct)
  case (3 p q s)
  then show ?case by (auto simp: bindR_eq_Inr split: option.splits)
qed (auto split: option.splits)

lemma EncodeToString_inj [simp]: "EncodeToString a = EncodeToString b \<longleftrightarrow> a = b"
  by (metis Decode_Encode Inr_inject)

section \<open>Facts about addresses\<close>

lemma length_AddressPrefix [simp, enc_simps]: "length AddressPrefix = 6"
  by (simp add: AddressPrefix_def go_def)

lemma length_AddressFromPublicKey [simp, enc_simps]: "length (AddressFromPublicKey P pk) = 24"
  by (simp add: AddressFromPublicKey_def Let_def)

lemma Address_Validate_derived:
  assumes "sha256_len P"
  shows "Address_Validate P (AddressFromPublicKey P pk) = Inr ()"
proof -
  have len: "length (sha256 P x) = 32" for x using assms by (simp add: sha256_len_def)
  define body where "body = take 20 (sha256 P pk)"
  have b: "length body = 20" by (simp add: body_def len)
  have a: "AddressFromPublicKey P pk = body @ take 4 (sha256 P body)"
    using b by (simp add: AddressFromPublicKey_def Let_def len flip: body_def)
  show ?thesis
    by (auto simp: Address_Validate_def a b len nth_append list_all_iff)
qed

lemma ParseAddress_String:
  assumes "length a = 24" "Address_Validate P a = Inr ()"
  shows "ParseAddress P (Address_String a) = Inr a"
  using assms by (simp add: ParseAddress_def Address_String_def Let_def)

lemma ParseAddress_Inr:
  assumes "ParseAddress P s = Inr a"
  shows "length a = 24 \<and> Address_Validate P a = Inr () \<and> length s = 54
    \<and> DecodeString (drop 6 s) = Inr a"
  using assms length_DecodeString [of "drop 6 s"]
  by (auto simp: ParseAddress_def Let_def bindR_eq_Inr split: if_splits sum.splits)

end
