(* ===== verification/GoTypes.thy ===== *)
theory GoTypes
  imports GoCrypto
begin

text \<open>
  The node's \<^verbatim>\<open>internal/types\<close> package: the canonical hash writer, transactions, posts, blocks,
  votes, slashing evidence, overflow-free fixed-point arithmetic, and the hexadecimal JSON shapes of
  transactions and headers.  Fixed-size arrays are byte lists; \<open>wf_tx\<close> and \<open>wf_header\<close> state their sizes.
\<close>

section \<open>hash.go\<close>

record HashWriter =
  hw_buf :: bytes

definition NewHashWriter :: HashWriter where
  "NewHashWriter = \<lparr>hw_buf = []\<rparr>"

definition WriteBytes :: "bytes \<Rightarrow> HashWriter \<Rightarrow> HashWriter" where
  "WriteBytes b hw = hw\<lparr>hw_buf := (hw_buf hw @ be_bytes 8 (length b)) @ b\<rparr>"

definition WriteUint64 :: "u64 \<Rightarrow> HashWriter \<Rightarrow> HashWriter" where
  "WriteUint64 v hw = hw\<lparr>hw_buf := hw_buf hw @ be_bytes 8 (unat v)\<rparr>"

definition WriteUint32 :: "u32 \<Rightarrow> HashWriter \<Rightarrow> HashWriter" where
  "WriteUint32 v hw = hw\<lparr>hw_buf := hw_buf hw @ be_bytes 4 (unat v)\<rparr>"

text \<open>An \<^verbatim>\<open>int64\<close> is kept as its two's complement word, which is what \<^verbatim>\<open>uint64(v)\<close> returns.\<close>

definition WriteInt64 :: "u64 \<Rightarrow> HashWriter \<Rightarrow> HashWriter" where
  "WriteInt64 v hw = WriteUint64 v hw"

definition WriteString :: "bytes \<Rightarrow> HashWriter \<Rightarrow> HashWriter" where
  "WriteString s hw = WriteBytes s hw"

definition Sum256 :: "prims \<Rightarrow> HashWriter \<Rightarrow> bytes" where
  "Sum256 P hw = sha256 P (hw_buf hw)"

lemma hw_buf_simps [simp]:
  "hw_buf NewHashWriter = []"
  "hw_buf (WriteBytes b hw) = hw_buf hw @ len_prefixed b"
  "hw_buf (WriteString b hw) = hw_buf hw @ len_prefixed b"
  "hw_buf (WriteUint64 v hw) = hw_buf hw @ be_bytes 8 (unat v)"
  "hw_buf (WriteInt64 v hw) = hw_buf hw @ be_bytes 8 (unat v)"
  "hw_buf (WriteUint32 w hw) = hw_buf hw @ be_bytes 4 (unat w)"
  by (simp_all add: NewHashWriter_def WriteBytes_def WriteString_def WriteUint64_def WriteInt64_def
      WriteUint32_def len_prefixed_def)

lemma WriteUint_code [code]:
  "WriteUint64 v hw = hw\<lparr>hw_buf := hw_buf hw @ be_int 8 (uint v)\<rparr>"
  "WriteUint32 w hw = hw\<lparr>hw_buf := hw_buf hw @ be_int 4 (uint w)\<rparr>"
  by (simp_all only: WriteUint64_def WriteUint32_def be_bytes_code uint_nat)

section \<open>transaction.go\<close>

type_synonym TxType = byte
type_synonym postid = bytes

abbreviation TxTransfer :: TxType where "TxTransfer \<equiv> 1"
abbreviation TxCreatePost :: TxType where "TxCreatePost \<equiv> 2"
abbreviation TxBoostPost :: TxType where "TxBoostPost \<equiv> 3"
abbreviation TxRegisterName :: TxType where "TxRegisterName \<equiv> 4"
abbreviation TxStake :: TxType where "TxStake \<equiv> 5"
abbreviation TxUnstake :: TxType where "TxUnstake \<equiv> 6"
abbreviation TxUnstakePost :: TxType where "TxUnstakePost \<equiv> 7"

record Transaction =
  tx_Type :: TxType
  tx_Sender :: address
  tx_Recipient :: address
  tx_PostID :: postid
  tx_Text :: bytes
  tx_Channel :: bytes
  tx_Amount :: u64
  tx_Nonce :: u64
  tx_Signature :: bytes
  tx_PubKey :: pubkey

definition SignableBytes :: "Transaction \<Rightarrow> bytes" where
  "SignableBytes tx =
     (let hw = NewHashWriter;
          hw = WriteUint32 (ucast (tx_Type tx)) hw;
          hw = WriteBytes (tx_Sender tx) hw;
          hw = WriteBytes (tx_Recipient tx) hw;
          hw = WriteBytes (tx_PostID tx) hw;
          hw = WriteString (tx_Text tx) hw;
          hw = WriteString (tx_Channel tx) hw;
          hw = WriteUint64 (tx_Amount tx) hw;
          hw = WriteUint64 (tx_Nonce tx) hw;
          hw = WriteBytes (tx_PubKey tx) hw
      in hw_buf hw)"

definition Transaction_Hash :: "prims \<Rightarrow> Transaction \<Rightarrow> bytes" where
  "Transaction_Hash P tx =
     (let hw = WriteBytes (SignableBytes tx) NewHashWriter;
          hw = WriteBytes (tx_Signature tx) hw
      in Sum256 P hw)"

definition SignTransaction :: "prims \<Rightarrow> Transaction \<Rightarrow> privkey \<Rightarrow> Transaction" where
  "SignTransaction P tx privKey =
     (let tx = tx\<lparr>tx_PubKey := copy_into 32 (drop 32 privKey)\<rparr>
      in tx\<lparr>tx_Signature := Sign P privKey (SignableBytes tx)\<rparr>)"

section \<open>post.go and account.go\<close>

definition zeroPostID :: postid where
  "zeroPostID = replicate 32 0"

definition DerivePostID :: "prims \<Rightarrow> address \<Rightarrow> u64 \<Rightarrow> postid" where
  "DerivePostID P author nonce =
     (let hw = WriteBytes author NewHashWriter; hw = WriteUint64 nonce hw
      in sha256 P (hw_buf hw))"

record Post =
  post_PostID :: postid
  post_Author :: address
  post_Text :: bytes
  post_Channel :: bytes
  post_ParentPostID :: postid
  post_CreatedAtHeight :: u64
  post_CreatedAtTime :: u64
  post_TotalStaked :: u64
  post_TotalBurned :: u64
  post_StakerCount :: u64
  post_Withdrawn :: bool

record Account =
  acc_Address :: address
  acc_Balance :: u64
  acc_Nonce :: u64
  acc_Name :: bytes
  acc_StakedBalance :: u64
  acc_PostStakeBalance :: u64

text \<open>\<^verbatim>\<open>&types.Account{Address: a}\<close>: every other field is its zero value.\<close>

definition newAccount :: "address \<Rightarrow> Account" where
  "newAccount a = \<lparr>acc_Address = a, acc_Balance = 0, acc_Nonce = 0, acc_Name = [],
     acc_StakedBalance = 0, acc_PostStakeBalance = 0\<rparr>"

lemma newAccount_simps [simp]:
  "acc_Address (newAccount a) = a" "acc_Balance (newAccount a) = 0" "acc_Nonce (newAccount a) = 0"
  "acc_Name (newAccount a) = []" "acc_StakedBalance (newAccount a) = 0"
  "acc_PostStakeBalance (newAccount a) = 0"
  by (simp_all add: newAccount_def)

section \<open>block.go\<close>

record BlockHeader =
  hdr_Height :: u64
  hdr_PrevHash :: bytes
  hdr_ProposerAddr :: address
  hdr_Timestamp :: u64
  hdr_StateRoot :: bytes
  hdr_TxRoot :: bytes

definition BlockHeader_Hash :: "prims \<Rightarrow> BlockHeader \<Rightarrow> bytes" where
  "BlockHeader_Hash P h =
     (let hw = WriteUint64 (hdr_Height h) NewHashWriter;
          hw = WriteBytes (hdr_PrevHash h) hw;
          hw = WriteBytes (hdr_ProposerAddr h) hw;
          hw = WriteInt64 (hdr_Timestamp h) hw;
          hw = WriteBytes (hdr_StateRoot h) hw;
          hw = WriteBytes (hdr_TxRoot h) hw
      in Sum256 P hw)"

record BlockVote =
  vote_Height :: u64
  vote_BlockHash :: bytes
  vote_VoterAddr :: address
  vote_VoterPubKey :: pubkey
  vote_Signature :: bytes

record QuorumCertificate =
  qc_Height :: u64
  qc_BlockHash :: bytes
  qc_Votes :: "BlockVote list"

record SlashEvidence =
  ev_VoteA :: BlockVote
  ev_VoteB :: BlockVote

record Block =
  blk_Header :: BlockHeader
  blk_Transactions :: "Transaction list"
  blk_Evidence :: "SlashEvidence list"
  blk_QC :: "QuorumCertificate option"

definition BlockVote_SignableBytes :: "BlockVote \<Rightarrow> bytes" where
  "BlockVote_SignableBytes v =
     (let hw = WriteUint64 (vote_Height v) NewHashWriter; hw = WriteBytes (vote_BlockHash v) hw
      in hw_buf hw)"

definition SignBlockVote :: "prims \<Rightarrow> BlockVote \<Rightarrow> privkey \<Rightarrow> BlockVote" where
  "SignBlockVote P vote privKey =
     (let vote = vote\<lparr>vote_VoterPubKey := copy_into 32 (drop 32 privKey)\<rparr>
      in vote\<lparr>vote_Signature := Sign P privKey (BlockVote_SignableBytes vote)\<rparr>)"

definition VerifyBlockVote :: "prims \<Rightarrow> BlockVote \<Rightarrow> bool" where
  "VerifyBlockVote P vote =
     (if length (vote_Signature vote) = 0 then False
      else if AddressFromPublicKey P (vote_VoterPubKey vote) \<noteq> vote_VoterAddr vote then False
      else Verify P (vote_VoterPubKey vote) (BlockVote_SignableBytes vote) (vote_Signature vote))"

definition ComputeTxRoot :: "prims \<Rightarrow> Transaction list \<Rightarrow> bytes" where
  "ComputeTxRoot P txs =
     Sum256 P (fold (\<lambda>tx hw. WriteBytes (Transaction_Hash P tx) hw) txs
       (WriteUint64 (of_nat (length txs)) NewHashWriter))"

section \<open>staking.go\<close>

record ValidatorStake =
  val_Address :: address
  val_PubKey :: pubkey
  val_StakedBalance :: u64

record UnbondingEntry =
  unb_Address :: address
  unb_Amount :: u64
  unb_ReleaseHeight :: u64

record PostStake =
  ps_PostID :: postid
  ps_Staker :: address
  ps_Amount :: u64
  ps_Height :: u64

definition SlashEvidence_IsValid :: "prims \<Rightarrow> SlashEvidence \<Rightarrow> bool" where
  "SlashEvidence_IsValid P se =
     (if vote_VoterAddr (ev_VoteA se) \<noteq> vote_VoterAddr (ev_VoteB se) then False
      else if vote_Height (ev_VoteA se) \<noteq> vote_Height (ev_VoteB se) then False
      else if vote_BlockHash (ev_VoteA se) = vote_BlockHash (ev_VoteB se) then False
      else if \<not> VerifyBlockVote P (ev_VoteA se) then False
      else if \<not> VerifyBlockVote P (ev_VoteB se) then False
      else True)"

section \<open>genesis.go (types)\<close>

record GenesisAccount =
  ga_Address :: address
  ga_Balance :: u64

record GenesisValidator =
  gv_Address :: address
  gv_PubKey :: pubkey
  gv_Name :: bytes
  gv_Stake :: u64

record GenesisConfig =
  gc_ChainID :: bytes
  gc_GenesisTime :: u64
  gc_Accounts :: "GenesisAccount list"
  gc_Validators :: "GenesisValidator list"
  gc_MaxPostLength :: int
  gc_MaxPostBytes :: int
  gc_MinPostCommitment :: u64
  gc_MinBoostCommitment :: u64
  gc_MaxTxPerBlock :: int
  gc_MaxBlockBytes :: int
  gc_BlockIntervalSec :: int
  gc_BlockReward :: u64
  gc_MinStake :: u64
  gc_EpochLength :: u64
  gc_UnbondingPeriod :: u64
  gc_SlashFractionDoubleSign :: u64
  gc_SeedNodes :: "bytes list"
  gc_PostFeePercent :: u64
  gc_BoostFeePercent :: u64
  gc_BoostBurnPercent :: u64
  gc_BoostAuthorPercent :: u64
  gc_BoostStakerPercent :: u64

section \<open>safemath.go\<close>

text \<open>\<^verbatim>\<open>bits.Mul64\<close> and \<^verbatim>\<open>bits.Div64\<close>; \<open>None\<close> is Go's panic (division by zero, or a quotient overflow).\<close>

definition bits_Mul64 :: "u64 \<Rightarrow> u64 \<Rightarrow> u64 \<times> u64" where
  "bits_Mul64 a b = (of_nat (unat a * unat b div 2 ^ 64), of_nat (unat a * unat b))"

definition bits_Div64 :: "u64 \<Rightarrow> u64 \<Rightarrow> u64 \<Rightarrow> (u64 \<times> u64) option" where
  "bits_Div64 hi lo y =
     (if y = 0 \<or> y \<le> hi then None
      else (let n = unat hi * 2 ^ 64 + unat lo
            in Some (of_nat (n div unat y), of_nat (n mod unat y))))"

definition MulDiv :: "u64 \<Rightarrow> u64 \<Rightarrow> u64 \<Rightarrow> u64 option" where
  "MulDiv a b c =
     (let (hi, lo) = bits_Mul64 a b
      in if hi = 0 then (if c = 0 then None else Some (lo div c))
         else if hi \<ge> c then Some (- 1)
         else (case bits_Div64 hi lo c of None \<Rightarrow> None | Some (q, _) \<Rightarrow> Some q))"

lemma bits_Mul64_code [code]:
  "bits_Mul64 a b = (of_int (uint a * uint b div 18446744073709551616), of_int (uint a * uint b))"
proof -
  have "uint a * uint b = int (unat a * unat b)" by (simp only: uint_nat of_nat_mult)
  moreover have "int (unat a * unat b) div 18446744073709551616 = int (unat a * unat b div 18446744073709551616)"
    by (simp add: zdiv_int)
  ultimately show ?thesis by (simp only: bits_Mul64_def of_int_of_nat_eq) simp
qed

lemma bits_Div64_code [code]:
  "bits_Div64 hi lo y =
     (if y = 0 \<or> y \<le> hi then None
      else (let n = uint hi * 18446744073709551616 + uint lo
            in Some (of_int (n div uint y), of_int (n mod uint y))))"
proof -
  define n where "n = unat hi * 18446744073709551616 + unat lo"
  have "uint hi * 18446744073709551616 + uint lo = int n" by (simp only: uint_nat n_def of_nat_add of_nat_mult of_nat_numeral)
  moreover have "int n div uint y = int (n div unat y)" "int n mod uint y = int (n mod unat y)"
    by (simp_all only: uint_nat zdiv_int zmod_int)
  moreover have "unat hi * 2 ^ 64 + unat lo = n" by (simp add: n_def)
  ultimately show ?thesis by (simp only: bits_Div64_def Let_def of_int_of_nat_eq)
qed
section \<open>json.go\<close>

record transactionJSON =
  tj_Type :: TxType
  tj_Sender :: bytes
  tj_Recipient :: bytes
  tj_PostID :: bytes
  tj_Text :: bytes
  tj_Channel :: bytes
  tj_Amount :: u64
  tj_Nonce :: u64
  tj_Signature :: bytes
  tj_PubKey :: bytes

datatype json_error =
    FieldHex string hex_error
  | FieldLength string nat nat

text \<open>The value passed to \<^verbatim>\<open>json.Marshal\<close>, and what \<^verbatim>\<open>UnmarshalJSON\<close> does with the value \<^verbatim>\<open>json.Unmarshal\<close> filled.\<close>

definition Transaction_MarshalJSON :: "Transaction \<Rightarrow> transactionJSON" where
  "Transaction_MarshalJSON tx =
     \<lparr>tj_Type = tx_Type tx,
      tj_Sender = EncodeToString (tx_Sender tx),
      tj_Recipient = EncodeToString (tx_Recipient tx),
      tj_PostID = EncodeToString (tx_PostID tx),
      tj_Text = tx_Text tx,
      tj_Channel = tx_Channel tx,
      tj_Amount = tx_Amount tx,
      tj_Nonce = tx_Nonce tx,
      tj_Signature = EncodeToString (tx_Signature tx),
      tj_PubKey = EncodeToString (tx_PubKey tx)\<rparr>"

definition decodeHexInto :: "string \<Rightarrow> bytes \<Rightarrow> bytes \<Rightarrow> (json_error, bytes) result" where
  "decodeHexInto field dst s =
     (if s = [] then Inr dst
      else case DecodeString s of
        Inl err \<Rightarrow> Inl (FieldHex field err)
      | Inr b \<Rightarrow> if length b \<noteq> length dst then Inl (FieldLength field (length dst) (length b))
                 else Inr b)"

definition Transaction_UnmarshalJSON :: "Transaction \<Rightarrow> transactionJSON \<Rightarrow> (json_error, Transaction) result" where
  "Transaction_UnmarshalJSON tx j =
     (let tx = tx\<lparr>tx_Type := tj_Type j, tx_Text := tj_Text j, tx_Channel := tj_Channel j,
                  tx_Amount := tj_Amount j, tx_Nonce := tj_Nonce j\<rparr> in
      bindR (decodeHexInto ''sender'' (tx_Sender tx) (tj_Sender j)) (\<lambda>sender.
      bindR (decodeHexInto ''recipient'' (tx_Recipient tx) (tj_Recipient j)) (\<lambda>recipient.
      bindR (decodeHexInto ''postId'' (tx_PostID tx) (tj_PostID j)) (\<lambda>postID.
      bindR (decodeHexInto ''pubKey'' (tx_PubKey tx) (tj_PubKey j)) (\<lambda>pubKey.
      case DecodeString (tj_Signature j) of
        Inl err \<Rightarrow> Inl (FieldHex ''signature'' err)
      | Inr sig \<Rightarrow> Inr (tx\<lparr>tx_Sender := sender, tx_Recipient := recipient, tx_PostID := postID,
                           tx_PubKey := pubKey, tx_Signature := sig\<rparr>))))))"

record blockHeaderJSON =
  hj_Height :: u64
  hj_PrevHash :: bytes
  hj_ProposerAddr :: bytes
  hj_Timestamp :: u64
  hj_StateRoot :: bytes
  hj_TxRoot :: bytes

definition BlockHeader_MarshalJSON :: "BlockHeader \<Rightarrow> blockHeaderJSON" where
  "BlockHeader_MarshalJSON h =
     \<lparr>hj_Height = hdr_Height h,
      hj_PrevHash = EncodeToString (hdr_PrevHash h),
      hj_ProposerAddr = EncodeToString (hdr_ProposerAddr h),
      hj_Timestamp = hdr_Timestamp h,
      hj_StateRoot = EncodeToString (hdr_StateRoot h),
      hj_TxRoot = EncodeToString (hdr_TxRoot h)\<rparr>"

definition BlockHeader_UnmarshalJSON :: "BlockHeader \<Rightarrow> blockHeaderJSON \<Rightarrow> (json_error, BlockHeader) result" where
  "BlockHeader_UnmarshalJSON h j =
     (let h = h\<lparr>hdr_Height := hj_Height j, hdr_Timestamp := hj_Timestamp j\<rparr> in
      bindR (decodeHexInto ''prevHash'' (hdr_PrevHash h) (hj_PrevHash j)) (\<lambda>prevHash.
      bindR (decodeHexInto ''proposerAddr'' (hdr_ProposerAddr h) (hj_ProposerAddr j)) (\<lambda>proposerAddr.
      bindR (decodeHexInto ''stateRoot'' (hdr_StateRoot h) (hj_StateRoot j)) (\<lambda>stateRoot.
      bindR (decodeHexInto ''txRoot'' (hdr_TxRoot h) (hj_TxRoot j)) (\<lambda>txRoot.
      Inr (h\<lparr>hdr_PrevHash := prevHash, hdr_ProposerAddr := proposerAddr, hdr_StateRoot := stateRoot,
             hdr_TxRoot := txRoot\<rparr>))))))"

section \<open>Array sizes\<close>

text \<open>What the array types of the Go structs guarantee, and that no string reaches 2^64 bytes.\<close>

definition wf_tx :: "Transaction \<Rightarrow> bool" where
  "wf_tx tx \<longleftrightarrow> length (tx_Sender tx) = 24 \<and> length (tx_Recipient tx) = 24
     \<and> length (tx_PostID tx) = 32 \<and> length (tx_PubKey tx) = 32
     \<and> length (tx_Text tx) < 2 ^ 64 \<and> length (tx_Channel tx) < 2 ^ 64"

definition zeroTransaction :: Transaction where
  "zeroTransaction = \<lparr>tx_Type = 0, tx_Sender = zeroAddress, tx_Recipient = zeroAddress,
     tx_PostID = zeroPostID, tx_Text = [], tx_Channel = [], tx_Amount = 0, tx_Nonce = 0,
     tx_Signature = [], tx_PubKey = replicate 32 0\<rparr>"

definition wf_header :: "BlockHeader \<Rightarrow> bool" where
  "wf_header h \<longleftrightarrow> length (hdr_PrevHash h) = 32 \<and> length (hdr_ProposerAddr h) = 24
     \<and> length (hdr_StateRoot h) = 32 \<and> length (hdr_TxRoot h) = 32"

definition zeroHeader :: BlockHeader where
  "zeroHeader = \<lparr>hdr_Height = 0, hdr_PrevHash = replicate 32 0, hdr_ProposerAddr = zeroAddress,
     hdr_Timestamp = 0, hdr_StateRoot = replicate 32 0, hdr_TxRoot = replicate 32 0\<rparr>"

section \<open>Facts\<close>

lemma SignableBytes_eq:
  "SignableBytes tx = be_bytes 4 (unat (ucast (tx_Type tx) :: u32)) @ len_prefixed (tx_Sender tx)
     @ len_prefixed (tx_Recipient tx) @ len_prefixed (tx_PostID tx) @ len_prefixed (tx_Text tx)
     @ len_prefixed (tx_Channel tx) @ be_bytes 8 (unat (tx_Amount tx))
     @ be_bytes 8 (unat (tx_Nonce tx)) @ len_prefixed (tx_PubKey tx)"
  by (simp add: SignableBytes_def Let_def)

lemma type_bytes_inj:
  "be_bytes 4 (unat (ucast (s :: TxType) :: u32)) = be_bytes 4 (unat (ucast t :: u32)) \<Longrightarrow> s = t"
proof -
  assume eq: "be_bytes 4 (unat (ucast s :: u32)) = be_bytes 4 (unat (ucast t :: u32))"
  have less: "unat (x :: u32) < 256 ^ 4" for x
    using unsigned_less [of x, where ?'a = nat] by simp
  from be_bytes_inj [OF eq less less] have "unat (ucast s :: u32) = unat (ucast t :: u32)" .
  moreover have "take_bit 32 (unat x) = unat x" for x :: TxType
    using unsigned_less [of x, where ?'a = nat] by (simp add: take_bit_nat_eq_self)
  ultimately have "unat s = unat t" by (simp add: unsigned_ucast_eq)
  then show "s = t" by (rule unsigned_word_eqI)
qed

lemma MulDiv_Some:
  assumes "c \<noteq> 0"
  shows "\<exists>q. MulDiv a b c = Some q \<and> unat q = min (unat a * unat b div unat c) (2 ^ 64 - 1)"
proof -
  define n where "n = unat a * unat b"
  obtain hi lo where hl: "bits_Mul64 a b = (hi, lo)" by fastforce
  have "n < 2 ^ 64 * 2 ^ 64"
    unfolding n_def using unsigned_less [of a, where ?'a = nat] unsigned_less [of b, where ?'a = nat]
    by (intro mult_strict_mono') auto
  then have "n div 2 ^ 64 < 2 ^ 64" by (simp add: less_mult_imp_div_less)
  then have hi: "unat hi = n div 2 ^ 64"
    using hl by (auto simp: bits_Mul64_def unat_of_nat n_def)
  have lo: "unat lo = n mod 2 ^ 64" using hl by (auto simp: bits_Mul64_def unat_word_ariths n_def)
  have c: "0 < unat c" using assms by (simp add: unat_gt_0)
  have n: "n = unat hi * 2 ^ 64 + unat lo" by (simp add: hi lo)
  consider "hi = 0" | "hi \<noteq> 0" "c \<le> hi" | "hi \<noteq> 0" "hi < c" by fastforce
  then show ?thesis
  proof cases
    case 1
    then have "n = unat lo" by (simp add: n)
    moreover have "n div unat c \<le> 2 ^ 64 - 1"
    proof -
      have "n div unat c \<le> unat lo" using \<open>n = unat lo\<close> by simp
      also have "\<dots> \<le> 2 ^ 64 - 1" by (simp add: unat_u64_le)
      finally show ?thesis .
    qed
    ultimately show ?thesis
      using 1 hl assms by (simp add: MulDiv_def unat_div flip: n_def)
  next
    case 2
    have "2 ^ 64 * unat c \<le> unat hi * 2 ^ 64"
      using 2 by (simp add: word_le_nat_alt)
    also have "\<dots> \<le> n" by (simp add: n)
    finally have "2 ^ 64 \<le> n div unat c" using c by (simp add: less_eq_div_iff_mult_less_eq)
    then show ?thesis using 2 hl assms
      by (simp add: MulDiv_def unsigned_minus_1_eq_mask mask_eq_exp_minus_1 flip: n_def)
  next
    case 3
    have "n < unat c * 2 ^ 64"
    proof -
      have "unat hi + 1 \<le> unat c" using 3 by (simp add: word_less_nat_alt)
      then have "(unat hi + 1) * 2 ^ 64 \<le> unat c * 2 ^ 64" by (rule mult_right_mono) simp
      then show ?thesis using unat_u64_less [of lo] n by simp
    qed
    then have q: "n div unat c < 2 ^ 64" by (simp add: less_mult_imp_div_less mult.commute)
    have "MulDiv a b c = Some (of_nat (n div unat c))"
      using 3 hl assms n by (auto simp: MulDiv_def bits_Div64_def Let_def)
    then show ?thesis using q by (simp add: unat_of_nat flip: n_def)
  qed
qed

lemma EncodeToString_Nil_iff [simp]: "EncodeToString b = [] \<longleftrightarrow> b = []"
  by (cases b) auto

lemma decodeHexInto_Encode [simp]:
  "length dst = length b \<Longrightarrow> decodeHexInto fld dst (EncodeToString b) = Inr b"
  by (auto simp: decodeHexInto_def)

end
