(* ===== verification/JsNumber.thy ===== *)
theory JsNumber
  imports Prelude "HOL-Library.Log_Nat"
begin

text \<open>
  The JavaScript \<^verbatim>\<open>number\<close> type as the wallet application uses it: IEEE 754 double precision values,
  with every arithmetic result rounded to the nearest double (ties to even).  A finite double is the
  rational number it denotes; the two zeros are identified, because nothing in the application divides
  by zero or inspects the sign of zero.
\<close>

section \<open>Rounding to double precision\<close>

datatype jsnum = Num rat | NaN | PosInf | NegInf

definition pow2 :: "int \<Rightarrow> rat" where
  "pow2 e = 2 powi e"

text \<open>\<open>ilog2 x\<close> is the exponent of a positive \<open>x\<close>: the integer part of its binary logarithm.\<close>

definition ilog2 :: "rat \<Rightarrow> int" where
  "ilog2 x = (case quotient_of x of (p, q) \<Rightarrow>
     (let k = bitlen p - bitlen q in if pow2 k \<le> x then k else k - 1))"

definition round_half_even :: "rat \<Rightarrow> int" where
  "round_half_even x =
     (let f = \<lfloor>x\<rfloor>; d = x - of_int f
      in if d < 1 / 2 then f else if 1 / 2 < d then f + 1 else if even f then f else f + 1)"

text \<open>53 bits of significand; below \<open>2 ^ (-1022)\<close> the spacing stays \<open>2 ^ (-1074)\<close>.\<close>

definition ulp_exp :: "rat \<Rightarrow> int" where
  "ulp_exp x = max (ilog2 \<bar>x\<bar> - 52) (- 1074)"

definition fl :: "rat \<Rightarrow> rat" where
  "fl x = (if x = 0 then 0 else of_int (round_half_even (x / pow2 (ulp_exp x))) * pow2 (ulp_exp x))"

definition js_of_rat :: "rat \<Rightarrow> jsnum" where
  "js_of_rat x =
     (let r = fl x in if pow2 1024 \<le> r then PosInf else if r \<le> - pow2 1024 then NegInf else Num r)"

section \<open>Operators\<close>

fun js_neg :: "jsnum \<Rightarrow> jsnum" where
  "js_neg (Num a) = Num (- a)"
| "js_neg NaN = NaN"
| "js_neg PosInf = NegInf"
| "js_neg NegInf = PosInf"

fun js_add :: "jsnum \<Rightarrow> jsnum \<Rightarrow> jsnum" where
  "js_add (Num a) (Num b) = js_of_rat (a + b)"
| "js_add NaN _ = NaN"
| "js_add _ NaN = NaN"
| "js_add PosInf NegInf = NaN"
| "js_add NegInf PosInf = NaN"
| "js_add PosInf _ = PosInf"
| "js_add _ PosInf = PosInf"
| "js_add NegInf _ = NegInf"
| "js_add _ NegInf = NegInf"

definition js_sub :: "jsnum \<Rightarrow> jsnum \<Rightarrow> jsnum" where
  "js_sub x y = js_add x (js_neg y)"

definition js_sign :: "jsnum \<Rightarrow> rat" where
  "js_sign x = (case x of Num a \<Rightarrow> sgn a | NaN \<Rightarrow> 0 | PosInf \<Rightarrow> 1 | NegInf \<Rightarrow> - 1)"

definition js_inf :: "rat \<Rightarrow> jsnum" where
  "js_inf s = (if 0 < s then PosInf else if s < 0 then NegInf else NaN)"

fun js_mul :: "jsnum \<Rightarrow> jsnum \<Rightarrow> jsnum" where
  "js_mul (Num a) (Num b) = js_of_rat (a * b)"
| "js_mul x y = (if x = NaN \<or> y = NaN then NaN else js_inf (js_sign x * js_sign y))"

text \<open>Division by a non-zero finite constant, the only division in the application.\<close>

definition js_div_const :: "jsnum \<Rightarrow> rat \<Rightarrow> jsnum" where
  "js_div_const x c =
     (case x of Num a \<Rightarrow> js_of_rat (a / c) | NaN \<Rightarrow> NaN | _ \<Rightarrow> js_inf (js_sign x * sgn c))"

definition js_floor :: "jsnum \<Rightarrow> jsnum" where
  "js_floor x = (case x of Num a \<Rightarrow> Num (of_int \<lfloor>a\<rfloor>) | _ \<Rightarrow> x)"

definition js_isNaN :: "jsnum \<Rightarrow> bool" where
  "js_isNaN x \<longleftrightarrow> x = NaN"

fun js_less :: "jsnum \<Rightarrow> jsnum \<Rightarrow> bool" where
  "js_less (Num a) (Num b) = (a < b)"
| "js_less NaN _ = False"
| "js_less _ NaN = False"
| "js_less NegInf NegInf = False"
| "js_less NegInf _ = True"
| "js_less PosInf _ = False"
| "js_less _ PosInf = True"
| "js_less _ _ = False"

definition js_le :: "jsnum \<Rightarrow> jsnum \<Rightarrow> bool" where
  "js_le x y \<longleftrightarrow> js_less x y \<or> (x = y \<and> x \<noteq> NaN)"

definition js_max :: "jsnum \<Rightarrow> jsnum \<Rightarrow> jsnum" where
  "js_max x y = (if x = NaN \<or> y = NaN then NaN else if js_less x y then y else x)"

definition MAX_SAFE_INTEGER :: int where
  "MAX_SAFE_INTEGER = 2 ^ 53 - 1"

definition rat_is_int :: "rat \<Rightarrow> bool" where
  "rat_is_int r \<longleftrightarrow> of_int \<lfloor>r\<rfloor> = r"

definition isSafeInteger :: "jsnum \<Rightarrow> bool" where
  "isSafeInteger x =
     (case x of Num r \<Rightarrow> rat_is_int r \<and> \<bar>r\<bar> \<le> of_int MAX_SAFE_INTEGER | _ \<Rightarrow> False)"

text \<open>Truthiness of a number (\<^verbatim>\<open>!!x\<close>) and the value of \<^verbatim>\<open>x || 0\<close>.\<close>

definition js_truthy :: "jsnum \<Rightarrow> bool" where
  "js_truthy x \<longleftrightarrow> x \<noteq> Num 0 \<and> x \<noteq> NaN"

definition js_or_zero :: "jsnum \<Rightarrow> jsnum" where
  "js_or_zero x = (if js_truthy x then x else Num 0)"

text \<open>\<^verbatim>\<open>BigInt(x)\<close>: \<open>None\<close> is the \<^verbatim>\<open>RangeError\<close> for a value that is not an integer.\<close>

definition js_BigInt :: "jsnum \<Rightarrow> int option" where
  "js_BigInt x = (case x of Num r \<Rightarrow> if rat_is_int r then Some \<lfloor>r\<rfloor> else None | _ \<Rightarrow> None)"

text \<open>\<^verbatim>\<open>ToUint32\<close>: truncate towards zero, then modulo \<open>2 ^ 32\<close>; zero for NaN and the infinities.\<close>

definition js_ToUint32 :: "jsnum \<Rightarrow> nat" where
  "js_ToUint32 x =
     (case x of Num r \<Rightarrow> nat ((if 0 \<le> r then \<lfloor>r\<rfloor> else \<lceil>r\<rceil>) mod 2 ^ 32) | _ \<Rightarrow> 0)"

section \<open>Integers up to 2^53 are exact\<close>

lemma pow2_pos [simp]: "0 < pow2 e"
  by (simp add: pow2_def)

lemma pow2_nat [simp]: "pow2 (int n) = 2 ^ n"
  by (simp add: pow2_def)

lemma pow2_numeral [simp]:
  "pow2 (numeral n) = 2 ^ numeral n" "pow2 (- numeral n) = 1 / 2 ^ numeral n" "pow2 0 = 1" "pow2 1 = 2"
  "pow2 (- 1) = 1 / 2"
  by (simp_all add: pow2_def power_int_minus field_simps)

lemma pow2_add: "pow2 (a + b) = pow2 a * pow2 b"
  by (simp add: pow2_def power_int_add)

lemma pow2_mono: "a \<le> b \<Longrightarrow> pow2 a \<le> pow2 b"
  by (simp add: pow2_def power_int_increasing)

lemma pow2_less_iff: "pow2 a < pow2 b \<longleftrightarrow> a < b"
  using pow2_mono [of b a] by (cases "a < b") (auto simp: pow2_def power_int_strict_increasing not_less)

lemma round_half_even_int [simp]: "round_half_even (of_int n) = n"
  by (simp add: round_half_even_def)

lemma round_half_even_near:
  assumes "\<bar>x - of_int n\<bar> < 1 / 2"
  shows "round_half_even x = n"
proof -
  consider "of_int n \<le> x" | "x < of_int n" by linarith
  then show ?thesis
  proof cases
    case 1
    then have "\<lfloor>x\<rfloor> = n" using assms by (intro floor_unique) linarith+
    moreover have "x - of_int n < 1 / 2" using assms by linarith
    ultimately show ?thesis by (simp add: round_half_even_def)
  next
    case 2
    then have "\<lfloor>x\<rfloor> = n - 1" using assms by (intro floor_unique) auto
    moreover have "1 / 2 < x - of_int (n - 1)" using assms 2 by auto
    ultimately show ?thesis by (auto simp: round_half_even_def Let_def)
  qed
qed

lemma bitlen_pow2_bounds:
  assumes "0 < n"
  shows "pow2 (bitlen n - 1) \<le> of_int n \<and> of_int n < pow2 (bitlen n)"
proof -
  have b: "0 \<le> bitlen n - 1" using assms by (auto simp: bitlen_alt_def)
  have "2 ^ nat (bitlen n - 1) \<le> n" "n < 2 ^ nat (bitlen n)"
    using bitlen_bounds [OF assms] by auto
  then have "(of_int (2 ^ nat (bitlen n - 1)) :: rat) \<le> of_int n"
    "(of_int n :: rat) < of_int (2 ^ nat (bitlen n))" by (simp_all only: of_int_le_iff of_int_less_iff)
  with b show ?thesis by (simp add: pow2_def power_int_def)
qed

text \<open>\<open>ilog2\<close> brackets its argument between consecutive powers of two.\<close>

lemma ilog2_bounds:
  assumes "0 < x"
  shows "pow2 (ilog2 x) \<le> x \<and> x < pow2 (ilog2 x + 1)"
proof -
  obtain p q where pq: "quotient_of x = (p, q)" by fastforce
  have q: "0 < q" using quotient_of_denom_pos [OF pq] .
  have x: "x = of_int p / of_int q" using quotient_of_div [OF pq] .
  have p: "0 < p" using assms q by (simp add: x zero_less_divide_iff)
  define k where "k = bitlen p - bitlen q"
  have "of_int p < pow2 (bitlen p)" "pow2 (bitlen q - 1) \<le> of_int q" "pow2 (bitlen p - 1) \<le> of_int p"
    "of_int q < pow2 (bitlen q)"
    using bitlen_pow2_bounds [OF p] bitlen_pow2_bounds [OF q] by auto
  then have "x < pow2 (bitlen p) / pow2 (bitlen q - 1)" "pow2 (bitlen p - 1) / pow2 (bitlen q) < x"
    unfolding x using p q by (auto intro: frac_less frac_less2)
  moreover have "pow2 (bitlen p) / pow2 (bitlen q - 1) = pow2 (k + 1)"
    "pow2 (bitlen p - 1) / pow2 (bitlen q) = pow2 (k - 1)"
    by (simp_all add: pow2_def k_def power_int_diff power_int_add)
  ultimately show ?thesis
    by (auto simp: ilog2_def pq Let_def simp flip: k_def)
qed

lemma ilog2_eq:
  assumes "0 < x" "pow2 k \<le> x" "x < pow2 (k + 1)"
  shows "ilog2 x = k"
proof -
  have "pow2 (ilog2 x) < pow2 (k + 1)" "pow2 k < pow2 (ilog2 x + 1)"
    using ilog2_bounds [OF assms(1)] assms(2,3) by linarith+
  then show ?thesis by (simp add: pow2_less_iff)
qed

lemma ilog2_int:
  assumes "0 < n"
  shows "ilog2 (of_int n) = bitlen n - 1"
  using bitlen_pow2_bounds [OF assms] assms by (intro ilog2_eq) auto

lemma fl_scaled:
  assumes "x = of_int m * pow2 (ulp_exp x)"
  shows "fl x = x"
proof (cases "x = 0")
  case True
  then show ?thesis by (simp add: fl_def)
next
  case False
  have "x / pow2 (ulp_exp x) = of_int m"
    by (subst assms) (simp add: less_imp_neq [OF pow2_pos, symmetric])
  with False assms show ?thesis by (simp add: fl_def)
qed

text \<open>Evaluation of a rounding from its exponent \<open>k\<close> and its significand \<open>m\<close>.\<close>

lemma fl_eval:
  assumes "0 < x" "pow2 k \<le> x" "x < pow2 (k + 1)" "- 1022 \<le> k"
    and "\<bar>x / pow2 (k - 52) - of_int m\<bar> < 1 / 2"
  shows "fl x = of_int m * pow2 (k - 52)"
proof -
  have "ulp_exp x = k - 52" using ilog2_eq [OF assms(1-3)] assms(1,4) by (simp add: ulp_exp_def)
  with round_half_even_near [OF assms(5)] assms(1) show ?thesis by (simp add: fl_def)
qed

lemma ulp_exp_int:
  assumes "n \<noteq> 0" "\<bar>n\<bar> < 2 ^ 53"
  shows "ulp_exp (of_int n) \<le> 0"
proof -
  have "bitlen \<bar>n\<bar> \<le> 53"
    using assms bitlen_le_iff_power [of "\<bar>n\<bar>" 53] by simp
  moreover have "ilog2 (of_int \<bar>n\<bar>) = bitlen \<bar>n\<bar> - 1"
    using assms by (intro ilog2_int) simp
  ultimately show ?thesis by (simp add: ulp_exp_def)
qed

lemma fl_int:
  assumes "\<bar>n\<bar> < 2 ^ 53"
  shows "fl (of_int n) = of_int n"
proof (cases "n = 0")
  case True
  then show ?thesis by (simp add: fl_def)
next
  case False
  define e where "e = ulp_exp (of_int n)"
  have "e \<le> 0" using False assms by (simp add: e_def ulp_exp_int)
  then have "of_int n = of_int (n * 2 ^ nat (- e)) * pow2 e"
    by (simp add: pow2_def power_int_def field_simps)
  then show ?thesis unfolding e_def by (rule fl_scaled)
qed

lemma js_of_int_safe:
  assumes "\<bar>n\<bar> \<le> MAX_SAFE_INTEGER"
  shows "js_of_rat (of_int n) = Num (of_int n)"
proof -
  have n: "\<bar>n\<bar> < 2 ^ 53" using assms by (simp add: MAX_SAFE_INTEGER_def)
  have big: "(of_int (2 ^ 53) :: rat) \<le> pow2 1024"
    by simp
  have "of_int n < (of_int (2 ^ 53) :: rat)" "- (of_int (2 ^ 53) :: rat) < of_int n"
    using n by (simp_all only: of_int_less_iff flip: of_int_minus)
  then have "of_int n < pow2 1024" "- pow2 1024 < (of_int n :: rat)" using big by linarith+
  with fl_int [OF n] show ?thesis by (simp add: js_of_rat_def Let_def)
qed

lemma rat_is_int_of_int [simp]: "rat_is_int (of_int n)"
  by (simp add: rat_is_int_def)

lemma rat_is_int_iff: "rat_is_int r \<longleftrightarrow> (\<exists>n. r = of_int n)"
  by (auto simp: rat_is_int_def)

lemma js_BigInt_int [simp]: "js_BigInt (Num (of_int n)) = Some n"
  by (simp add: js_BigInt_def)

end
