(* ===== verification/JsString.thy ===== *)
theory JsString
  imports JsNumber
begin

text \<open>
  JavaScript strings as the wallet application uses them: sequences of UTF-16 code units, the string
  methods the application calls, \<^verbatim>\<open>TextEncoder\<close> (UTF-8), and the conversions between strings and
  numbers (\<^verbatim>\<open>parseInt\<close> of a hexadecimal pair, \<^verbatim>\<open>parseFloat\<close>, \<^verbatim>\<open>Number\<close>, \<^verbatim>\<open>String\<close>, \<^verbatim>\<open>toFixed\<close>).
\<close>

type_synonym jsstring = "u16 list"

definition js :: "string \<Rightarrow> jsstring" where
  "js s = map (\<lambda>c. of_nat (of_char c)) s"

section \<open>String methods\<close>

definition js_startsWith :: "jsstring \<Rightarrow> jsstring \<Rightarrow> bool" where
  "js_startsWith s p \<longleftrightarrow> take (length p) s = p"

definition js_endsWith :: "jsstring \<Rightarrow> jsstring \<Rightarrow> bool" where
  "js_endsWith s p \<longleftrightarrow> length p \<le> length s \<and> drop (length s - length p) s = p"

fun js_includes :: "jsstring \<Rightarrow> jsstring \<Rightarrow> bool" where
  "js_includes [] p = (p = [])"
| "js_includes (c # s) p = (js_startsWith (c # s) p \<or> js_includes s p)"

text \<open>\<^verbatim>\<open>s.slice(a, b)\<close> and \<^verbatim>\<open>s.slice(a)\<close> for non-negative bounds, and \<^verbatim>\<open>s.slice(-n)\<close>.\<close>

definition js_slice :: "jsstring \<Rightarrow> nat \<Rightarrow> nat \<Rightarrow> jsstring" where
  "js_slice s a b = take (b - a) (drop a s)"

definition js_slice_from :: "jsstring \<Rightarrow> nat \<Rightarrow> jsstring" where
  "js_slice_from s a = drop a s"

definition js_slice_last :: "jsstring \<Rightarrow> nat \<Rightarrow> jsstring" where
  "js_slice_last s n = drop (length s - n) s"

definition js_whitespace :: "u16 \<Rightarrow> bool" where
  "js_whitespace c \<longleftrightarrow> (let n = unat c in
     (9 \<le> n \<and> n \<le> 13) \<or> n = 32 \<or> n = 160 \<or> n = 5760 \<or> (8192 \<le> n \<and> n \<le> 8202)
     \<or> n = 8232 \<or> n = 8233 \<or> n = 8239 \<or> n = 8287 \<or> n = 12288 \<or> n = 65279)"

definition js_trim :: "jsstring \<Rightarrow> jsstring" where
  "js_trim s = rev (dropWhile js_whitespace (rev (dropWhile js_whitespace s)))"

text \<open>\<^verbatim>\<open>s.split(c)\<close> for a one-unit separator: never an empty array.\<close>

fun js_split :: "u16 \<Rightarrow> jsstring \<Rightarrow> jsstring list" where
  "js_split sep [] = [[]]"
| "js_split sep (c # s) =
     (if c = sep then [] # js_split sep s
      else (case js_split sep s of [] \<Rightarrow> [[c]] | p # ps \<Rightarrow> (c # p) # ps))"

text \<open>
  \<^verbatim>\<open>s.toLowerCase().replace(/[^a-z0-9_]/g, '')\<close>.  Case conversion outside ASCII depends on the
  Unicode tables, so \<open>lower\<close> is a parameter; whatever it returns, only the allowed characters remain.
\<close>

definition name_char :: "u16 \<Rightarrow> bool" where
  "name_char c \<longleftrightarrow> (let n = unat c in (97 \<le> n \<and> n \<le> 122) \<or> (48 \<le> n \<and> n \<le> 57) \<or> n = 95)"

definition js_sanitize :: "(jsstring \<Rightarrow> jsstring) \<Rightarrow> jsstring \<Rightarrow> jsstring" where
  "js_sanitize lower s = filter name_char (lower s)"

section \<open>TextEncoder\<close>

definition is_high :: "u16 \<Rightarrow> bool" where
  "is_high c \<longleftrightarrow> 0xD800 \<le> unat c \<and> unat c \<le> 0xDBFF"

definition is_low :: "u16 \<Rightarrow> bool" where
  "is_low c \<longleftrightarrow> 0xDC00 \<le> unat c \<and> unat c \<le> 0xDFFF"

text \<open>The scalar values of a string; a lone surrogate becomes U+FFFD.\<close>

fun scalar_values :: "jsstring \<Rightarrow> nat list" where
  "scalar_values [] = []"
| "scalar_values [c] = [if is_high c \<or> is_low c then 0xFFFD else unat c]"
| "scalar_values (c # d # s) =
     (if is_high c then
        (if is_low d then (0x10000 + (unat c - 0xD800) * 0x400 + (unat d - 0xDC00)) # scalar_values s
         else 0xFFFD # scalar_values (d # s))
      else if is_low c then 0xFFFD # scalar_values (d # s)
      else unat c # scalar_values (d # s))"

definition utf8_bytes :: "nat \<Rightarrow> bytes" where
  "utf8_bytes c =
     (if c < 0x80 then [of_nat c]
      else if c < 0x800 then [of_nat (0xC0 + c div 0x40), of_nat (0x80 + c mod 0x40)]
      else if c < 0x10000 then
        [of_nat (0xE0 + c div 0x1000), of_nat (0x80 + c div 0x40 mod 0x40), of_nat (0x80 + c mod 0x40)]
      else [of_nat (0xF0 + c div 0x40000), of_nat (0x80 + c div 0x1000 mod 0x40),
            of_nat (0x80 + c div 0x40 mod 0x40), of_nat (0x80 + c mod 0x40)])"

definition TextEncoder_encode :: "jsstring \<Rightarrow> bytes" where
  "TextEncoder_encode s = concat (map utf8_bytes (scalar_values s))"

section \<open>Numbers in strings\<close>

definition is_digit :: "u16 \<Rightarrow> bool" where
  "is_digit c \<longleftrightarrow> 48 \<le> unat c \<and> unat c \<le> 57"

definition digit_val :: "u16 \<Rightarrow> nat" where
  "digit_val c = unat c - 48"

definition dec_val :: "jsstring \<Rightarrow> nat" where
  "dec_val s = foldl (\<lambda>n c. 10 * n + digit_val c) 0 s"

fun dec_digits :: "nat \<Rightarrow> jsstring" where
  "dec_digits n = (if n < 10 then [of_nat (48 + n)] else dec_digits (n div 10) @ [of_nat (48 + n mod 10)])"

declare dec_digits.simps [simp del]

text \<open>\<^verbatim>\<open>parseFloat\<close>: optional white space and sign, the longest decimal literal, the rest ignored.\<close>

definition js_exponent :: "jsstring \<Rightarrow> int" where
  "js_exponent s =
     (case s of
        c # t \<Rightarrow>
          if unat c = 101 \<or> unat c = 69 then
            (case t of
               d # u \<Rightarrow>
                 if unat d = 45 then - int (dec_val (takeWhile is_digit u))
                 else if unat d = 43 then int (dec_val (takeWhile is_digit u))
                 else int (dec_val (takeWhile is_digit t))
             | [] \<Rightarrow> 0)
          else 0
      | [] \<Rightarrow> 0)"

definition js_unsigned_literal :: "jsstring \<Rightarrow> rat option" where
  "js_unsigned_literal s =
     (let ip = takeWhile is_digit s; r = dropWhile is_digit s;
          fp = (case r of c # t \<Rightarrow> if unat c = 46 then takeWhile is_digit t else [] | [] \<Rightarrow> []);
          r2 = (case r of c # t \<Rightarrow> if unat c = 46 then dropWhile is_digit t else r | [] \<Rightarrow> [])
      in if ip = [] \<and> fp = [] then None
         else Some ((of_nat (dec_val ip) + of_nat (dec_val fp) / 10 ^ length fp) * 10 powi js_exponent r2))"

definition parseFloat :: "jsstring \<Rightarrow> jsnum" where
  "parseFloat s =
     (let t = dropWhile js_whitespace s;
          neg = (case t of c # _ \<Rightarrow> unat c = 45 | [] \<Rightarrow> False);
          u = (case t of c # v \<Rightarrow> if unat c = 45 \<or> unat c = 43 then v else t | [] \<Rightarrow> [])
      in if js_startsWith u (js ''Infinity'') then (if neg then NegInf else PosInf)
         else case js_unsigned_literal u of
           None \<Rightarrow> NaN
         | Some x \<Rightarrow> js_of_rat (if neg then - x else x))"

text \<open>\<^verbatim>\<open>Number(s)\<close> for a string of decimal digits.\<close>

definition js_Number_digits :: "jsstring \<Rightarrow> jsnum" where
  "js_Number_digits s = js_of_rat (of_nat (dec_val s))"

text \<open>
  \<^verbatim>\<open>String(x)\<close> prints the fewest decimal digits that read back as \<open>x\<close>.  For an integral double below
  \<open>10 ^ 21\<close> these are the digits of the first of the candidates \<open>s * 10 ^ (d - k)\<close>, \<open>k = 1, 2, \<dots>\<close>, that
  rounds to it.  \<open>fmt\<close> stands for the remaining cases (fractions and exponents), which no call reaches.
\<close>

definition short_candidate :: "nat \<Rightarrow> nat \<Rightarrow> nat \<Rightarrow> nat" where
  "short_candidate n d k = nat (round_half_even (of_nat n / 10 ^ (d - k))) * 10 ^ (d - k)"

definition short_nat :: "nat \<Rightarrow> nat" where
  "short_nat n =
     (let d = length (dec_digits n)
      in case find (\<lambda>k. fl (of_nat (short_candidate n d k)) = of_nat n) [1..<Suc d] of
           Some k \<Rightarrow> short_candidate n d k
         | None \<Rightarrow> n)"

definition js_String :: "(rat \<Rightarrow> jsstring) \<Rightarrow> jsnum \<Rightarrow> jsstring" where
  "js_String fmt x =
     (case x of
        NaN \<Rightarrow> js ''NaN''
      | PosInf \<Rightarrow> js ''Infinity''
      | NegInf \<Rightarrow> js ''-Infinity''
      | Num r \<Rightarrow>
          if rat_is_int r \<and> \<bar>r\<bar> < 10 ^ 21 then
            (if r < 0 then js ''-'' else []) @ dec_digits (short_nat (nat \<bar>\<lfloor>r\<rfloor>\<bar>))
          else fmt r)"

text \<open>\<^verbatim>\<open>x.toFixed(f)\<close>: the nearest multiple of \<open>10 ^ (-f)\<close> (the larger one on a tie), below \<open>10 ^ 21\<close>.\<close>

definition fixed_digits :: "nat \<Rightarrow> nat \<Rightarrow> jsstring" where
  "fixed_digits f n =
     (let m = dec_digits n; m = replicate (Suc f - length m) (48 :: u16) @ m;
          k = length m - f
      in if f = 0 then m else take k m @ js ''.'' @ drop k m)"

definition js_toFixed :: "(rat \<Rightarrow> jsstring) \<Rightarrow> nat \<Rightarrow> jsnum \<Rightarrow> jsstring" where
  "js_toFixed fmt f x =
     (case x of
        Num r \<Rightarrow>
          if \<bar>r\<bar> < 10 ^ 21 then
            (if r < 0 then js ''-'' else []) @ fixed_digits f (nat \<lfloor>\<bar>r\<bar> * 10 ^ f + 1 / 2\<rfloor>)
          else js_String fmt x
      | _ \<Rightarrow> js_String fmt x)"

section \<open>Facts: UTF-8\<close>

definition scalar :: "nat \<Rightarrow> bool" where
  "scalar c \<longleftrightarrow> c < 0x110000 \<and> \<not> (0xD800 \<le> c \<and> c \<le> 0xDFFF)"

lemma scalar_values_scalar: "c \<in> set (scalar_values s) \<Longrightarrow> scalar c"
proof (induction s rule: scalar_values.induct)
  case (2 c)
  have "unat c < 65536" using unsigned_less [of c, where ?'a = nat] by simp
  with 2 show ?case by (auto simp: scalar_def is_high_def is_low_def split: if_splits)
next
  case (3 c d s)
  have u: "unat c < 65536" using unsigned_less [of c, where ?'a = nat] by simp
  show ?case
  proof (cases "is_high c \<and> is_low d")
    case True
    then show ?thesis using 3 by (auto simp: scalar_def is_high_def is_low_def)
  next
    case False
    with 3 u show ?thesis by (auto simp: scalar_def is_high_def is_low_def split: if_splits)
  qed
qed simp

lemma length_scalar_values: "length (scalar_values s) \<le> length s"
  by (induction s rule: scalar_values.induct) auto

lemma length_TextEncoder_encode: "length (TextEncoder_encode s) \<le> 3 * length s"
proof (induction s rule: scalar_values.induct)
  case 1
  then show ?case by (simp add: TextEncoder_encode_def)
next
  case (2 c)
  have "unat c < 65536" using unsigned_less [of c, where ?'a = nat] by simp
  then show ?case by (auto simp: TextEncoder_encode_def utf8_bytes_def)
next
  case (3 c d s)
  have u: "unat c < 65536" using unsigned_less [of c, where ?'a = nat] by simp
  show ?case
  proof (cases "is_high c \<and> is_low d")
    case True
    have "length (utf8_bytes x) \<le> 4" for x by (simp add: utf8_bytes_def)
    from this [of "0x10000 + (unat c - 0xD800) * 0x400 + (unat d - 0xDC00)"]
    show ?thesis using 3(1) True by (simp add: TextEncoder_encode_def)
  next
    case False
    define x where "x = (if is_high c \<or> is_low c then 0xFFFD else unat c)"
    have "x < 65536" using u by (simp add: x_def)
    then have three: "length (utf8_bytes x) \<le> 3" by (simp add: utf8_bytes_def)
    have "scalar_values (c # d # s) = x # scalar_values (d # s)"
      using False by (auto simp: x_def)
    then have "length (TextEncoder_encode (c # d # s))
        = length (utf8_bytes x) + length (TextEncoder_encode (d # s))"
      by (simp only: TextEncoder_encode_def list.map concat.simps length_append)
    moreover have "length (TextEncoder_encode (d # s)) \<le> 3 * length (d # s)"
      using 3 False by (cases "is_high c"; cases "is_low c") auto
    ultimately show ?thesis using three by simp
  qed
qed

lemma js_sanitize_chars: "c \<in> set (js_sanitize lower s) \<Longrightarrow> name_char c"
  by (simp add: js_sanitize_def)

lemma js_endsWith_last: "s \<noteq> [] \<Longrightarrow> js_endsWith s [c] \<longleftrightarrow> last s = c"
proof (cases s rule: rev_cases)
  case (snoc ys y)
  then show ?thesis by (simp add: js_endsWith_def)
qed simp

lemma js_startsWith_hd: "s \<noteq> [] \<Longrightarrow> js_startsWith s [c] \<longleftrightarrow> hd s = c"
  by (cases s) (auto simp: js_startsWith_def)

section \<open>Facts: decimal text\<close>

lemma dec_val_append: "dec_val (s @ [c]) = 10 * dec_val s + digit_val c"
  by (simp add: dec_val_def)

lemma digit_char [simp]:
  "n < 10 \<Longrightarrow> digit_val (of_nat (48 + n)) = n" "n < 10 \<Longrightarrow> is_digit (of_nat (48 + n))"
  by (simp_all add: digit_val_def is_digit_def unat_of_nat del: of_nat_add)

lemma dec_val_dec_digits: "dec_val (dec_digits n) = n"
proof (induction n rule: dec_digits.induct)
  case (1 n)
  show ?case
  proof (cases "n < 10")
    case True
    then show ?thesis by (subst dec_digits.simps) (simp add: dec_val_def del: of_nat_add)
  next
    case False
    then show ?thesis using 1
      by (subst dec_digits.simps) (simp add: dec_val_append del: of_nat_add)
  qed
qed

lemma is_digit_dec_digits: "c \<in> set (dec_digits n) \<Longrightarrow> is_digit c"
proof (induction n rule: dec_digits.induct)
  case (1 n)
  then show ?case
    by (cases "n < 10") (auto simp: dec_digits.simps [of n] simp del: of_nat_add)
qed

lemma dec_digits_nonempty: "dec_digits n \<noteq> []"
  by (subst dec_digits.simps) simp

lemma length_dec_digits: "n < 10 ^ Suc k \<Longrightarrow> length (dec_digits n) \<le> Suc k"
proof (induction k arbitrary: n)
  case 0
  then show ?case by (subst dec_digits.simps) simp
next
  case (Suc k)
  show ?case
  proof (cases "n < 10")
    case True
    then show ?thesis by (subst dec_digits.simps) simp
  next
    case False
    have "n div 10 < 10 ^ Suc k" using Suc.prems by (simp add: less_mult_imp_div_less)
    with Suc.IH False show ?thesis by (subst dec_digits.simps) simp
  qed
qed

text \<open>Rounding never crosses \<open>2 ^ 53\<close> downwards.\<close>

lemma fl_ge_2_53:
  assumes "2 ^ 53 \<le> x"
  shows "2 ^ 53 \<le> fl x"
proof -
  have x: "0 < x" using assms by (rule less_le_trans [rotated]) simp
  have b: "pow2 (ilog2 x) \<le> x" "x < pow2 (ilog2 x + 1)" using ilog2_bounds [OF x] by auto
  have "pow2 53 < pow2 (ilog2 x + 1)" using assms b(2) by simp
  then have k: "53 \<le> ilog2 x" by (simp only: pow2_less_iff)
  define e where "e = ilog2 x - 52"
  have e: "ulp_exp x = e" using x k by (simp add: ulp_exp_def e_def)
  have "pow2 52 * pow2 e \<le> x" using b(1) pow2_add [of 52 e] by (simp add: e_def)
  then have "(2 :: rat) ^ 52 \<le> x / pow2 e" by (simp add: pos_le_divide_eq)
  then have "(2 :: int) ^ 52 \<le> \<lfloor>x / pow2 e\<rfloor>" by (simp add: le_floor_iff)
  also have "\<dots> \<le> round_half_even (x / pow2 e)" by (simp add: round_half_even_def Let_def)
  finally have "(of_int (2 ^ 52) :: rat) \<le> of_int (round_half_even (x / pow2 e))"
    by (simp only: of_int_le_iff)
  moreover have "2 \<le> pow2 e" using k pow2_mono [of 1 e] by (simp add: e_def)
  ultimately have "(2 :: rat) ^ 52 * 2 \<le> of_int (round_half_even (x / pow2 e)) * pow2 e"
    by (intro mult_mono) auto
  then show ?thesis using x by (simp add: fl_def e)
qed

lemma short_nat_safe:
  assumes "n < 2 ^ 53"
  shows "short_nat n = n"
proof -
  define d where "d = length (dec_digits n)"
  have "short_candidate n d k = n" if "fl (of_nat (short_candidate n d k)) = of_nat n" for k
  proof (cases "short_candidate n d k < 2 ^ 53")
    case True
    then have "\<bar>int (short_candidate n d k)\<bar> < 2 ^ 53" by simp
    from fl_int [OF this] that show ?thesis by simp
  next
    case False
    then have "(of_nat (2 ^ 53) :: rat) \<le> of_nat (short_candidate n d k)"
      by (simp only: of_nat_le_iff not_less)
    then have "(2 ^ 53 :: rat) \<le> of_nat n" using fl_ge_2_53 that by (metis of_nat_numeral of_nat_power)
    then have "of_nat (2 ^ 53) \<le> (of_nat n :: rat)" by simp
    then show ?thesis using assms by (simp only: of_nat_le_iff)
  qed
  then show ?thesis
    by (auto simp: short_nat_def Let_def find_Some_iff simp flip: d_def split: option.splits)
qed

lemma js_String_safe:
  assumes "n < 2 ^ 53"
  shows "js_String fmt (Num (of_nat n)) = dec_digits n"
proof -
  have "rat_is_int (of_nat n)" using rat_is_int_of_int [of "int n"] by simp
  moreover have "(of_nat n :: rat) < of_nat (10 ^ 21)"
    using assms by (simp only: of_nat_less_iff) simp
  ultimately show ?thesis using short_nat_safe [OF assms] by (simp add: js_String_def)
qed

end
