(* ===== verification/GoText.thy ===== *)
theory GoText
  imports GoTypes JsString
begin

text \<open>
  The node's \<^verbatim>\<open>internal/validation/text.go\<close> and \<^verbatim>\<open>name.go\<close>, with the part of Go's \<^verbatim>\<open>unicode/utf8\<close> they
  use.  Unicode normalization (\<^verbatim>\<open>golang.org/x/text\<close>) is a parameter.  The last section shows what the
  node sees in the bytes a browser's \<^verbatim>\<open>TextEncoder\<close> produced.
\<close>

section \<open>unicode/utf8\<close>

definition cont_byte :: "byte \<Rightarrow> bool" where
  "cont_byte b \<longleftrightarrow> 0x80 \<le> unat b \<and> unat b \<le> 0xBF"

definition byte_in :: "nat \<Rightarrow> nat \<Rightarrow> byte \<Rightarrow> bool" where
  "byte_in lo hi b \<longleftrightarrow> lo \<le> unat b \<and> unat b \<le> hi"

text \<open>\<^verbatim>\<open>utf8.DecodeRuneInString\<close>: the rune and its width, or \<open>None\<close> for an invalid first byte sequence.\<close>

definition decodeRune :: "bytes \<Rightarrow> (nat \<times> nat) option" where
  "decodeRune s =
     (case s of
        [] \<Rightarrow> None
      | b0 # t \<Rightarrow>
          let n = unat b0 in
          if n < 0x80 then Some (n, 1)
          else if 0xC2 \<le> n \<and> n \<le> 0xDF then
            (case t of b1 # _ \<Rightarrow>
               if cont_byte b1 then Some ((n - 0xC0) * 0x40 + (unat b1 - 0x80), 2) else None | _ \<Rightarrow> None)
          else if 0xE0 \<le> n \<and> n \<le> 0xEF then
            (case t of b1 # b2 # _ \<Rightarrow>
               if byte_in (if n = 0xE0 then 0xA0 else 0x80) (if n = 0xED then 0x9F else 0xBF) b1 \<and> cont_byte b2
               then Some ((n - 0xE0) * 0x1000 + (unat b1 - 0x80) * 0x40 + (unat b2 - 0x80), 3) else None
             | _ \<Rightarrow> None)
          else if 0xF0 \<le> n \<and> n \<le> 0xF4 then
            (case t of b1 # b2 # b3 # _ \<Rightarrow>
               if byte_in (if n = 0xF0 then 0x90 else 0x80) (if n = 0xF4 then 0x8F else 0xBF) b1
                  \<and> cont_byte b2 \<and> cont_byte b3
               then Some ((n - 0xF0) * 0x40000 + (unat b1 - 0x80) * 0x1000 + (unat b2 - 0x80) * 0x40
                          + (unat b3 - 0x80), 4) else None
             | _ \<Rightarrow> None)
          else None)"

fun utf8_ValidString :: "bytes \<Rightarrow> bool" where
  "utf8_ValidString [] = True"
| "utf8_ValidString (b # s) =
     (case decodeRune (b # s) of None \<Rightarrow> False | Some (r, w) \<Rightarrow> utf8_ValidString (drop (w - 1) s))"

text \<open>The runes a \<^verbatim>\<open>range\<close> loop visits: an invalid byte is the rune U+FFFD of width one.\<close>

fun runes :: "bytes \<Rightarrow> nat list" where
  "runes [] = []"
| "runes (b # s) =
     (case decodeRune (b # s) of None \<Rightarrow> 0xFFFD # runes s | Some (r, w) \<Rightarrow> r # runes (drop (w - 1) s))"

definition utf8_RuneCountInString :: "bytes \<Rightarrow> nat" where
  "utf8_RuneCountInString s = length (runes s)"

section \<open>text.go\<close>

record norm =
  NFC_String :: "bytes \<Rightarrow> bytes"
  NFC_IsNormalString :: "bytes \<Rightarrow> bool"

definition unicode_IsSpace :: "nat \<Rightarrow> bool" where
  "unicode_IsSpace r \<longleftrightarrow> (9 \<le> r \<and> r \<le> 13) \<or> r = 32 \<or> r = 0x85 \<or> r = 0xA0 \<or> r = 0x1680
     \<or> (0x2000 \<le> r \<and> r \<le> 0x200A) \<or> r = 0x2028 \<or> r = 0x2029 \<or> r = 0x202F \<or> r = 0x205F \<or> r = 0x3000"

definition trim_runes :: "nat list \<Rightarrow> nat list" where
  "trim_runes rs = rev (dropWhile unicode_IsSpace (rev (dropWhile unicode_IsSpace rs)))"

definition blank :: "nat \<Rightarrow> bool" where
  "blank r \<longleftrightarrow> r = 32 \<or> r = 9 \<or> r = 10 \<or> r = 13"

text \<open>The loop of \<^verbatim>\<open>NormalizePostText\<close>; the flag is \<^verbatim>\<open>prevSpace\<close>.\<close>

fun collapse :: "bool \<Rightarrow> nat list \<Rightarrow> nat list" where
  "collapse prevSpace [] = []"
| "collapse prevSpace (r # rs) =
     (if blank r then (if \<not> prevSpace then [32] else []) @ collapse True rs else r # collapse False rs)"

datatype text_error =
    TextEmptyAfterNormalization
  | TextNotUTF8
  | TextEmpty
  | TextNotNFC
  | TextTooLong nat int
  | TextTooManyBytes nat int

definition NormalizePostText :: "norm \<Rightarrow> bytes \<Rightarrow> (text_error, bytes) result" where
  "NormalizePostText N raw =
     (let s = NFC_String N raw;
          rs = trim_runes (runes s);
          result = concat (map utf8_bytes (collapse False rs))
      in if result = [] then Inl TextEmptyAfterNormalization else Inr result)"

definition ValidatePostText :: "norm \<Rightarrow> bytes \<Rightarrow> int \<Rightarrow> int \<Rightarrow> (text_error, unit) result" where
  "ValidatePostText N text maxCodePoints maxBytes =
     (if \<not> utf8_ValidString text then Inl TextNotUTF8
      else if text = [] then Inl TextEmpty
      else if \<not> NFC_IsNormalString N text then Inl TextNotNFC
      else (let cpCount = utf8_RuneCountInString text
            in if int cpCount > maxCodePoints then Inl (TextTooLong cpCount maxCodePoints)
               else if int (length text) > maxBytes then Inl (TextTooManyBytes (length text) maxBytes)
               else Inr ()))"

section \<open>name.go\<close>

abbreviation MinNameLength :: nat where "MinNameLength \<equiv> 3"
abbreviation MaxNameLength :: nat where "MaxNameLength \<equiv> 20"

datatype name_error =
    NameTooShort nat
  | NameTooLong nat
  | NameBadCharacter nat nat
  | NameStartsWithUnderscore
  | NameEndsWithUnderscore
  | NameConsecutiveUnderscores

definition name_rune :: "nat \<Rightarrow> bool" where
  "name_rune c \<longleftrightarrow> (97 \<le> c \<and> c \<le> 122) \<or> (48 \<le> c \<and> c \<le> 57) \<or> c = 95"

text \<open>The loop over the runes of the name: the first one that is not allowed, with its byte position.\<close>

fun bad_rune :: "nat \<Rightarrow> bytes \<Rightarrow> (nat \<times> nat) option" where
  "bad_rune i [] = None"
| "bad_rune i (b # s) =
     (case decodeRune (b # s) of
        None \<Rightarrow> Some (0xFFFD, i)
      | Some (c, w) \<Rightarrow> if \<not> name_rune c then Some (c, i) else bad_rune (i + w) (drop (w - 1) s))"

fun has_double_underscore :: "bytes \<Rightarrow> bool" where
  "has_double_underscore (a # b # s) = (a = 95 \<and> b = 95 \<or> has_double_underscore (b # s))"
| "has_double_underscore _ = False"

definition ValidateName :: "bytes \<Rightarrow> (name_error, unit) result" where
  "ValidateName name =
     (if length name < MinNameLength then Inl (NameTooShort (length name))
      else if length name > MaxNameLength then Inl (NameTooLong (length name))
      else case bad_rune 0 name of
        Some (c, i) \<Rightarrow> Inl (NameBadCharacter c i)
      | None \<Rightarrow>
          if hd name = 95 then Inl NameStartsWithUnderscore
          else if last name = 95 then Inl NameEndsWithUnderscore
          else if has_double_underscore name then Inl NameConsecutiveUnderscores
          else Inr ())"

section \<open>Decoding what was encoded\<close>

lemma base64_digits:
  fixes c :: nat
  obtains q a b d where "c = 262144 * q + 4096 * a + 64 * b + d" "a < 64" "b < 64" "d < 64"
    "c div 262144 = q" "c div 4096 mod 64 = a" "c div 64 mod 64 = b" "c mod 64 = d"
    "c div 4096 = 64 * q + a" "c div 64 = 4096 * q + 64 * a + b"
proof
  have d64: "c div 4096 = c div 64 div 64" "c div 262144 = c div 64 div 64 div 64"
    using div_mult2_eq [of c 64 64] div_mult2_eq [of c "64 * 64" 64] by (simp_all add: div_mult2_eq [of c 64 64, simplified])
  have s: "c div 64 = 64 * (c div 4096) + c div 64 mod 64"
    "c div 4096 = 64 * (c div 262144) + c div 4096 mod 64" "c = 64 * (c div 64) + c mod 64"
    by (simp_all add: d64)
  then show "c = 262144 * (c div 262144) + 4096 * (c div 4096 mod 64) + 64 * (c div 64 mod 64) + c mod 64"
    by linarith
  show "c div 4096 = 64 * (c div 262144) + c div 4096 mod 64" by (rule s)
  show "c div 64 = 4096 * (c div 262144) + 64 * (c div 4096 mod 64) + c div 64 mod 64"
    using s by linarith
qed simp_all

lemma unat_byte_of_nat: "n < 256 \<Longrightarrow> unat (of_nat n :: byte) = n"
  by (simp add: unat_of_nat)

lemma decodeRune_utf8_bytes:
  assumes "scalar c"
  shows "decodeRune (utf8_bytes c @ t) = Some (c, length (utf8_bytes c))"
proof -
  obtain q a b d where c: "c = 262144 * q + 4096 * a + 64 * b + d" "a < 64" "b < 64" "d < 64"
    and eqs: "c div 262144 = q" "c div 4096 mod 64 = a" "c div 64 mod 64 = b" "c mod 64 = d"
    "c div 4096 = 64 * q + a" "c div 64 = 4096 * q + 64 * a + b"
    by (rule base64_digits)
  have lim: "c < 0x110000" "\<not> (0xD800 \<le> c \<and> c \<le> 0xDFFF)" using assms by (simp_all add: scalar_def)
  note defs = decodeRune_def cont_byte_def byte_in_def Let_def
  consider "c < 0x80" | "0x80 \<le> c" "c < 0x800" | "0x800 \<le> c" "c < 0x10000" | "0x10000 \<le> c" by linarith
  then show ?thesis
  proof cases
    case 1
    then show ?thesis by (simp add: defs utf8_bytes_def unat_byte_of_nat)
  next
    case 2
    then have z: "q = 0" "a = 0" using c by linarith+
    with 2 c have b: "2 \<le> b" "b < 32" "b * 64 + d = c" by auto
    have "utf8_bytes c = [of_nat (192 + b), of_nat (128 + d)]"
      using 2 z by (simp add: utf8_bytes_def eqs)
    with b c(4) show ?thesis by (simp add: defs unat_byte_of_nat del: of_nat_add)
  next
    case 3
    then have z: "q = 0" using c by linarith
    with 3 c lim have a: "a < 16" "a = 0 \<Longrightarrow> 32 \<le> b" "a = 13 \<Longrightarrow> b < 32" "a * 4096 + b * 64 + d = c"
      by auto
    have "utf8_bytes c = [of_nat (224 + a), of_nat (128 + b), of_nat (128 + d)]"
      using 3 z c(3) by (simp add: utf8_bytes_def eqs)
    with a c(3,4) show ?thesis by (auto simp: defs unat_byte_of_nat simp del: of_nat_add)
  next
    case 4
    with c lim have q: "q < 5" "q = 0 \<Longrightarrow> 16 \<le> a" "q = 4 \<Longrightarrow> a < 16"
      "q * 262144 + a * 4096 + b * 64 + d = c" by auto
    have "utf8_bytes c = [of_nat (240 + q), of_nat (128 + a), of_nat (128 + b), of_nat (128 + d)]"
      using 4 by (simp add: utf8_bytes_def eqs(1-4))
    with q c(2-4) show ?thesis by (auto simp: defs unat_byte_of_nat simp del: of_nat_add)
  qed
qed

lemma utf8_bytes_nonempty [simp]: "utf8_bytes c \<noteq> []"
  by (simp add: utf8_bytes_def)

lemma utf8_step:
  assumes "scalar c"
  shows "utf8_ValidString (utf8_bytes c @ t) = utf8_ValidString t" "runes (utf8_bytes c @ t) = c # runes t"
proof -
  obtain b u where u: "utf8_bytes c = b # u" by (cases "utf8_bytes c") auto
  show "utf8_ValidString (utf8_bytes c @ t) = utf8_ValidString t" "runes (utf8_bytes c @ t) = c # runes t"
    using decodeRune_utf8_bytes [OF assms, of t] by (simp_all add: u)
qed

lemma utf8_encoded:
  assumes "list_all scalar cs"
  shows "utf8_ValidString (concat (map utf8_bytes cs))" "runes (concat (map utf8_bytes cs)) = cs"
  using assms by (induction cs) (simp_all add: utf8_step)

lemma list_all_scalar_values: "list_all scalar (scalar_values s)"
  using scalar_values_scalar by (auto simp: list_all_iff)

lemma runes_TextEncoder: "runes (TextEncoder_encode s) = scalar_values s"
  "utf8_ValidString (TextEncoder_encode s)"
  unfolding TextEncoder_encode_def by (rule utf8_encoded [OF list_all_scalar_values])+

text \<open>
  A text of at most 280 UTF-16 units, the limit of the post dialogs, reaches the node as valid UTF-8 with at
  most 280 code points and at most 840 bytes.
\<close>

lemma text_accepted:
  assumes "length s \<le> 280" "s \<noteq> []" "NFC_IsNormalString N (TextEncoder_encode s)"
  shows "ValidatePostText N (TextEncoder_encode s) 280 1024 = Inr ()"
proof -
  have "length (scalar_values s) \<le> 280" using length_scalar_values [of s] assms(1) by simp
  moreover have "length (TextEncoder_encode s) \<le> 840" using length_TextEncoder_encode [of s] assms(1) by simp
  moreover have "TextEncoder_encode s \<noteq> []"
    using assms(2) by (cases s rule: scalar_values.cases) (auto simp: TextEncoder_encode_def)
  ultimately show ?thesis
    using assms(3) by (simp add: ValidatePostText_def utf8_RuneCountInString_def runes_TextEncoder Let_def)
qed

section \<open>Normalized text\<close>

lemma collapse_True_no_leading: "collapse True rs = [] \<or> \<not> blank (hd (collapse True rs))"
  by (induction rs) auto

fun no_double_blank :: "nat list \<Rightarrow> bool" where
  "no_double_blank (a # b # rs) = (\<not> (blank a \<and> blank b) \<and> no_double_blank (b # rs))"
| "no_double_blank _ = True"

lemma no_double_blank_Cons:
  "no_double_blank (a # rs) \<longleftrightarrow> (rs = [] \<or> \<not> (blank a \<and> blank (hd rs))) \<and> no_double_blank rs"
  by (cases rs) auto

lemma collapse_no_double: "no_double_blank (collapse p rs)"
proof (induction rs arbitrary: p)
  case (Cons r rs)
  then show ?case using collapse_True_no_leading [of rs] by (auto simp: no_double_blank_Cons)
qed simp

definition plain_blanks :: "nat list \<Rightarrow> bool" where
  "plain_blanks rs \<longleftrightarrow> list_all (\<lambda>r. blank r \<longrightarrow> r = 32) rs"

lemma collapse_blanks: "plain_blanks (collapse p rs)"
  by (induction rs arbitrary: p) (auto simp: plain_blanks_def)

lemma collapse_fixed:
  assumes "no_double_blank rs" "plain_blanks rs" "\<not> (p \<and> rs \<noteq> [] \<and> blank (hd rs))"
  shows "collapse p rs = rs"
  using assms
proof (induction rs arbitrary: p)
  case (Cons r rs)
  have "collapse (blank r) rs = rs"
    using Cons.prems by (intro Cons.IH) (auto simp: no_double_blank_Cons plain_blanks_def)
  moreover have "blank r \<Longrightarrow> r = 32" using Cons.prems(2) by (simp add: plain_blanks_def)
  ultimately show ?case using Cons.prems(3) by (cases "blank r") auto
qed simp

lemma collapse_idem: "collapse False (collapse p rs) = collapse p rs"
  by (rule collapse_fixed [OF collapse_no_double collapse_blanks]) simp


lemma three_byte_range:
  fixes n x y :: nat
  assumes "n < 16" "x < 64" "y < 64" "n = 0 \<Longrightarrow> 32 \<le> x" "n = 13 \<Longrightarrow> x < 32"
  shows "n * 4096 + x * 64 + y < 0x10000" "0x800 \<le> n * 4096 + x * 64 + y"
    "n * 4096 + x * 64 + y < 0xD800 \<or> 0xDFFF < n * 4096 + x * 64 + y"
proof -
  show "n * 4096 + x * 64 + y < 0x10000" using assms(1-3) by linarith
  show "0x800 \<le> n * 4096 + x * 64 + y" using assms(4) by (cases "n = 0") auto
  consider "n \<le> 12" | "n = 13" | "14 \<le> n" by linarith
  then show "n * 4096 + x * 64 + y < 0xD800 \<or> 0xDFFF < n * 4096 + x * 64 + y"
    by cases (use assms in linarith)+
qed

lemma decodeRune_range:
  assumes "decodeRune (b # s) = Some (c, w)"
  shows "scalar c" "0x80 \<le> unat b \<Longrightarrow> 0x80 \<le> c" "unat b < 0x80 \<Longrightarrow> c = unat b \<and> w = 1"
proof -
  note defs = decodeRune_def Let_def cont_byte_def byte_in_def scalar_def
  consider "unat b < 0x80" | "0xC2 \<le> unat b" "unat b \<le> 0xDF" | "0xE0 \<le> unat b" "unat b \<le> 0xEF"
    | "0xF0 \<le> unat b" "unat b \<le> 0xF4"
    using assms by (auto simp: decodeRune_def Let_def split: if_splits)
  then have "scalar c \<and> (0x80 \<le> unat b \<longrightarrow> 0x80 \<le> c) \<and> (unat b < 0x80 \<longrightarrow> c = unat b \<and> w = 1)"
  proof cases
    case 1
    then show ?thesis using assms by (auto simp: defs)
  next
    case 2
    then obtain b1 where "cont_byte b1" "c = (unat b - 0xC0) * 0x40 + (unat b1 - 0x80)"
      using assms by (auto simp: decodeRune_def Let_def split: list.splits if_splits)
    with 2 show ?thesis by (auto simp: cont_byte_def scalar_def)
  next
    case 3
    then obtain b1 b2 where r: "byte_in (if unat b = 0xE0 then 0xA0 else 0x80) (if unat b = 0xED then 0x9F else 0xBF) b1"
      "cont_byte b2" "c = (unat b - 0xE0) * 0x1000 + (unat b1 - 0x80) * 0x40 + (unat b2 - 0x80)"
      using assms by (auto simp: decodeRune_def Let_def split: list.splits if_splits)
    define n x y where "n = unat b - 0xE0" and "x = unat b1 - 0x80" and "y = unat b2 - 0x80"
    have "c = n * 0x1000 + x * 0x40 + y" "n < 16" "x < 64" "y < 64" "n = 0 \<Longrightarrow> 32 \<le> x" "n = 13 \<Longrightarrow> x < 32"
      using r 3 by (auto simp: n_def x_def y_def byte_in_def cont_byte_def split: if_splits)
    then have "c < 0x10000" "0x800 \<le> c" "c < 0xD800 \<or> 0xDFFF < c"
      using three_byte_range [of n x y] by simp_all
    with 3 show ?thesis by (auto simp: scalar_def)
  next
    case 4
    then obtain b1 b2 b3 where r: "byte_in (if unat b = 0xF0 then 0x90 else 0x80) (if unat b = 0xF4 then 0x8F else 0xBF) b1"
      "cont_byte b2" "cont_byte b3"
      "c = (unat b - 0xF0) * 0x40000 + (unat b1 - 0x80) * 0x1000 + (unat b2 - 0x80) * 0x40 + (unat b3 - 0x80)"
      using assms by (auto simp: decodeRune_def Let_def split: list.splits if_splits)
    define n x y z where "n = unat b - 0xF0" and "x = unat b1 - 0x80" and "y = unat b2 - 0x80" and "z = unat b3 - 0x80"
    have "c = n * 0x40000 + x * 0x1000 + y * 0x40 + z" "n \<le> 4" "x < 64" "y < 64" "z < 64"
      "n = 0 \<Longrightarrow> 16 \<le> x" "n = 4 \<Longrightarrow> x < 16"
      using r 4 by (auto simp: n_def x_def y_def z_def byte_in_def cont_byte_def split: if_splits)
    then have "0x10000 \<le> c" "c < 0x110000"
      by (cases "n = 0"; cases "n = 4"; linarith)+
    with 4 show ?thesis by (auto simp: scalar_def)
  qed
  then show "scalar c" "0x80 \<le> unat b \<Longrightarrow> 0x80 \<le> c" "unat b < 0x80 \<Longrightarrow> c = unat b \<and> w = 1"
    by blast+
qed

lemma runes_scalar: "list_all scalar (runes s)"
proof (induction s rule: runes.induct)
  case (2 b s)
  then show ?case
    by (auto split: option.splits dest: decodeRune_range(1)) (simp add: scalar_def)
qed simp

section \<open>Names\<close>

lemma decodeRune_ascii: "unat b < 0x80 \<Longrightarrow> decodeRune (b # s) = Some (unat b, 1)"
  by (simp add: decodeRune_def)

lemma bad_rune_None: "bad_rune i s = None \<longleftrightarrow> list_all (\<lambda>b. name_rune (unat b)) s"
proof (induction i s rule: bad_rune.induct)
  case (2 i b s)
  show ?case
  proof (cases "unat b < 0x80")
    case True
    with 2 [OF decodeRune_ascii [OF True] refl] show ?thesis by (auto simp: decodeRune_ascii)
  next
    case False
    then have "\<not> name_rune (unat b)" by (auto simp: name_rune_def)
    moreover have "bad_rune i (b # s) \<noteq> None"
      using False decodeRune_range(2) [of b s] by (fastforce simp: name_rune_def split: option.splits)
    ultimately show ?thesis by simp
  qed
qed simp

text \<open>The names \<^verbatim>\<open>ValidateName\<close> accepts.\<close>

lemma ValidateName_iff:
  "ValidateName name = Inr () \<longleftrightarrow>
     3 \<le> length name \<and> length name \<le> 20 \<and> list_all (\<lambda>b. name_rune (unat b)) name
     \<and> hd name \<noteq> 95 \<and> last name \<noteq> 95 \<and> \<not> has_double_underscore name"
  by (auto simp: ValidateName_def bad_rune_None [of 0, symmetric] split: option.splits)

section \<open>ASCII text on both sides\<close>

text \<open>Names and channels are ASCII: their UTF-8 bytes are their code units, and only ASCII text has ASCII bytes.\<close>

lemma TextEncoder_encode_ascii:
  "list_all (\<lambda>c. unat c < 128) s \<Longrightarrow> TextEncoder_encode s = map ucast s"
proof (induction s rule: scalar_values.induct)
  case (3 c d s)
  then have "\<not> is_high c" "\<not> is_low c" by (auto simp: is_high_def is_low_def)
  then show ?case using 3 by (simp add: TextEncoder_encode_def utf8_bytes_def)
qed (auto simp: TextEncoder_encode_def utf8_bytes_def is_high_def is_low_def)

lemma utf8_bytes_not_ascii: "scalar c \<Longrightarrow> 128 \<le> c \<Longrightarrow> \<exists>b\<in>set (utf8_bytes c). 128 \<le> unat b"
proof -
  assume a: "scalar c" "128 \<le> c"
  have "128 + c mod 64 < 256" by presburger
  then have "unat (of_nat (0x80 + c mod 0x40) :: byte) = 128 + c mod 64" by (simp only: unat_byte_of_nat)
  then have "128 \<le> unat (of_nat (0x80 + c mod 0x40) :: byte)" by simp
  moreover have "(of_nat (0x80 + c mod 0x40) :: byte) \<in> set (utf8_bytes c)"
    using a by (simp add: utf8_bytes_def)
  ultimately show ?thesis by blast
qed

lemma scalar_values_ascii: "list_all (\<lambda>v. v < 128) (scalar_values s) \<Longrightarrow> list_all (\<lambda>c. unat c < 128) s"
  by (induction s rule: scalar_values.induct) (auto split: if_splits)

lemma TextEncoder_encode_ascii_inv:
  assumes "list_all (\<lambda>b. unat b < 128) (TextEncoder_encode s)"
  shows "list_all (\<lambda>c. unat c < 128) s"
proof -
  have "v < 128" if "v \<in> set (scalar_values s)" for v
    using utf8_bytes_not_ascii [of v] scalar_values_scalar [OF that] assms that
    by (force simp: TextEncoder_encode_def list_all_iff)
  then show ?thesis by (intro scalar_values_ascii) (simp add: list_all_iff)
qed

lemma unat_ucast_ascii: "unat (c :: u16) < 128 \<Longrightarrow> unat (ucast c :: byte) = unat c"
  by (simp add: unsigned_ucast_eq take_bit_nat_eq_self)

lemma name_char_rune: "unat c < 128 \<Longrightarrow> name_rune (unat (ucast c :: byte)) \<longleftrightarrow> name_char c"
  by (simp add: name_rune_def name_char_def Let_def unat_ucast_ascii)

lemma underscore_byte: "unat (c :: u16) < 128 \<Longrightarrow> (ucast c :: byte) = 95 \<longleftrightarrow> c = 95"
  using unat_ucast_ascii [of c] unsigned_word_eqI [of "ucast c :: byte" 95] unsigned_word_eqI [of c 95] by auto

lemma js_includes_double:
  "list_all (\<lambda>c. unat c < 128) s \<Longrightarrow>
    has_double_underscore (map ucast s) \<longleftrightarrow> js_includes s (js ''__'')"
proof (induction s)
  case (Cons a s)
  then show ?case by (cases s) (auto simp: js_def js_startsWith_def underscore_byte)
qed (simp add: js_def)

section \<open>NormalizePostText\<close>

lemma collapse_hd: "rs \<noteq> [] \<Longrightarrow> \<not> blank (hd rs) \<Longrightarrow> collapse p rs \<noteq> [] \<and> hd (collapse p rs) = hd rs"
  by (cases rs) auto

lemma collapse_last:
  "rs \<noteq> [] \<Longrightarrow> \<not> blank (last rs) \<Longrightarrow> collapse p rs \<noteq> [] \<and> last (collapse p rs) = last rs"
proof (induction rs arbitrary: p)
  case (Cons a rs)
  then show ?case by (cases "rs = []") auto
qed simp

definition trimmed :: "nat list \<Rightarrow> bool" where
  "trimmed rs \<longleftrightarrow> rs = [] \<or> \<not> unicode_IsSpace (hd rs) \<and> \<not> unicode_IsSpace (last rs)"

lemma blank_IsSpace: "blank r \<Longrightarrow> unicode_IsSpace r"
  by (auto simp: blank_def unicode_IsSpace_def)

lemma trim_runes_trimmed: "trimmed (trim_runes rs)"
proof -
  define t where "t = dropWhile unicode_IsSpace rs"
  define u where "u = dropWhile unicode_IsSpace (rev t)"
  have "u \<noteq> [] \<Longrightarrow> \<not> unicode_IsSpace (hd u)" "t \<noteq> [] \<Longrightarrow> \<not> unicode_IsSpace (hd t)"
    by (auto simp: u_def t_def hd_dropWhile)
  moreover have "u \<noteq> [] \<Longrightarrow> t \<noteq> [] \<and> last u = hd t"
    unfolding u_def by (cases t) (auto simp: dropWhile_append)
  ultimately show ?thesis
    by (auto simp: trimmed_def trim_runes_def hd_rev last_rev simp flip: t_def u_def)
qed

lemma trim_runes_fixed:
  assumes "trimmed rs"
  shows "trim_runes rs = rs"
proof -
  have "dropWhile unicode_IsSpace rs = rs" "dropWhile unicode_IsSpace (rev rs) = rev rs"
    using assms by (auto simp: trimmed_def dropWhile_eq_self_iff hd_rev)
  then show ?thesis by (simp add: trim_runes_def)
qed

lemma trim_runes_subset: "set (trim_runes rs) \<subseteq> set rs"
  by (auto simp: trim_runes_def dest!: set_dropWhileD)

lemma collapse_subset: "set (collapse p rs) \<subseteq> insert 32 (set rs)"
  by (induction rs arbitrary: p) (fastforce split: if_splits)+

text \<open>
  Normalized text is valid UTF-8, neither starts nor ends with white space, has no two blanks in a
  row and no blank but the space; and normalizing it again changes nothing, if NFC leaves it alone.
\<close>

theorem NormalizePostText_ok:
  assumes "NormalizePostText N raw = Inr text"
  shows "text \<noteq> [] \<and> utf8_ValidString text \<and> trimmed (runes text) \<and> no_double_blank (runes text)
    \<and> plain_blanks (runes text)
    \<and> (NFC_String N text = text \<longrightarrow> NormalizePostText N text = Inr text)"
proof -
  define rs where "rs = trim_runes (runes (NFC_String N raw))"
  define out where "out = collapse False rs"
  have tx: "text = concat (map utf8_bytes out)" "text \<noteq> []"
    using assms by (auto simp: NormalizePostText_def Let_def out_def rs_def split: if_splits)
  have rs: "list_all scalar rs"
    using runes_scalar [of "NFC_String N raw"] trim_runes_subset by (fastforce simp: rs_def list_all_iff)
  have "list_all scalar out"
    using rs collapse_subset [of False rs] by (auto simp: out_def list_all_iff scalar_def)
  then have enc: "utf8_ValidString text" "runes text = out" unfolding tx by (simp_all add: utf8_encoded)
  have "trimmed rs" by (simp add: rs_def trim_runes_trimmed)
  then have tr: "trimmed out"
  proof (cases "rs = []")
    case False
    with \<open>trimmed rs\<close> have "\<not> blank (hd rs)" "\<not> blank (last rs)"
      by (auto simp: trimmed_def dest: blank_IsSpace)
    with False \<open>trimmed rs\<close> show ?thesis
      using collapse_hd [of rs False] collapse_last [of rs False] by (simp add: trimmed_def out_def)
  qed (simp add: trimmed_def out_def)
  have "NormalizePostText N text = Inr text" if "NFC_String N text = text"
    using that tx enc tr by (simp add: NormalizePostText_def trim_runes_fixed out_def collapse_idem Let_def)
  with enc tr tx show ?thesis by (simp add: out_def collapse_no_double collapse_blanks)
qed

section \<open>Witnesses\<close>

definition plain_norm :: norm where
  "plain_norm = \<lparr>NFC_String = (\<lambda>s. s), NFC_IsNormalString = (\<lambda>s. True)\<rparr>"

theorem NormalizePostText_ok_witness:
  "NormalizePostText plain_norm [97, 32, 32, 98] = Inr [97, 32, 98]
   \<and> NormalizePostText plain_norm [97, 32, 98] = Inr [97, 32, 98]"
proof -
  have n: "NormalizePostText plain_norm [97, 32, 32, 98] = Inr [97, 32, 98]"
    by (simp add: NormalizePostText_def plain_norm_def decodeRune_def trim_runes_def unicode_IsSpace_def
        blank_def utf8_bytes_def)
  with NormalizePostText_ok [OF n] show ?thesis by (simp add: plain_norm_def)
qed

end
