(* ===== verification/Validation.thy ===== *)
theory Validation
  imports GoText
begin

text \<open>
  The node's \<^verbatim>\<open>internal/validation/validate.go\<close>: the rules a transaction has to satisfy.  The Go interface
  \<^verbatim>\<open>StateReader\<close> is a record of functions; the chain state and the mempool's speculative state each
  provide one.
\<close>

section \<open>The reader interface\<close>

record StateReader =
  sr_GetAccount :: "address \<Rightarrow> Account option"
  sr_GetPost :: "postid \<Rightarrow> Post option"
  sr_GetAccountByName :: "bytes \<Rightarrow> Account option"
  sr_GetPostStake :: "postid \<Rightarrow> address \<Rightarrow> PostStake option"

datatype tx_error =
    UnknownTxType TxType
  | PubKeyMismatch
  | InvalidSignature
  | NoSenderAccount
  | InvalidNonce u64 u64
  | InsufficientBalance u64 u64
  | ZeroTransfer
  | SelfTransfer
  | ZeroRecipient
  | BelowMinPost u64 u64
  | InvalidPostText text_error
  | InvalidChannel name_error
  | NoParentPost
  | ReplyToReply
  | BelowMinBoost u64 u64
  | NoPost
  | PostWithdrawn
  | NoActiveStake
  | NonZeroNameAmount
  | InvalidName name_error
  | AlreadyNamed bytes
  | NameTaken bytes
  | ZeroStake
  | BelowMinStake u64 u64
  | ZeroUnstake
  | InsufficientStake u64 u64
  | RemainingBelowMin u64 u64

section \<open>Rules\<close>

definition validateCommonNoBalanceCheck ::
    "prims \<Rightarrow> Transaction \<Rightarrow> StateReader \<Rightarrow> (tx_error, Account) result" where
  "validateCommonNoBalanceCheck P tx sr =
     (let derived = AddressFromPublicKey P (tx_PubKey tx) in
      if derived \<noteq> tx_Sender tx then Inl PubKeyMismatch
      else if \<not> Verify P (tx_PubKey tx) (SignableBytes tx) (tx_Signature tx) then Inl InvalidSignature
      else case sr_GetAccount sr (tx_Sender tx) of
        None \<Rightarrow> Inl NoSenderAccount
      | Some acct \<Rightarrow>
          if tx_Nonce tx \<noteq> acc_Nonce acct + 1 then Inl (InvalidNonce (acc_Nonce acct + 1) (tx_Nonce tx))
          else Inr acct)"

definition validateCommon :: "prims \<Rightarrow> Transaction \<Rightarrow> StateReader \<Rightarrow> (tx_error, Account) result" where
  "validateCommon P tx sr =
     (let derived = AddressFromPublicKey P (tx_PubKey tx) in
      if derived \<noteq> tx_Sender tx then Inl PubKeyMismatch
      else if \<not> Verify P (tx_PubKey tx) (SignableBytes tx) (tx_Signature tx) then Inl InvalidSignature
      else case sr_GetAccount sr (tx_Sender tx) of
        None \<Rightarrow> Inl NoSenderAccount
      | Some acct \<Rightarrow>
          if tx_Nonce tx \<noteq> acc_Nonce acct + 1 then Inl (InvalidNonce (acc_Nonce acct + 1) (tx_Nonce tx))
          else if acc_Balance acct < tx_Amount tx
            then Inl (InsufficientBalance (acc_Balance acct) (tx_Amount tx))
          else Inr acct)"

definition check :: "(tx_error, 'a) result \<Rightarrow> (tx_error, unit) result" where
  "check r = bindR r (\<lambda>_. Inr ())"

definition validateTransfer :: "prims \<Rightarrow> Transaction \<Rightarrow> StateReader \<Rightarrow> (tx_error, unit) result" where
  "validateTransfer P tx sr =
     (if tx_Amount tx = 0 then Inl ZeroTransfer
      else if tx_Sender tx = tx_Recipient tx then Inl SelfTransfer
      else if Address_IsZero (tx_Recipient tx) then Inl ZeroRecipient
      else check (validateCommon P tx sr))"

definition validateReply :: "Transaction \<Rightarrow> StateReader \<Rightarrow> (tx_error, unit) result" where
  "validateReply tx sr =
     (if tx_PostID tx \<noteq> zeroPostID then
        (case sr_GetPost sr (tx_PostID tx) of
           None \<Rightarrow> Inl NoParentPost
         | Some parent \<Rightarrow> if post_ParentPostID parent \<noteq> zeroPostID then Inl ReplyToReply else Inr ())
      else Inr ())"

definition validateCreatePost ::
    "prims \<Rightarrow> norm \<Rightarrow> Transaction \<Rightarrow> StateReader \<Rightarrow> GenesisConfig \<Rightarrow> (tx_error, unit) result" where
  "validateCreatePost P N tx sr params =
     (if tx_Amount tx < gc_MinPostCommitment params
      then Inl (BelowMinPost (tx_Amount tx) (gc_MinPostCommitment params))
      else case ValidatePostText N (tx_Text tx) (gc_MaxPostLength params) (gc_MaxPostBytes params) of
        Inl e \<Rightarrow> Inl (InvalidPostText e)
      | Inr _ \<Rightarrow>
          (case (if tx_Channel tx \<noteq> [] then ValidateName (tx_Channel tx) else Inr ()) of
             Inl e \<Rightarrow> Inl (InvalidChannel e)
           | Inr _ \<Rightarrow> bindR (validateReply tx sr) (\<lambda>_. check (validateCommon P tx sr))))"

definition validateBoostPost ::
    "prims \<Rightarrow> Transaction \<Rightarrow> StateReader \<Rightarrow> GenesisConfig \<Rightarrow> (tx_error, unit) result" where
  "validateBoostPost P tx sr params =
     (if tx_Amount tx < gc_MinBoostCommitment params
      then Inl (BelowMinBoost (tx_Amount tx) (gc_MinBoostCommitment params))
      else case sr_GetPost sr (tx_PostID tx) of
        None \<Rightarrow> Inl NoPost
      | Some post \<Rightarrow>
          if post_Withdrawn post then Inl PostWithdrawn else check (validateCommon P tx sr))"

definition validateUnstakePost :: "prims \<Rightarrow> Transaction \<Rightarrow> StateReader \<Rightarrow> (tx_error, unit) result" where
  "validateUnstakePost P tx sr =
     bindR (validateCommonNoBalanceCheck P tx sr) (\<lambda>_.
       if sr_GetPostStake sr (tx_PostID tx) (tx_Sender tx) = None then Inl NoActiveStake
       else if sr_GetPost sr (tx_PostID tx) = None then Inl NoPost
       else Inr ())"

definition validateRegisterName :: "prims \<Rightarrow> Transaction \<Rightarrow> StateReader \<Rightarrow> (tx_error, unit) result" where
  "validateRegisterName P tx sr =
     (if tx_Amount tx \<noteq> 0 then Inl NonZeroNameAmount
      else case ValidateName (tx_Text tx) of
        Inl e \<Rightarrow> Inl (InvalidName e)
      | Inr _ \<Rightarrow>
          bindR (validateCommon P tx sr) (\<lambda>acct.
            if acc_Name acct \<noteq> [] then Inl (AlreadyNamed (acc_Name acct))
            else if sr_GetAccountByName sr (tx_Text tx) \<noteq> None then Inl (NameTaken (tx_Text tx))
            else Inr ()))"

definition validateStake ::
    "prims \<Rightarrow> Transaction \<Rightarrow> StateReader \<Rightarrow> GenesisConfig \<Rightarrow> (tx_error, unit) result" where
  "validateStake P tx sr params =
     (if tx_Amount tx = 0 then Inl ZeroStake
      else bindR (validateCommon P tx sr) (\<lambda>acct.
        if acc_StakedBalance acct = 0 \<and> gc_MinStake params > 0 \<and> tx_Amount tx < gc_MinStake params
        then Inl (BelowMinStake (tx_Amount tx) (gc_MinStake params)) else Inr ()))"

definition validateUnstake ::
    "prims \<Rightarrow> Transaction \<Rightarrow> StateReader \<Rightarrow> GenesisConfig \<Rightarrow> (tx_error, unit) result" where
  "validateUnstake P tx sr params =
     (if tx_Amount tx = 0 then Inl ZeroUnstake
      else bindR (validateCommonNoBalanceCheck P tx sr) (\<lambda>acct.
        if acc_StakedBalance acct < tx_Amount tx
        then Inl (InsufficientStake (acc_StakedBalance acct) (tx_Amount tx))
        else (let remaining = acc_StakedBalance acct - tx_Amount tx
              in if remaining > 0 \<and> gc_MinStake params > 0 \<and> remaining < gc_MinStake params
                 then Inl (RemainingBelowMin remaining (gc_MinStake params)) else Inr ())))"

definition ValidateTransaction ::
    "prims \<Rightarrow> norm \<Rightarrow> Transaction \<Rightarrow> StateReader \<Rightarrow> GenesisConfig \<Rightarrow> (tx_error, unit) result" where
  "ValidateTransaction P N tx sr params =
     (if tx_Type tx = TxTransfer then validateTransfer P tx sr
      else if tx_Type tx = TxCreatePost then validateCreatePost P N tx sr params
      else if tx_Type tx = TxBoostPost then validateBoostPost P tx sr params
      else if tx_Type tx = TxRegisterName then validateRegisterName P tx sr
      else if tx_Type tx = TxStake then validateStake P tx sr params
      else if tx_Type tx = TxUnstake then validateUnstake P tx sr params
      else if tx_Type tx = TxUnstakePost then validateUnstakePost P tx sr
      else Inl (UnknownTxType (tx_Type tx)))"

section \<open>Facts\<close>

lemma check_Inr [simp]: "check r = Inr () \<longleftrightarrow> (\<exists>a. r = Inr a)"
  by (cases r) (simp_all add: check_def)

lemma validateCommonNoBalanceCheck_Inr:
  "validateCommonNoBalanceCheck P tx sr = Inr acct \<longleftrightarrow>
     AddressFromPublicKey P (tx_PubKey tx) = tx_Sender tx
     \<and> Verify P (tx_PubKey tx) (SignableBytes tx) (tx_Signature tx)
     \<and> sr_GetAccount sr (tx_Sender tx) = Some acct \<and> tx_Nonce tx = acc_Nonce acct + 1"
  by (auto simp: validateCommonNoBalanceCheck_def Let_def split: option.splits)

lemma validateCommon_Inr:
  "validateCommon P tx sr = Inr acct \<longleftrightarrow>
     validateCommonNoBalanceCheck P tx sr = Inr acct \<and> tx_Amount tx \<le> acc_Balance acct"
  by (auto simp: validateCommon_def validateCommonNoBalanceCheck_def Let_def not_less split: option.splits)

lemmas validate_defs = ValidateTransaction_def validateTransfer_def validateCreatePost_def
  validateBoostPost_def validateUnstakePost_def validateRegisterName_def validateStake_def validateUnstake_def

lemma ValidateTransaction_common:
  "ValidateTransaction P N tx sr params = Inr () \<Longrightarrow> \<exists>acct. validateCommonNoBalanceCheck P tx sr = Inr acct"
  by (auto simp: validate_defs bindR_eq_Inr validateCommon_Inr split: if_splits sum.splits option.splits)

text \<open>
  C13: whatever its type, an accepted transaction is signed by the owner of the sender address, the sender
  has an account, and the nonce is the account's next one.
\<close>

theorem ValidateTransaction_authentic:
  assumes "ValidateTransaction P N tx sr params = Inr ()"
  shows "\<exists>acct. sr_GetAccount sr (tx_Sender tx) = Some acct \<and> tx_Nonce tx = acc_Nonce acct + 1
    \<and> AddressFromPublicKey P (tx_PubKey tx) = tx_Sender tx \<and> length (tx_Signature tx) = 64
    \<and> ed25519_Verify P (tx_PubKey tx) (SignableBytes tx) (tx_Signature tx)"
  using ValidateTransaction_common [OF assms]
  by (auto simp: validateCommonNoBalanceCheck_Inr Verify_def split: if_splits)

definition open_prims :: prims where
  "open_prims = \<lparr>sha256 = (\<lambda>x. replicate 32 0), ed25519_Sign = (\<lambda>k m. replicate 64 0),
     ed25519_Verify = (\<lambda>pk m s. s = replicate 64 0)\<rparr>"

definition open_reader :: StateReader where
  "open_reader = \<lparr>sr_GetAccount = (\<lambda>a. Some ((newAccount a)\<lparr>acc_Balance := 10\<rparr>)), sr_GetPost = (\<lambda>i. None),
     sr_GetAccountByName = (\<lambda>n. None), sr_GetPostStake = (\<lambda>i a. None)\<rparr>"

definition open_tx :: Transaction where
  "open_tx = \<lparr>tx_Type = TxTransfer, tx_Sender = AddressFromPublicKey open_prims (replicate 32 5),
     tx_Recipient = replicate 24 9, tx_PostID = zeroPostID, tx_Text = [], tx_Channel = [], tx_Amount = 3,
     tx_Nonce = 1, tx_Signature = replicate 64 0, tx_PubKey = replicate 32 5\<rparr>"

theorem ValidateTransaction_authentic_witness:
  "\<exists>acct. sr_GetAccount open_reader (tx_Sender open_tx) = Some acct \<and> tx_Nonce open_tx = acc_Nonce acct + 1"
proof -
  have "validateTransfer open_prims open_tx open_reader = Inr ()" by code_simp
  then have "ValidateTransaction open_prims plain_norm open_tx open_reader params = Inr ()" for params
    by (simp add: ValidateTransaction_def open_tx_def)
  from ValidateTransaction_authentic [OF this] show ?thesis by blast
qed

end
