(* ===== verification/GoSort.thy ===== *)
theory GoSort
  imports Prelude "HOL-Library.Multiset"
begin

text \<open>
  The insertion sort that the node and the indexer write out by hand, for a strict comparison \<open>lt\<close>:
  \<^verbatim>\<open>for i := 1; i < len(a); i++ { for j := i; j > 0 && lt(a[j], a[j-1]); j-- { swap } }\<close>.
  The locale \<open>sort_order\<close> is what a comparison has to satisfy for the result to be sorted.
\<close>

section \<open>The loops\<close>

definition swap_left :: "nat \<Rightarrow> 'a list \<Rightarrow> 'a list" where
  "swap_left j vs = vs[j := vs ! (j - 1), j - 1 := vs ! j]"

text \<open>The inner loop from index \<open>j\<close> down, and the outer loop.\<close>

fun sift_left :: "('a \<Rightarrow> 'a \<Rightarrow> bool) \<Rightarrow> nat \<Rightarrow> 'a list \<Rightarrow> 'a list" where
  "sift_left lt 0 vs = vs"
| "sift_left lt (Suc j) vs =
     (if lt (vs ! Suc j) (vs ! j) then sift_left lt j (swap_left (Suc j) vs) else vs)"

definition insertion_sort :: "('a \<Rightarrow> 'a \<Rightarrow> bool) \<Rightarrow> 'a list \<Rightarrow> 'a list" where
  "insertion_sort lt vs = fold (sift_left lt) [1..<length vs] vs"

lemma swap_left_split:
  assumes "length xs = j"
  shows "swap_left (Suc j) (xs @ a # b # ys) = xs @ b # a # ys"
  using assms by (simp add: swap_left_def nth_append list_update_append)

section \<open>Orders that sort\<close>

locale sort_order =
  fixes lt :: "'a \<Rightarrow> 'a \<Rightarrow> bool"
    and ok :: "'a \<Rightarrow> bool"
  assumes asym: "ok x \<Longrightarrow> ok y \<Longrightarrow> lt x y \<Longrightarrow> \<not> lt y x"
    and not_lt_trans: "ok x \<Longrightarrow> ok y \<Longrightarrow> ok z \<Longrightarrow> \<not> lt y x \<Longrightarrow> \<not> lt z y \<Longrightarrow> \<not> lt z x"
begin

definition in_order :: "'a \<Rightarrow> 'a \<Rightarrow> bool" where
  "in_order x y \<longleftrightarrow> \<not> lt y x"

text \<open>\<open>sift_left\<close> inserts the element at its index into the sorted prefix before it.\<close>

lemma sift_left_split:
  assumes "length xs = j" "sorted_wrt in_order xs" "list_all ok xs" "ok x"
  shows "\<exists>us vs. xs = us @ vs \<and> sift_left lt j (xs @ x # ys) = us @ x # vs @ ys
    \<and> sorted_wrt in_order (us @ x # vs)"
  using assms
proof (induction j arbitrary: xs ys)
  case 0
  then show ?case by simp
next
  case (Suc j)
  obtain zs z where xs: "xs = zs @ [z]" using Suc.prems(1) by (cases xs rule: rev_cases) auto
  have len: "length zs = j" using Suc.prems(1) xs by simp
  have nth: "(xs @ x # ys) ! Suc j = x" "(xs @ x # ys) ! j = z"
    using len by (simp_all add: xs nth_append)
  show ?case
  proof (cases "lt x z")
    case True
    have "sift_left lt (Suc j) (xs @ x # ys) = sift_left lt j (zs @ x # z # ys)"
      using True nth swap_left_split [OF len, of z x ys] by (simp add: xs)
    moreover obtain us vs where "zs = us @ vs" "sift_left lt j (zs @ x # z # ys) = us @ x # vs @ z # ys"
      "sorted_wrt in_order (us @ x # vs)"
      using Suc.IH [of zs "z # ys"] Suc.prems len xs by (auto simp: sorted_wrt_append)
    moreover have "in_order x z" using True Suc.prems(3,4) xs asym by (simp add: in_order_def)
    ultimately show ?thesis
      using Suc.prems(2) xs
      by (intro exI [of _ us] exI [of _ "vs @ [z]"]) (auto simp: sorted_wrt_append)
  next
    case False
    have "in_order v x" if "v \<in> set zs" for v
    proof -
      have "in_order v z" using Suc.prems(2) xs that by (simp add: sorted_wrt_append)
      then show ?thesis
        using not_lt_trans [of v z x] False Suc.prems(3,4) that xs by (auto simp: in_order_def list_all_iff)
    qed
    then show ?thesis
      using False nth Suc.prems(2) xs
      by (intro exI [of _ xs] exI [of _ "[]"]) (auto simp: sorted_wrt_append in_order_def)
  qed
qed

lemma sort_prefix:
  assumes "1 \<le> k" "k \<le> length vs" "list_all ok vs"
  shows "\<exists>xs. fold (sift_left lt) [1..<k] vs = xs @ drop k vs \<and> length xs = k \<and> mset xs = mset (take k vs)
    \<and> sorted_wrt in_order xs"
  using assms
proof (induction rule: dec_induct)
  case base
  then show ?case by (intro exI [of _ "take 1 vs"]) (cases vs; simp)
next
  case (step k)
  then obtain xs where xs: "fold (sift_left lt) [1..<k] vs = xs @ drop k vs" "length xs = k"
    "mset xs = mset (take k vs)" "sorted_wrt in_order xs" by auto
  have k: "k < length vs" using step by simp
  then have d: "drop k vs = vs ! k # drop (Suc k) vs" by (simp add: Cons_nth_drop_Suc)
  have "set xs \<subseteq> set vs" using xs(3) by (metis set_mset_mset set_take_subset)
  then have "list_all ok xs" "ok (vs ! k)" using step.prems(2) k by (auto simp: list_all_iff)
  from sift_left_split [OF xs(2,4) this, of "drop (Suc k) vs"] obtain us ws where
    "xs = us @ ws" "sift_left lt k (xs @ drop k vs) = us @ vs ! k # ws @ drop (Suc k) vs"
    "sorted_wrt in_order (us @ vs ! k # ws)" unfolding d by blast
  moreover have "[1..<Suc k] = [1..<k] @ [k]" using step.hyps by simp
  ultimately show ?case
    using xs(1-3) k by (intro exI [of _ "us @ vs ! k # ws"]) (auto simp: take_Suc_conv_app_nth)
qed

theorem insertion_sort_sorted:
  assumes "list_all ok vs"
  shows "sorted_wrt in_order (insertion_sort lt vs) \<and> mset (insertion_sort lt vs) = mset vs"
proof (cases "vs = []")
  case True
  then show ?thesis by (simp add: insertion_sort_def)
next
  case False
  then have "1 \<le> length vs" by (cases vs) auto
  from sort_prefix [OF this le_refl assms] show ?thesis by (auto simp: insertion_sort_def)
qed

end

end
