(* ===== verification/WorldState.thy ===== *)
theory WorldState
  imports GoTypes GoSort
begin

text \<open>
  The node's \<^verbatim>\<open>internal/state/state.go\<close>: the materialized chain state.  The maps hold pointers in the
  source; here they hold the values, and a function that mutates what it got from the map writes the
  changed value back before it reads the map again.  A loop over a map sees the entries in the order of
  the association list, which stands for any order.
\<close>

section \<open>State\<close>

record WorldState =
  ws_accounts :: "(address, Account) gomap"
  ws_posts :: "(postid, Post) gomap"
  ws_nameIndex :: "(bytes, address) gomap"
  ws_postStakes :: "(postid \<times> address, PostStake) gomap"
  ws_activeValidators :: "ValidatorStake list"
  ws_unbondingQueue :: "UnbondingEntry list"
  ws_slashRecord :: "(address \<times> u64, bool) gomap"
  ws_burnedSupply :: u64
  ws_issuedSupply :: u64
  ws_chainHeight :: u64
  ws_currentEpoch :: u64

definition NewWorldState :: WorldState where
  "NewWorldState = \<lparr>ws_accounts = [], ws_posts = [], ws_nameIndex = [], ws_postStakes = [],
     ws_activeValidators = [], ws_unbondingQueue = [], ws_slashRecord = [], ws_burnedSupply = 0,
     ws_issuedSupply = 0, ws_chainHeight = 0, ws_currentEpoch = 0\<rparr>"

section \<open>Accounts, names, posts\<close>

definition GetAccount :: "WorldState \<Rightarrow> address \<Rightarrow> Account option" where
  "GetAccount ws addr = mget (ws_accounts ws) addr"

definition SetAccount :: "Account \<Rightarrow> WorldState \<Rightarrow> WorldState" where
  "SetAccount acct ws =
     (let ws = ws\<lparr>ws_accounts := mput (acc_Address acct) acct (ws_accounts ws)\<rparr>
      in if acc_Name acct \<noteq> []
         then ws\<lparr>ws_nameIndex := mput (acc_Name acct) (acc_Address acct) (ws_nameIndex ws)\<rparr> else ws)"

definition GetAccountByName :: "WorldState \<Rightarrow> bytes \<Rightarrow> Account option" where
  "GetAccountByName ws name =
     (case mget (ws_nameIndex ws) name of None \<Rightarrow> None | Some addr \<Rightarrow> GetAccount ws addr)"

definition RegisterName :: "address \<Rightarrow> bytes \<Rightarrow> WorldState \<Rightarrow> WorldState" where
  "RegisterName addr name ws = ws\<lparr>ws_nameIndex := mput name addr (ws_nameIndex ws)\<rparr>"

definition GetPost :: "WorldState \<Rightarrow> postid \<Rightarrow> Post option" where
  "GetPost ws i = mget (ws_posts ws) i"

definition SetPost :: "Post \<Rightarrow> WorldState \<Rightarrow> WorldState" where
  "SetPost post ws = ws\<lparr>ws_posts := mput (post_PostID post) post (ws_posts ws)\<rparr>"

section \<open>Post stakes\<close>

definition GetPostStake :: "WorldState \<Rightarrow> postid \<Rightarrow> address \<Rightarrow> PostStake option" where
  "GetPostStake ws postID staker = mget (ws_postStakes ws) (postID, staker)"

definition SetPostStake :: "PostStake \<Rightarrow> WorldState \<Rightarrow> WorldState" where
  "SetPostStake ps ws = ws\<lparr>ws_postStakes := mput (ps_PostID ps, ps_Staker ps) ps (ws_postStakes ws)\<rparr>"

definition RemovePostStake :: "postid \<Rightarrow> address \<Rightarrow> WorldState \<Rightarrow> WorldState" where
  "RemovePostStake postID staker ws = ws\<lparr>ws_postStakes := mdel (postID, staker) (ws_postStakes ws)\<rparr>"

definition GetPostStakers :: "WorldState \<Rightarrow> postid \<Rightarrow> PostStake list" where
  "GetPostStakers ws postID = map snd (filter (\<lambda>(k, v). fst k = postID) (ws_postStakes ws))"

definition GetStakesByAddress :: "WorldState \<Rightarrow> address \<Rightarrow> PostStake list" where
  "GetStakesByAddress ws addr = map snd (filter (\<lambda>(k, v). snd k = addr) (ws_postStakes ws))"

definition AllPostStakes :: "WorldState \<Rightarrow> PostStake list" where
  "AllPostStakes ws = map snd (ws_postStakes ws)"

definition AllAccounts :: "WorldState \<Rightarrow> Account list" where
  "AllAccounts ws = map snd (ws_accounts ws)"

definition AllPosts :: "WorldState \<Rightarrow> Post list" where
  "AllPosts ws = map snd (ws_posts ws)"

section \<open>Counters\<close>

definition SetBurnedSupply :: "u64 \<Rightarrow> WorldState \<Rightarrow> WorldState" where
  "SetBurnedSupply amount ws = ws\<lparr>ws_burnedSupply := amount\<rparr>"

definition SetIssuedSupply :: "u64 \<Rightarrow> WorldState \<Rightarrow> WorldState" where
  "SetIssuedSupply amount ws = ws\<lparr>ws_issuedSupply := amount\<rparr>"

definition SetChainHeight :: "u64 \<Rightarrow> WorldState \<Rightarrow> WorldState" where
  "SetChainHeight h ws = ws\<lparr>ws_chainHeight := h\<rparr>"

definition SetCurrentEpoch :: "u64 \<Rightarrow> WorldState \<Rightarrow> WorldState" where
  "SetCurrentEpoch epoch ws = ws\<lparr>ws_currentEpoch := epoch\<rparr>"

definition SetActiveValidators :: "ValidatorStake list \<Rightarrow> WorldState \<Rightarrow> WorldState" where
  "SetActiveValidators vs ws = ws\<lparr>ws_activeValidators := vs\<rparr>"

section \<open>Unbonding and slashing\<close>

definition AddUnbondingEntry :: "UnbondingEntry \<Rightarrow> WorldState \<Rightarrow> WorldState" where
  "AddUnbondingEntry e ws = ws\<lparr>ws_unbondingQueue := ws_unbondingQueue ws @ [e]\<rparr>"

definition RemoveMaturedUnbonding :: "u64 \<Rightarrow> WorldState \<Rightarrow> UnbondingEntry list \<times> WorldState" where
  "RemoveMaturedUnbonding currentHeight ws =
     (filter (\<lambda>e. unb_ReleaseHeight e \<le> currentHeight) (ws_unbondingQueue ws),
      ws\<lparr>ws_unbondingQueue := filter (\<lambda>e. \<not> unb_ReleaseHeight e \<le> currentHeight) (ws_unbondingQueue ws)\<rparr>)"

definition UnbondingBalanceFor :: "WorldState \<Rightarrow> address \<Rightarrow> u64" where
  "UnbondingBalanceFor ws addr =
     foldl (\<lambda>total e. if unb_Address e = addr then total + unb_Amount e else total) 0 (ws_unbondingQueue ws)"

text \<open>The first loop of \<^verbatim>\<open>SlashUnbonding\<close>, with \<^verbatim>\<open>remaining\<close> as its argument.\<close>

fun slash_entries :: "address \<Rightarrow> u64 \<Rightarrow> UnbondingEntry list \<Rightarrow> UnbondingEntry list" where
  "slash_entries addr remaining [] = []"
| "slash_entries addr remaining (e # es) =
     (if remaining = 0 then e # es
      else if unb_Address e = addr then
        (if unb_Amount e \<le> remaining
         then e\<lparr>unb_Amount := 0\<rparr> # slash_entries addr (remaining - unb_Amount e) es
         else e\<lparr>unb_Amount := unb_Amount e - remaining\<rparr> # slash_entries addr 0 es)
      else e # slash_entries addr remaining es)"

definition SlashUnbonding :: "address \<Rightarrow> u64 \<Rightarrow> WorldState \<Rightarrow> WorldState" where
  "SlashUnbonding addr amount ws =
     ws\<lparr>ws_unbondingQueue :=
       filter (\<lambda>e. unb_Amount e > 0) (slash_entries addr amount (ws_unbondingQueue ws))\<rparr>"

definition HasBeenSlashed :: "WorldState \<Rightarrow> address \<Rightarrow> u64 \<Rightarrow> bool" where
  "HasBeenSlashed ws addr height = (mget (ws_slashRecord ws) (addr, height) = Some True)"

definition RecordSlash :: "address \<Rightarrow> u64 \<Rightarrow> WorldState \<Rightarrow> WorldState" where
  "RecordSlash addr height ws = ws\<lparr>ws_slashRecord := mput (addr, height) True (ws_slashRecord ws)\<rparr>"

section \<open>The validator set\<close>

fun compareAddrs :: "bytes \<Rightarrow> bytes \<Rightarrow> int" where
  "compareAddrs (a # as) (b # bs) = (if a < b then - 1 else if a > b then 1 else compareAddrs as bs)"
| "compareAddrs _ _ = 0"

definition addr_less :: "ValidatorStake \<Rightarrow> ValidatorStake \<Rightarrow> bool" where
  "addr_less v w \<longleftrightarrow> compareAddrs (val_Address v) (val_Address w) < 0"

definition sortValidatorSet :: "ValidatorStake list \<Rightarrow> ValidatorStake list" where
  "sortValidatorSet vs = insertion_sort addr_less vs"

definition pubKeyForAccount :: "WorldState \<Rightarrow> address \<Rightarrow> pubkey" where
  "pubKeyForAccount ws addr =
     (case find (\<lambda>v. val_Address v = addr) (ws_activeValidators ws) of
        Some v \<Rightarrow> val_PubKey v
      | None \<Rightarrow> replicate 32 0)"

definition ComputeActiveValidatorSet :: "u64 \<Rightarrow> WorldState \<Rightarrow> ValidatorStake list" where
  "ComputeActiveValidatorSet minStake ws =
     sortValidatorSet
       (map (\<lambda>acct. \<lparr>val_Address = acc_Address acct, val_PubKey = pubKeyForAccount ws (acc_Address acct),
                     val_StakedBalance = acc_StakedBalance acct\<rparr>)
         (filter (\<lambda>acct. acc_StakedBalance acct \<ge> minStake) (AllAccounts ws)))"

definition TotalActiveStake :: "WorldState \<Rightarrow> u64" where
  "TotalActiveStake ws = foldl (\<lambda>total v. total + val_StakedBalance v) 0 (ws_activeValidators ws)"

fun set_first_pubkey :: "address \<Rightarrow> pubkey \<Rightarrow> ValidatorStake list \<Rightarrow> ValidatorStake list" where
  "set_first_pubkey addr pk [] = []"
| "set_first_pubkey addr pk (v # vs) =
     (if val_Address v = addr then v\<lparr>val_PubKey := pk\<rparr> # vs else v # set_first_pubkey addr pk vs)"

definition SetValidatorPubKey :: "address \<Rightarrow> pubkey \<Rightarrow> WorldState \<Rightarrow> WorldState" where
  "SetValidatorPubKey addr pubKey ws =
     ws\<lparr>ws_activeValidators := set_first_pubkey addr pubKey (ws_activeValidators ws)\<rparr>"

text \<open>\<^verbatim>\<open>Clone\<close>: every entry is copied, so the copy is the same value.\<close>

definition Clone :: "WorldState \<Rightarrow> WorldState" where
  "Clone ws =
     \<lparr>ws_accounts = map (\<lambda>(k, v). (k, v)) (ws_accounts ws), ws_posts = map (\<lambda>(k, v). (k, v)) (ws_posts ws),
      ws_nameIndex = map (\<lambda>(k, v). (k, v)) (ws_nameIndex ws),
      ws_postStakes = map (\<lambda>(k, v). (k, v)) (ws_postStakes ws),
      ws_activeValidators = ws_activeValidators ws, ws_unbondingQueue = ws_unbondingQueue ws,
      ws_slashRecord = map (\<lambda>(k, v). (k, v)) (ws_slashRecord ws), ws_burnedSupply = ws_burnedSupply ws,
      ws_issuedSupply = ws_issuedSupply ws, ws_chainHeight = ws_chainHeight ws,
      ws_currentEpoch = ws_currentEpoch ws\<rparr>"

section \<open>Facts\<close>

lemma Clone_eq [simp]: "Clone ws = ws"
  by (simp add: Clone_def)

lemma GetAccount_SetAccount [simp]:
  "GetAccount (SetAccount acct ws) a = (if a = acc_Address acct then Some acct else GetAccount ws a)"
  by (simp add: GetAccount_def SetAccount_def Let_def)

lemma SetAccount_frame [simp]:
  "ws_posts (SetAccount a ws) = ws_posts ws"
  "ws_postStakes (SetAccount a ws) = ws_postStakes ws"
  "ws_activeValidators (SetAccount a ws) = ws_activeValidators ws"
  "ws_unbondingQueue (SetAccount a ws) = ws_unbondingQueue ws"
  "ws_slashRecord (SetAccount a ws) = ws_slashRecord ws"
  "ws_burnedSupply (SetAccount a ws) = ws_burnedSupply ws"
  "ws_issuedSupply (SetAccount a ws) = ws_issuedSupply ws"
  "ws_chainHeight (SetAccount a ws) = ws_chainHeight ws"
  "ws_currentEpoch (SetAccount a ws) = ws_currentEpoch ws"
  "ws_accounts (SetAccount a ws) = mput (acc_Address a) a (ws_accounts ws)"
  by (simp_all add: SetAccount_def Let_def)

subsection \<open>Sorting\<close>

text \<open>Addresses of one length are linearly ordered by \<^verbatim>\<open>compareAddrs\<close>.\<close>

lemma compareAddrs_range: "compareAddrs a b \<in> {- 1, 0, 1}"
  by (induction a b rule: compareAddrs.induct) auto

lemma compareAddrs_0: "length a = length b \<Longrightarrow> compareAddrs a b = 0 \<longleftrightarrow> a = b"
  by (induction a b rule: compareAddrs.induct) (auto simp: length_Suc_conv)

lemma compareAddrs_neg: "length a = length b \<Longrightarrow> compareAddrs b a = - compareAddrs a b"
  by (induction a b rule: compareAddrs.induct) auto

lemma compareAddrs_trans:
  "length a = length b \<Longrightarrow> length b = length c \<Longrightarrow> compareAddrs a b \<le> 0 \<Longrightarrow> compareAddrs b c \<le> 0
    \<Longrightarrow> compareAddrs a c \<le> 0"
proof (induction a b arbitrary: c rule: compareAddrs.induct)
  case (1 a as b bs)
  then obtain d ds where "c = d # ds" by (cases c) auto
  with 1 show ?case by (auto split: if_splits)
qed (auto simp: length_Suc_conv)

definition addr_le :: "ValidatorStake \<Rightarrow> ValidatorStake \<Rightarrow> bool" where
  "addr_le v w \<longleftrightarrow> compareAddrs (val_Address v) (val_Address w) \<le> 0"

definition addrs24 :: "ValidatorStake list \<Rightarrow> bool" where
  "addrs24 vs \<longleftrightarrow> list_all (\<lambda>v. length (val_Address v) = 24) vs"

interpretation vs: sort_order addr_less "\<lambda>v. length (val_Address v) = 24"
proof
  fix x y z :: ValidatorStake
  assume len: "length (val_Address x) = 24" "length (val_Address y) = 24" "length (val_Address z) = 24"
  show "\<not> addr_less y x" if "addr_less x y"
    using that len compareAddrs_neg [of "val_Address x" "val_Address y"] by (simp add: addr_less_def)
  show "\<not> addr_less z x" if "\<not> addr_less y x" "\<not> addr_less z y"
    using that len compareAddrs_neg [of "val_Address x" "val_Address y"]
      compareAddrs_neg [of "val_Address y" "val_Address z"] compareAddrs_neg [of "val_Address x" "val_Address z"]
      compareAddrs_trans [of "val_Address x" "val_Address y" "val_Address z"]
    by (simp add: addr_less_def)
qed

lemma in_order_addr_le:
  "length (val_Address v) = 24 \<Longrightarrow> length (val_Address w) = 24 \<Longrightarrow> vs.in_order v w \<longleftrightarrow> addr_le v w"
  using compareAddrs_neg [of "val_Address v" "val_Address w"]
  by (simp add: vs.in_order_def addr_less_def addr_le_def not_less)

lemma sortValidatorSet_sorted:
  assumes "addrs24 vs"
  shows "sorted_wrt addr_le (sortValidatorSet vs) \<and> mset (sortValidatorSet vs) = mset vs"
proof -
  have s: "sorted_wrt vs.in_order (sortValidatorSet vs)" "mset (sortValidatorSet vs) = mset vs"
    using vs.insertion_sort_sorted [of vs] assms by (simp_all add: sortValidatorSet_def addrs24_def)
  then have "length (val_Address v) = 24" if "v \<in> set (sortValidatorSet vs)" for v
    using that assms mset_eq_setD [OF s(2)] by (simp add: addrs24_def list_all_iff)
  then have "sorted_wrt addr_le (sortValidatorSet vs)"
    by (intro sorted_wrt_mono_rel [OF _ s(1)]) (simp add: in_order_addr_le)
  with s(2) show ?thesis by blast
qed

lemma sorted_same_set:
  assumes "sorted_wrt addr_le vs" "sorted_wrt addr_le us" "set vs = set us"
    and "distinct (map val_Address vs)" "distinct (map val_Address us)" "addrs24 vs"
  shows "vs = us"
  using assms
proof (induction vs arbitrary: us)
  case Nil
  then show ?case by simp
next
  case (Cons v vs)
  then obtain u us' where us: "us = u # us'" by (cases us) auto
  have len: "length (val_Address x) = 24" if "x \<in> set (v # vs)" for x
    using Cons.prems(6) that by (auto simp: addrs24_def list_all_iff)
  have "v = u"
  proof (rule ccontr)
    assume "v \<noteq> u"
    then have "u \<in> set vs" "v \<in> set us'" using Cons.prems(3) us by auto
    then have "addr_le v u" "addr_le u v" using Cons.prems(1,2) us by auto
    then have "val_Address v = val_Address u"
      using compareAddrs_neg [of "val_Address v" "val_Address u"] compareAddrs_0 [of "val_Address v" "val_Address u"]
        len [of v] len [of u] \<open>u \<in> set vs\<close> by (simp add: addr_le_def)
    then show False using Cons.prems(4) \<open>u \<in> set vs\<close> by auto
  qed
  moreover have "v \<notin> set vs" "u \<notin> set us'" using Cons.prems(4,5) us by auto
  ultimately have "set vs = set us'" using Cons.prems(3) us by auto
  with Cons.IH [of us'] Cons.prems us \<open>v = u\<close> show ?case by (simp add: addrs24_def)
qed

text \<open>The keys of the account map: 24 bytes, equal to the address inside.\<close>

definition accounts_keyed :: "WorldState \<Rightarrow> bool" where
  "accounts_keyed ws \<longleftrightarrow> mok (ws_accounts ws)
     \<and> (\<forall>(k, a)\<in>set (ws_accounts ws). acc_Address a = k \<and> length k = 24)"

definition validator_of :: "WorldState \<Rightarrow> Account \<Rightarrow> ValidatorStake" where
  "validator_of ws acct = \<lparr>val_Address = acc_Address acct,
     val_PubKey = pubKeyForAccount ws (acc_Address acct), val_StakedBalance = acc_StakedBalance acct\<rparr>"

lemma active_set_facts:
  assumes "accounts_keyed ws"
  shows "set (ComputeActiveValidatorSet m ws)
      = {validator_of ws acct | acct a. GetAccount ws a = Some acct \<and> m \<le> acc_StakedBalance acct}"
    "sorted_wrt addr_le (ComputeActiveValidatorSet m ws)"
    "distinct (map val_Address (ComputeActiveValidatorSet m ws))"
    "addrs24 (ComputeActiveValidatorSet m ws)"
proof -
  define acs where "acs = filter (\<lambda>acct. acc_StakedBalance acct \<ge> m) (AllAccounts ws)"
  have eq: "ComputeActiveValidatorSet m ws = sortValidatorSet (map (validator_of ws) acs)"
    by (simp add: ComputeActiveValidatorSet_def acs_def validator_of_def [abs_def])
  have keys: "map acc_Address (AllAccounts ws) = map fst (ws_accounts ws)"
    using assms by (auto simp: AllAccounts_def accounts_keyed_def)
  then have dist: "distinct (map acc_Address (AllAccounts ws))"
    using assms by (simp add: accounts_keyed_def mok_def)
  have a24: "addrs24 (map (validator_of ws) acs)"
    using assms by (auto simp: addrs24_def list_all_iff acs_def AllAccounts_def accounts_keyed_def validator_of_def)
  note s = sortValidatorSet_sorted [OF a24]
  show "sorted_wrt addr_le (ComputeActiveValidatorSet m ws)" using s eq by simp
  have m: "mset (ComputeActiveValidatorSet m ws) = mset (map (validator_of ws) acs)" using s eq by simp
  then have st: "set (ComputeActiveValidatorSet m ws) = set (map (validator_of ws) acs)"
    by (metis set_mset_mset)
  then show "addrs24 (ComputeActiveValidatorSet m ws)" using a24 by (auto simp: addrs24_def list_all_iff)
  have "mset (map val_Address (ComputeActiveValidatorSet m ws)) = mset (map acc_Address acs)"
    using arg_cong [OF m, of "image_mset val_Address"] by (simp add: validator_of_def image_mset.compositionality comp_def)
  moreover have "distinct (map acc_Address acs)"
    using dist by (auto simp: acs_def distinct_map_filter)
  ultimately show "distinct (map val_Address (ComputeActiveValidatorSet m ws))"
    by (metis mset_eq_imp_distinct_iff)
  have "acct \<in> set (AllAccounts ws) \<longleftrightarrow> (\<exists>a. GetAccount ws a = Some acct)" for acct
    using assms by (force simp: AllAccounts_def GetAccount_def accounts_keyed_def mok_def)
  with st show "set (ComputeActiveValidatorSet m ws)
      = {validator_of ws acct | acct a. GetAccount ws a = Some acct \<and> m \<le> acc_StakedBalance acct}"
    by (auto simp: acs_def)
qed

text \<open>
  C24: the validator set of an epoch depends only on the accounts and the previous set, not on the order in
  which the node's map happens to list the accounts: it is sorted by address, so every node computes
  the same list.
\<close>

theorem active_set_deterministic:
  assumes "accounts_keyed ws" "accounts_keyed ws'" "GetAccount ws = GetAccount ws'"
    and "ws_activeValidators ws = ws_activeValidators ws'"
  shows "ComputeActiveValidatorSet m ws = ComputeActiveValidatorSet m ws'"
proof (rule sorted_same_set)
  have "validator_of ws = validator_of ws'"
    using assms(4) by (simp add: fun_eq_iff validator_of_def pubKeyForAccount_def)
  then show "set (ComputeActiveValidatorSet m ws) = set (ComputeActiveValidatorSet m ws')"
    using assms(3) by (simp add: active_set_facts assms(1,2))
qed (simp_all add: active_set_facts assms)

definition two_accounts :: "bool \<Rightarrow> WorldState" where
  "two_accounts swap =
     (let x = (replicate 24 1, (newAccount (replicate 24 1))\<lparr>acc_StakedBalance := 7\<rparr>);
          y = (replicate 24 2, (newAccount (replicate 24 2))\<lparr>acc_StakedBalance := 9\<rparr>)
      in NewWorldState\<lparr>ws_accounts := if swap then [y, x] else [x, y]\<rparr>)"

theorem active_set_deterministic_witness:
  "map val_StakedBalance (ComputeActiveValidatorSet 5 (two_accounts True)) = [7, 9]
   \<and> ComputeActiveValidatorSet 5 (two_accounts True) = ComputeActiveValidatorSet 5 (two_accounts False)"
proof
  show "map val_StakedBalance (ComputeActiveValidatorSet 5 (two_accounts True)) = [7, 9]" by code_simp
  have "(replicate 24 1 :: address) \<noteq> replicate 24 2" by code_simp
  then show "ComputeActiveValidatorSet 5 (two_accounts True) = ComputeActiveValidatorSet 5 (two_accounts False)"
    by (intro active_set_deterministic)
      (auto simp: two_accounts_def accounts_keyed_def mok_def GetAccount_def NewWorldState_def Let_def fun_eq_iff)
qed

end
