(* ===== verification/Executor.thy ===== *)
theory Executor
  imports Validation WorldState
begin

text \<open>
  The node's \<^verbatim>\<open>internal/state/executor.go\<close>: the effect of every transaction type, of slashing evidence and of
  a whole block on the chain state.  Balances are 64-bit words and every addition and subtraction is the
  wrapping one of the source; the theory \<^verbatim>\<open>Ledger\<close> shows that none of them wraps.
\<close>

section \<open>Errors\<close>

datatype exec_error =
    UnknownType TxType
  | AccountNotFound
  | BalanceUnderflow
  | PostNotFound
  | NoStake
  | InsufficientStakedBalance
  | DivisionPanic

datatype block_error =
    TxValidationFailed nat tx_error
  | TxApplyFailed nat exec_error

definition ws_reader :: "WorldState \<Rightarrow> StateReader" where
  "ws_reader ws = \<lparr>sr_GetAccount = GetAccount ws, sr_GetPost = GetPost ws,
     sr_GetAccountByName = GetAccountByName ws, sr_GetPostStake = GetPostStake ws\<rparr>"

definition mul_div :: "u64 \<Rightarrow> u64 \<Rightarrow> u64 \<Rightarrow> (exec_error, u64) result" where
  "mul_div a b c = (case MulDiv a b c of None \<Rightarrow> Inl DivisionPanic | Some q \<Rightarrow> Inr q)"

section \<open>Transactions\<close>

text \<open>
  \<^verbatim>\<open>applyTransfer\<close>: the three assignments go through the pointers of the map, so a recipient that is the
  sender is read after the debit, and the nonce after the credit.
\<close>

definition applyTransfer :: "WorldState \<Rightarrow> Transaction \<Rightarrow> (exec_error, WorldState) result" where
  "applyTransfer ws tx =
     (case GetAccount ws (tx_Sender tx) of
        None \<Rightarrow> Inl AccountNotFound
      | Some sender \<Rightarrow>
          if acc_Balance sender < tx_Amount tx then Inl BalanceUnderflow
          else if tx_Recipient tx = tx_Sender tx
          then Inr (SetAccount (sender\<lparr>acc_Balance := acc_Balance sender - tx_Amount tx + tx_Amount tx,
                                       acc_Nonce := acc_Nonce sender + 1\<rparr>) ws)
          else (let recipient = (case GetAccount ws (tx_Recipient tx) of
                                   Some r \<Rightarrow> r | None \<Rightarrow> newAccount (tx_Recipient tx));
                    sender = sender\<lparr>acc_Balance := acc_Balance sender - tx_Amount tx,
                                    acc_Nonce := acc_Nonce sender + 1\<rparr>;
                    recipient = recipient\<lparr>acc_Balance := acc_Balance recipient + tx_Amount tx\<rparr>
                in Inr (SetAccount recipient (SetAccount sender ws))))"

definition applyCreatePost ::
    "prims \<Rightarrow> GenesisConfig \<Rightarrow> WorldState \<Rightarrow> Transaction \<Rightarrow> u64 \<Rightarrow> u64 \<Rightarrow> (exec_error, WorldState) result" where
  "applyCreatePost P params ws tx blockHeight blockTime =
     (case GetAccount ws (tx_Sender tx) of
        None \<Rightarrow> Inl AccountNotFound
      | Some author \<Rightarrow>
          if acc_Balance author < tx_Amount tx then Inl BalanceUnderflow
          else (let feePercent = (if gc_PostFeePercent params = 0 then 6 else gc_PostFeePercent params) in
                bindR (mul_div (tx_Amount tx) feePercent 100) (\<lambda>fee.
                let staked = tx_Amount tx - fee;
                    postID = DerivePostID P (tx_Sender tx) (acc_Nonce author + 1);
                    post = \<lparr>post_PostID = postID, post_Author = tx_Sender tx, post_Text = tx_Text tx,
                            post_Channel = tx_Channel tx, post_ParentPostID = tx_PostID tx,
                            post_CreatedAtHeight = blockHeight, post_CreatedAtTime = blockTime,
                            post_TotalStaked = staked, post_TotalBurned = fee, post_StakerCount = 1,
                            post_Withdrawn = False\<rparr>;
                    author = author\<lparr>acc_Balance := acc_Balance author - tx_Amount tx,
                                    acc_PostStakeBalance := acc_PostStakeBalance author + staked,
                                    acc_Nonce := acc_Nonce author + 1\<rparr>;
                    ws = SetAccount author ws;
                    ws = SetPost post ws;
                    ws = SetPostStake \<lparr>ps_PostID = postID, ps_Staker = tx_Sender tx, ps_Amount = staked,
                                       ps_Height = blockHeight\<rparr> ws
                in Inr (SetBurnedSupply (ws_burnedSupply ws + fee) ws))))"

text \<open>\<open>acct.Balance += amount\<close> for an account that may be missing.\<close>

definition credit_if_present :: "address \<Rightarrow> u64 \<Rightarrow> WorldState \<Rightarrow> WorldState" where
  "credit_if_present a amount ws =
     (case GetAccount ws a of
        None \<Rightarrow> ws
      | Some acct \<Rightarrow> SetAccount (acct\<lparr>acc_Balance := acc_Balance acct + amount\<rparr>) ws)"

fun pay_stakers :: "u64 \<Rightarrow> u64 \<Rightarrow> PostStake list \<Rightarrow> WorldState \<Rightarrow> (exec_error, WorldState) result" where
  "pay_stakers stakerReward totalStaked [] ws = Inr ws"
| "pay_stakers stakerReward totalStaked (s # ss) ws =
     bindR (mul_div stakerReward (ps_Amount s) totalStaked) (\<lambda>share.
       pay_stakers stakerReward totalStaked ss
         (if share > 0 then credit_if_present (ps_Staker s) share ws else ws))"

text \<open>The percentages, with the defaults when all three are zero.\<close>

definition boost_percents :: "GenesisConfig \<Rightarrow> u64 \<times> u64 \<times> u64" where
  "boost_percents params =
     (if gc_BoostBurnPercent params = 0 \<and> gc_BoostAuthorPercent params = 0 \<and> gc_BoostStakerPercent params = 0
      then (3, 2, 1)
      else (gc_BoostBurnPercent params, gc_BoostAuthorPercent params, gc_BoostStakerPercent params))"

definition applyBoostPost ::
    "GenesisConfig \<Rightarrow> WorldState \<Rightarrow> Transaction \<Rightarrow> u64 \<Rightarrow> (exec_error, WorldState) result" where
  "applyBoostPost params ws tx blockHeight =
     (case GetAccount ws (tx_Sender tx) of
        None \<Rightarrow> Inl AccountNotFound
      | Some booster \<Rightarrow>
          if acc_Balance booster < tx_Amount tx then Inl BalanceUnderflow
          else case GetPost ws (tx_PostID tx) of
            None \<Rightarrow> Inl PostNotFound
          | Some post \<Rightarrow>
              (let (burnPct, authorPct, stakerPct) = boost_percents params in
               bindR (mul_div (tx_Amount tx) burnPct 100) (\<lambda>burnAmount.
               bindR (mul_div (tx_Amount tx) authorPct 100) (\<lambda>authorReward.
               bindR (mul_div (tx_Amount tx) stakerPct 100) (\<lambda>stakerReward.
               let staked = tx_Amount tx - burnAmount - authorReward - stakerReward;
                   booster = booster\<lparr>acc_Balance := acc_Balance booster - tx_Amount tx,
                                     acc_PostStakeBalance := acc_PostStakeBalance booster + staked,
                                     acc_Nonce := acc_Nonce booster + 1\<rparr>;
                   ws = SetAccount booster ws;
                   ws = SetBurnedSupply (ws_burnedSupply ws + burnAmount) ws;
                   ws = (if authorReward > 0 then credit_if_present (post_Author post) authorReward ws else ws)
               in bindR (if stakerReward > 0 \<and> post_TotalStaked post > 0
                         then pay_stakers stakerReward (post_TotalStaked post) (GetPostStakers ws (tx_PostID tx)) ws
                         else Inr ws) (\<lambda>ws.
               let post = post\<lparr>post_TotalStaked := post_TotalStaked post + staked,
                               post_TotalBurned := post_TotalBurned post + burnAmount\<rparr>
               in case GetPostStake ws (tx_PostID tx) (tx_Sender tx) of
                    Some existing \<Rightarrow>
                      Inr (SetPost post (SetPostStake (existing\<lparr>ps_Amount := ps_Amount existing + staked\<rparr>) ws))
                  | None \<Rightarrow>
                      Inr (SetPost (post\<lparr>post_StakerCount := post_StakerCount post + 1\<rparr>)
                        (SetPostStake \<lparr>ps_PostID = tx_PostID tx, ps_Staker = tx_Sender tx, ps_Amount = staked,
                                       ps_Height = blockHeight\<rparr> ws))))))))"

text \<open>The loop of \<^verbatim>\<open>applyUnstakePost\<close> over the other stakers of a withdrawn post.\<close>

fun refund_stakers :: "postid \<Rightarrow> PostStake list \<Rightarrow> Post \<times> WorldState \<Rightarrow> Post \<times> WorldState" where
  "refund_stakers i [] pw = pw"
| "refund_stakers i (s # ss) (post, ws) =
     (let ws = (case GetAccount ws (ps_Staker s) of
                  None \<Rightarrow> ws
                | Some other \<Rightarrow>
                    SetAccount (other\<lparr>acc_Balance := acc_Balance other + ps_Amount s,
                                      acc_PostStakeBalance := acc_PostStakeBalance other - ps_Amount s\<rparr>) ws);
          post = post\<lparr>post_TotalStaked := post_TotalStaked post - ps_Amount s,
                      post_StakerCount := post_StakerCount post - 1\<rparr>
      in refund_stakers i ss (post, RemovePostStake i (ps_Staker s) ws))"

definition applyUnstakePost :: "WorldState \<Rightarrow> Transaction \<Rightarrow> (exec_error, WorldState) result" where
  "applyUnstakePost ws tx =
     (case GetAccount ws (tx_Sender tx) of
        None \<Rightarrow> Inl AccountNotFound
      | Some sender \<Rightarrow>
          (case GetPostStake ws (tx_PostID tx) (tx_Sender tx) of
             None \<Rightarrow> Inl NoStake
           | Some stake \<Rightarrow>
               (case GetPost ws (tx_PostID tx) of
                  None \<Rightarrow> Inl PostNotFound
                | Some post \<Rightarrow>
                    (let sender = sender\<lparr>acc_Balance := acc_Balance sender + ps_Amount stake,
                                         acc_PostStakeBalance := acc_PostStakeBalance sender - ps_Amount stake,
                                         acc_Nonce := acc_Nonce sender + 1\<rparr>;
                         ws = SetAccount sender ws;
                         post = post\<lparr>post_TotalStaked := post_TotalStaked post - ps_Amount stake,
                                     post_StakerCount := post_StakerCount post - 1\<rparr>;
                         ws = RemovePostStake (tx_PostID tx) (tx_Sender tx) ws;
                         (post, ws) =
                           (if tx_Sender tx = post_Author post
                            then refund_stakers (tx_PostID tx) (GetPostStakers ws (tx_PostID tx))
                                   (post\<lparr>post_Withdrawn := True\<rparr>, ws)
                            else (post, ws))
                     in Inr (SetPost post ws)))))"

definition applyStake :: "WorldState \<Rightarrow> Transaction \<Rightarrow> (exec_error, WorldState) result" where
  "applyStake ws tx =
     (case GetAccount ws (tx_Sender tx) of
        None \<Rightarrow> Inl AccountNotFound
      | Some sender \<Rightarrow>
          if acc_Balance sender < tx_Amount tx then Inl BalanceUnderflow
          else (let sender = sender\<lparr>acc_Balance := acc_Balance sender - tx_Amount tx,
                                    acc_StakedBalance := acc_StakedBalance sender + tx_Amount tx,
                                    acc_Nonce := acc_Nonce sender + 1\<rparr>
                in Inr (SetValidatorPubKey (tx_Sender tx) (tx_PubKey tx) (SetAccount sender ws))))"

definition applyUnstake ::
    "GenesisConfig \<Rightarrow> WorldState \<Rightarrow> Transaction \<Rightarrow> u64 \<Rightarrow> (exec_error, WorldState) result" where
  "applyUnstake params ws tx blockHeight =
     (case GetAccount ws (tx_Sender tx) of
        None \<Rightarrow> Inl AccountNotFound
      | Some sender \<Rightarrow>
          if acc_StakedBalance sender < tx_Amount tx then Inl InsufficientStakedBalance
          else (let sender = sender\<lparr>acc_StakedBalance := acc_StakedBalance sender - tx_Amount tx,
                                    acc_Nonce := acc_Nonce sender + 1\<rparr>
                in Inr (AddUnbondingEntry
                     \<lparr>unb_Address = tx_Sender tx, unb_Amount = tx_Amount tx,
                      unb_ReleaseHeight = blockHeight + gc_UnbondingPeriod params\<rparr> (SetAccount sender ws))))"

definition applyRegisterName :: "WorldState \<Rightarrow> Transaction \<Rightarrow> (exec_error, WorldState) result" where
  "applyRegisterName ws tx =
     (case GetAccount ws (tx_Sender tx) of
        None \<Rightarrow> Inl AccountNotFound
      | Some sender \<Rightarrow>
          (let sender = sender\<lparr>acc_Nonce := acc_Nonce sender + 1, acc_Name := tx_Text tx\<rparr>
           in Inr (RegisterName (tx_Sender tx) (tx_Text tx) (SetAccount sender ws))))"

definition ApplyTransaction ::
    "prims \<Rightarrow> GenesisConfig \<Rightarrow> WorldState \<Rightarrow> Transaction \<Rightarrow> u64 \<Rightarrow> u64 \<Rightarrow> (exec_error, WorldState) result" where
  "ApplyTransaction P params ws tx blockHeight blockTime =
     (if tx_Type tx = TxTransfer then applyTransfer ws tx
      else if tx_Type tx = TxCreatePost then applyCreatePost P params ws tx blockHeight blockTime
      else if tx_Type tx = TxBoostPost then applyBoostPost params ws tx blockHeight
      else if tx_Type tx = TxUnstakePost then applyUnstakePost ws tx
      else if tx_Type tx = TxRegisterName then applyRegisterName ws tx
      else if tx_Type tx = TxStake then applyStake ws tx
      else if tx_Type tx = TxUnstake then applyUnstake params ws tx blockHeight
      else Inl (UnknownType (tx_Type tx)))"

section \<open>Evidence\<close>

text \<open>The divisor is the constant 100, so \<^verbatim>\<open>MulDiv\<close> does not panic and its last case is never taken.\<close>

definition slash_amount :: "GenesisConfig \<Rightarrow> u64 \<Rightarrow> u64" where
  "slash_amount params totalAtRisk =
     (case MulDiv totalAtRisk (gc_SlashFractionDoubleSign params) 100 of
        Some a \<Rightarrow> if a = 0 then 1 else a
      | None \<Rightarrow> 1)"

definition applySlashEvidence :: "prims \<Rightarrow> GenesisConfig \<Rightarrow> SlashEvidence \<Rightarrow> WorldState \<Rightarrow> WorldState" where
  "applySlashEvidence P params ev ws =
     (let addr = vote_VoterAddr (ev_VoteA ev); height = vote_Height (ev_VoteA ev) in
      if \<not> SlashEvidence_IsValid P ev then ws
      else if HasBeenSlashed ws addr height then ws
      else case GetAccount ws addr of
        None \<Rightarrow> ws
      | Some acct \<Rightarrow>
          (let totalAtRisk = acc_StakedBalance acct + UnbondingBalanceFor ws addr in
           if totalAtRisk = 0 then ws
           else (let slashAmount = slash_amount params totalAtRisk;
                     fromStake = (if slashAmount > acc_StakedBalance acct then acc_StakedBalance acct else slashAmount);
                     remaining = slashAmount - fromStake;
                     ws = SetAccount (acct\<lparr>acc_StakedBalance := acc_StakedBalance acct - fromStake\<rparr>) ws;
                     ws = (if remaining > 0 then SlashUnbonding addr remaining ws else ws);
                     ws = RecordSlash addr height ws
                 in SetBurnedSupply (ws_burnedSupply ws + slashAmount) ws)))"

section \<open>Blocks\<close>

definition credit_or_create :: "address \<Rightarrow> u64 \<Rightarrow> WorldState \<Rightarrow> WorldState" where
  "credit_or_create a amount ws =
     (let acct = (case GetAccount ws a of Some acct \<Rightarrow> acct | None \<Rightarrow> newAccount a)
      in SetAccount (acct\<lparr>acc_Balance := acc_Balance acct + amount\<rparr>) ws)"

definition release_unbonding :: "u64 \<Rightarrow> WorldState \<Rightarrow> WorldState" where
  "release_unbonding height ws =
     (let (matured, ws) = RemoveMaturedUnbonding height ws
      in fold (\<lambda>entry. credit_or_create (unb_Address entry) (unb_Amount entry)) matured ws)"

fun apply_txs ::
    "prims \<Rightarrow> norm \<Rightarrow> GenesisConfig \<Rightarrow> BlockHeader \<Rightarrow> nat \<Rightarrow> Transaction list \<Rightarrow> WorldState
      \<Rightarrow> (block_error, WorldState) result" where
  "apply_txs P N params hdr i [] ws = Inr ws"
| "apply_txs P N params hdr i (tx # txs) ws =
     (case ValidateTransaction P N tx (ws_reader ws) params of
        Inl err \<Rightarrow> Inl (TxValidationFailed i err)
      | Inr _ \<Rightarrow>
          (case ApplyTransaction P params ws tx (hdr_Height hdr) (hdr_Timestamp hdr) of
             Inl err \<Rightarrow> Inl (TxApplyFailed i err)
           | Inr ws' \<Rightarrow> apply_txs P N params hdr (Suc i) txs ws'))"

definition block_reward :: "GenesisConfig \<Rightarrow> address \<Rightarrow> WorldState \<Rightarrow> WorldState" where
  "block_reward params proposer ws =
     (if gc_BlockReward params > 0
      then (let ws = credit_or_create proposer (gc_BlockReward params) ws
            in SetIssuedSupply (ws_issuedSupply ws + gc_BlockReward params) ws)
      else ws)"

definition epoch_transition :: "GenesisConfig \<Rightarrow> u64 \<Rightarrow> WorldState \<Rightarrow> WorldState" where
  "epoch_transition params height ws =
     (if gc_EpochLength params > 0 \<and> height > 0 \<and> height mod gc_EpochLength params = 0
      then (let newSet = ComputeActiveValidatorSet (gc_MinStake params) ws
            in SetCurrentEpoch (height div gc_EpochLength params) (SetActiveValidators newSet ws))
      else ws)"

definition ApplyBlock ::
    "prims \<Rightarrow> norm \<Rightarrow> GenesisConfig \<Rightarrow> WorldState \<Rightarrow> Block \<Rightarrow> (block_error, WorldState) result" where
  "ApplyBlock P N params ws block =
     (let hdr = blk_Header block;
          clone = Clone ws;
          clone = release_unbonding (hdr_Height hdr) clone;
          clone = fold (applySlashEvidence P params) (blk_Evidence block) clone
      in bindR (apply_txs P N params hdr 0 (blk_Transactions block) clone) (\<lambda>clone.
         let clone = block_reward params (hdr_ProposerAddr hdr) clone;
             clone = epoch_transition params (hdr_Height hdr) clone
         in Inr (SetChainHeight (hdr_Height hdr) clone)))"

section \<open>stateroot.go\<close>

fun compareBytes :: "bytes \<Rightarrow> bytes \<Rightarrow> int" where
  "compareBytes (a # as) (b # bs) = (if a < b then - 1 else if a > b then 1 else compareBytes as bs)"
| "compareBytes as bs = int (length as) - int (length bs)"

text \<open>\<^verbatim>\<open>sort.Slice\<close> with a strict order on keys that do not repeat: insertion gives the one sorted list.\<close>

fun insert_by :: "('a \<Rightarrow> 'a \<Rightarrow> bool) \<Rightarrow> 'a \<Rightarrow> 'a list \<Rightarrow> 'a list" where
  "insert_by lt x [] = [x]"
| "insert_by lt x (y # ys) = (if lt x y then x # y # ys else y # insert_by lt x ys)"

definition sort_slice :: "('a \<Rightarrow> 'a \<Rightarrow> bool) \<Rightarrow> 'a list \<Rightarrow> 'a list" where
  "sort_slice lt xs = foldr (insert_by lt) xs []"

definition stake_less :: "PostStake \<Rightarrow> PostStake \<Rightarrow> bool" where
  "stake_less s t =
     (let c = compareBytes (ps_PostID s) (ps_PostID t)
      in if c \<noteq> 0 then c < 0 else compareBytes (ps_Staker s) (ps_Staker t) < 0)"

definition write_all :: "('a \<Rightarrow> HashWriter \<Rightarrow> HashWriter) \<Rightarrow> 'a list \<Rightarrow> HashWriter \<Rightarrow> HashWriter" where
  "write_all f xs hw = fold f xs (WriteUint64 (of_nat (length xs)) hw)"

definition write_account :: "Account \<Rightarrow> HashWriter \<Rightarrow> HashWriter" where
  "write_account a hw = WriteUint64 (acc_StakedBalance a) (WriteString (acc_Name a)
     (WriteUint64 (acc_Nonce a) (WriteUint64 (acc_Balance a) (WriteBytes (acc_Address a) hw))))"

definition write_post :: "Post \<Rightarrow> HashWriter \<Rightarrow> HashWriter" where
  "write_post p hw =
     (let hw = WriteBytes (post_PostID p) hw; hw = WriteBytes (post_Author p) hw;
          hw = WriteString (post_Text p) hw; hw = WriteString (post_Channel p) hw;
          hw = WriteBytes (post_ParentPostID p) hw; hw = WriteUint64 (post_CreatedAtHeight p) hw;
          hw = WriteInt64 (post_CreatedAtTime p) hw; hw = WriteUint64 (post_TotalStaked p) hw;
          hw = WriteUint64 (post_TotalBurned p) hw; hw = WriteUint64 (post_StakerCount p) hw
      in WriteUint64 (if post_Withdrawn p then 1 else 0) hw)"

definition write_stake :: "PostStake \<Rightarrow> HashWriter \<Rightarrow> HashWriter" where
  "write_stake s hw = WriteUint64 (ps_Height s) (WriteUint64 (ps_Amount s)
     (WriteBytes (ps_Staker s) (WriteBytes (ps_PostID s) hw)))"

definition write_validator :: "ValidatorStake \<Rightarrow> HashWriter \<Rightarrow> HashWriter" where
  "write_validator v hw = WriteUint64 (val_StakedBalance v)
     (WriteBytes (val_PubKey v) (WriteBytes (val_Address v) hw))"

definition write_unbonding :: "UnbondingEntry \<Rightarrow> HashWriter \<Rightarrow> HashWriter" where
  "write_unbonding u hw = WriteUint64 (unb_ReleaseHeight u)
     (WriteUint64 (unb_Amount u) (WriteBytes (unb_Address u) hw))"

definition ComputeStateRoot :: "prims \<Rightarrow> WorldState \<Rightarrow> bytes" where
  "ComputeStateRoot P ws =
     (let hw = NewHashWriter;
          hw = write_all write_account
                 (sort_slice (\<lambda>a b. compareBytes (acc_Address a) (acc_Address b) < 0) (AllAccounts ws)) hw;
          hw = write_all write_post
                 (sort_slice (\<lambda>a b. compareBytes (post_PostID a) (post_PostID b) < 0) (AllPosts ws)) hw;
          hw = write_all write_stake (sort_slice stake_less (AllPostStakes ws)) hw;
          hw = write_all write_validator (ws_activeValidators ws) hw;
          hw = write_all write_unbonding (ws_unbondingQueue ws) hw;
          hw = WriteUint64 (ws_currentEpoch ws) hw;
          hw = WriteUint64 (ws_burnedSupply ws) hw;
          hw = WriteUint64 (ws_issuedSupply ws) hw;
          hw = WriteUint64 (ws_chainHeight ws) hw
      in Sum256 P hw)"

end
