(* ===== verification/Ledger.thy ===== *)
theory Ledger
  imports Executor
begin

text \<open>
  The ledger invariant of the chain state and the conservation of the supply.  \<open>wf_ws\<close> ties the maps
  together: every stake belongs to an account and a post, a post's total is the sum of its stakes, an
  account's post-stake balance the sum of its own.  \<open>total_supply\<close> adds up everything there is: balances,
  staked balances, post stakes, unbonding entries and the burned amount.
\<close>

section \<open>Sums\<close>

definition funds :: "Account \<Rightarrow> nat" where
  "funds a = unat (acc_Balance a) + unat (acc_StakedBalance a)"

definition acct_sum :: "WorldState \<Rightarrow> nat" where
  "acct_sum ws = msum (\<lambda>k a. funds a) (ws_accounts ws)"

definition stake_sum :: "WorldState \<Rightarrow> nat" where
  "stake_sum ws = msum (\<lambda>k s. unat (ps_Amount s)) (ws_postStakes ws)"

definition post_stake_sum :: "postid \<Rightarrow> WorldState \<Rightarrow> nat" where
  "post_stake_sum i ws = msum (\<lambda>k s. if fst k = i then unat (ps_Amount s) else 0) (ws_postStakes ws)"

definition addr_stake_sum :: "address \<Rightarrow> WorldState \<Rightarrow> nat" where
  "addr_stake_sum a ws = msum (\<lambda>k s. if snd k = a then unat (ps_Amount s) else 0) (ws_postStakes ws)"

definition unb_sum :: "UnbondingEntry list \<Rightarrow> nat" where
  "unb_sum es = sum_list (map (\<lambda>e. unat (unb_Amount e)) es)"

definition total_supply :: "WorldState \<Rightarrow> nat" where
  "total_supply ws = acct_sum ws + stake_sum ws + unb_sum (ws_unbondingQueue ws) + unat (ws_burnedSupply ws)"

section \<open>Well-formed states\<close>

text \<open>\<open>B\<close> bounds the nonces: the number of transactions applied so far.\<close>

definition accounts_wf :: "nat \<Rightarrow> WorldState \<Rightarrow> bool" where
  "accounts_wf B ws \<longleftrightarrow> mok (ws_accounts ws) \<and> (\<forall>a acct. GetAccount ws a = Some acct \<longrightarrow>
     acc_Address acct = a \<and> unat (acc_Nonce acct) \<le> B
     \<and> unat (acc_PostStakeBalance acct) = addr_stake_sum a ws)"

definition posts_wf :: "prims \<Rightarrow> WorldState \<Rightarrow> bool" where
  "posts_wf P ws \<longleftrightarrow> mok (ws_posts ws) \<and> (\<forall>i p. GetPost ws i = Some p \<longrightarrow>
     post_PostID p = i \<and> unat (post_TotalStaked p) = post_stake_sum i ws
     \<and> (\<exists>acct n. GetAccount ws (post_Author p) = Some acct \<and> n \<le> acc_Nonce acct
          \<and> i = DerivePostID P (post_Author p) n))"

definition stakes_wf :: "WorldState \<Rightarrow> bool" where
  "stakes_wf ws \<longleftrightarrow> mok (ws_postStakes ws) \<and> (\<forall>i a s. GetPostStake ws i a = Some s \<longrightarrow>
     ps_PostID s = i \<and> ps_Staker s = a \<and> GetAccount ws a \<noteq> None \<and> GetPost ws i \<noteq> None)"

definition wf_ws :: "prims \<Rightarrow> nat \<Rightarrow> WorldState \<Rightarrow> bool" where
  "wf_ws P B ws \<longleftrightarrow> accounts_wf B ws \<and> posts_wf P ws \<and> stakes_wf ws"

text \<open>
  SHA-256 has no collision on the post identifiers of a state: the accounts of the state with the nonces they
  have used are the only preimages.
\<close>

definition post_ids_distinct :: "prims \<Rightarrow> WorldState \<Rightarrow> bool" where
  "post_ids_distinct P ws \<longleftrightarrow> (\<forall>a b x y m n. GetAccount ws a = Some x \<and> GetAccount ws b = Some y
     \<and> m \<le> acc_Nonce x \<and> n \<le> acc_Nonce y \<and> DerivePostID P a m = DerivePostID P b n \<longrightarrow> a = b \<and> m = n)"

definition params_ok :: "GenesisConfig \<Rightarrow> bool" where
  "params_ok params \<longleftrightarrow> gc_PostFeePercent params \<le> 100
     \<and> unat (gc_BoostBurnPercent params) + unat (gc_BoostAuthorPercent params)
        + unat (gc_BoostStakerPercent params) \<le> 100
     \<and> gc_SlashFractionDoubleSign params \<le> 100"

section \<open>Updating one entry\<close>

lemma acct_sum_SetAccount:
  assumes "mok (ws_accounts ws)"
  shows "acct_sum (SetAccount acct ws) + opt_val 0 funds (GetAccount ws (acc_Address acct))
    = acct_sum ws + funds acct"
  using gm.msum_put [OF assms, of "\<lambda>k a. funds a" "acc_Address acct" acct]
  by (simp add: acct_sum_def GetAccount_def)

lemma sums_put_stake:
  assumes "mok (ws_postStakes ws)"
    and "ws_postStakes ws' = mput (i, a) s (ws_postStakes ws)"
  shows "stake_sum ws' + opt_val 0 (\<lambda>s. unat (ps_Amount s)) (GetPostStake ws i a)
      = stake_sum ws + unat (ps_Amount s)"
    "post_stake_sum j ws' + (if j = i then opt_val 0 (\<lambda>s. unat (ps_Amount s)) (GetPostStake ws i a) else 0)
      = post_stake_sum j ws + (if j = i then unat (ps_Amount s) else 0)"
    "addr_stake_sum b ws' + (if b = a then opt_val 0 (\<lambda>s. unat (ps_Amount s)) (GetPostStake ws i a) else 0)
      = addr_stake_sum b ws + (if b = a then unat (ps_Amount s) else 0)"
proof -
  have o: "opt_val 0 (\<lambda>s. if c then f s else 0) x = (if c then opt_val 0 f x else (0 :: nat))" for c f x
    by (cases x) auto
  show "stake_sum ws' + opt_val 0 (\<lambda>s. unat (ps_Amount s)) (GetPostStake ws i a)
      = stake_sum ws + unat (ps_Amount s)"
    using gm.msum_put [OF assms(1), of "\<lambda>k s. unat (ps_Amount s)" "(i, a)" s]
    by (simp add: stake_sum_def GetPostStake_def assms(2))
  show "post_stake_sum j ws' + (if j = i then opt_val 0 (\<lambda>s. unat (ps_Amount s)) (GetPostStake ws i a) else 0)
      = post_stake_sum j ws + (if j = i then unat (ps_Amount s) else 0)"
    using gm.msum_put [OF assms(1), of "\<lambda>k s. if fst k = j then unat (ps_Amount s) else 0" "(i, a)" s]
    by (auto simp: post_stake_sum_def GetPostStake_def assms(2) o)
  show "addr_stake_sum b ws' + (if b = a then opt_val 0 (\<lambda>s. unat (ps_Amount s)) (GetPostStake ws i a) else 0)
      = addr_stake_sum b ws + (if b = a then unat (ps_Amount s) else 0)"
    using gm.msum_put [OF assms(1), of "\<lambda>k s. if snd k = b then unat (ps_Amount s) else 0" "(i, a)" s]
    by (auto simp: addr_stake_sum_def GetPostStake_def assms(2) o)
qed

lemma sums_del_stake:
  assumes "mok (ws_postStakes ws)" "GetPostStake ws i a = Some s"
    and "ws_postStakes ws' = mdel (i, a) (ws_postStakes ws)"
  shows "stake_sum ws' + unat (ps_Amount s) = stake_sum ws"
    "post_stake_sum j ws' + (if j = i then unat (ps_Amount s) else 0) = post_stake_sum j ws"
    "addr_stake_sum b ws' + (if b = a then unat (ps_Amount s) else 0) = addr_stake_sum b ws"
  using gm.msum_del [OF assms(1), of "\<lambda>k s. unat (ps_Amount s)" "(i, a)"]
    gm.msum_del [OF assms(1), of "\<lambda>k s. if fst k = j then unat (ps_Amount s) else 0" "(i, a)"]
    gm.msum_del [OF assms(1), of "\<lambda>k s. if snd k = b then unat (ps_Amount s) else 0" "(i, a)"]
    assms(2) unfolding stake_sum_def post_stake_sum_def addr_stake_sum_def GetPostStake_def assms(3)
  by auto

lemma stake_sums_le:
  "post_stake_sum i ws \<le> stake_sum ws" "addr_stake_sum a ws \<le> stake_sum ws"
  unfolding post_stake_sum_def addr_stake_sum_def stake_sum_def
  by (induction "ws_postStakes ws") (auto simp: msum_def intro!: sum_list_mono)

lemma stakes_cong:
  assumes "ws_postStakes ws' = ws_postStakes ws"
  shows "stake_sum ws' = stake_sum ws" "post_stake_sum i ws' = post_stake_sum i ws"
    "addr_stake_sum a ws' = addr_stake_sum a ws" "GetPostStake ws' = GetPostStake ws"
    "GetPostStakers ws' = GetPostStakers ws"
  using assms by (simp_all add: stake_sum_def post_stake_sum_def addr_stake_sum_def GetPostStake_def
      GetPostStakers_def fun_eq_iff)

lemma wf_cong:
  assumes "ws_accounts ws' = ws_accounts ws" "ws_posts ws' = ws_posts ws" "ws_postStakes ws' = ws_postStakes ws"
  shows "wf_ws P B ws' = wf_ws P B ws"
  using assms by (simp add: wf_ws_def accounts_wf_def posts_wf_def stakes_wf_def GetAccount_def GetPost_def
      stakes_cong [OF assms(3)])

lemma account_le_sum:
  assumes "mok (ws_accounts ws)" "GetAccount ws a = Some acct"
  shows "funds acct \<le> acct_sum ws"
  using gm.msum_ge [OF assms(1), of a acct "\<lambda>k. funds"] assms(2) by (simp add: acct_sum_def GetAccount_def)

lemma no_account_no_stake:
  assumes "stakes_wf ws" "GetAccount ws a = None"
  shows "addr_stake_sum a ws = 0"
proof -
  have "snd k \<noteq> a" if "(k, s) \<in> set (ws_postStakes ws)" for k s
  proof
    assume "snd k = a"
    moreover have "GetPostStake ws (fst k) (snd k) = Some s"
      using assms(1) that by (simp add: stakes_wf_def GetPostStake_def mok_def)
    ultimately show False using assms unfolding stakes_wf_def by fastforce
  qed
  then show ?thesis
    unfolding addr_stake_sum_def msum_def by (intro sum_list_nonneg_eq_0_iff [THEN iffD2]) (auto split: if_splits)
qed

lemma no_post_no_stake:
  assumes "stakes_wf ws" "GetPost ws i = None"
  shows "post_stake_sum i ws = 0" "GetPostStake ws i a = None"
proof -
  have none: "GetPostStake ws i b = None" for b
    using assms unfolding stakes_wf_def by (metis not_Some_eq)
  then show "GetPostStake ws i a = None" .
  have "fst k \<noteq> i" if "(k, s) \<in> set (ws_postStakes ws)" for k s
  proof
    assume "fst k = i"
    moreover have "GetPostStake ws (fst k) (snd k) = Some s"
      using assms(1) that by (simp add: stakes_wf_def GetPostStake_def mok_def)
    ultimately show False using none by simp
  qed
  then show "post_stake_sum i ws = 0"
    unfolding post_stake_sum_def msum_def by (intro sum_list_nonneg_eq_0_iff [THEN iffD2]) (auto split: if_splits)
qed

section \<open>Keeping states well formed\<close>

lemma wfD:
  assumes "wf_ws P B ws"
  shows "mok (ws_accounts ws)" "mok (ws_posts ws)" "mok (ws_postStakes ws)" "stakes_wf ws"
    "GetAccount ws a = Some acct \<Longrightarrow> acc_Address acct = a"
    "GetAccount ws a = Some acct \<Longrightarrow> unat (acc_Nonce acct) \<le> B"
    "GetAccount ws a = Some acct \<Longrightarrow> unat (acc_PostStakeBalance acct) = addr_stake_sum a ws"
    "GetPost ws i = Some p \<Longrightarrow> post_PostID p = i"
    "GetPost ws i = Some p \<Longrightarrow> unat (post_TotalStaked p) = post_stake_sum i ws"
    "GetPostStake ws i a = Some s \<Longrightarrow> ps_PostID s = i \<and> ps_Staker s = a"
  using assms unfolding wf_ws_def accounts_wf_def posts_wf_def stakes_wf_def by blast+

text \<open>
  The general step: one account, possibly one post and one stake entry change, in whatever order the code
  writes them.  \<open>st'\<close> is the new stake entry, if any.
\<close>

lemma wf_update:
  assumes wf: "wf_ws P B ws" and le: "B \<le> B'"
    and acc: "GetAccount ws' = (GetAccount ws)(a \<mapsto> acct')" "mok (ws_accounts ws')"
    and post: "GetPost ws' = (GetPost ws)(i \<mapsto> p')" "mok (ws_posts ws')"
    and st: "mok (ws_postStakes ws')" "GetPostStake ws' = (\<lambda>j b. if (j, b) = (i, a) then st' else GetPostStake ws j b)"
    and acct': "acc_Address acct' = a" "unat (acc_Nonce acct') \<le> B'"
      "unat (acc_PostStakeBalance acct') = addr_stake_sum a ws'"
      "\<And>old. GetAccount ws a = Some old \<Longrightarrow> acc_Nonce old \<le> acc_Nonce acct'"
    and p': "post_PostID p' = i" "unat (post_TotalStaked p') = post_stake_sum i ws'"
      "\<exists>x n. GetAccount ws' (post_Author p') = Some x \<and> n \<le> acc_Nonce x \<and> i = DerivePostID P (post_Author p') n"
    and s': "\<And>s. st' = Some s \<Longrightarrow> ps_PostID s = i \<and> ps_Staker s = a"
    and sums: "\<And>b. b \<noteq> a \<Longrightarrow> addr_stake_sum b ws' = addr_stake_sum b ws"
      "\<And>j. j \<noteq> i \<Longrightarrow> post_stake_sum j ws' = post_stake_sum j ws"
  shows "wf_ws P B' ws'"
proof -
  have "unat (acc_Nonce y) \<le> B'" if "GetAccount ws x = Some y" for x y
    using wfD(6) [OF wf that] le by simp
  then have "accounts_wf B' ws'"
    using wf acc acct' sums(1) unfolding wf_ws_def accounts_wf_def by (auto split: if_splits)
  moreover have "posts_wf P ws'"
  proof -
    have "\<exists>x n. GetAccount ws' (post_Author p) = Some x \<and> n \<le> acc_Nonce x \<and> j = DerivePostID P (post_Author p) n"
      if "GetPost ws j = Some p" for j p
    proof -
      obtain x n where "GetAccount ws (post_Author p) = Some x" "n \<le> acc_Nonce x"
        "j = DerivePostID P (post_Author p) n"
        using wf \<open>GetPost ws j = Some p\<close> unfolding wf_ws_def posts_wf_def by blast
      then show ?thesis using acct'(4) acc(1) by (cases "post_Author p = a") (auto intro: order_trans)
    qed
    then show ?thesis
      using wf post p' sums(2) unfolding wf_ws_def posts_wf_def by auto
  qed
  moreover have "stakes_wf ws'"
  proof -
    have "ps_PostID s = j \<and> ps_Staker s = b \<and> GetAccount ws' b \<noteq> None \<and> GetPost ws' j \<noteq> None"
      if "GetPostStake ws' j b = Some s" for j b s
    proof (cases "(j, b) = (i, a)")
      case True
      with that s' show ?thesis by (simp add: acc(1) post(1) st(2))
    next
      case False
      with that have "GetPostStake ws j b = Some s" unfolding st(2) by meson
      with wf show ?thesis unfolding wf_ws_def stakes_wf_def by (auto simp: acc(1) post(1))
    qed
    with st(1) show ?thesis by (simp add: stakes_wf_def)
  qed
  ultimately show ?thesis by (simp add: wf_ws_def)
qed

lemma wf_SetAccount:
  assumes wf: "wf_ws P B ws" and le: "B \<le> B'"
    and "unat (acc_Nonce acct) \<le> B'"
      "unat (acc_PostStakeBalance acct) = addr_stake_sum (acc_Address acct) ws"
      "\<And>old. GetAccount ws (acc_Address acct) = Some old \<Longrightarrow> acc_Nonce old \<le> acc_Nonce acct"
  shows "wf_ws P B' (SetAccount acct ws)"
proof -
  define ws' where "ws' = SetAccount acct ws"
  have ga: "GetAccount ws' = (GetAccount ws)(acc_Address acct \<mapsto> acct)" by (auto simp: ws'_def)
  have gp: "GetPost ws' = GetPost ws" by (auto simp: ws'_def GetPost_def)
  note cong = stakes_cong [of ws' ws, unfolded ws'_def, simplified, folded ws'_def]
  have "unat (acc_Nonce y) \<le> B'" if "GetAccount ws x = Some y" for x y
    using wfD(6) [OF wf that] le by simp
  then have "accounts_wf B' ws'"
    using wf assms(3,4) unfolding wf_ws_def accounts_wf_def ga cong
    by (auto simp: ws'_def split: if_splits)
  moreover have "posts_wf P ws'"
  proof -
    have "\<exists>x n. GetAccount ws' (post_Author p) = Some x \<and> n \<le> acc_Nonce x \<and> j = DerivePostID P (post_Author p) n"
      if "GetPost ws j = Some p" for j p
    proof -
      obtain x n where "GetAccount ws (post_Author p) = Some x" "n \<le> acc_Nonce x"
        "j = DerivePostID P (post_Author p) n"
        using wf \<open>GetPost ws j = Some p\<close> unfolding wf_ws_def posts_wf_def by blast
      then show ?thesis
        using assms(5) ga by (cases "post_Author p = acc_Address acct") (auto intro: order_trans)
    qed
    with wf show ?thesis unfolding wf_ws_def posts_wf_def gp cong by (auto simp: ws'_def)
  qed
  moreover have "stakes_wf ws'"
    using wf unfolding wf_ws_def stakes_wf_def gp cong by (auto simp: ws'_def)
  ultimately show ?thesis by (simp add: wf_ws_def ws'_def)
qed


section \<open>Credits\<close>

lemma total_supply_SetAccount:
  assumes "mok (ws_accounts ws)"
  shows "total_supply (SetAccount acct ws) + opt_val 0 funds (GetAccount ws (acc_Address acct))
    = total_supply ws + funds acct"
  using acct_sum_SetAccount [OF assms, of acct] stakes_cong(1) [of "SetAccount acct ws" ws]
  by (simp add: total_supply_def)

lemma account_le_supply:
  assumes "wf_ws P B ws" "GetAccount ws a = Some acct"
  shows "funds acct + stake_sum ws + unat (ws_burnedSupply ws) \<le> total_supply ws"
  using account_le_sum [OF wfD(1) [OF assms(1)] assms(2)] by (simp add: total_supply_def)

lemma credit_or_create_ok:
  assumes wf: "wf_ws P B ws" and room: "total_supply ws + unat x < 2 ^ 64"
  shows "wf_ws P B (credit_or_create a x ws)"
    "total_supply (credit_or_create a x ws) = total_supply ws + unat x"
proof -
  define acct where "acct = (case GetAccount ws a of Some y \<Rightarrow> y | None \<Rightarrow> newAccount a)"
  define acct' where "acct' = acct\<lparr>acc_Balance := acc_Balance acct + x\<rparr>"
  have eq: "credit_or_create a x ws = SetAccount acct' ws"
    by (simp add: credit_or_create_def acct'_def acct_def Let_def)
  have a: "acc_Address acct = a"
    using wfD(5) [OF wf] by (auto simp: acct_def split: option.splits)
  have old: "opt_val 0 funds (GetAccount ws a) = funds acct"
    by (auto simp: acct_def funds_def split: option.splits)
  have "funds acct \<le> total_supply ws"
    using account_le_supply [OF wf] by (fastforce simp: acct_def funds_def split: option.splits)
  then have "unat (acc_Balance acct + x) = unat (acc_Balance acct) + unat x"
    using room by (intro unat_add_exact) (simp add: funds_def)
  then have "funds acct' = funds acct + unat x" by (simp add: funds_def acct'_def)
  then show "total_supply (credit_or_create a x ws) = total_supply ws + unat x"
    using total_supply_SetAccount [OF wfD(1) [OF wf], of acct'] old a by (simp add: eq acct'_def)
  have "unat (acc_Nonce acct) \<le> B" "unat (acc_PostStakeBalance acct) = addr_stake_sum a ws"
    using wfD(6,7) [OF wf] no_account_no_stake [OF wfD(4) [OF wf]]
    by (auto simp: acct_def split: option.splits)
  then show "wf_ws P B (credit_or_create a x ws)"
    unfolding eq using a by (intro wf_SetAccount [OF wf]) (auto simp: acct'_def acct_def)
qed

lemma credit_if_present_ok:
  assumes wf: "wf_ws P B ws" and room: "total_supply ws + unat x < 2 ^ 64" and ex: "GetAccount ws a \<noteq> None"
  shows "wf_ws P B (credit_if_present a x ws)"
    "total_supply (credit_if_present a x ws) = total_supply ws + unat x"
    "ws_posts (credit_if_present a x ws) = ws_posts ws"
    "ws_postStakes (credit_if_present a x ws) = ws_postStakes ws"
    "ws_burnedSupply (credit_if_present a x ws) = ws_burnedSupply ws"
    "GetAccount (credit_if_present a x ws) b = None \<longleftrightarrow> GetAccount ws b = None"
proof -
  have eq: "credit_if_present a x ws = credit_or_create a x ws"
    using ex by (auto simp: credit_if_present_def credit_or_create_def)
  show "wf_ws P B (credit_if_present a x ws)" "total_supply (credit_if_present a x ws) = total_supply ws + unat x"
    unfolding eq using credit_or_create_ok [OF wf room] by simp_all
  show "ws_posts (credit_if_present a x ws) = ws_posts ws"
    "ws_postStakes (credit_if_present a x ws) = ws_postStakes ws"
    "ws_burnedSupply (credit_if_present a x ws) = ws_burnedSupply ws"
    by (simp_all add: credit_if_present_def split: option.split)
  show "GetAccount (credit_if_present a x ws) b = None \<longleftrightarrow> GetAccount ws b = None"
    using ex wfD(5) [OF wf] by (auto simp: credit_if_present_def split: option.splits)
qed

text \<open>From one state to another no account disappears, loses balance or changes in its nonce, name or stake.\<close>

definition acct_le :: "WorldState \<Rightarrow> WorldState \<Rightarrow> bool" where
  "acct_le v w \<longleftrightarrow> (\<forall>a x. GetAccount v a = Some x \<longrightarrow> (\<exists>y. GetAccount w a = Some y \<and> acc_Balance x \<le> acc_Balance y
     \<and> acc_Nonce y = acc_Nonce x \<and> acc_Name y = acc_Name x \<and> acc_StakedBalance y = acc_StakedBalance x))"

lemma acct_le_refl [simp]: "acct_le ws ws" by (simp add: acct_le_def)

lemma acct_le_trans:
  assumes "acct_le u v" "acct_le v w"
  shows "acct_le u w"
  unfolding acct_le_def
proof (intro allI impI)
  fix a x
  assume "GetAccount u a = Some x"
  then obtain y where y: "GetAccount v a = Some y" "acc_Balance x \<le> acc_Balance y" "acc_Nonce y = acc_Nonce x"
    "acc_Name y = acc_Name x" "acc_StakedBalance y = acc_StakedBalance x"
    using assms(1) unfolding acct_le_def by blast
  from y(1) obtain z where "GetAccount w a = Some z" "acc_Balance y \<le> acc_Balance z" "acc_Nonce z = acc_Nonce y"
    "acc_Name z = acc_Name y" "acc_StakedBalance z = acc_StakedBalance y"
    using assms(2) unfolding acct_le_def by blast
  with y show "\<exists>y. GetAccount w a = Some y \<and> acc_Balance x \<le> acc_Balance y \<and> acc_Nonce y = acc_Nonce x
      \<and> acc_Name y = acc_Name x \<and> acc_StakedBalance y = acc_StakedBalance x"
    by auto
qed

lemma acct_le_cong: "GetAccount v = GetAccount v' \<Longrightarrow> GetAccount w = GetAccount w' \<Longrightarrow> acct_le v w = acct_le v' w'"
  by (simp add: acct_le_def)

lemma credit_acct_le:
  assumes wf: "wf_ws P B ws" and room: "total_supply ws + unat x < 2 ^ 64"
  shows "acct_le ws (credit_or_create a x ws)" "acct_le ws (credit_if_present a x ws)"
proof -
  have "acc_Balance y \<le> acc_Balance y + x" if "GetAccount ws a = Some y" for y
    using account_le_supply [OF wf that] room unat_add_exact [of "acc_Balance y" x]
    by (simp add: unat_le_exact funds_def)
  moreover have "acc_Address y = a" if "GetAccount ws a = Some y" for y using wfD(5) [OF wf that] .
  ultimately show "acct_le ws (credit_or_create a x ws)" "acct_le ws (credit_if_present a x ws)"
    unfolding acct_le_def credit_or_create_def credit_if_present_def Let_def
    by (cases "GetAccount ws a"; simp)+
qed

section \<open>Percentages\<close>

lemma mul_div_percent:
  assumes "p \<le> 100"
  obtains q where "mul_div a p 100 = Inr q" "unat q = unat a * unat p div 100" "q \<le> a"
proof -
  obtain q where q: "MulDiv a p 100 = Some q" "unat q = min (unat a * unat p div unat (100 :: u64)) (2 ^ 64 - 1)"
    using MulDiv_Some [of 100 a p] by auto
  have "unat a * unat p div 100 \<le> unat a"
    using assms by (simp add: unat_le_exact div_le_mono [of "unat a * unat p" "unat a * 100" 100, simplified])
  moreover have "unat a \<le> 2 ^ 64 - 1" using unat_u64_le [of a] by simp
  ultimately have "unat q = unat a * unat p div 100" using q(2) by simp
  with \<open>unat a * unat p div 100 \<le> unat a\<close> q(1) that [of q] show ?thesis
    by (simp add: mul_div_def unat_le_exact)
qed

text \<open>Rounded-down shares of a total never add up to more than the reward.\<close>

lemma sum_shares_le:
  fixes T R :: nat
  assumes "0 < T" "sum_list amts \<le> T"
  shows "sum_list (map (\<lambda>x. R * x div T) amts) \<le> R"
proof -
  have "T * sum_list (map (\<lambda>x. R * x div T) amts) \<le> R * sum_list amts"
  proof (induction amts)
    case (Cons x xs)
    have "T * (R * x div T) \<le> R * x" by simp
    from add_mono [OF this Cons] show ?case by (simp add: distrib_left)
  qed simp
  also have "\<dots> \<le> R * T" using assms(2) by simp
  finally show ?thesis using assms(1) by (simp add: mult.commute)
qed


lemma mul_div_share:
  assumes "T \<noteq> 0" "x \<le> T"
  obtains q where "mul_div R x T = Inr q" "unat q = unat R * unat x div unat T"
proof -
  obtain q where q: "MulDiv R x T = Some q" "unat q = min (unat R * unat x div unat T) (2 ^ 64 - 1)"
    using MulDiv_Some [OF assms(1), of R x] by auto
  have "unat R * unat x div unat T \<le> unat R * unat T div unat T"
    using assms(2) by (intro div_le_mono mult_le_mono2) (simp add: unat_le_exact)
  also have "\<dots> = unat R" using assms(1) by (simp add: unat_eq_zero)
  also have "\<dots> \<le> 2 ^ 64 - 1" using unat_u64_le [of R] by simp
  finally have "unat q = unat R * unat x div unat T" using q(2) by simp
  with q(1) that [of q] show ?thesis by (simp add: mul_div_def)
qed

lemma pay_stakers_ok:
  assumes "wf_ws P B ws" "T \<noteq> 0"
    and "\<forall>s\<in>set ss. ps_Amount s \<le> T \<and> GetAccount ws (ps_Staker s) \<noteq> None"
    and "total_supply ws + sum_list (map (\<lambda>s. unat R * unat (ps_Amount s) div unat T) ss) < 2 ^ 64"
  shows "\<exists>ws'. pay_stakers R T ss ws = Inr ws' \<and> wf_ws P B ws'
    \<and> total_supply ws' = total_supply ws + sum_list (map (\<lambda>s. unat R * unat (ps_Amount s) div unat T) ss)
    \<and> ws_posts ws' = ws_posts ws \<and> ws_postStakes ws' = ws_postStakes ws
    \<and> ws_burnedSupply ws' = ws_burnedSupply ws \<and> acct_le ws ws'"
  using assms
proof (induction ss arbitrary: ws)
  case Nil
  then show ?case by simp
next
  case (Cons s ss)
  obtain q where q: "mul_div R (ps_Amount s) T = Inr q" "unat q = unat R * unat (ps_Amount s) div unat T"
    using mul_div_share [OF Cons.prems(2)] Cons.prems(3) by auto
  define ws1 where "ws1 = (if q > 0 then credit_if_present (ps_Staker s) q ws else ws)"
  have room: "total_supply ws + unat q < 2 ^ 64" using Cons.prems(4) q(2) by simp
  note cr = credit_if_present_ok [OF Cons.prems(1) room, of "ps_Staker s"]
  have ex: "GetAccount ws (ps_Staker s) \<noteq> None" using Cons.prems(3) by simp
  have z: "unat q = 0" if "\<not> q > 0" using that by (simp add: word_gt_0)
  have ws1: "wf_ws P B ws1" "total_supply ws1 = total_supply ws + unat q" "ws_posts ws1 = ws_posts ws"
    "ws_postStakes ws1 = ws_postStakes ws" "ws_burnedSupply ws1 = ws_burnedSupply ws"
    "\<And>b. GetAccount ws1 b = None \<longleftrightarrow> GetAccount ws b = None"
    using cr [OF ex] Cons.prems(1) z by (auto simp: ws1_def)
  have le: "acct_le ws ws1" using credit_acct_le(2) [OF Cons.prems(1) room] by (simp add: ws1_def)
  have "\<exists>ws'. pay_stakers R T ss ws1 = Inr ws' \<and> wf_ws P B ws'
    \<and> total_supply ws' = total_supply ws1 + sum_list (map (\<lambda>s. unat R * unat (ps_Amount s) div unat T) ss)
    \<and> ws_posts ws' = ws_posts ws1 \<and> ws_postStakes ws' = ws_postStakes ws1
    \<and> ws_burnedSupply ws' = ws_burnedSupply ws1 \<and> acct_le ws1 ws'"
    using Cons.prems(2-4) q(2) ws1(2,6) by (intro Cons.IH [OF ws1(1)]) auto
  then show ?case using q ws1(2-5) acct_le_trans [OF le] by (simp flip: ws1_def) (auto simp: add.assoc)
qed

section \<open>Transfers and validator stakes\<close>

text \<open>The nonce of the sender after the transaction; the bound excludes the wrap-around at \<open>2 ^ 64\<close>.\<close>

lemma nonce_step:
  fixes n :: u64
  assumes "unat n \<le> B" "Suc B < 2 ^ 64"
  shows "unat (n + 1) = Suc (unat n)" "n \<le> n + 1" "unat (n + 1) \<le> Suc B"
proof -
  show "unat (n + 1) = Suc (unat n)" using unat_add_exact [of n 1] assms by simp
  then show "n \<le> n + 1" "unat (n + 1) \<le> Suc B" using assms by (simp_all add: unat_le_exact)
qed

lemma applyTransfer_ok:
  assumes wf: "wf_ws P B ws" and B: "Suc B < 2 ^ 64" and room: "total_supply ws < 2 ^ 64"
    and ap: "applyTransfer ws tx = Inr ws'"
  shows "wf_ws P (Suc B) ws' \<and> total_supply ws' = total_supply ws"
proof -
  obtain sender where s: "GetAccount ws (tx_Sender tx) = Some sender" and bal: "tx_Amount tx \<le> acc_Balance sender"
    using ap by (auto simp: applyTransfer_def not_less split: option.splits if_splits)
  note a = wfD(5) [OF wf s] and n = nonce_step [OF wfD(6) [OF wf s] B]
  define sender' where "sender' = sender\<lparr>acc_Balance := acc_Balance sender - tx_Amount tx,
    acc_Nonce := acc_Nonce sender + 1\<rparr>"
  show ?thesis
  proof (cases "tx_Recipient tx = tx_Sender tx")
    case True
    define acct where "acct = sender\<lparr>acc_Balance := acc_Balance sender, acc_Nonce := acc_Nonce sender + 1\<rparr>"
    have eq: "ws' = SetAccount acct ws" using ap s leD [OF bal] True by (simp add: applyTransfer_def acct_def)
    have "total_supply ws' = total_supply ws"
      using total_supply_SetAccount [OF wfD(1) [OF wf], of acct] s a by (simp add: eq acct_def funds_def)
    moreover have "wf_ws P (Suc B) ws'"
      unfolding eq using n s a wfD(7) [OF wf s] by (intro wf_SetAccount [OF wf]) (auto simp: acct_def)
    ultimately show ?thesis by simp
  next
    case False
    define ws1 where "ws1 = SetAccount sender' ws"
    have eq: "ws' = credit_or_create (tx_Recipient tx) (tx_Amount tx) ws1"
      using ap s leD [OF bal] False a
      by (simp add: applyTransfer_def credit_or_create_def ws1_def sender'_def Let_def)
    have "wf_ws P (Suc B) ws1"
      unfolding ws1_def using n s a wfD(7) [OF wf s] by (intro wf_SetAccount [OF wf]) (auto simp: sender'_def)
    moreover have sup: "total_supply ws1 + unat (tx_Amount tx) = total_supply ws"
      using total_supply_SetAccount [OF wfD(1) [OF wf], of sender'] s a bal
      by (simp add: ws1_def sender'_def funds_def unat_sub_exact unat_le_exact)
    ultimately show ?thesis using credit_or_create_ok [of P "Suc B" ws1] room by (simp add: eq)
  qed
qed

lemma applyStake_ok:
  assumes wf: "wf_ws P B ws" and B: "Suc B < 2 ^ 64" and room: "total_supply ws < 2 ^ 64"
    and ap: "applyStake ws tx = Inr ws'"
  shows "wf_ws P (Suc B) ws' \<and> total_supply ws' = total_supply ws"
proof -
  obtain sender where s: "GetAccount ws (tx_Sender tx) = Some sender" and bal: "tx_Amount tx \<le> acc_Balance sender"
    using ap by (auto simp: applyStake_def not_less split: option.splits if_splits)
  note a = wfD(5) [OF wf s] and n = nonce_step [OF wfD(6) [OF wf s] B]
  define sender' where "sender' = sender\<lparr>acc_Balance := acc_Balance sender - tx_Amount tx,
    acc_StakedBalance := acc_StakedBalance sender + tx_Amount tx, acc_Nonce := acc_Nonce sender + 1\<rparr>"
  define ws1 where "ws1 = SetAccount sender' ws"
  have eq: "ws' = SetValidatorPubKey (tx_Sender tx) (tx_PubKey tx) ws1"
    using ap s leD [OF bal] by (simp add: applyStake_def ws1_def sender'_def Let_def)
  have "unat (acc_Balance sender) + unat (acc_StakedBalance sender) < 2 ^ 64"
    using account_le_supply [OF wf s] room by (simp add: funds_def)
  then have "funds sender' = funds sender"
    using bal by (simp add: funds_def sender'_def unat_sub_exact unat_add_exact unat_le_exact)
  then have "total_supply ws1 = total_supply ws"
    using total_supply_SetAccount [OF wfD(1) [OF wf], of sender'] s a by (simp add: ws1_def sender'_def)
  moreover have "wf_ws P (Suc B) ws1"
    unfolding ws1_def using n s a wfD(7) [OF wf s] by (intro wf_SetAccount [OF wf]) (auto simp: sender'_def)
  moreover have "wf_ws P (Suc B) ws' = wf_ws P (Suc B) ws1" by (rule wf_cong) (simp_all add: eq SetValidatorPubKey_def)
  moreover have "total_supply ws' = total_supply ws1"
    by (simp add: eq total_supply_def SetValidatorPubKey_def acct_sum_def stake_sum_def)
  ultimately show ?thesis by simp
qed

lemma applyUnstake_ok:
  assumes wf: "wf_ws P B ws" and B: "Suc B < 2 ^ 64"
    and ap: "applyUnstake params ws tx h = Inr ws'"
  shows "wf_ws P (Suc B) ws' \<and> total_supply ws' = total_supply ws"
proof -
  obtain sender where s: "GetAccount ws (tx_Sender tx) = Some sender"
    and bal: "tx_Amount tx \<le> acc_StakedBalance sender"
    using ap by (auto simp: applyUnstake_def not_less split: option.splits if_splits)
  note a = wfD(5) [OF wf s] and n = nonce_step [OF wfD(6) [OF wf s] B]
  define sender' where "sender' = sender\<lparr>acc_StakedBalance := acc_StakedBalance sender - tx_Amount tx,
    acc_Nonce := acc_Nonce sender + 1\<rparr>"
  define ws1 where "ws1 = SetAccount sender' ws"
  have eq: "ws' = AddUnbondingEntry \<lparr>unb_Address = tx_Sender tx, unb_Amount = tx_Amount tx,
      unb_ReleaseHeight = h + gc_UnbondingPeriod params\<rparr> ws1"
    using ap s leD [OF bal] by (simp add: applyUnstake_def ws1_def sender'_def Let_def)
  have "total_supply ws1 + unat (tx_Amount tx) = total_supply ws"
    using total_supply_SetAccount [OF wfD(1) [OF wf], of sender'] s a bal
    by (simp add: ws1_def sender'_def funds_def unat_sub_exact unat_le_exact)
  moreover have "total_supply ws' = total_supply ws1 + unat (tx_Amount tx)"
    by (simp add: eq total_supply_def AddUnbondingEntry_def acct_sum_def stake_sum_def unb_sum_def)
  moreover have "wf_ws P (Suc B) ws1"
    unfolding ws1_def using n s a wfD(7) [OF wf s] by (intro wf_SetAccount [OF wf]) (auto simp: sender'_def)
  moreover have "wf_ws P (Suc B) ws' = wf_ws P (Suc B) ws1" by (rule wf_cong) (simp_all add: eq AddUnbondingEntry_def)
  ultimately show ?thesis by simp
qed

lemma applyRegisterName_ok:
  assumes wf: "wf_ws P B ws" and B: "Suc B < 2 ^ 64" and ap: "applyRegisterName ws tx = Inr ws'"
  shows "wf_ws P (Suc B) ws' \<and> total_supply ws' = total_supply ws"
proof -
  obtain sender where s: "GetAccount ws (tx_Sender tx) = Some sender"
    using ap by (auto simp: applyRegisterName_def split: option.splits)
  note a = wfD(5) [OF wf s] and n = nonce_step [OF wfD(6) [OF wf s] B]
  define sender' where "sender' = sender\<lparr>acc_Nonce := acc_Nonce sender + 1, acc_Name := tx_Text tx\<rparr>"
  define ws1 where "ws1 = SetAccount sender' ws"
  have eq: "ws' = RegisterName (tx_Sender tx) (tx_Text tx) ws1"
    using ap s by (simp add: applyRegisterName_def ws1_def sender'_def Let_def)
  have "total_supply ws1 = total_supply ws"
    using total_supply_SetAccount [OF wfD(1) [OF wf], of sender'] s a by (simp add: ws1_def sender'_def funds_def)
  moreover have "total_supply ws' = total_supply ws1"
    by (simp add: eq total_supply_def RegisterName_def acct_sum_def stake_sum_def)
  moreover have "wf_ws P (Suc B) ws1"
    unfolding ws1_def using n s a wfD(7) [OF wf s] by (intro wf_SetAccount [OF wf]) (auto simp: sender'_def)
  moreover have "wf_ws P (Suc B) ws' = wf_ws P (Suc B) ws1" by (rule wf_cong) (simp_all add: eq RegisterName_def)
  ultimately show ?thesis by simp
qed

section \<open>Posts\<close>

lemma GetPost_frame [simp]:
  "GetPost (SetPost p ws) i = (if i = post_PostID p then Some p else GetPost ws i)"
  "GetPost (SetAccount acct ws) = GetPost ws"
  "GetPost (SetPostStake s ws) = GetPost ws"
  "GetPost (SetBurnedSupply x ws) = GetPost ws"
  "GetPost (RemovePostStake j b ws) = GetPost ws"
  by (simp_all add: GetPost_def SetPost_def SetPostStake_def SetBurnedSupply_def RemovePostStake_def fun_eq_iff)

lemma GetAccount_frame [simp]:
  "GetAccount (SetPost p ws) = GetAccount ws"
  "GetAccount (SetPostStake s ws) = GetAccount ws"
  "GetAccount (SetBurnedSupply x ws) = GetAccount ws"
  "GetAccount (RemovePostStake j b ws) = GetAccount ws"
  by (simp_all add: GetAccount_def SetPost_def SetPostStake_def SetBurnedSupply_def RemovePostStake_def fun_eq_iff)

lemma GetPostStake_frame [simp]:
  "GetPostStake (SetPostStake s ws) j b
    = (if (j, b) = (ps_PostID s, ps_Staker s) then Some s else GetPostStake ws j b)"
  "GetPostStake (SetAccount acct ws) = GetPostStake ws"
  "GetPostStake (SetPost p ws) = GetPostStake ws"
  "GetPostStake (SetBurnedSupply x ws) = GetPostStake ws"
  "GetPostStake (RemovePostStake i a ws) j b = (if (j, b) = (i, a) then None else GetPostStake ws j b)"
  by (simp_all add: GetPostStake_def SetPost_def SetPostStake_def SetBurnedSupply_def RemovePostStake_def
      fun_eq_iff)

lemma fields_frame [simp]:
  "ws_accounts (SetPost p ws) = ws_accounts ws" "ws_accounts (SetPostStake s ws) = ws_accounts ws"
  "ws_accounts (SetBurnedSupply x ws) = ws_accounts ws" "ws_accounts (RemovePostStake j b ws) = ws_accounts ws"
  "ws_posts (SetPost p ws) = mput (post_PostID p) p (ws_posts ws)" "ws_posts (SetPostStake s ws) = ws_posts ws"
  "ws_posts (SetBurnedSupply x ws) = ws_posts ws" "ws_posts (RemovePostStake j b ws) = ws_posts ws"
  "ws_postStakes (SetPost p ws) = ws_postStakes ws"
  "ws_postStakes (SetPostStake s ws) = mput (ps_PostID s, ps_Staker s) s (ws_postStakes ws)"
  "ws_postStakes (SetBurnedSupply x ws) = ws_postStakes ws"
  "ws_postStakes (RemovePostStake j b ws) = mdel (j, b) (ws_postStakes ws)"
  "ws_unbondingQueue (SetPost p ws) = ws_unbondingQueue ws"
  "ws_unbondingQueue (SetPostStake s ws) = ws_unbondingQueue ws"
  "ws_unbondingQueue (SetBurnedSupply x ws) = ws_unbondingQueue ws"
  "ws_unbondingQueue (RemovePostStake j b ws) = ws_unbondingQueue ws"
  "ws_burnedSupply (SetPost p ws) = ws_burnedSupply ws" "ws_burnedSupply (SetPostStake s ws) = ws_burnedSupply ws"
  "ws_burnedSupply (SetBurnedSupply x ws) = x" "ws_burnedSupply (RemovePostStake j b ws) = ws_burnedSupply ws"
  by (simp_all add: SetPost_def SetPostStake_def SetBurnedSupply_def RemovePostStake_def)

lemma post_origin:
  assumes "wf_ws P B ws" "GetPost ws i = Some p"
  obtains x n where "GetAccount ws (post_Author p) = Some x" "n \<le> acc_Nonce x"
    "i = DerivePostID P (post_Author p) n"
  using assms unfolding wf_ws_def posts_wf_def by blast

text \<open>
  Adding \<open>d\<close> to a stake: the entry of the map, the total of the post and the balance of the account grow
  together.
\<close>

lemma wf_add_stake:
  assumes wf: "wf_ws P B ws" and B: "Suc B < 2 ^ 64" and room: "stake_sum ws + unat d < 2 ^ 64"
    and s: "GetAccount ws a = Some acct"
    and acct': "acc_Address acct' = a" "acc_Nonce acct' = acc_Nonce acct + 1"
      "acc_PostStakeBalance acct' = acc_PostStakeBalance acct + d"
    and p': "post_PostID p' = i" "unat (post_TotalStaked p') = post_stake_sum i ws + unat d"
      "\<exists>x n. ((GetAccount ws)(a \<mapsto> acct')) (post_Author p') = Some x \<and> n \<le> acc_Nonce x
         \<and> i = DerivePostID P (post_Author p') n"
    and st: "ps_PostID st = i" "ps_Staker st = a"
      "unat (ps_Amount st) = opt_val 0 (\<lambda>s. unat (ps_Amount s)) (GetPostStake ws i a) + unat d"
    and ws': "ws_accounts ws' = mput a acct' (ws_accounts ws)" "ws_posts ws' = mput i p' (ws_posts ws)"
      "ws_postStakes ws' = mput (i, a) st (ws_postStakes ws)"
  shows "wf_ws P (Suc B) ws'" "stake_sum ws' = stake_sum ws + unat d"
proof -
  note sums = sums_put_stake [OF wfD(3) [OF wf] ws'(3)]
  show "stake_sum ws' = stake_sum ws + unat d" using sums(1) st(3) by simp
  have n: "unat (acc_Nonce acct') \<le> Suc B" "acc_Nonce acct \<le> acc_Nonce acct'"
    using nonce_step [OF wfD(6) [OF wf s] B] acct'(2) by simp_all
  have "unat (acc_PostStakeBalance acct) + unat d < 2 ^ 64"
    using wfD(7) [OF wf s] stake_sums_le(2) [of a ws] room by simp
  then have psb: "unat (acc_PostStakeBalance acct') = addr_stake_sum a ws'"
    using sums(3) [of a] st(3) wfD(7) [OF wf s] by (simp add: acct'(3) unat_add_exact)
  have ga: "GetAccount ws' = (GetAccount ws)(a \<mapsto> acct')" by (auto simp: GetAccount_def ws'(1))
  have gp: "GetPost ws' = (GetPost ws)(i \<mapsto> p')" by (auto simp: GetPost_def ws'(2))
  show "wf_ws P (Suc B) ws'"
  proof (rule wf_update [OF wf _ ga _ gp])
    show "GetPostStake ws' = (\<lambda>j b. if (j, b) = (i, a) then Some st else GetPostStake ws j b)"
      by (auto simp: GetPostStake_def ws'(3) fun_eq_iff)
    show "unat (post_TotalStaked p') = post_stake_sum i ws'" using sums(2) [of i] st(3) p'(2) by simp
    show "addr_stake_sum b ws' = addr_stake_sum b ws" if "b \<noteq> a" for b using sums(3) [of b] that by simp
    show "post_stake_sum j ws' = post_stake_sum j ws" if "j \<noteq> i" for j using sums(2) [of j] that by simp
    show "\<exists>x n. GetAccount ws' (post_Author p') = Some x \<and> n \<le> acc_Nonce x \<and> i = DerivePostID P (post_Author p') n"
      unfolding ga by (rule p'(3))
  qed (use s n psb acct'(1) p'(1) st(1,2) wfD(1-3) [OF wf] in \<open>auto simp: ws' map_ok_laws\<close>)
qed

lemma acct_sum_mput:
  assumes "mok (ws_accounts ws)" "GetAccount ws a = Some acct" "ws_accounts ws' = mput a acct' (ws_accounts ws)"
  shows "acct_sum ws' + funds acct = acct_sum ws + funds acct'"
  using gm.msum_put [OF assms(1), of "\<lambda>k. funds" a acct'] assms(2,3) by (simp add: acct_sum_def GetAccount_def)

lemma applyCreatePost_ok:
  assumes wf: "wf_ws P B ws" and B: "Suc B < 2 ^ 64" and room: "total_supply ws < 2 ^ 64"
    and par: "params_ok params" and ids: "post_ids_distinct P ws'"
    and ap: "applyCreatePost P params ws tx h t = Inr ws'"
  shows "wf_ws P (Suc B) ws' \<and> total_supply ws' = total_supply ws"
proof -
  define a where "a = tx_Sender tx"
  obtain author where s: "GetAccount ws a = Some author" and bal: "tx_Amount tx \<le> acc_Balance author"
    using ap by (auto simp: applyCreatePost_def a_def not_less split: option.splits if_splits)
  define pct where "pct = (if gc_PostFeePercent params = 0 then 6 else gc_PostFeePercent params)"
  have "pct \<le> 100" using par by (auto simp: pct_def params_ok_def)
  then obtain fee where fee: "mul_div (tx_Amount tx) pct 100 = Inr fee" "fee \<le> tx_Amount tx"
    by (rule mul_div_percent)
  define d where "d = tx_Amount tx - fee"
  define i where "i = DerivePostID P a (acc_Nonce author + 1)"
  define p' where "p' = \<lparr>post_PostID = i, post_Author = a, post_Text = tx_Text tx,
    post_Channel = tx_Channel tx, post_ParentPostID = tx_PostID tx, post_CreatedAtHeight = h,
    post_CreatedAtTime = t, post_TotalStaked = d, post_TotalBurned = fee, post_StakerCount = 1,
    post_Withdrawn = False\<rparr>"
  define acct' where "acct' = author\<lparr>acc_Balance := acc_Balance author - tx_Amount tx,
    acc_PostStakeBalance := acc_PostStakeBalance author + d, acc_Nonce := acc_Nonce author + 1\<rparr>"
  define st where "st = \<lparr>ps_PostID = i, ps_Staker = a, ps_Amount = d, ps_Height = h\<rparr>"
  define ws1 where "ws1 = SetPostStake st (SetPost p' (SetAccount acct' ws))"
  have eq: "ws' = SetBurnedSupply (ws_burnedSupply ws + fee) ws1"
    using ap s leD [OF bal] fee(1)
    by (simp add: applyCreatePost_def ws1_def st_def p'_def acct'_def i_def d_def a_def pct_def Let_def)
  have addr: "acc_Address acct' = a" using wfD(5) [OF wf s] by (simp add: acct'_def)
  have amt: "unat (tx_Amount tx) = unat d + unat fee"
    using fee(2) by (simp add: d_def unat_sub_exact unat_le_exact)
  note le = account_le_supply [OF wf s]
  have b: "unat (tx_Amount tx) \<le> unat (acc_Balance author)" using bal by (simp add: unat_le_exact)
  have fresh: "GetPost ws i = None"
  proof (rule ccontr)
    assume "GetPost ws i \<noteq> None"
    then obtain p where "GetPost ws i = Some p" by blast
    with wf obtain x n where p: "GetAccount ws (post_Author p) = Some x" "n \<le> acc_Nonce x"
      "i = DerivePostID P (post_Author p) n" by (rule post_origin)
    note n = nonce_step(1,2) [OF wfD(6) [OF wf s] B]
    have ga: "GetAccount ws' b = (if b = a then Some acct' else GetAccount ws b)" for b
      using addr by (simp add: eq ws1_def)
    have an: "acc_Nonce acct' = acc_Nonce author + 1" by (simp add: acct'_def)
    obtain y where y: "GetAccount ws' (post_Author p) = Some y" "n \<le> acc_Nonce y"
      using ga [of "post_Author p"] p(1,2) s an n(2) by (cases "post_Author p = a") auto
    have "a = post_Author p \<and> acc_Nonce acct' = n"
      using ids y ga [of a] p(3) an unfolding post_ids_distinct_def i_def by (metis order_refl)
    then have "acc_Nonce author + 1 \<le> acc_Nonce author" using p(1,2) s an by simp
    then show False using n(1) by (simp add: unat_le_exact)
  qed
  note none = no_post_no_stake [OF wfD(4) [OF wf] fresh]
  have "wf_ws P (Suc B) ws' \<and> stake_sum ws' = stake_sum ws + unat d"
  proof (rule conjI; rule wf_add_stake [OF wf B _ s, of d acct' p' i st])
    show "stake_sum ws + unat d < 2 ^ 64" using le b amt room by (simp add: funds_def)
    show "stake_sum ws + unat d < 2 ^ 64" using le b amt room by (simp add: funds_def)
  qed (use none addr in \<open>auto simp: eq ws1_def st_def p'_def acct'_def i_def\<close>)
  moreover have "acct_sum ws' + unat (tx_Amount tx) = acct_sum ws"
    using acct_sum_mput [OF wfD(1) [OF wf] s, of ws' acct'] bal b addr
    by (simp add: eq ws1_def) (simp add: acct'_def funds_def unat_sub_exact)
  moreover have "unat (ws_burnedSupply ws') = unat (ws_burnedSupply ws) + unat fee"
    using le b amt room by (simp add: eq funds_def unat_add_exact)
  moreover have "ws_unbondingQueue ws' = ws_unbondingQueue ws" by (simp add: eq ws1_def)
  ultimately show ?thesis using amt by (simp add: total_supply_def)
qed

section \<open>Boosts\<close>

text \<open>
  The rewards only touch accounts, so they commute with the later update of the post and of the stake; the
  state with that update done first is well formed.
\<close>

definition with_stakes ::
    "(postid, Post) gomap \<Rightarrow> (postid \<times> address, PostStake) gomap \<Rightarrow> WorldState \<Rightarrow> WorldState" where
  "with_stakes ps ss ws = ws\<lparr>ws_posts := ps, ws_postStakes := ss\<rparr>"

lemma credit_with_stakes:
  "credit_if_present a x (with_stakes ps ss ws) = with_stakes ps ss (credit_if_present a x ws)"
  by (cases ws) (simp add: credit_if_present_def with_stakes_def GetAccount_def SetAccount_def Let_def split: option.split)

lemma pay_with_stakes:
  "pay_stakers R T ls (with_stakes ps ss ws) = bindR (pay_stakers R T ls ws) (\<lambda>w. Inr (with_stakes ps ss w))"
proof (induction ls arbitrary: ws)
  case (Cons l ls)
  then show ?case
    by (cases "mul_div R (ps_Amount l) T") (simp_all add: credit_with_stakes)
qed simp

lemma GetPostStakers_facts:
  assumes "stakes_wf ws"
  shows "\<forall>s\<in>set (GetPostStakers ws i). ps_PostID s = i \<and> GetPostStake ws i (ps_Staker s) = Some s"
    "distinct (map ps_Staker (GetPostStakers ws i))"
    "sum_list (map (\<lambda>s. unat (ps_Amount s)) (GetPostStakers ws i)) = post_stake_sum i ws"
proof -
  have m: "mok (ws_postStakes ws)" using assms by (simp add: stakes_wf_def)
  have key: "ps_PostID s = fst k \<and> ps_Staker s = snd k \<and> GetPostStake ws (fst k) (snd k) = Some s"
    if "(k, s) \<in> set (ws_postStakes ws)" for k s
  proof -
    have "GetPostStake ws (fst k) (snd k) = Some s" using that m by (simp add: GetPostStake_def mok_def)
    with assms show ?thesis unfolding stakes_wf_def by blast
  qed
  then show "\<forall>s\<in>set (GetPostStakers ws i). ps_PostID s = i \<and> GetPostStake ws i (ps_Staker s) = Some s"
    by (fastforce simp: GetPostStakers_def)
  define es where "es = filter (\<lambda>(k, v). fst k = i) (ws_postStakes ws)"
  have "map ps_Staker (map snd es) = map snd (map fst es)"
    using key by (auto simp: es_def)
  moreover have "distinct (map fst es)" using m by (simp add: es_def mok_def distinct_map_filter)
  moreover have "inj_on snd (set (map fst es))" by (auto simp: es_def inj_on_def)
  ultimately have "distinct (map ps_Staker (map snd es))" by (simp only: distinct_map [of snd "map fst es"] simp_thms)
  then show "distinct (map ps_Staker (GetPostStakers ws i))"
    by (simp only: GetPostStakers_def es_def)
  show "sum_list (map (\<lambda>s. unat (ps_Amount s)) (GetPostStakers ws i)) = post_stake_sum i ws"
    unfolding GetPostStakers_def post_stake_sum_def msum_def
    by (simp add: case_prod_beta' sum_list_map_filter' comp_def)
qed

text \<open>The split of the boost: the parts add up to the amount, with nothing below zero.\<close>

lemma boost_split:
  assumes par: "params_ok params" and pct: "boost_percents params = (bp, ap, sp)"
  obtains b r q where "mul_div x bp 100 = Inr b" "mul_div x ap 100 = Inr r" "mul_div x sp 100 = Inr q"
    "unat b + unat r + unat q + unat (x - b - r - q) = unat x"
proof -
  have sum: "unat bp + unat ap + unat sp \<le> 100"
    using par pct by (auto simp: boost_percents_def params_ok_def split: if_splits)
  then have le: "bp \<le> 100" "ap \<le> 100" "sp \<le> 100" by (simp_all add: unat_le_exact)
  obtain b where b: "mul_div x bp 100 = Inr b" "unat b = unat x * unat bp div 100" using mul_div_percent [OF le(1)] .
  obtain r where r: "mul_div x ap 100 = Inr r" "unat r = unat x * unat ap div 100" using mul_div_percent [OF le(2)] .
  obtain q where q: "mul_div x sp 100 = Inr q" "unat q = unat x * unat sp div 100" using mul_div_percent [OF le(3)] .
  have "100 * (unat b + unat r + unat q) \<le> unat x * (unat bp + unat ap + unat sp)"
    unfolding b(2) r(2) q(2) distrib_left by (intro add_mono) simp_all
  also have "\<dots> \<le> unat x * 100" using sum by simp
  finally have t: "unat b + unat r + unat q \<le> unat x" by simp
  then have "unat (x - b) = unat x - unat b" by (intro unat_sub_exact) (simp add: unat_le_exact)
  moreover from this t have "unat (x - b - r) = unat x - unat b - unat r"
    by (subst unat_sub_exact) (simp_all add: unat_le_exact)
  moreover from this t have "unat (x - b - r - q) = unat x - unat b - unat r - unat q"
    by (subst unat_sub_exact) (simp_all add: unat_le_exact)
  ultimately show ?thesis using that [OF b(1) r(1) q(1)] t by simp
qed


lemma credit_keeps:
  "ws_postStakes (credit_if_present a x ws) = ws_postStakes ws" "ws_posts (credit_if_present a x ws) = ws_posts ws"
  by (simp_all add: credit_if_present_def split: option.split)

lemma pay_keeps:
  "pay_stakers R T ls ws = Inr w \<Longrightarrow> ws_postStakes w = ws_postStakes ws \<and> ws_posts w = ws_posts ws"
  by (induction ls arbitrary: ws) (auto simp: bindR_eq_Inr credit_keeps split: if_splits)

text \<open>The values \<^verbatim>\<open>applyBoostPost\<close> writes, named.\<close>

definition boost_account :: "Account \<Rightarrow> u64 \<Rightarrow> u64 \<Rightarrow> Account" where
  "boost_account booster x d = booster\<lparr>acc_Balance := acc_Balance booster - x,
     acc_PostStakeBalance := acc_PostStakeBalance booster + d, acc_Nonce := acc_Nonce booster + 1\<rparr>"

definition boost_stake :: "PostStake option \<Rightarrow> postid \<Rightarrow> address \<Rightarrow> u64 \<Rightarrow> u64 \<Rightarrow> PostStake" where
  "boost_stake old i a d h = (case old of Some e \<Rightarrow> e\<lparr>ps_Amount := ps_Amount e + d\<rparr>
     | None \<Rightarrow> \<lparr>ps_PostID = i, ps_Staker = a, ps_Amount = d, ps_Height = h\<rparr>)"

definition boost_post :: "Post \<Rightarrow> PostStake option \<Rightarrow> u64 \<Rightarrow> u64 \<Rightarrow> Post" where
  "boost_post post old d b =
     (let p = post\<lparr>post_TotalStaked := post_TotalStaked post + d, post_TotalBurned := post_TotalBurned post + b\<rparr>
      in case old of Some e \<Rightarrow> p | None \<Rightarrow> p\<lparr>post_StakerCount := post_StakerCount p + 1\<rparr>)"

definition boost_base :: "Account \<Rightarrow> u64 \<Rightarrow> WorldState \<Rightarrow> WorldState" where
  "boost_base acct' b ws = SetBurnedSupply (ws_burnedSupply ws + b) (SetAccount acct' ws)"

definition boost_reward :: "address \<Rightarrow> u64 \<Rightarrow> WorldState \<Rightarrow> WorldState" where
  "boost_reward a r ws = (if r > 0 then credit_if_present a r ws else ws)"

definition boost_pay :: "u64 \<Rightarrow> u64 \<Rightarrow> PostStake list \<Rightarrow> WorldState \<Rightarrow> (exec_error, WorldState) result" where
  "boost_pay q T ls ws = (if q > 0 \<and> T > 0 then pay_stakers q T ls ws else Inr ws)"

lemma boost_keeps:
  "ws_postStakes (boost_reward a r (boost_base acct' b ws)) = ws_postStakes ws"
  "ws_posts (boost_reward a r (boost_base acct' b ws)) = ws_posts ws"
  "boost_pay q T ls v = Inr w \<Longrightarrow> ws_postStakes w = ws_postStakes v \<and> ws_posts w = ws_posts v"
  by (auto simp: boost_reward_def boost_base_def boost_pay_def credit_keeps split: if_splits dest: pay_keeps)

lemma applyBoostPost_eq:
  assumes "GetAccount ws (tx_Sender tx) = Some booster" "tx_Amount tx \<le> acc_Balance booster"
    "GetPost ws (tx_PostID tx) = Some post" "boost_percents params = (bp, aup, sp)"
    "mul_div (tx_Amount tx) bp 100 = Inr b" "mul_div (tx_Amount tx) aup 100 = Inr r"
    "mul_div (tx_Amount tx) sp 100 = Inr q" "d = tx_Amount tx - b - r - q"
    "old = GetPostStake ws (tx_PostID tx) (tx_Sender tx)"
  shows "applyBoostPost params ws tx h =
    bindR (boost_pay q (post_TotalStaked post) (GetPostStakers ws (tx_PostID tx))
            (boost_reward (post_Author post) r (boost_base (boost_account booster (tx_Amount tx) d) b ws)))
      (\<lambda>w. Inr (SetPost (boost_post post old d b)
        (SetPostStake (boost_stake old (tx_PostID tx) (tx_Sender tx) d h) w)))"
proof -
  define w1 where "w1 = boost_reward (post_Author post) r (boost_base (boost_account booster (tx_Amount tx) d) b ws)"
  define k :: "WorldState \<Rightarrow> (exec_error, WorldState) result" where "k w = (case GetPostStake w (tx_PostID tx) (tx_Sender tx) of
      Some existing \<Rightarrow> Inr (SetPost (boost_post post (Some existing) d b)
        (SetPostStake (existing\<lparr>ps_Amount := ps_Amount existing + d\<rparr>) w))
    | None \<Rightarrow> Inr (SetPost (boost_post post None d b)
        (SetPostStake \<lparr>ps_PostID = tx_PostID tx, ps_Staker = tx_Sender tx, ps_Amount = d, ps_Height = h\<rparr> w)))" for w
  have "applyBoostPost params ws tx h
      = bindR (boost_pay q (post_TotalStaked post) (GetPostStakers w1 (tx_PostID tx)) w1) k"
    using assms(1,3-8) leD [OF assms(2)]
    by (simp add: applyBoostPost_def Let_def w1_def boost_pay_def boost_reward_def boost_base_def
        boost_account_def boost_post_def k_def [abs_def] cong: if_cong option.case_cong)
  moreover have "GetPostStakers w1 = GetPostStakers ws"
    by (rule stakes_cong(5)) (simp add: w1_def boost_keeps(1))
  moreover have "k w = Inr (SetPost (boost_post post old d b)
      (SetPostStake (boost_stake old (tx_PostID tx) (tx_Sender tx) d h) w))"
    if "boost_pay q (post_TotalStaked post) ls w1 = Inr w" for w ls
  proof -
    have "GetPostStake w = GetPostStake ws"
      using boost_keeps(3) [OF that] by (intro stakes_cong(4)) (simp add: w1_def boost_keeps(1))
    then show ?thesis by (simp add: k_def assms(9) boost_stake_def split: option.split)
  qed
  ultimately show ?thesis
    by (cases "boost_pay q (post_TotalStaked post) (GetPostStakers ws (tx_PostID tx)) w1") (simp_all flip: w1_def)
qed


text \<open>Staking part: the state in which only the stake, the post, the booster and the burn are updated.\<close>

lemma boost_staked_ok:
  assumes wf: "wf_ws P B ws" and B: "Suc B < 2 ^ 64" and room: "total_supply ws < 2 ^ 64"
    and s: "GetAccount ws a = Some booster" and bal: "x \<le> acc_Balance booster"
    and post: "GetPost ws i = Some post" and parts: "unat b + rest + unat d = unat x"
    and wb: "wb = with_stakes (mput i (boost_post post (GetPostStake ws i a) d b) (ws_posts ws))
      (mput (i, a) (boost_stake (GetPostStake ws i a) i a d h) (ws_postStakes ws))
      (boost_base (boost_account booster x d) b ws)"
  shows "wf_ws P (Suc B) wb" "total_supply wb + rest = total_supply ws"
proof -
  define acct' where "acct' = boost_account booster x d"
  define p' where "p' = boost_post post (GetPostStake ws i a) d b"
  define st where "st = boost_stake (GetPostStake ws i a) i a d h"
  have acct': "acc_Address acct' = a" "acc_Nonce acct' = acc_Nonce booster + 1"
    "acc_PostStakeBalance acct' = acc_PostStakeBalance booster + d"
    using wfD(5) [OF wf s] by (simp_all add: acct'_def boost_account_def)
  have p': "post_PostID p' = i" "post_Author p' = post_Author post" "post_TotalStaked p' = post_TotalStaked post + d"
    using wfD(8) [OF wf post] by (simp_all add: p'_def boost_post_def Let_def split: option.split)
  have st: "ps_PostID st = i" "ps_Staker st = a"
    by (cases "GetPostStake ws i a"; simp add: st_def boost_stake_def wfD(10) [OF wf])+
  note le = account_le_supply [OF wf s]
  have bb: "unat x \<le> unat (acc_Balance booster)" using bal by (simp add: unat_le_exact)
  have sroom: "stake_sum ws + unat d < 2 ^ 64" using le bb parts room by (simp add: funds_def)
  have wb_fields: "ws_accounts wb = mput a acct' (ws_accounts ws)" "ws_posts wb = mput i p' (ws_posts ws)"
    "ws_postStakes wb = mput (i, a) st (ws_postStakes ws)"
    "ws_burnedSupply wb = ws_burnedSupply ws + b" "ws_unbondingQueue wb = ws_unbondingQueue ws"
    using acct'(1) by (simp_all add: wb with_stakes_def boost_base_def p'_def st_def acct'_def)
  have T: "unat (post_TotalStaked p') = post_stake_sum i ws + unat d"
    using wfD(9) [OF wf post] stake_sums_le(1) [of i ws] sroom by (simp add: p'(3) unat_add_exact)
  have "unat (ps_Amount e) + unat d < 2 ^ 64" if "GetPostStake ws i a = Some e" for e
    using that gm.msum_ge [OF wfD(3) [OF wf], of "(i, a)" e "\<lambda>k s. unat (ps_Amount s)"] sroom
    by (simp add: GetPostStake_def stake_sum_def)
  then have S: "unat (ps_Amount st) = opt_val 0 (\<lambda>s. unat (ps_Amount s)) (GetPostStake ws i a) + unat d"
    by (cases "GetPostStake ws i a") (simp_all add: st_def boost_stake_def unat_add_exact)
  obtain y n where y: "GetAccount ws (post_Author post) = Some y" "n \<le> acc_Nonce y"
    "i = DerivePostID P (post_Author post) n" using post_origin [OF wf post] .
  have "\<exists>x n. ((GetAccount ws)(a \<mapsto> acct')) (post_Author p') = Some x \<and> n \<le> acc_Nonce x
      \<and> i = DerivePostID P (post_Author p') n"
  proof (cases "post_Author post = a")
    case True
    then have "n \<le> acc_Nonce acct'"
      using y s nonce_step(2) [OF wfD(6) [OF wf s] B] acct'(2) by simp
    with True y(3) p'(2) show ?thesis by auto
  qed (use y p'(2) in auto)
  note added = wf_add_stake [OF wf B sroom s acct' p'(1) T this st S wb_fields(1-3)]
  show "wf_ws P (Suc B) wb" by (rule added)
  have "acct_sum wb + unat x = acct_sum ws"
    using acct_sum_mput [OF wfD(1) [OF wf] s wb_fields(1)] bal bb
    by (simp add: acct'_def boost_account_def funds_def unat_sub_exact)
  moreover have "unat (ws_burnedSupply ws + b) = unat (ws_burnedSupply ws) + unat b"
    using le bb parts room by (intro unat_add_exact) (simp add: funds_def)
  ultimately show "total_supply wb + rest = total_supply ws"
    using added(2) parts wb_fields(4,5) by (simp add: total_supply_def)
qed


lemma SetPost_SetPostStake_with:
  assumes "post_PostID p = i" "ps_PostID st = i" "ps_Staker st = a" "ws_posts w = ps" "ws_postStakes w = ss"
  shows "SetPost p (SetPostStake st w) = with_stakes (mput i p ps) (mput (i, a) st ss) w"
  using assms by (cases w) (simp add: SetPost_def SetPostStake_def with_stakes_def)

lemma reward_with_stakes:
  "boost_reward a r (with_stakes ps ss w) = with_stakes ps ss (boost_reward a r w)"
  by (simp add: boost_reward_def credit_with_stakes)

lemma pay_with_stakes':
  "boost_pay q T ls (with_stakes ps ss w) = bindR (boost_pay q T ls w) (\<lambda>w. Inr (with_stakes ps ss w))"
  by (simp add: boost_pay_def pay_with_stakes)

lemma boost_reward_ok:
  assumes "wf_ws P B ws" "total_supply ws + unat r < 2 ^ 64" "GetAccount ws a \<noteq> None"
  shows "wf_ws P B (boost_reward a r ws)" "total_supply (boost_reward a r ws) = total_supply ws + unat r"
    "GetAccount (boost_reward a r ws) b = None \<longleftrightarrow> GetAccount ws b = None"
proof -
  have "unat r = 0" if "\<not> r > 0" using that by (simp add: word_gt_0)
  then show "wf_ws P B (boost_reward a r ws)" "total_supply (boost_reward a r ws) = total_supply ws + unat r"
    "GetAccount (boost_reward a r ws) b = None \<longleftrightarrow> GetAccount ws b = None"
    using credit_if_present_ok [OF assms] assms(1) by (auto simp: boost_reward_def)
qed

lemma boost_pay_ok:
  assumes "wf_ws P B ws" "total_supply ws + unat q < 2 ^ 64"
    and "sum_list (map (\<lambda>s. unat (ps_Amount s)) ls) = unat T"
    and "\<forall>s\<in>set ls. GetAccount ws (ps_Staker s) \<noteq> None"
  shows "\<exists>w. boost_pay q T ls ws = Inr w \<and> wf_ws P B w \<and> total_supply ws \<le> total_supply w
    \<and> total_supply w \<le> total_supply ws + unat q \<and> acct_le ws w"
proof (cases "q > 0 \<and> T > 0")
  case True
  then have T: "T \<noteq> 0" "0 < unat T" by (auto simp: unat_gt_0)
  define shares where "shares = sum_list (map (\<lambda>s. unat q * unat (ps_Amount s) div unat T) ls)"
  have "shares \<le> unat q"
    using sum_shares_le [OF T(2), of "map (\<lambda>s. unat (ps_Amount s)) ls" "unat q"] assms(3)
    by (simp add: shares_def comp_def)
  moreover have "ps_Amount s \<le> T" if "s \<in> set ls" for s
    using member_le_sum_list [of "unat (ps_Amount s)" "map (\<lambda>s. unat (ps_Amount s)) ls"] that assms(3)
    by (simp add: unat_le_exact)
  ultimately show ?thesis
    using pay_stakers_ok [OF assms(1) T(1), of ls q] assms(2,4) True
    by (auto simp: boost_pay_def simp flip: shares_def)
qed (use assms(1) in \<open>auto simp: boost_pay_def\<close>)

lemma applyBoostPost_ok:
  assumes wf: "wf_ws P B ws" and B: "Suc B < 2 ^ 64" and room: "total_supply ws < 2 ^ 64"
    and par: "params_ok params" and ap: "applyBoostPost params ws tx h = Inr ws'"
  shows "wf_ws P (Suc B) ws' \<and> total_supply ws' \<le> total_supply ws
    \<and> (\<exists>booster d. GetAccount ws (tx_Sender tx) = Some booster
         \<and> acct_le (SetAccount (boost_account booster (tx_Amount tx) d) ws) ws')"
proof -
  define a i x where "a = tx_Sender tx" and "i = tx_PostID tx" and "x = tx_Amount tx"
  obtain booster post where s: "GetAccount ws a = Some booster" and bal: "x \<le> acc_Balance booster"
    and post: "GetPost ws i = Some post"
    using ap by (auto simp: applyBoostPost_def a_def i_def x_def not_less split: option.splits if_splits)
  obtain bp aup sp where pct: "boost_percents params = (bp, aup, sp)" by (metis prod_cases3)
  obtain b r q where parts: "mul_div x bp 100 = Inr b" "mul_div x aup 100 = Inr r" "mul_div x sp 100 = Inr q"
    and split: "unat b + unat r + unat q + unat (x - b - r - q) = unat x"
    using boost_split [OF par pct] .
  define d where "d = x - b - r - q"
  define st where "st = boost_stake (GetPostStake ws i a) i a d h"
  define p' where "p' = boost_post post (GetPostStake ws i a) d b"
  define ps ss where "ps = mput i p' (ws_posts ws)" and "ss = mput (i, a) st (ws_postStakes ws)"
  define w0 where "w0 = boost_base (boost_account booster x d) b ws"
  define w1 where "w1 = boost_reward (post_Author post) r w0"
  define ls where "ls = GetPostStakers ws i"
  have ids: "post_PostID p' = i" "ps_PostID st = i" "ps_Staker st = a"
    using wfD(8) [OF wf post]
    by (simp_all add: p'_def boost_post_def Let_def st_def boost_stake_def wfD(10) [OF wf] split: option.split)
  have wb: "wf_ws P (Suc B) (with_stakes ps ss w0)"
    "total_supply (with_stakes ps ss w0) + (unat r + unat q) = total_supply ws"
    using boost_staked_ok [OF wf B room s bal post, of b "unat r + unat q" d] split
    by (simp_all add: ps_def ss_def p'_def st_def w0_def d_def)
  have ga: "GetAccount (with_stakes ps ss w0) c \<noteq> None" if "GetAccount ws c \<noteq> None" for c
    using that by (auto simp: with_stakes_def w0_def boost_base_def GetAccount_def SetBurnedSupply_def)
  have author: "GetAccount (with_stakes ps ss w0) (post_Author post) \<noteq> None"
    using post_origin [OF wf post] ga by (metis option.distinct(1))
  have wr: "wf_ws P (Suc B) (with_stakes ps ss w1)"
    "total_supply (with_stakes ps ss w1) + unat q = total_supply ws"
    "\<And>c. GetAccount (with_stakes ps ss w1) c = None \<longleftrightarrow> GetAccount (with_stakes ps ss w0) c = None"
    using boost_reward_ok [OF wb(1) _ author, of r] wb(2) room by (simp_all add: w1_def reward_with_stakes)
  have stakers: "sum_list (map (\<lambda>s. unat (ps_Amount s)) ls) = unat (post_TotalStaked post)"
    "\<forall>s\<in>set ls. GetAccount (with_stakes ps ss w1) (ps_Staker s) \<noteq> None"
    using GetPostStakers_facts [OF wfD(4) [OF wf], of i] wfD(4) [OF wf] wfD(9) [OF wf post] ga wr(3)
    unfolding ls_def stakes_wf_def by (simp, metis)
  have le1: "acct_le (with_stakes ps ss w0) (with_stakes ps ss w1)"
    using credit_acct_le(2) [OF wb(1), of r "post_Author post"] wb(2) room
    by (simp add: w1_def boost_reward_def credit_with_stakes)
  obtain w where w: "boost_pay q (post_TotalStaked post) ls (with_stakes ps ss w1) = Inr w" "wf_ws P (Suc B) w"
    "total_supply w \<le> total_supply ws" "acct_le (with_stakes ps ss w1) w"
    using boost_pay_ok [OF wr(1) _ stakers, of q] wr(2) room by auto
  then obtain v where v: "boost_pay q (post_TotalStaked post) ls w1 = Inr v" "w = with_stakes ps ss v"
    by (auto simp: pay_with_stakes' bindR_eq_Inr)
  have "ws_posts v = ws_posts ws" "ws_postStakes v = ws_postStakes ws"
    using boost_keeps(3) [OF v(1)] by (simp_all add: w1_def w0_def boost_keeps)
  then have "SetPost p' (SetPostStake st v) = w"
    using SetPost_SetPostStake_with [OF ids] v(2) by (simp add: ps_def ss_def)
  moreover have "ws' = SetPost p' (SetPostStake st v)"
    using ap applyBoostPost_eq [of ws tx booster post params bp aup sp b r q d "GetPostStake ws i a" h]
      s bal post pct parts v(1)
    by (simp add: a_def i_def x_def d_def w1_def w0_def ls_def p'_def st_def)
  moreover have "acct_le (SetAccount (boost_account booster x d) ws) w"
    using acct_le_trans [OF le1 w(4)]
    by (subst acct_le_cong [where v' = "with_stakes ps ss w0" and w' = w])
      (simp_all add: fun_eq_iff with_stakes_def w0_def boost_base_def GetAccount_def SetBurnedSupply_def)
  ultimately show ?thesis using w s by (auto simp: a_def x_def)
qed

section \<open>Withdrawals from posts\<close>

text \<open>Removing a stake: the account gets it back, the post and the account totals shrink with it.\<close>

lemma wf_remove_stake:
  assumes wf: "wf_ws P B ws" and le: "B \<le> B'" and room: "total_supply ws < 2 ^ 64"
    and s: "GetAccount ws a = Some acct" and post: "GetPost ws i = Some p" and st: "GetPostStake ws i a = Some e"
    and acct': "acct' = acct\<lparr>acc_Balance := acc_Balance acct + ps_Amount e,
      acc_PostStakeBalance := acc_PostStakeBalance acct - ps_Amount e, acc_Nonce := n\<rparr>"
      "acc_Nonce acct \<le> n" "unat n \<le> B'"
    and p': "post_PostID p' = i" "post_Author p' = post_Author p"
      "post_TotalStaked p' = post_TotalStaked p - ps_Amount e"
    and ws': "ws_accounts ws' = mput a acct' (ws_accounts ws)" "ws_posts ws' = mput i p' (ws_posts ws)"
      "ws_postStakes ws' = mdel (i, a) (ws_postStakes ws)" "ws_unbondingQueue ws' = ws_unbondingQueue ws"
      "ws_burnedSupply ws' = ws_burnedSupply ws"
  shows "wf_ws P B' ws'" "total_supply ws' = total_supply ws"
proof -
  note sums = sums_del_stake [OF wfD(3) [OF wf] st ws'(3)]
  have addr: "acc_Address acct' = a" using wfD(5) [OF wf s] acct'(1) by simp
  have ga: "GetAccount ws' = (GetAccount ws)(a \<mapsto> acct')" by (auto simp: GetAccount_def ws'(1))
  have gp: "GetPost ws' = (GetPost ws)(i \<mapsto> p')" by (auto simp: GetPost_def ws'(2))
  have psb: "unat (acc_PostStakeBalance acct') = addr_stake_sum a ws'"
    using sums(3) [of a] wfD(7) [OF wf s] acct'(1) by (simp add: unat_sub_exact unat_le_exact)
  have tot: "unat (post_TotalStaked p') = post_stake_sum i ws'"
    using sums(2) [of i] wfD(9) [OF wf post] p'(3) by (simp add: unat_sub_exact unat_le_exact)
  obtain y m where y: "GetAccount ws (post_Author p) = Some y" "m \<le> acc_Nonce y"
    "i = DerivePostID P (post_Author p) m" using post_origin [OF wf post] .
  have origin: "\<exists>x m. GetAccount ws' (post_Author p') = Some x \<and> m \<le> acc_Nonce x \<and> i = DerivePostID P (post_Author p') m"
  proof (cases "post_Author p = a")
    case True
    then have "m \<le> acc_Nonce acct'" using y s acct'(1,2) by auto
    with True y(3) p'(2) show ?thesis by (auto simp: ga)
  qed (use y p'(2) in \<open>auto simp: ga\<close>)
  show "wf_ws P B' ws'"
  proof (rule wf_update [OF wf le ga _ gp])
    show "GetPostStake ws' = (\<lambda>j b. if (j, b) = (i, a) then None else GetPostStake ws j b)"
      by (auto simp: GetPostStake_def ws'(3) fun_eq_iff)
    show "addr_stake_sum b ws' = addr_stake_sum b ws" if "b \<noteq> a" for b using sums(3) [of b] that by simp
    show "post_stake_sum j ws' = post_stake_sum j ws" if "j \<noteq> i" for j using sums(2) [of j] that by simp
  qed (use s acct' addr psb tot origin p'(1) wfD(1-3) [OF wf] in \<open>auto simp: ws' map_ok_laws\<close>)
  have "unat (ps_Amount e) \<le> stake_sum ws" using sums(1) by simp
  then have "unat (acc_Balance acct) + unat (ps_Amount e) < 2 ^ 64"
    using account_le_supply [OF wf s] room by (simp add: funds_def)
  then have "funds acct' = funds acct + unat (ps_Amount e)" using acct'(1) by (simp add: funds_def unat_add_exact)
  with acct_sum_mput [OF wfD(1) [OF wf] s ws'(1)] sums(1)
  show "total_supply ws' = total_supply ws" by (simp add: total_supply_def ws'(4,5))
qed


text \<open>The loop keeps \<^verbatim>\<open>post\<close> aside; the state with it written back is well formed at every round.\<close>

lemma mput_mput: "mput k v (mput k w m) = mput k v m"
  by (induction m) auto

lemma refund_stakers_ok:
  assumes "wf_ws P B (SetPost post ws)" "total_supply (SetPost post ws) < 2 ^ 64" "post_PostID post = i"
    and "\<forall>s\<in>set ls. GetPostStake ws i (ps_Staker s) = Some s" "distinct (map ps_Staker ls)"
    and "refund_stakers i ls (post, ws) = (post', ws')"
  shows "wf_ws P B (SetPost post' ws') \<and> total_supply (SetPost post' ws') = total_supply (SetPost post ws)
    \<and> post_PostID post' = i"
  using assms
proof (induction ls arbitrary: post ws)
  case Nil
  then show ?case by simp
next
  case (Cons s ls)
  have st: "GetPostStake (SetPost post ws) i (ps_Staker s) = Some s" using Cons.prems(4) by simp
  then obtain acct where acct: "GetAccount (SetPost post ws) (ps_Staker s) = Some acct"
    using wfD(4) [OF Cons.prems(1)] unfolding stakes_wf_def by blast
  define acct' where "acct' = acct\<lparr>acc_Balance := acc_Balance acct + ps_Amount s,
    acc_PostStakeBalance := acc_PostStakeBalance acct - ps_Amount s\<rparr>"
  define post1 where "post1 = post\<lparr>post_TotalStaked := post_TotalStaked post - ps_Amount s,
    post_StakerCount := post_StakerCount post - 1\<rparr>"
  define ws1 where "ws1 = RemovePostStake i (ps_Staker s) (SetAccount acct' ws)"
  have step: "refund_stakers i (s # ls) (post, ws) = refund_stakers i ls (post1, ws1)"
    using acct by (simp add: post1_def ws1_def acct'_def Let_def)
  have addr: "acc_Address acct' = ps_Staker s" using wfD(5) [OF Cons.prems(1) acct] by (simp add: acct'_def)
  have gp: "GetPost (SetPost post ws) i = Some post" using Cons.prems(3) by simp
  have upd: "mput i post1 (mput i post (ws_posts ws)) = mput i post1 (ws_posts ws)"
    by (rule mput_mput)
  have next1: "wf_ws P B (SetPost post1 ws1) \<and> total_supply (SetPost post1 ws1) = total_supply (SetPost post ws)"
    by (rule conjI; rule wf_remove_stake [OF Cons.prems(1) le_refl Cons.prems(2) acct gp st, of acct' "acc_Nonce acct"])
      (use Cons.prems(3) addr wfD(6) [OF Cons.prems(1) acct] upd in
        \<open>auto simp: acct'_def post1_def ws1_def\<close>)
  have "\<forall>u\<in>set ls. GetPostStake ws1 i (ps_Staker u) = Some u"
  proof
    fix u
    assume u: "u \<in> set ls"
    then have "ps_Staker u \<noteq> ps_Staker s" using Cons.prems(5) by (metis distinct.simps(2) image_eqI list.set_map list.simps(9))
    with u Cons.prems(4) show "GetPostStake ws1 i (ps_Staker u) = Some u" by (simp add: ws1_def)
  qed
  moreover have "post_PostID post1 = i" using Cons.prems(3) by (simp add: post1_def)
  moreover have "refund_stakers i ls (post1, ws1) = (post', ws')" using Cons.prems(6) step by simp
  ultimately show ?case
    using Cons.IH [of post1 ws1] next1 Cons.prems(2,5) by simp
qed

lemma applyUnstakePost_ok:
  assumes wf: "wf_ws P B ws" and B: "Suc B < 2 ^ 64" and room: "total_supply ws < 2 ^ 64"
    and ap: "applyUnstakePost ws tx = Inr ws'"
  shows "wf_ws P (Suc B) ws' \<and> total_supply ws' = total_supply ws"
proof -
  define a i where "a = tx_Sender tx" and "i = tx_PostID tx"
  obtain sender st post where s: "GetAccount ws a = Some sender" and st: "GetPostStake ws i a = Some st"
    and post: "GetPost ws i = Some post"
    using ap by (auto simp: applyUnstakePost_def a_def i_def split: option.splits)
  define acct' where "acct' = sender\<lparr>acc_Balance := acc_Balance sender + ps_Amount st,
    acc_PostStakeBalance := acc_PostStakeBalance sender - ps_Amount st, acc_Nonce := acc_Nonce sender + 1\<rparr>"
  define post1 where "post1 = post\<lparr>post_TotalStaked := post_TotalStaked post - ps_Amount st,
    post_StakerCount := post_StakerCount post - 1\<rparr>"
  define post2 where "post2 = (if a = post_Author post then post1\<lparr>post_Withdrawn := True\<rparr> else post1)"
  define ws1 where "ws1 = RemovePostStake i a (SetAccount acct' ws)"
  define ls where "ls = (if a = post_Author post then GetPostStakers ws1 i else [])"
  obtain post3 ws2 where loop: "refund_stakers i ls (post2, ws1) = (post3, ws2)" by fastforce
  have res: "ws' = SetPost post3 ws2"
    using ap s st post loop
    by (cases "a = post_Author post")
      (simp_all add: applyUnstakePost_def a_def i_def acct'_def post1_def post2_def ls_def ws1_def Let_def)
  have addr: "acc_Address acct' = a" using wfD(5) [OF wf s] by (simp add: acct'_def)
  have pid: "post_PostID post2 = i" using wfD(8) [OF wf post] by (simp add: post2_def post1_def)
  note n = nonce_step [OF wfD(6) [OF wf s] B]
  have "wf_ws P (Suc B) (SetPost post2 ws1) \<and> total_supply (SetPost post2 ws1) = total_supply ws"
    by (rule conjI; rule wf_remove_stake [OF wf _ room s post st, of "Suc B" acct' "acc_Nonce sender + 1" post2])
      (use n addr pid in \<open>auto simp: acct'_def post2_def post1_def ws1_def\<close>)
  then have w1: "wf_ws P (Suc B) (SetPost post2 ws1)" "total_supply (SetPost post2 ws1) = total_supply ws" by blast+
  have eqs: "GetPostStakers (SetPost post2 ws1) = GetPostStakers ws1" "GetPostStake (SetPost post2 ws1) = GetPostStake ws1"
    by (rule stakes_cong; simp)+
  have "\<forall>u\<in>set ls. GetPostStake ws1 i (ps_Staker u) = Some u" "distinct (map ps_Staker ls)"
    using GetPostStakers_facts [OF wfD(4) [OF w1(1)], of i] unfolding eqs by (simp_all add: ls_def)
  from refund_stakers_ok [OF w1(1) _ pid this loop] w1(2) room show ?thesis by (simp add: res)
qed

section \<open>One transaction\<close>

lemma ApplyTransaction_ok:
  assumes "wf_ws P B ws" "Suc B < 2 ^ 64" "total_supply ws < 2 ^ 64" "params_ok params" "post_ids_distinct P ws'"
    and "ApplyTransaction P params ws tx h t = Inr ws'"
  shows "wf_ws P (Suc B) ws'" "total_supply ws' \<le> total_supply ws"
    "tx_Type tx \<noteq> TxBoostPost \<Longrightarrow> total_supply ws' = total_supply ws"
proof -
  have "wf_ws P (Suc B) ws' \<and> total_supply ws' \<le> total_supply ws
      \<and> (tx_Type tx \<noteq> TxBoostPost \<longrightarrow> total_supply ws' = total_supply ws)"
    using assms(6) unfolding ApplyTransaction_def
    by (auto split: if_splits dest: applyTransfer_ok [OF assms(1-3)] applyCreatePost_ok [OF assms(1-5)]
        applyBoostPost_ok [OF assms(1-4)] applyUnstakePost_ok [OF assms(1-3)] applyRegisterName_ok [OF assms(1,2)]
        applyStake_ok [OF assms(1-3)] applyUnstake_ok [OF assms(1,2)])
  then show "wf_ws P (Suc B) ws'" "total_supply ws' \<le> total_supply ws"
    "tx_Type tx \<noteq> TxBoostPost \<Longrightarrow> total_supply ws' = total_supply ws" by blast+
qed

end
