(* ===== verification/LedgerBlocks.thy ===== *)
theory LedgerBlocks
  imports Ledger
begin

text \<open>
  Slashing, nonces and whole blocks: what \<^verbatim>\<open>applySlashEvidence\<close>, the loop over the transactions and
  \<^verbatim>\<open>ApplyBlock\<close> do to the ledger invariant and to the supply, and why a transaction is never applied twice.
\<close>

section \<open>Slashing\<close>

definition unb_for :: "address \<Rightarrow> UnbondingEntry list \<Rightarrow> nat" where
  "unb_for a es = sum_list (map (\<lambda>e. if unb_Address e = a then unat (unb_Amount e) else 0) es)"

lemma unb_for_le: "unb_for a es \<le> unb_sum es"
  unfolding unb_for_def unb_sum_def by (intro sum_list_mono) auto

lemma UnbondingBalanceFor_exact:
  assumes "unb_sum (ws_unbondingQueue ws) < 2 ^ 64"
  shows "unat (UnbondingBalanceFor ws a) = unb_for a (ws_unbondingQueue ws)"
proof -
  have "unat (foldl (\<lambda>total e. if unb_Address e = a then total + unb_Amount e else total) t es)
      = unat t + unb_for a es" if "unat t + unb_sum es < 2 ^ 64" for t es
    using that
  proof (induction es arbitrary: t)
    case (Cons e es)
    show ?case
    proof (cases "unb_Address e = a")
      case True
      have "unat (t + unb_Amount e) = unat t + unat (unb_Amount e)"
        using Cons.prems by (intro unat_add_exact) (simp add: unb_sum_def)
      with True Cons show ?thesis by (simp add: unb_for_def unb_sum_def)
    next
      case False
      with Cons show ?thesis by (simp add: unb_for_def unb_sum_def)
    qed
  qed (simp add: unb_for_def)
  from this [of 0] assms show ?thesis by (simp add: UnbondingBalanceFor_def)
qed

lemma slash_entries_sum:
  "unat r \<le> unb_for a es \<Longrightarrow> unb_sum (slash_entries a r es) + unat r = unb_sum es"
proof (induction es arbitrary: r)
  case Nil
  then show ?case by (simp add: unb_for_def unb_sum_def)
next
  case (Cons e es)
  show ?case
  proof (cases "r = 0")
    case True
    then show ?thesis by simp
  next
    case r: False
    show ?thesis
    proof (cases "unb_Address e = a")
      case True
      show ?thesis
      proof (cases "unb_Amount e \<le> r")
        case le: True
        then have "unat (r - unb_Amount e) = unat r - unat (unb_Amount e)" by (rule unat_sub_exact)
        moreover have "unat (unb_Amount e) \<le> unat r" using le by (simp add: unat_le_exact)
        moreover from calculation have "unb_sum (slash_entries a (r - unb_Amount e) es)
            + (unat r - unat (unb_Amount e)) = unb_sum es"
          using Cons.IH [of "r - unb_Amount e"] Cons.prems True by (simp add: unb_for_def)
        ultimately show ?thesis using True le r by (simp add: unb_sum_def)
      next
        case False
        then have "unat (unb_Amount e - r) = unat (unb_Amount e) - unat r"
          by (intro unat_sub_exact) simp
        moreover have "unat r \<le> unat (unb_Amount e)" using False by (simp add: unat_le_exact)
        ultimately show ?thesis
          using Cons.IH [of 0] False True r by (simp add: unb_for_def unb_sum_def)
      qed
    next
      case False
      then show ?thesis using Cons.IH [of r] Cons.prems r by (simp add: unb_for_def unb_sum_def)
    qed
  qed
qed

lemma unb_sum_drop_zero: "unb_sum (filter (\<lambda>e. unb_Amount e > 0) es) = unb_sum es"
  by (induction es) (auto simp: unb_sum_def word_gt_0)

lemma slash_amount_bounds:
  assumes "gc_SlashFractionDoubleSign params \<le> 100" "t \<noteq> 0"
  shows "0 < slash_amount params t" "slash_amount params t \<le> t"
proof -
  obtain q where q: "mul_div t (gc_SlashFractionDoubleSign params) 100 = Inr q" "q \<le> t"
    using mul_div_percent [OF assms(1)] .
  then have "MulDiv t (gc_SlashFractionDoubleSign params) 100 = Some q"
    by (auto simp: mul_div_def split: option.splits)
  moreover have "(1 :: u64) \<le> t" using assms(2) by (simp add: unat_le_exact) (metis One_nat_def Suc_leI unat_gt_0)
  ultimately show "0 < slash_amount params t" "slash_amount params t \<le> t"
    using q(2) by (auto simp: slash_amount_def word_gt_0)
qed

lemma total_supply_fields:
  assumes "ws_accounts ws' = ws_accounts ws" "ws_postStakes ws' = ws_postStakes ws"
  shows "total_supply ws' + unb_sum (ws_unbondingQueue ws) + unat (ws_burnedSupply ws)
    = total_supply ws + unb_sum (ws_unbondingQueue ws') + unat (ws_burnedSupply ws')"
  using assms by (simp add: total_supply_def acct_sum_def stake_sum_def)

lemma applySlashEvidence_ok:
  assumes wf: "wf_ws P B ws" and room: "total_supply ws < 2 ^ 64" and par: "params_ok params"
  shows "wf_ws P B (applySlashEvidence P params ev ws)"
    "total_supply (applySlashEvidence P params ev ws) = total_supply ws"
proof -
  define a where "a = vote_VoterAddr (ev_VoteA ev)"
  have "wf_ws P B (applySlashEvidence P params ev ws)
    \<and> total_supply (applySlashEvidence P params ev ws) = total_supply ws"
  proof (cases "applySlashEvidence P params ev ws = ws")
    case True
    with wf show ?thesis by simp
  next
    case False
    then obtain acct where s: "GetAccount ws a = Some acct"
      by (auto simp: applySlashEvidence_def Let_def a_def split: if_splits option.splits)
    define t where "t = acc_StakedBalance acct + UnbondingBalanceFor ws a"
    have t: "t \<noteq> 0" using False s by (auto simp: applySlashEvidence_def Let_def a_def t_def split: if_splits)
    have le: "funds acct + unb_for a (ws_unbondingQueue ws) + unat (ws_burnedSupply ws) \<le> total_supply ws"
      using account_le_sum [OF wfD(1) [OF wf] s] unb_for_le [of a "ws_unbondingQueue ws"]
      by (simp add: total_supply_def)
    have ub: "unat (UnbondingBalanceFor ws a) = unb_for a (ws_unbondingQueue ws)"
      using room by (intro UnbondingBalanceFor_exact) (simp add: total_supply_def)
    have tx: "unat t = unat (acc_StakedBalance acct) + unb_for a (ws_unbondingQueue ws)"
      using le ub room by (simp add: t_def funds_def unat_add_exact)
    define x where "x = slash_amount params t"
    define y where "y = (if x > acc_StakedBalance acct then acc_StakedBalance acct else x)"
    have x: "0 < x" "x \<le> t" using slash_amount_bounds [OF _ t] par by (simp_all add: x_def params_ok_def)
    have y: "y \<le> acc_StakedBalance acct" "y \<le> x" by (auto simp: y_def)
    have xy: "unat (x - y) = unat x - unat y" using y(2) by (rule unat_sub_exact)
    have rem: "unat (x - y) \<le> unb_for a (ws_unbondingQueue ws)"
      using x(2) tx xy by (auto simp: y_def unat_le_exact)
    define acct' where "acct' = acct\<lparr>acc_StakedBalance := acc_StakedBalance acct - y\<rparr>"
    define w1 where "w1 = SetAccount acct' ws"
    define w2 where "w2 = (if x - y > 0 then SlashUnbonding a (x - y) w1 else w1)"
    define w3 where "w3 = SetBurnedSupply (ws_burnedSupply ws + x) (RecordSlash a (vote_Height (ev_VoteA ev)) w2)"
    have b2: "ws_burnedSupply w2 = ws_burnedSupply ws" "ws_accounts w2 = ws_accounts w1"
      "ws_posts w2 = ws_posts w1" "ws_postStakes w2 = ws_postStakes w1"
      by (simp_all add: w2_def w1_def SlashUnbonding_def)
    have b1: "ws_burnedSupply w1 = ws_burnedSupply ws" by (simp add: w1_def)
    have res: "applySlashEvidence P params ev ws = w3"
      using False s t
      by (auto simp: applySlashEvidence_def Let_def a_def [symmetric] t_def [symmetric] x_def [symmetric]
          y_def [symmetric] acct'_def [symmetric] w1_def [symmetric] w3_def b1 RecordSlash_def w2_def
          SlashUnbonding_def split: if_splits)
    have addr: "acc_Address acct' = a" using wfD(5) [OF wf s] by (simp add: acct'_def)
    have "wf_ws P B w1"
      unfolding w1_def using addr s wfD(6,7) [OF wf s] by (intro wf_SetAccount [OF wf]) (auto simp: acct'_def)
    moreover have "wf_ws P B w3 = wf_ws P B w1"
      by (rule wf_cong) (simp_all add: w3_def RecordSlash_def b2)
    moreover have "total_supply w1 + unat y = total_supply ws"
      using total_supply_SetAccount [OF wfD(1) [OF wf], of acct'] s addr y(1)
      by (simp add: w1_def acct'_def funds_def unat_sub_exact unat_le_exact)
    moreover have "unb_sum (ws_unbondingQueue w3) + unat (x - y) = unb_sum (ws_unbondingQueue w1)"
      using slash_entries_sum [OF rem]
      by (cases "x - y > 0")
        (simp_all add: w3_def w2_def w1_def RecordSlash_def SetBurnedSupply_def SlashUnbonding_def
          unb_sum_drop_zero, simp add: word_gt_0)
    moreover have "unat (ws_burnedSupply ws + x) = unat (ws_burnedSupply ws) + unat x"
      using le tx x(2) room by (intro unat_add_exact) (simp add: funds_def unat_le_exact)
    moreover have "total_supply w3 + unb_sum (ws_unbondingQueue w1) + unat (ws_burnedSupply w1)
        = total_supply w1 + unb_sum (ws_unbondingQueue w3) + unat (ws_burnedSupply w3)"
      by (rule total_supply_fields) (simp_all add: w3_def RecordSlash_def b2)
    moreover have "unat y \<le> unat x" using y(2) by (simp add: unat_le_exact)
    ultimately show ?thesis using xy by (simp add: res) (simp add: w3_def w1_def)
  qed
  then show "wf_ws P B (applySlashEvidence P params ev ws)"
    "total_supply (applySlashEvidence P params ev ws) = total_supply ws" by blast+
qed


section \<open>Nonces\<close>

definition nonce_of :: "WorldState \<Rightarrow> address \<Rightarrow> u64" where
  "nonce_of ws a = opt_val 0 acc_Nonce (GetAccount ws a)"

definition keyed :: "WorldState \<Rightarrow> bool" where
  "keyed ws \<longleftrightarrow> (\<forall>a x. GetAccount ws a = Some x \<longrightarrow> acc_Address x = a)"

text \<open>From \<open>ws\<close> to \<open>ws'\<close> no account disappears, and the nonces become those of \<open>f\<close>.\<close>

definition nonces_are :: "(address \<Rightarrow> u64) \<Rightarrow> WorldState \<Rightarrow> WorldState \<Rightarrow> bool" where
  "nonces_are f ws ws' \<longleftrightarrow> nonce_of ws' = f \<and> dom (GetAccount ws) \<subseteq> dom (GetAccount ws') \<and> keyed ws'"

lemma wf_keyed: "wf_ws P B ws \<Longrightarrow> keyed ws" unfolding keyed_def by (auto dest: wfD(5))

lemma nonces_SetAccount:
  assumes "keyed ws"
  shows "nonces_are ((nonce_of ws)(acc_Address acct := acc_Nonce acct)) ws (SetAccount acct ws)"
  using assms by (auto simp: nonces_are_def keyed_def nonce_of_def fun_eq_iff split: if_splits)

lemma nonces_SetAccount_same:
  assumes "keyed ws" "acc_Nonce acct = nonce_of ws (acc_Address acct)"
  shows "nonces_are (nonce_of ws) ws (SetAccount acct ws)"
  using nonces_SetAccount [OF assms(1), of acct] by (simp add: assms(2))

lemma nonces_trans: "nonces_are f ws w \<Longrightarrow> nonces_are g w ws' \<Longrightarrow> nonces_are g ws ws'"
  unfolding nonces_are_def by blast

lemma nonces_are_keyed: "nonces_are f ws w \<Longrightarrow> keyed w" by (simp add: nonces_are_def)

lemma nonces_are_eq: "nonces_are f ws w \<Longrightarrow> nonce_of w = f" by (simp add: nonces_are_def)

lemma nonces_cong: "GetAccount v = GetAccount w \<Longrightarrow> nonces_are f ws v = nonces_are f ws w"
  by (simp add: nonces_are_def nonce_of_def [abs_def] keyed_def)

lemma GetAccount_other [simp]:
  "GetAccount (RegisterName a nm ws) = GetAccount ws" "GetAccount (SetValidatorPubKey a pk ws) = GetAccount ws"
  "GetAccount (AddUnbondingEntry e ws) = GetAccount ws"
  by (simp_all add: GetAccount_def RegisterName_def SetValidatorPubKey_def AddUnbondingEntry_def fun_eq_iff)

lemma nonces_frame [simp]:
  "nonces_are f ws (SetPost p w) = nonces_are f ws w"
  "nonces_are f ws (SetPostStake s w) = nonces_are f ws w"
  "nonces_are f ws (RemovePostStake i b w) = nonces_are f ws w"
  "nonces_are f ws (SetBurnedSupply x w) = nonces_are f ws w"
  "nonces_are f ws (RegisterName b nm w) = nonces_are f ws w"
  "nonces_are f ws (SetValidatorPubKey b pk w) = nonces_are f ws w"
  "nonces_are f ws (AddUnbondingEntry e w) = nonces_are f ws w"
  by (rule nonces_cong; simp)+

lemma nonces_refl: "keyed ws \<Longrightarrow> nonces_are (nonce_of ws) ws ws" by (simp add: nonces_are_def)

lemma nonces_then_same:
  assumes "nonces_are f ws v" "keyed v \<Longrightarrow> nonces_are (nonce_of v) v w"
  shows "nonces_are f ws w"
  using assms nonces_trans unfolding nonces_are_def by metis

lemma nonces_credit:
  assumes "keyed ws"
  shows "nonces_are (nonce_of ws) ws (credit_or_create a x ws)"
    "nonces_are (nonce_of ws) ws (credit_if_present a x ws)"
proof -
  have k: "acc_Address y = b" if "GetAccount ws b = Some y" for b y using assms that by (simp add: keyed_def)
  show "nonces_are (nonce_of ws) ws (credit_or_create a x ws)"
    unfolding credit_or_create_def Let_def
    by (rule nonces_SetAccount_same [OF assms]) (auto simp: nonce_of_def k split: option.splits)
  show "nonces_are (nonce_of ws) ws (credit_if_present a x ws)"
    unfolding credit_if_present_def using nonces_refl [OF assms]
    by (auto simp: nonce_of_def [of ws a] k split: option.splits intro!: nonces_SetAccount_same [OF assms])
qed

lemma nonces_pay_stakers:
  "keyed ws \<Longrightarrow> pay_stakers q T ls ws = Inr w \<Longrightarrow> nonces_are (nonce_of ws) ws w"
proof (induction ls arbitrary: ws)
  case (Cons s ls)
  then obtain share where sh: "pay_stakers q T ls
      (if share > 0 then credit_if_present (ps_Staker s) share ws else ws) = Inr w"
    by (auto simp: bindR_eq_Inr)
  show ?case
  proof (rule nonces_then_same)
    show "nonces_are (nonce_of ws) ws (if share > 0 then credit_if_present (ps_Staker s) share ws else ws)"
      using nonces_credit(2) [OF Cons.prems(1)] nonces_refl [OF Cons.prems(1)] by simp
  qed (use Cons.IH sh in blast)
qed (simp add: nonces_refl)

lemma nonces_refund:
  "keyed ws \<Longrightarrow> nonces_are (nonce_of ws) ws (snd (refund_stakers i ls (post, ws)))"
proof (induction ls arbitrary: ws post)
  case (Cons s ls)
  define v where "v = (case GetAccount ws (ps_Staker s) of None \<Rightarrow> ws
    | Some other \<Rightarrow> SetAccount (other\<lparr>acc_Balance := acc_Balance other + ps_Amount s,
        acc_PostStakeBalance := acc_PostStakeBalance other - ps_Amount s\<rparr>) ws)"
  have "nonces_are (nonce_of ws) ws v"
    using Cons.prems nonces_refl [OF Cons.prems]
    by (auto simp: v_def keyed_def nonce_of_def [of ws "ps_Staker s"] split: option.splits
        intro!: nonces_SetAccount_same)
  then have v: "nonces_are (nonce_of ws) ws (RemovePostStake i (ps_Staker s) v)"
    by simp
  show ?case using nonces_then_same [OF v Cons.IH] by (simp add: Let_def flip: v_def)
qed (simp add: nonces_refl)

lemma nonces_boost:
  assumes k: "keyed ws" and ap: "applyBoostPost params ws tx h = Inr ws'"
  shows "nonces_are ((nonce_of ws)(tx_Sender tx := nonce_of ws (tx_Sender tx) + 1)) ws ws'" (is "nonces_are ?f _ _")
proof -
  obtain booster post where s: "GetAccount ws (tx_Sender tx) = Some booster"
    and bal: "tx_Amount tx \<le> acc_Balance booster" and post: "GetPost ws (tx_PostID tx) = Some post"
    using ap by (auto simp: applyBoostPost_def not_less split: option.splits if_splits)
  obtain bp aup sp where pct: "boost_percents params = (bp, aup, sp)" by (metis prod_cases3)
  obtain b r q where m: "mul_div (tx_Amount tx) bp 100 = Inr b" "mul_div (tx_Amount tx) aup 100 = Inr r"
    "mul_div (tx_Amount tx) sp 100 = Inr q"
    using ap s leD [OF bal] post pct by (auto simp: applyBoostPost_def bindR_eq_Inr Let_def)
  define d where "d = tx_Amount tx - b - r - q"
  define v where "v = boost_base (boost_account booster (tx_Amount tx) d) b ws"
  define v' where "v' = boost_reward (post_Author post) r v"
  obtain w where w: "boost_pay q (post_TotalStaked post) (GetPostStakers ws (tx_PostID tx)) v' = Inr w"
    and res: "nonces_are ?f ws ws' = nonces_are ?f ws w"
    using ap unfolding applyBoostPost_eq [OF s bal post pct m d_def refl] by (auto simp: bindR_eq_Inr v'_def v_def)
  have "acc_Address booster = tx_Sender tx" using k s by (simp add: keyed_def)
  then have "nonces_are ?f ws v"
    using nonces_SetAccount [OF k, of "boost_account booster (tx_Amount tx) d"] s
    by (simp add: v_def boost_base_def boost_account_def nonce_of_def [of ws "tx_Sender tx"])
  moreover have "nonces_are (nonce_of v) v v'" if "keyed v"
    using nonces_credit(2) [OF that] nonces_refl [OF that] by (simp add: v'_def boost_reward_def)
  moreover have "nonces_are (nonce_of v') v' w" if "keyed v'"
    using w nonces_pay_stakers [OF that] nonces_refl [OF that] by (auto simp: boost_pay_def split: if_splits)
  ultimately show ?thesis unfolding res using nonces_then_same by blast
qed

text \<open>Every transaction type starts by storing the sender with its nonce one higher.\<close>

lemma ApplyTransaction_nonce:
  assumes k: "keyed ws" and ap: "ApplyTransaction P params ws tx h t = Inr ws'"
  shows "nonces_are ((nonce_of ws)(tx_Sender tx := nonce_of ws (tx_Sender tx) + 1)) ws ws'"
proof -
  define a where "a = tx_Sender tx"
  define f where "f = (nonce_of ws)(a := nonce_of ws a + 1)"
  have key: "acc_Address x = b" if "GetAccount ws b = Some x" for b x using k that by (simp add: keyed_def)
  have step: "nonces_are f ws (SetAccount y ws)"
    if "acc_Address y = a" "acc_Nonce y = nonce_of ws a + 1" for y
    using nonces_SetAccount [OF k, of y] that by (simp add: f_def)
  consider "applyTransfer ws tx = Inr ws'" | "applyCreatePost P params ws tx h t = Inr ws'"
    | "applyBoostPost params ws tx h = Inr ws'" | "applyUnstakePost ws tx = Inr ws'"
    | "applyRegisterName ws tx = Inr ws'" | "applyStake ws tx = Inr ws'" | "applyUnstake params ws tx h = Inr ws'"
    using ap by (auto simp: ApplyTransaction_def split: if_splits)
  then have "nonces_are f ws ws'"
  proof cases
    case 1
    then obtain x where x: "GetAccount ws a = Some x" and bal: "\<not> acc_Balance x < tx_Amount tx"
      by (auto simp: applyTransfer_def a_def split: option.splits if_splits)
    show ?thesis
    proof (cases "tx_Recipient tx = a")
      case True
      then show ?thesis using 1 x bal key [OF x] by (auto simp: applyTransfer_def nonce_of_def simp flip: a_def intro!: step)
    next
      case False
      define y where "y = x\<lparr>acc_Balance := acc_Balance x - tx_Amount tx, acc_Nonce := acc_Nonce x + 1\<rparr>"
      have "ws' = credit_or_create (tx_Recipient tx) (tx_Amount tx) (SetAccount y ws)"
        using 1 x bal False key [OF x]
        by (simp add: applyTransfer_def credit_or_create_def y_def a_def Let_def)
      moreover have "nonces_are f ws (SetAccount y ws)" by (rule step) (simp_all add: y_def key [OF x] nonce_of_def x)
      ultimately show ?thesis using nonces_then_same nonces_credit(1) by blast
    qed
  next
    case 2
    then show ?thesis
      by (auto simp: applyCreatePost_def bindR_eq_Inr Let_def key nonce_of_def simp flip: a_def
          split: option.splits if_splits intro!: step)
  next
    case 3
    then show ?thesis using nonces_boost [OF k] by (simp add: f_def a_def)
  next
    case 4
    then show ?thesis
      by (auto simp: applyUnstakePost_def Let_def key nonce_of_def case_prod_beta simp flip: a_def
          split: option.splits if_splits intro!: nonces_then_same [OF _ nonces_refund] step)
  next
    case 5
    then show ?thesis
      by (auto simp: applyRegisterName_def Let_def key nonce_of_def simp flip: a_def split: option.splits intro!: step)
  next
    case 6
    then show ?thesis
      by (auto simp: applyStake_def Let_def key nonce_of_def simp flip: a_def split: option.splits if_splits intro!: step)
  next
    case 7
    then show ?thesis
      by (auto simp: applyUnstake_def Let_def key nonce_of_def simp flip: a_def split: option.splits if_splits intro!: step)
  qed
  then show ?thesis by (simp add: f_def a_def)
qed

text \<open>Accounts stay and their nonces never go down; a state without post-identifier collisions only had such states before it.\<close>

definition grows :: "WorldState \<Rightarrow> WorldState \<Rightarrow> bool" where
  "grows ws w \<longleftrightarrow> (\<forall>a x. GetAccount ws a = Some x \<longrightarrow> (\<exists>y. GetAccount w a = Some y \<and> acc_Nonce x \<le> acc_Nonce y))"

lemma grows_refl [simp]: "grows ws ws" by (auto simp: grows_def)

lemma grows_trans: "grows u v \<Longrightarrow> grows v w \<Longrightarrow> grows u w"
  unfolding grows_def by (meson order_trans)

lemma grows_nonces:
  assumes "nonces_are f ws w" "\<And>a. GetAccount ws a \<noteq> None \<Longrightarrow> nonce_of ws a \<le> f a"
  shows "grows ws w"
  unfolding grows_def
proof (intro allI impI)
  fix a x
  assume x: "GetAccount ws a = Some x"
  then obtain y where y: "GetAccount w a = Some y" using assms(1) unfolding nonces_are_def by fastforce
  have "acc_Nonce x \<le> acc_Nonce y"
    using assms(2) [of a] x y nonces_are_eq [OF assms(1), symmetric] by (simp add: nonce_of_def)
  with y show "\<exists>y. GetAccount w a = Some y \<and> acc_Nonce x \<le> acc_Nonce y" by blast
qed

lemma post_ids_distinct_mono: "grows ws w \<Longrightarrow> post_ids_distinct P w \<Longrightarrow> post_ids_distinct P ws"
  unfolding grows_def post_ids_distinct_def by (meson order_trans)

definition bounded :: "nat \<Rightarrow> WorldState \<Rightarrow> bool" where
  "bounded B ws \<longleftrightarrow> keyed ws \<and> (\<forall>a. unat (nonce_of ws a) \<le> B)"

lemma wf_bounded:
  assumes "wf_ws P B ws"
  shows "bounded B ws"
proof -
  have "unat (nonce_of ws a) \<le> B" for a
    using wfD(6) [OF assms] by (cases "GetAccount ws a") (simp_all add: nonce_of_def)
  then show ?thesis using wf_keyed [OF assms] by (simp add: bounded_def)
qed

lemma same_nonces_grows:
  assumes "bounded B ws" "nonces_are (nonce_of ws) ws w"
  shows "bounded B w" "grows ws w"
  using assms nonces_are_eq [OF assms(2)] nonces_are_keyed [OF assms(2)]
  by (auto simp: bounded_def intro!: grows_nonces [OF assms(2)])

lemma ApplyTransaction_grows:
  assumes "bounded B ws" "Suc B < 2 ^ 64" "ApplyTransaction P params ws tx h t = Inr ws'"
  shows "bounded (Suc B) ws'" "grows ws ws'"
proof -
  have k: "keyed ws" and b: "unat (nonce_of ws a) \<le> B" for a using assms(1) by (simp_all add: bounded_def)
  note n = ApplyTransaction_nonce [OF k assms(3)]
  show "bounded (Suc B) ws'"
    using nonces_are_eq [OF n] nonces_are_keyed [OF n] nonce_step(3) [OF b assms(2)] b
    by (simp add: bounded_def le_SucI)
  show "grows ws ws'" using nonce_step(2) [OF b assms(2)] by (intro grows_nonces [OF n]) simp
qed

lemma apply_txs_grows:
  assumes "bounded B ws" "B + length txs < 2 ^ 64" "apply_txs P N params hdr i txs ws = Inr ws'"
  shows "bounded (B + length txs) ws' \<and> grows ws ws'"
  using assms
proof (induction txs arbitrary: i ws B)
  case (Cons tx txs)
  obtain w where w: "ApplyTransaction P params ws tx (hdr_Height hdr) (hdr_Timestamp hdr) = Inr w"
    "apply_txs P N params hdr (Suc i) txs w = Inr ws'"
    using Cons.prems(3) by (auto split: sum.splits)
  have B: "Suc B < 2 ^ 64" using Cons.prems(2) by simp
  note step = ApplyTransaction_grows [OF Cons.prems(1) B w(1)]
  show ?case using Cons.IH [OF step(1) _ w(2)] Cons.prems(2) grows_trans [OF step(2)] by auto
qed simp

section \<open>Blocks\<close>

lemma credit_or_create_frame [simp]:
  "ws_unbondingQueue (credit_or_create a x ws) = ws_unbondingQueue ws"
  "ws_issuedSupply (credit_or_create a x ws) = ws_issuedSupply ws"
  by (simp_all add: credit_or_create_def Let_def)

lemma credit_entries_ok:
  assumes "wf_ws P B ws" "total_supply ws + unb_sum es < 2 ^ 64"
  shows "wf_ws P B (fold (\<lambda>e. credit_or_create (unb_Address e) (unb_Amount e)) es ws)"
    "total_supply (fold (\<lambda>e. credit_or_create (unb_Address e) (unb_Amount e)) es ws) = total_supply ws + unb_sum es"
  using assms
proof (induction es arbitrary: ws)
  case (Cons e es)
  {
    case 1
    then show ?case
      using credit_or_create_ok [of P B ws "unb_Amount e" "unb_Address e"] Cons.IH by (simp add: unb_sum_def)
  next
    case 2
    then show ?case
      using credit_or_create_ok [of P B ws "unb_Amount e" "unb_Address e"] Cons.IH by (simp add: unb_sum_def)
  }
qed (simp_all add: unb_sum_def)

lemma unb_sum_partition: "unb_sum (filter Q es) + unb_sum (filter (\<lambda>e. \<not> Q e) es) = unb_sum es"
  by (induction es) (auto simp: unb_sum_def)

lemma release_unbonding_ok:
  assumes wf: "wf_ws P B ws" and room: "total_supply ws < 2 ^ 64"
  shows "wf_ws P B (release_unbonding h ws)" "total_supply (release_unbonding h ws) = total_supply ws"
proof -
  define m where "m = filter (\<lambda>e. unb_ReleaseHeight e \<le> h) (ws_unbondingQueue ws)"
  define w1 where "w1 = ws\<lparr>ws_unbondingQueue := filter (\<lambda>e. \<not> unb_ReleaseHeight e \<le> h) (ws_unbondingQueue ws)\<rparr>"
  have eq: "release_unbonding h ws = fold (\<lambda>e. credit_or_create (unb_Address e) (unb_Amount e)) m w1"
    by (simp add: release_unbonding_def RemoveMaturedUnbonding_def m_def w1_def)
  have "unb_sum m + unb_sum (ws_unbondingQueue w1) = unb_sum (ws_unbondingQueue ws)"
    using unb_sum_partition [of "\<lambda>e. unb_ReleaseHeight e \<le> h" "ws_unbondingQueue ws"] by (simp add: m_def w1_def)
  then have sup: "total_supply w1 + unb_sum m = total_supply ws"
    using total_supply_fields [of w1 ws] by (simp add: w1_def)
  have "wf_ws P B w1" using wf by (subst wf_cong [of w1 ws]) (simp_all add: w1_def)
  from credit_entries_ok [OF this, of m] sup room
  show "wf_ws P B (release_unbonding h ws)" "total_supply (release_unbonding h ws) = total_supply ws"
    by (simp_all add: eq)
qed

lemma evidence_ok:
  assumes "wf_ws P B ws" "total_supply ws < 2 ^ 64" "params_ok params"
  shows "wf_ws P B (fold (applySlashEvidence P params) evs ws)
    \<and> total_supply (fold (applySlashEvidence P params) evs ws) = total_supply ws"
  using assms by (induction evs arbitrary: ws) (simp_all add: applySlashEvidence_ok)

text \<open>
  The identifiers only have to be distinct in the last state: its freedom of collisions is carried back to
  the states on the way by \<open>grows\<close>.
\<close>

lemma apply_txs_ok:
  assumes "wf_ws P B ws" "B + length txs < 2 ^ 64" "total_supply ws < 2 ^ 64" "params_ok params"
    and ids: "post_ids_distinct P ws'"
    and "apply_txs P N params hdr i txs ws = Inr ws'"
  shows "wf_ws P (B + length txs) ws' \<and> total_supply ws' \<le> total_supply ws
    \<and> ((\<forall>tx\<in>set txs. tx_Type tx \<noteq> TxBoostPost) \<longrightarrow> total_supply ws' = total_supply ws)"
  using assms(1-4,6)
proof (induction txs arbitrary: i ws B)
  case (Cons tx txs)
  obtain w where w: "ApplyTransaction P params ws tx (hdr_Height hdr) (hdr_Timestamp hdr) = Inr w"
    "apply_txs P N params hdr (Suc i) txs w = Inr ws'"
    using Cons.prems(5) by (auto split: sum.splits)
  have B: "Suc B < 2 ^ 64" "Suc B + length txs < 2 ^ 64" using Cons.prems(2) by simp_all
  have "grows w ws'"
    using apply_txs_grows [OF ApplyTransaction_grows(1) [OF wf_bounded [OF Cons.prems(1)] B(1) w(1)] B(2) w(2)]
    by blast
  then have "post_ids_distinct P w" using ids by (rule post_ids_distinct_mono)
  note step = ApplyTransaction_ok [OF Cons.prems(1) B(1) Cons.prems(3,4) this w(1)]
  have "wf_ws P (Suc B + length txs) ws' \<and> total_supply ws' \<le> total_supply w
    \<and> ((\<forall>tx\<in>set txs. tx_Type tx \<noteq> TxBoostPost) \<longrightarrow> total_supply ws' = total_supply w)"
    using Cons.IH [OF step(1) B(2) _ Cons.prems(4) w(2)] Cons.prems(3) step(2) by simp
  with step(2,3) show ?case by auto
qed simp

lemma block_reward_nonces:
  "keyed ws \<Longrightarrow> nonces_are (nonce_of ws) ws (SetChainHeight h (epoch_transition params h (block_reward params a ws)))"
proof -
  assume k: "keyed ws"
  have "GetAccount (SetChainHeight h (epoch_transition params h w)) = GetAccount w" for w
    by (simp add: GetAccount_def SetChainHeight_def epoch_transition_def SetCurrentEpoch_def
        SetActiveValidators_def Let_def fun_eq_iff)
  moreover have "GetAccount (SetIssuedSupply x w) = GetAccount w" for x w
    by (simp add: GetAccount_def SetIssuedSupply_def fun_eq_iff)
  ultimately show ?thesis
    using nonces_credit(1) [OF k] nonces_refl [OF k]
    by (subst nonces_cong [of _ "if gc_BlockReward params > 0 then credit_or_create a (gc_BlockReward params) ws else ws"])
      (simp_all add: block_reward_def Let_def)
qed

lemma block_reward_ok:
  assumes wf: "wf_ws P B ws" and room: "total_supply ws + unat (gc_BlockReward params) < 2 ^ 64"
  shows "wf_ws P B (block_reward params a ws)"
    "total_supply (block_reward params a ws) = total_supply ws + unat (gc_BlockReward params)"
proof -
  define r where "r = gc_BlockReward params"
  note cr = credit_or_create_ok [OF wf room, of a, folded r_def]
  have "wf_ws P B (block_reward params a ws) \<and> total_supply (block_reward params a ws) = total_supply ws + unat r"
  proof (cases "r > 0")
    case True
    define w where "w = credit_or_create a r ws"
    define v where "v = SetIssuedSupply (ws_issuedSupply w + r) w"
    have "block_reward params a ws = v" using True by (simp add: block_reward_def v_def w_def r_def Let_def)
    moreover have "wf_ws P B v = wf_ws P B w" by (rule wf_cong) (simp_all add: v_def SetIssuedSupply_def)
    moreover have "total_supply v = total_supply w"
      using total_supply_fields [of v w] by (simp add: v_def SetIssuedSupply_def)
    ultimately show ?thesis using cr by (simp add: w_def)
  next
    case False
    then have "unat r = 0" by (simp add: word_gt_0)
    then show ?thesis using False wf by (simp add: block_reward_def r_def)
  qed
  then show "wf_ws P B (block_reward params a ws)"
    "total_supply (block_reward params a ws) = total_supply ws + unat (gc_BlockReward params)"
    by (simp_all add: r_def)
qed

lemma epoch_height_ok:
  "wf_ws P B (SetChainHeight h (epoch_transition params h ws)) = wf_ws P B ws"
  "total_supply (SetChainHeight h (epoch_transition params h ws)) = total_supply ws"
proof -
  have f: "ws_accounts (SetChainHeight h (epoch_transition params h ws)) = ws_accounts ws"
    "ws_posts (SetChainHeight h (epoch_transition params h ws)) = ws_posts ws"
    "ws_postStakes (SetChainHeight h (epoch_transition params h ws)) = ws_postStakes ws"
    "ws_unbondingQueue (SetChainHeight h (epoch_transition params h ws)) = ws_unbondingQueue ws"
    "ws_burnedSupply (SetChainHeight h (epoch_transition params h ws)) = ws_burnedSupply ws"
    by (simp_all add: SetChainHeight_def epoch_transition_def SetCurrentEpoch_def SetActiveValidators_def Let_def)
  show "wf_ws P B (SetChainHeight h (epoch_transition params h ws)) = wf_ws P B ws"
    by (rule wf_cong) (rule f)+
  show "total_supply (SetChainHeight h (epoch_transition params h ws)) = total_supply ws"
    using total_supply_fields [OF f(1,3)] f(4,5) by simp
qed

lemma ApplyBlock_ok:
  assumes wf: "wf_ws P B ws" and B: "B + length (blk_Transactions block) < 2 ^ 64"
    and room: "total_supply ws + unat (gc_BlockReward params) < 2 ^ 64"
    and par: "params_ok params" and ids: "post_ids_distinct P ws'"
    and ap: "ApplyBlock P N params ws block = Inr ws'"
  shows "wf_ws P (B + length (blk_Transactions block)) ws'"
    "total_supply ws' \<le> total_supply ws + unat (gc_BlockReward params)"
    "(\<forall>tx\<in>set (blk_Transactions block). tx_Type tx \<noteq> TxBoostPost) \<Longrightarrow>
       total_supply ws' = total_supply ws + unat (gc_BlockReward params)"
proof -
  define txs h where "txs = blk_Transactions block" and "h = hdr_Height (blk_Header block)"
  define w1 where "w1 = release_unbonding h ws"
  define w2 where "w2 = fold (applySlashEvidence P params) (blk_Evidence block) w1"
  obtain w3 where w3: "apply_txs P N params (blk_Header block) 0 txs w2 = Inr w3"
    and res: "ws' = SetChainHeight h (epoch_transition params h (block_reward params (hdr_ProposerAddr (blk_Header block)) w3))"
    using ap by (auto simp: ApplyBlock_def Let_def bindR_eq_Inr w2_def w1_def txs_def h_def)
  have 1: "wf_ws P B w1" "total_supply w1 = total_supply ws"
    using release_unbonding_ok [OF wf] room by (simp_all add: w1_def)
  have 2: "wf_ws P B w2" "total_supply w2 = total_supply ws"
    using evidence_ok [OF 1(1) _ par] 1(2) room by (simp_all add: w2_def)
  have "bounded (B + length txs) w3"
    using apply_txs_grows [OF wf_bounded [OF 2(1)] _ w3] B by (simp add: txs_def)
  then have "grows w3 ws'"
    unfolding res by (rule same_nonces_grows(2)) (use \<open>bounded _ w3\<close> in \<open>simp add: bounded_def block_reward_nonces\<close>)
  then have ids3: "post_ids_distinct P w3" using ids by (rule post_ids_distinct_mono)
  have 3: "wf_ws P (B + length txs) w3" "total_supply w3 \<le> total_supply ws"
    "(\<forall>tx\<in>set txs. tx_Type tx \<noteq> TxBoostPost) \<longrightarrow> total_supply w3 = total_supply ws"
    using apply_txs_ok [OF 2(1) _ _ par ids3 w3] 2(2) room B by (simp_all add: txs_def)
  have "total_supply w3 + unat (gc_BlockReward params) < 2 ^ 64" using 3(2) room by simp
  note 4 = block_reward_ok [OF 3(1) this]
  show "wf_ws P (B + length (blk_Transactions block)) ws'"
    "total_supply ws' \<le> total_supply ws + unat (gc_BlockReward params)"
    "(\<forall>tx\<in>set (blk_Transactions block). tx_Type tx \<noteq> TxBoostPost) \<Longrightarrow>
       total_supply ws' = total_supply ws + unat (gc_BlockReward params)"
    using 3 4 by (simp_all add: res epoch_height_ok txs_def)
qed

end
