(* ===== verification/Genesis.thy ===== *)
theory Genesis
  imports LedgerBlocks
begin

text \<open>
  \<^verbatim>\<open>internal/genesis/genesis.go\<close>: the decoded genesis file becomes a configuration, and the configuration the
  first state.  The file is read and unmarshalled by the Go library; the model starts at the decoded
  \<^verbatim>\<open>genesisJSON\<close>.
\<close>

section \<open>Loading\<close>

record genesisAccountJSON =
  gaj_Address :: bytes
  gaj_Balance :: u64

record genesisValidJSON =
  gvj_Address :: bytes
  gvj_PubKey :: bytes
  gvj_Name :: bytes
  gvj_Stake :: u64

text \<open>The scalar fields are copied one by one; \<open>gj_scalars\<close> is the configuration with empty lists.\<close>

record genesisJSON =
  gj_scalars :: GenesisConfig
  gj_Accounts :: "genesisAccountJSON list"
  gj_Validators :: "genesisValidJSON list"

datatype genesis_error =
    BadAccount nat address_error
  | DuplicateAccount nat bytes
  | BadValidator nat address_error
  | BadValidatorKey nat hex_error
  | BadValidatorKeyLength nat nat
  | InvalidAccountAddress nat address_error
  | SupplyOverflow
  | InsufficientGenesisStake address u64 u64

fun load_accounts ::
    "prims \<Rightarrow> nat \<Rightarrow> address list \<Rightarrow> genesisAccountJSON list \<Rightarrow> (genesis_error, GenesisAccount list) result" where
  "load_accounts P i seen [] = Inr []"
| "load_accounts P i seen (a # as) =
     (case ParseAddress P (gaj_Address a) of
        Inl err \<Rightarrow> Inl (BadAccount i err)
      | Inr addr \<Rightarrow>
          if addr \<in> set seen then Inl (DuplicateAccount i (gaj_Address a))
          else bindR (load_accounts P (Suc i) (addr # seen) as) (\<lambda>rest.
                 Inr (\<lparr>ga_Address = addr, ga_Balance = gaj_Balance a\<rparr> # rest)))"

fun load_validators ::
    "prims \<Rightarrow> nat \<Rightarrow> genesisValidJSON list \<Rightarrow> (genesis_error, GenesisValidator list) result" where
  "load_validators P i [] = Inr []"
| "load_validators P i (v # vs) =
     (case ParseAddress P (gvj_Address v) of
        Inl err \<Rightarrow> Inl (BadValidator i err)
      | Inr addr \<Rightarrow>
          (case DecodeString (gvj_PubKey v) of
             Inl err \<Rightarrow> Inl (BadValidatorKey i err)
           | Inr pubBytes \<Rightarrow>
               if length pubBytes \<noteq> 32 then Inl (BadValidatorKeyLength i (length pubBytes))
               else bindR (load_validators P (Suc i) vs) (\<lambda>rest.
                      Inr (\<lparr>gv_Address = addr, gv_PubKey = copy_into 32 pubBytes, gv_Name = gvj_Name v,
                            gv_Stake = gvj_Stake v\<rparr> # rest))))"

definition LoadGenesis :: "prims \<Rightarrow> genesisJSON \<Rightarrow> (genesis_error, GenesisConfig) result" where
  "LoadGenesis P j =
     bindR (load_accounts P 0 [] (gj_Accounts j)) (\<lambda>accounts.
     bindR (load_validators P 0 (gj_Validators j)) (\<lambda>validators.
       Inr ((gj_scalars j)\<lparr>gc_Accounts := accounts, gc_Validators := validators\<rparr>)))"

section \<open>The first state\<close>

fun init_accounts ::
    "prims \<Rightarrow> nat \<Rightarrow> u64 \<Rightarrow> GenesisAccount list \<Rightarrow> WorldState \<Rightarrow> (genesis_error, WorldState) result" where
  "init_accounts P i totalSupply [] ws = Inr ws"
| "init_accounts P i totalSupply (a # as) ws =
     (case Address_Validate P (ga_Address a) of
        Inl err \<Rightarrow> Inl (InvalidAccountAddress i err)
      | Inr _ \<Rightarrow>
          if totalSupply > - 1 - ga_Balance a then Inl SupplyOverflow
          else init_accounts P (Suc i) (totalSupply + ga_Balance a) as
                 (SetAccount ((newAccount (ga_Address a))\<lparr>acc_Balance := ga_Balance a\<rparr>) ws))"

fun init_validators ::
    "GenesisValidator list \<Rightarrow> ValidatorStake list \<Rightarrow> WorldState
      \<Rightarrow> (genesis_error, ValidatorStake list \<times> WorldState) result" where
  "init_validators [] initialValidators ws = Inr (initialValidators, ws)"
| "init_validators (v # vs) initialValidators ws =
     bindR (if gv_Stake v > 0
            then (let acct = (case GetAccount ws (gv_Address v) of
                                Some acct \<Rightarrow> acct | None \<Rightarrow> newAccount (gv_Address v))
                  in if acc_Balance acct < gv_Stake v
                     then Inl (InsufficientGenesisStake (gv_Address v) (acc_Balance acct) (gv_Stake v))
                     else Inr (SetAccount (acct\<lparr>acc_Balance := acc_Balance acct - gv_Stake v,
                                                acc_StakedBalance := gv_Stake v\<rparr>) ws))
            else Inr ws) (\<lambda>ws.
     init_validators vs
       (initialValidators @
         [\<lparr>val_Address = gv_Address v, val_PubKey = gv_PubKey v,
           val_StakedBalance = (if gv_Stake v = 0 then 1 else gv_Stake v)\<rparr>]) ws)"

definition InitializeState :: "prims \<Rightarrow> GenesisConfig \<Rightarrow> (genesis_error, WorldState) result" where
  "InitializeState P cfg =
     bindR (init_accounts P 0 0 (gc_Accounts cfg) NewWorldState) (\<lambda>ws.
     bindR (init_validators (gc_Validators cfg) [] ws) (\<lambda>(initialValidators, ws).
     let ws = (if length initialValidators > 0 then SetActiveValidators initialValidators ws else ws);
         ws = SetChainHeight 0 ws; ws = SetBurnedSupply 0 ws; ws = SetIssuedSupply 0 ws;
         ws = SetCurrentEpoch 0 ws
     in Inr ws))"

section \<open>The first state is well formed\<close>

lemma load_accounts_distinct:
  "load_accounts P i seen as = Inr gas \<Longrightarrow>
     distinct (map ga_Address gas) \<and> ga_Address ` set gas \<inter> set seen = {}"
  by (induction as arbitrary: i seen gas) (fastforce simp: bindR_eq_Inr split: sum.splits if_splits)+

lemma load_accounts_balances:
  "load_accounts P i seen as = Inr gas \<Longrightarrow> map ga_Balance gas = map gaj_Balance as"
  by (induction as arbitrary: i seen gas) (auto simp: bindR_eq_Inr split: sum.splits if_splits)

lemma init_accounts_frame:
  "init_accounts P i tot as ws = Inr ws' \<Longrightarrow> ws_burnedSupply ws' = ws_burnedSupply ws
     \<and> ws_activeValidators ws' = ws_activeValidators ws"
  by (induction as arbitrary: i tot ws) (auto split: sum.splits if_splits)

lemma init_validators_frame:
  "init_validators vs ivs ws = Inr (ivs', ws') \<Longrightarrow> ws_burnedSupply ws' = ws_burnedSupply ws
     \<and> ws_activeValidators ws' = ws_activeValidators ws"
  by (induction vs arbitrary: ivs ws) (auto simp: bindR_eq_Inr Let_def split: if_splits)

text \<open>A state with accounts only, none of them staked unless in \<open>S\<close>.\<close>

definition initial_ws :: "prims \<Rightarrow> address set \<Rightarrow> WorldState \<Rightarrow> bool" where
  "initial_ws P S ws \<longleftrightarrow> wf_ws P 0 ws \<and> ws_postStakes ws = []
     \<and> (\<forall>a x. GetAccount ws a = Some x \<longrightarrow> acc_PostStakeBalance x = 0
          \<and> acc_Nonce x = 0 \<and> (a \<notin> S \<longrightarrow> acc_StakedBalance x = 0))"

lemma initial_new: "initial_ws P S NewWorldState" "total_supply NewWorldState = 0" "GetAccount NewWorldState a = None"
  by (simp_all add: initial_ws_def wf_ws_def accounts_wf_def posts_wf_def stakes_wf_def NewWorldState_def
      GetAccount_def GetPost_def GetPostStake_def mok_def total_supply_def acct_sum_def stake_sum_def
      unb_sum_def msum_def)

lemma initial_SetAccount:
  assumes "initial_ws P S ws" "acc_PostStakeBalance acct = 0" "acc_Nonce acct = 0"
    "acc_Address acct \<notin> S' \<Longrightarrow> acc_StakedBalance acct = 0" "S \<subseteq> S'"
  shows "initial_ws P S' (SetAccount acct ws)"
proof -
  have "addr_stake_sum (acc_Address acct) ws = 0"
    using assms(1) by (simp add: initial_ws_def addr_stake_sum_def msum_def)
  then have "wf_ws P 0 (SetAccount acct ws)"
    using assms by (intro wf_SetAccount) (auto simp: initial_ws_def)
  with assms show ?thesis by (auto simp: initial_ws_def)
qed

lemma unat_room: "unat (- 1 - x :: u64) = 18446744073709551615 - unat x"
proof -
  have "unat (- 1 :: u64) = 18446744073709551615" by (simp add: unsigned_minus_1_eq_mask mask_eq_exp_minus_1)
  then show ?thesis by (subst unat_sub_exact) simp_all
qed

lemma init_accounts_ok:
  assumes "initial_ws P S ws" "total_supply ws = unat tot" "distinct (map ga_Address as)"
    "\<forall>a\<in>set as. GetAccount ws (ga_Address a) = None" "init_accounts P i tot as ws = Inr ws'"
  shows "initial_ws P S ws' \<and> total_supply ws' = unat tot + sum_list (map (\<lambda>a. unat (ga_Balance a)) as)
    \<and> total_supply ws' < 2 ^ 64"
  using assms
proof (induction as arbitrary: i tot ws)
  case Nil
  then show ?case by (simp add: unat_u64_less)
next
  case (Cons a as)
  define acct where "acct = (newAccount (ga_Address a))\<lparr>acc_Balance := ga_Balance a\<rparr>"
  have le: "tot \<le> - 1 - ga_Balance a"
    and rest: "init_accounts P (Suc i) (tot + ga_Balance a) as (SetAccount acct ws) = Inr ws'"
    using Cons.prems(5) by (auto simp: acct_def not_less split: sum.splits if_splits)
  have sum: "unat (tot + ga_Balance a) = unat tot + unat (ga_Balance a)"
    using le unat_room [of "ga_Balance a"] unat_u64_less [of "ga_Balance a"]
    by (intro unat_add_exact) (simp add: unat_le_exact)
  have "mok (ws_accounts ws)" using Cons.prems(1) by (auto simp: initial_ws_def dest: wfD(1))
  from total_supply_SetAccount [OF this, of acct]
  have sup: "total_supply (SetAccount acct ws) = unat (tot + ga_Balance a)"
    using Cons.prems(2,4) sum by (simp add: acct_def funds_def)
  have "initial_ws P S (SetAccount acct ws)"
    by (rule initial_SetAccount [OF Cons.prems(1)]) (simp_all add: acct_def)
  moreover have "\<forall>b\<in>set as. GetAccount (SetAccount acct ws) (ga_Address b) = None"
    using Cons.prems(3,4) by (auto simp: acct_def image_iff)
  ultimately show ?case using Cons.IH [OF _ sup _ _ rest] Cons.prems(3) by (simp add: sum)
qed

lemma init_validators_ok:
  assumes "initial_ws P S ws" "distinct (map gv_Address vs)" "gv_Address ` set vs \<inter> S = {}"
    "init_validators vs ivs ws = Inr (ivs', ws')"
  shows "wf_ws P 0 ws' \<and> total_supply ws' = total_supply ws
    \<and> map val_Address ivs' = map val_Address ivs @ map gv_Address vs"
  using assms
proof (induction vs arbitrary: S ivs ws)
  case Nil
  then show ?case by (simp add: initial_ws_def)
next
  case (Cons v vs)
  define acct where "acct = (case GetAccount ws (gv_Address v) of Some acct \<Rightarrow> acct | None \<Rightarrow> newAccount (gv_Address v))"
  define acct' where "acct' = acct\<lparr>acc_Balance := acc_Balance acct - gv_Stake v, acc_StakedBalance := gv_Stake v\<rparr>"
  define w where "w = (if gv_Stake v > 0 then SetAccount acct' ws else ws)"
  obtain iv where rest: "init_validators vs (ivs @ [iv]) w = Inr (ivs', ws')" and iv: "val_Address iv = gv_Address v"
    and bal: "gv_Stake v > 0 \<Longrightarrow> gv_Stake v \<le> acc_Balance acct"
    using Cons.prems(4) by (auto simp: bindR_eq_Inr acct_def acct'_def w_def Let_def not_less split: if_splits)
  have wf: "wf_ws P 0 ws" using Cons.prems(1) by (simp add: initial_ws_def)
  have a: "acc_Address acct = gv_Address v" "acc_PostStakeBalance acct = 0" "acc_Nonce acct = 0"
    "acc_StakedBalance acct = 0" "opt_val 0 funds (GetAccount ws (gv_Address v)) = funds acct"
    using Cons.prems(1,3) wfD(5) [OF wf]
    by (auto simp: acct_def initial_ws_def funds_def split: option.splits)
  have "initial_ws P (insert (gv_Address v) S) (SetAccount acct' ws)"
    by (rule initial_SetAccount [OF Cons.prems(1)]) (use a in \<open>auto simp: acct'_def\<close>)
  moreover have "initial_ws P (insert (gv_Address v) S) ws" using Cons.prems(1) by (simp add: initial_ws_def)
  ultimately have w: "initial_ws P (insert (gv_Address v) S) w" by (simp add: w_def)
  have "total_supply w = total_supply ws"
    using total_supply_SetAccount [OF wfD(1) [OF wf], of acct'] a bal
    by (auto simp: w_def acct'_def funds_def unat_sub_exact unat_le_exact)
  with Cons.IH [OF w _ _ rest] Cons.prems(2,3) iv show ?case by (auto simp: image_iff)
qed

lemma InitializeState_ok:
  assumes init: "InitializeState P cfg = Inr ws" and da: "distinct (map ga_Address (gc_Accounts cfg))"
    and dv: "distinct (map gv_Address (gc_Validators cfg))"
  shows "wf_ws P 0 ws" "total_supply ws = sum_list (map (\<lambda>a. unat (ga_Balance a)) (gc_Accounts cfg))"
    "total_supply ws < 2 ^ 64"
    "map val_Address (ws_activeValidators ws) = map gv_Address (gc_Validators cfg)"
proof -
  obtain w1 ivs w2 where 1: "init_accounts P 0 0 (gc_Accounts cfg) NewWorldState = Inr w1"
    and 2: "init_validators (gc_Validators cfg) [] w1 = Inr (ivs, w2)"
    and ws: "ws = SetCurrentEpoch 0 (SetIssuedSupply 0 (SetBurnedSupply 0 (SetChainHeight 0
      (if length ivs > 0 then SetActiveValidators ivs w2 else w2))))"
    using init by (auto simp: InitializeState_def bindR_eq_Inr Let_def)
  have f: "ws_accounts ws = ws_accounts w2" "ws_posts ws = ws_posts w2" "ws_postStakes ws = ws_postStakes w2"
      "ws_unbondingQueue ws = ws_unbondingQueue w2" "ws_burnedSupply ws = 0"
      "ws_activeValidators ws = (if length ivs > 0 then ivs else ws_activeValidators w2)"
    by (simp_all add: ws SetActiveValidators_def SetChainHeight_def SetBurnedSupply_def SetIssuedSupply_def
        SetCurrentEpoch_def)
  have w1: "initial_ws P {} w1" "total_supply w1 = sum_list (map (\<lambda>a. unat (ga_Balance a)) (gc_Accounts cfg))"
    "total_supply w1 < 2 ^ 64"
    using init_accounts_ok [OF initial_new(1) _ da _ 1, of "{}"] by (simp_all add: initial_new)
  have w2: "wf_ws P 0 w2" "total_supply w2 = total_supply w1" "map val_Address ivs = map gv_Address (gc_Validators cfg)"
    using init_validators_ok [OF w1(1) dv _ 2] by simp_all
  have frame: "ws_burnedSupply w2 = 0 \<and> ws_activeValidators w2 = []"
    using init_accounts_frame [OF 1] init_validators_frame [OF 2] by (simp add: NewWorldState_def)
  then have "total_supply ws = total_supply w2" using total_supply_fields [OF f(1,3)] f(4,5) by simp
  with w1 w2(2) show "total_supply ws = sum_list (map (\<lambda>a. unat (ga_Balance a)) (gc_Accounts cfg))"
    "total_supply ws < 2 ^ 64" by simp_all
  show "wf_ws P 0 ws" using w2(1) wf_cong [OF f(1-3)] by simp
  show "map val_Address (ws_activeValidators ws) = map gv_Address (gc_Validators cfg)"
    using f(6) w2(3) frame by (cases ivs) simp_all
qed

text \<open>
  C14: a genesis file that loads, with validators listed once each, gives a well-formed first state in which
  every nonce is 0 and the supply is exactly the sum of the balances of the file: the stakes are moved out of
  balances, and the overflow check keeps the sum below \<open>2 ^ 64\<close>.
\<close>

theorem genesis_state_ok:
  assumes "LoadGenesis P j = Inr cfg" "InitializeState P cfg = Inr ws"
    "distinct (map gv_Address (gc_Validators cfg))"
  shows "wf_ws P 0 ws \<and> total_supply ws = sum_list (map (\<lambda>a. unat (gaj_Balance a)) (gj_Accounts j))
    \<and> total_supply ws < 2 ^ 64
    \<and> map val_Address (ws_activeValidators ws) = map gv_Address (gc_Validators cfg)"
proof -
  have "distinct (map ga_Address (gc_Accounts cfg))"
    and bal: "map ga_Balance (gc_Accounts cfg) = map gaj_Balance (gj_Accounts j)"
    using assms(1) by (auto simp: LoadGenesis_def bindR_eq_Inr dest: load_accounts_distinct load_accounts_balances)
  moreover have "map (\<lambda>a. unat (ga_Balance a)) (gc_Accounts cfg) = map (\<lambda>a. unat (gaj_Balance a)) (gj_Accounts j)"
    using arg_cong [OF bal, of "map unat"] by (simp add: comp_def)
  ultimately show ?thesis using InitializeState_ok [OF assms(2) _ assms(3)] by simp
qed

section \<open>A small chain\<close>

text \<open>A hash that keeps the last 32 bytes, and signatures that only carry the key: enough to run a block.\<close>

definition chain_prims :: prims where
  "chain_prims = \<lparr>sha256 = (\<lambda>x. drop (length x) (replicate 32 0 @ x)),
     ed25519_Sign = (\<lambda>k m. drop 32 k @ drop 32 k), ed25519_Verify = (\<lambda>pk m s. s = pk @ pk)\<rparr>"

definition chain_key :: "byte \<Rightarrow> bytes" where
  "chain_key b = replicate 32 b"

definition chain_addr :: "byte \<Rightarrow> address" where
  "chain_addr b = AddressFromPublicKey chain_prims (chain_key b)"

definition chain_params :: GenesisConfig where
  "chain_params = \<lparr>gc_ChainID = [], gc_GenesisTime = 0, gc_Accounts = [], gc_Validators = [],
     gc_MaxPostLength = 280, gc_MaxPostBytes = 1024, gc_MinPostCommitment = 100, gc_MinBoostCommitment = 100,
     gc_MaxTxPerBlock = 100, gc_MaxBlockBytes = 1000000, gc_BlockIntervalSec = 120, gc_BlockReward = 10,
     gc_MinStake = 100, gc_EpochLength = 1, gc_UnbondingPeriod = 30, gc_SlashFractionDoubleSign = 5,
     gc_SeedNodes = [], gc_PostFeePercent = 6, gc_BoostFeePercent = 0, gc_BoostBurnPercent = 3,
     gc_BoostAuthorPercent = 2, gc_BoostStakerPercent = 1\<rparr>"

definition chain_genesis :: genesisJSON where
  "chain_genesis = \<lparr>gj_scalars = chain_params,
     gj_Accounts = [\<lparr>gaj_Address = Address_String (chain_addr 1), gaj_Balance = 100000\<rparr>,
       \<lparr>gaj_Address = Address_String (chain_addr 2), gaj_Balance = 5000\<rparr>],
     gj_Validators = [\<lparr>gvj_Address = Address_String (chain_addr 1), gvj_PubKey = EncodeToString (chain_key 1),
       gvj_Name = [], gvj_Stake = 400\<rparr>]\<rparr>"

definition chain_cfg :: GenesisConfig where
  "chain_cfg = chain_params\<lparr>gc_Accounts := [\<lparr>ga_Address = chain_addr 1, ga_Balance = 100000\<rparr>,
       \<lparr>ga_Address = chain_addr 2, ga_Balance = 5000\<rparr>],
     gc_Validators := [\<lparr>gv_Address = chain_addr 1, gv_PubKey = chain_key 1, gv_Name = [], gv_Stake = 400\<rparr>]\<rparr>"

definition chain_ws0 :: WorldState where
  "chain_ws0 = (case InitializeState chain_prims chain_cfg of Inr ws \<Rightarrow> ws | Inl _ \<Rightarrow> NewWorldState)"

lemma chain_genesis_loads: "LoadGenesis chain_prims chain_genesis = Inr chain_cfg" by code_simp

lemma chain_ws0_init: "InitializeState chain_prims chain_cfg = Inr chain_ws0" by code_simp

theorem genesis_state_ok_witness:
  "wf_ws chain_prims 0 chain_ws0 \<and> total_supply chain_ws0 = 105000
    \<and> map val_Address (ws_activeValidators chain_ws0) = [chain_addr 1]"
  using genesis_state_ok [OF chain_genesis_loads chain_ws0_init] by (simp add: chain_cfg_def chain_genesis_def)

lemma chain_ws0_wf: "wf_ws chain_prims 0 chain_ws0" "total_supply chain_ws0 = 105000"
proof -
  have "distinct (map ga_Address (gc_Accounts chain_cfg))" by code_simp
  from InitializeState_ok [OF chain_ws0_init this] show "wf_ws chain_prims 0 chain_ws0" "total_supply chain_ws0 = 105000"
    by (simp_all add: chain_cfg_def)
qed

end
