(* ===== verification/Chain.thy ===== *)
theory Chain
  imports Genesis
begin

text \<open>
  Runs of the chain: blocks applied one after the other from the genesis state, as the consensus engine does
  with \<^verbatim>\<open>state.Executor.ApplyBlock\<close>.  A transaction that validates also applies, none is applied twice, the
  ledger invariant holds in every state and the supply only grows by the block rewards.
\<close>

section \<open>Validated transactions apply\<close>

lemma mul_div_total: "c \<noteq> 0 \<Longrightarrow> \<exists>q. mul_div a b c = Inr q"
  using MulDiv_Some [of c a b] by (auto simp: mul_div_def)

lemma pay_stakers_total: "t \<noteq> 0 \<Longrightarrow> \<exists>w. pay_stakers q t ls ws = Inr w"
  using mul_div_total [of t] by (induction ls arbitrary: ws) (auto simp: bindR_eq_Inr, metis)

lemma mul_div_100: "\<exists>q. mul_div a b 100 = Inr q" by (rule mul_div_total) simp

lemma applyBoostPost_total:
  assumes "validateBoostPost P tx (ws_reader ws) params = Inr ()"
  shows "\<exists>ws'. applyBoostPost params ws tx h = Inr ws'"
proof -
  obtain post booster where post: "GetPost ws (tx_PostID tx) = Some post"
    and s: "GetAccount ws (tx_Sender tx) = Some booster" and bal: "tx_Amount tx \<le> acc_Balance booster"
    using assms
    by (auto simp: validateBoostPost_def validateCommon_Inr validateCommonNoBalanceCheck_Inr ws_reader_def
        split: if_splits option.splits)
  obtain bp aup sp where pct: "boost_percents params = (bp, aup, sp)" by (metis prod_cases3)
  obtain b r q where m: "mul_div (tx_Amount tx) bp 100 = Inr b" "mul_div (tx_Amount tx) aup 100 = Inr r"
    "mul_div (tx_Amount tx) sp 100 = Inr q"
    using mul_div_100 by metis
  have "\<exists>w. boost_pay q (post_TotalStaked post) ls v = Inr w" for ls v
    using pay_stakers_total [of "post_TotalStaked post"] by (auto simp: boost_pay_def)
  then show ?thesis
    unfolding applyBoostPost_eq [OF s bal post pct m refl refl] by (auto simp: bindR_eq_Inr)
qed

lemma validated_applies:
  assumes "ValidateTransaction P N tx (ws_reader ws) params = Inr ()"
  shows "\<exists>ws'. ApplyTransaction P params ws tx h t = Inr ws'"
proof -
  obtain acct where s: "GetAccount ws (tx_Sender tx) = Some acct"
    using ValidateTransaction_common [OF assms] by (auto simp: validateCommonNoBalanceCheck_Inr ws_reader_def)
  have bal: "\<not> acc_Balance acct < tx_Amount tx" if "validateCommon P tx (ws_reader ws) = Inr a" for a
    using that s by (auto simp: validateCommon_Inr validateCommonNoBalanceCheck_Inr ws_reader_def not_less)
  have "\<exists>w. applyTransfer ws tx = Inr w" if "validateTransfer P tx (ws_reader ws) = Inr ()"
    using that s bal by (auto simp: applyTransfer_def validateTransfer_def Let_def split: if_splits)
  moreover have "\<exists>w. applyCreatePost P params ws tx h t = Inr w"
    if "validateCreatePost P N tx (ws_reader ws) params = Inr ()"
    using that s bal mul_div_100 [of "tx_Amount tx"]
    by (auto simp: applyCreatePost_def validateCreatePost_def Let_def bindR_eq_Inr split: if_splits sum.splits)
  moreover have "\<exists>w. applyRegisterName ws tx = Inr w" using s by (simp add: applyRegisterName_def Let_def)
  moreover have "\<exists>w. applyStake ws tx = Inr w" if "validateStake P tx (ws_reader ws) params = Inr ()"
    using that s bal by (auto simp: applyStake_def validateStake_def bindR_eq_Inr Let_def split: if_splits)
  moreover have "\<exists>w. applyUnstake params ws tx h = Inr w" if "validateUnstake P tx (ws_reader ws) params = Inr ()"
    using that s
    by (auto simp: applyUnstake_def validateUnstake_def bindR_eq_Inr validateCommonNoBalanceCheck_Inr ws_reader_def
        Let_def split: if_splits)
  moreover have "\<exists>w. applyUnstakePost ws tx = Inr w" if "validateUnstakePost P tx (ws_reader ws) = Inr ()"
    using that s
    by (auto simp: applyUnstakePost_def validateUnstakePost_def bindR_eq_Inr ws_reader_def Let_def case_prod_beta
        split: if_splits)
  ultimately show ?thesis
    using assms by (auto simp: ValidateTransaction_def ApplyTransaction_def intro: applyBoostPost_total split: if_splits)
qed

lemma apply_txs_fails_only_on_validation:
  "apply_txs P N params hdr i txs ws \<noteq> Inl (TxApplyFailed k e)"
proof (induction txs arbitrary: i ws)
  case (Cons tx txs)
  show ?case
  proof (cases "ValidateTransaction P N tx (ws_reader ws) params")
    case (Inr u)
    then have "ValidateTransaction P N tx (ws_reader ws) params = Inr ()" by simp
    from validated_applies [OF this] obtain w
      where "ApplyTransaction P params ws tx (hdr_Height hdr) (hdr_Timestamp hdr) = Inr w" by blast
    then show ?thesis using Inr Cons.IH by simp
  qed simp
qed simp

text \<open>
  C4: applying a block never fails halfway through a transaction: a transaction that \<^verbatim>\<open>ValidateTransaction\<close>
  accepts in the current state also applies (balances, stakes and posts are there, no division panics), so
  a block is only ever rejected because one of its transactions does not validate.
\<close>

theorem ApplyBlock_fails_only_on_validation:
  "(\<exists>ws'. ApplyBlock P N params ws block = Inr ws') \<or>
   (\<exists>i err. ApplyBlock P N params ws block = Inl (TxValidationFailed i err))"
proof -
  define w where "w = fold (applySlashEvidence P params) (blk_Evidence block)
    (release_unbonding (hdr_Height (blk_Header block)) ws)"
  have *: "apply_txs P N params (blk_Header block) 0 (blk_Transactions block) w \<noteq> Inl (TxApplyFailed k e)" for k e
    by (rule apply_txs_fails_only_on_validation)
  then show ?thesis
    by (cases "apply_txs P N params (blk_Header block) 0 (blk_Transactions block) w")
      (auto simp: ApplyBlock_def Let_def w_def, metis block_error.exhaust)
qed

section \<open>No transaction twice\<close>

definition tx_id :: "Transaction \<Rightarrow> address \<times> u64" where
  "tx_id tx = (tx_Sender tx, tx_Nonce tx)"

text \<open>The nonces of the transactions lie above those of \<open>ws\<close>, and none is repeated.\<close>

definition used_between :: "WorldState \<Rightarrow> Transaction list \<Rightarrow> WorldState \<Rightarrow> bool" where
  "used_between ws txs ws' \<longleftrightarrow> distinct (map tx_id txs) \<and>
     (\<forall>tx\<in>set txs. nonce_of ws (tx_Sender tx) < tx_Nonce tx \<and> tx_Nonce tx \<le> nonce_of ws' (tx_Sender tx))"

definition nonces_le :: "WorldState \<Rightarrow> WorldState \<Rightarrow> bool" where
  "nonces_le ws ws' \<longleftrightarrow> (\<forall>a. nonce_of ws a \<le> nonce_of ws' a)"

lemma grows_nonces_le: "grows ws w \<Longrightarrow> nonces_le ws w"
  unfolding nonces_le_def
proof
  fix a
  assume "grows ws w"
  then show "nonce_of ws a \<le> nonce_of w a"
    by (cases "GetAccount ws a") (fastforce simp: nonce_of_def grows_def)+
qed

lemma used_between_append:
  assumes "used_between u xs v" "used_between v ys w" "nonces_le u v" "nonces_le v w"
  shows "used_between u (xs @ ys) w"
proof -
  have "tx_id x \<noteq> tx_id y" if "x \<in> set xs" "y \<in> set ys" for x y
    using assms(1,2) that unfolding used_between_def tx_id_def by (metis leD prod.inject)
  then have "tx_id ` set xs \<inter> tx_id ` set ys = {}" by blast
  with assms show ?thesis
    unfolding used_between_def nonces_le_def
    by (auto intro: le_less_trans order_trans)
qed

lemma used_between_weaken:
  "used_between v xs w \<Longrightarrow> nonce_of v = nonce_of v' \<Longrightarrow> nonce_of w = nonce_of w' \<Longrightarrow> used_between v' xs w'"
  by (simp add: used_between_def)

lemma apply_tx_used:
  assumes b: "bounded B ws" "Suc B < 2 ^ 64" and v: "ValidateTransaction P N tx (ws_reader ws) params = Inr ()"
    and ap: "ApplyTransaction P params ws tx h t = Inr w"
  shows "used_between ws [tx] w"
proof -
  have k: "keyed ws" and n: "unat (nonce_of ws (tx_Sender tx)) \<le> B" using b(1) by (simp_all add: bounded_def)
  have "tx_Nonce tx = nonce_of ws (tx_Sender tx) + 1"
    using ValidateTransaction_common [OF v]
    by (auto simp: validateCommonNoBalanceCheck_Inr ws_reader_def nonce_of_def)
  then show ?thesis
    using nonces_are_eq [OF ApplyTransaction_nonce [OF k ap]] nonce_step(1) [OF n b(2)]
    by (simp add: used_between_def unat_less_exact)
qed

lemma apply_txs_used:
  assumes "bounded B ws" "B + length txs < 2 ^ 64" "apply_txs P N params hdr i txs ws = Inr ws'"
  shows "used_between ws txs ws'"
  using assms
proof (induction txs arbitrary: i ws B)
  case Nil
  then show ?case by (simp add: used_between_def)
next
  case (Cons tx txs)
  obtain w where v: "ValidateTransaction P N tx (ws_reader ws) params = Inr ()"
    and w: "ApplyTransaction P params ws tx (hdr_Height hdr) (hdr_Timestamp hdr) = Inr w"
    "apply_txs P N params hdr (Suc i) txs w = Inr ws'"
    using Cons.prems(3) by (auto split: sum.splits)
  have B: "Suc B < 2 ^ 64" "Suc B + length txs < 2 ^ 64" using Cons.prems(2) by simp_all
  note step = ApplyTransaction_grows [OF Cons.prems(1) B(1) w(1)]
  have "grows w ws'" using apply_txs_grows [OF step(1) B(2) w(2)] by blast
  with used_between_append [OF apply_tx_used [OF Cons.prems(1) B(1) v w(1)] Cons.IH [OF step(1) B(2) w(2)]]
    step(2) show ?case by (simp add: grows_nonces_le)
qed

lemma slash_nonces:
  assumes "keyed ws"
  shows "nonces_are (nonce_of ws) ws (applySlashEvidence P params ev ws)"
proof -
  have ga: "GetAccount (SlashUnbonding b x w) = GetAccount w" "GetAccount (RecordSlash b h w) = GetAccount w" for b x h w
    by (simp_all add: GetAccount_def SlashUnbonding_def RecordSlash_def fun_eq_iff)
  have cong: "nonces_are f ws (SlashUnbonding b x w) = nonces_are f ws w"
    "nonces_are f ws (RecordSlash b h w) = nonces_are f ws w" for f b x h w
    by (rule nonces_cong, simp add: ga)+
  show ?thesis
    using assms nonces_refl [OF assms]
    by (auto simp: applySlashEvidence_def Let_def cong keyed_def nonce_of_def [of ws "vote_VoterAddr (ev_VoteA ev)"]
        split: option.splits intro!: nonces_SetAccount_same)
qed

lemma fold_same_nonces:
  assumes "\<And>x w. keyed w \<Longrightarrow> nonces_are (nonce_of w) w (f x w)" "keyed ws"
  shows "nonces_are (nonce_of ws) ws (fold f xs ws)"
  using assms(2)
proof (induction xs arbitrary: ws)
  case (Cons x xs)
  from nonces_then_same [OF assms(1) [OF Cons.prems] Cons.IH] show ?case by simp
qed (simp add: nonces_refl)

lemma block_start_nonces:
  assumes "keyed ws"
  shows "nonces_are (nonce_of ws) ws (fold (applySlashEvidence P params) evs (release_unbonding h ws))"
proof -
  obtain m w where w: "RemoveMaturedUnbonding h ws = (m, w)" by fastforce
  then have "GetAccount w = GetAccount ws"
    by (auto simp: RemoveMaturedUnbonding_def GetAccount_def fun_eq_iff Let_def)
  then have "nonces_are (nonce_of ws) ws w" using nonces_cong nonces_refl [OF assms] by blast
  then have "nonces_are (nonce_of ws) ws (release_unbonding h ws)"
    unfolding release_unbonding_def w by simp (erule nonces_then_same, rule fold_same_nonces, rule nonces_credit, assumption+)
  then show ?thesis by (rule nonces_then_same) (rule fold_same_nonces, rule slash_nonces, assumption+)
qed

lemma ApplyBlock_used:
  assumes b: "bounded B ws" and B: "B + length (blk_Transactions block) < 2 ^ 64"
    and ap: "ApplyBlock P N params ws block = Inr ws'"
  shows "used_between ws (blk_Transactions block) ws'" "bounded (B + length (blk_Transactions block)) ws'"
    "grows ws ws'"
proof -
  define h where "h = hdr_Height (blk_Header block)"
  define w2 where "w2 = fold (applySlashEvidence P params) (blk_Evidence block) (release_unbonding h ws)"
  obtain w3 where w3: "apply_txs P N params (blk_Header block) 0 (blk_Transactions block) w2 = Inr w3"
    and res: "ws' = SetChainHeight h (epoch_transition params h (block_reward params (hdr_ProposerAddr (blk_Header block)) w3))"
    using ap by (auto simp: ApplyBlock_def Let_def bindR_eq_Inr w2_def h_def)
  have n2: "nonces_are (nonce_of ws) ws w2" using b unfolding w2_def by (auto simp: bounded_def intro: block_start_nonces)
  note s2 = same_nonces_grows [OF b n2]
  note g3 = apply_txs_grows [OF s2(1) B w3]
  have "keyed w3" using g3 by (simp add: bounded_def)
  from block_reward_nonces [OF this] have n3: "nonces_are (nonce_of w3) w3 ws'" unfolding res .
  have s3: "bounded (B + length (blk_Transactions block)) ws'" "grows w3 ws'"
    using g3 by (auto intro: same_nonces_grows [OF _ n3])
  show "used_between ws (blk_Transactions block) ws'"
    by (rule used_between_weaken [OF apply_txs_used [OF s2(1) B w3]])
      (simp_all add: nonces_are_eq [OF n2] nonces_are_eq [OF n3])
  show "bounded (B + length (blk_Transactions block)) ws'" by (rule s3(1))
  show "grows ws ws'" using s2(2) g3 s3(2) grows_trans by blast
qed

section \<open>Runs\<close>

fun apply_blocks ::
    "prims \<Rightarrow> norm \<Rightarrow> GenesisConfig \<Rightarrow> WorldState \<Rightarrow> Block list \<Rightarrow> (block_error, WorldState) result" where
  "apply_blocks P N params ws [] = Inr ws"
| "apply_blocks P N params ws (b # bs) =
     bindR (ApplyBlock P N params ws b) (\<lambda>ws. apply_blocks P N params ws bs)"

definition txs_of :: "Block list \<Rightarrow> Transaction list" where
  "txs_of bs = concat (map blk_Transactions bs)"

lemma apply_blocks_used:
  assumes "bounded B ws" "B + length (txs_of bs) < 2 ^ 64" "apply_blocks P N params ws bs = Inr ws'"
  shows "used_between ws (txs_of bs) ws' \<and> bounded (B + length (txs_of bs)) ws' \<and> grows ws ws'"
  using assms
proof (induction bs arbitrary: ws B)
  case Nil
  then show ?case by (simp add: txs_of_def used_between_def)
next
  case (Cons b bs)
  obtain w where w: "ApplyBlock P N params ws b = Inr w" "apply_blocks P N params w bs = Inr ws'"
    using Cons.prems(3) by (auto simp: bindR_eq_Inr)
  have B: "B + length (blk_Transactions b) < 2 ^ 64" "B + length (blk_Transactions b) + length (txs_of bs) < 2 ^ 64"
    using Cons.prems(2) by (simp_all add: txs_of_def)
  note 1 = ApplyBlock_used [OF Cons.prems(1) B(1) w(1)] and 2 = Cons.IH [OF _ B(2) w(2)]
  show ?case
    using used_between_append [OF 1(1)] 2 [OF 1(2)] grows_nonces_le grows_trans [OF 1(3)] grows_nonces_le [OF 1(3)]
    by (simp add: txs_of_def add.assoc)
qed

text \<open>
  C2: no transaction is applied twice on a chain: along any sequence of blocks that applies, starting from a
  well-formed state, the pairs of sender and nonce of all the transactions are distinct, each is above the
  sender's nonce at the start and at most its nonce at the end, so replaying any of them is rejected.
\<close>

theorem chain_no_replay:
  assumes "wf_ws P B ws" "Suc (B + length (txs_of bs)) < 2 ^ 64" "apply_blocks P N params ws bs = Inr ws'"
  shows "distinct (map (\<lambda>tx. (tx_Sender tx, tx_Nonce tx)) (txs_of bs))
    \<and> (\<forall>tx\<in>set (txs_of bs). nonce_of ws (tx_Sender tx) < tx_Nonce tx
         \<and> ValidateTransaction P N tx (ws_reader ws') params \<noteq> Inr ())"
proof -
  have u: "used_between ws (txs_of bs) ws'" and b: "bounded (B + length (txs_of bs)) ws'"
    using apply_blocks_used [OF wf_bounded [OF assms(1)] Suc_lessD [OF assms(2)] assms(3)] by blast+
  have "ValidateTransaction P N tx (ws_reader ws') params \<noteq> Inr ()" if "tx \<in> set (txs_of bs)" for tx
  proof
    assume "ValidateTransaction P N tx (ws_reader ws') params = Inr ()"
    then have "tx_Nonce tx = nonce_of ws' (tx_Sender tx) + 1"
      using ValidateTransaction_common by (fastforce simp: validateCommonNoBalanceCheck_Inr ws_reader_def nonce_of_def)
    moreover have "unat (nonce_of ws' (tx_Sender tx) + 1) = Suc (unat (nonce_of ws' (tx_Sender tx)))"
      using b assms(2) unat_add_exact [of "nonce_of ws' (tx_Sender tx)" 1]
      by (auto simp: bounded_def dest!: spec [of _ "tx_Sender tx"])
    moreover have "unat (tx_Nonce tx) \<le> unat (nonce_of ws' (tx_Sender tx))"
      using u that by (simp add: used_between_def unat_le_exact)
    ultimately show False by simp
  qed
  moreover have "tx_id = (\<lambda>tx. (tx_Sender tx, tx_Nonce tx))" by (simp add: tx_id_def fun_eq_iff)
  ultimately show ?thesis using u by (simp add: used_between_def)
qed

lemma apply_blocks_ok:
  assumes "wf_ws P B ws" "B + length (txs_of bs) < 2 ^ 64"
    "total_supply ws + length bs * unat (gc_BlockReward params) < 2 ^ 64" "params_ok params"
    and ids: "post_ids_distinct P ws'" and "apply_blocks P N params ws bs = Inr ws'"
  shows "wf_ws P (B + length (txs_of bs)) ws' \<and>
    total_supply ws' \<le> total_supply ws + length bs * unat (gc_BlockReward params) \<and>
    ((\<forall>tx\<in>set (txs_of bs). tx_Type tx \<noteq> TxBoostPost) \<longrightarrow>
       total_supply ws' = total_supply ws + length bs * unat (gc_BlockReward params))"
  using assms(1-4,6)
proof (induction bs arbitrary: ws B)
  case Nil
  then show ?case by (simp add: txs_of_def)
next
  case (Cons b bs)
  obtain w where w: "ApplyBlock P N params ws b = Inr w" "apply_blocks P N params w bs = Inr ws'"
    using Cons.prems(5) by (auto simp: bindR_eq_Inr)
  have B: "B + length (blk_Transactions b) < 2 ^ 64" "B + length (blk_Transactions b) + length (txs_of bs) < 2 ^ 64"
    using Cons.prems(2) by (simp_all add: txs_of_def)
  have "bounded (B + length (blk_Transactions b)) w" by (rule ApplyBlock_used(2) [OF wf_bounded [OF Cons.prems(1)] B(1) w(1)])
  from apply_blocks_used [OF this B(2) w(2)] have "post_ids_distinct P w"
    using ids post_ids_distinct_mono by blast
  note 1 = ApplyBlock_ok [OF Cons.prems(1) B(1) _ Cons.prems(4) this w(1)]
  have room: "total_supply ws + unat (gc_BlockReward params) < 2 ^ 64" using Cons.prems(3) by simp
  note 2 = Cons.IH [OF 1(1) [OF room] B(2) _ Cons.prems(4) w(2)]
  show ?case
    using 1(2,3) [OF room] 2 Cons.prems(3) by (auto simp: txs_of_def add.assoc)
qed

text \<open>
  C1: along a chain the ledger stays consistent and no coin appears from nowhere: after any number of blocks
  every post total and every account's post-stake balance equals the sum of the stakes, and balances, stakes,
  unbonding entries and the burned amount together are at most what they were plus one block reward per
  block; without boosts they are exactly that.
\<close>

theorem chain_ledger:
  assumes "wf_ws P B ws" "B + length (txs_of bs) < 2 ^ 64"
    "total_supply ws + length bs * unat (gc_BlockReward params) < 2 ^ 64" "params_ok params"
    "post_ids_distinct P ws'" "apply_blocks P N params ws bs = Inr ws'"
  shows "wf_ws P (B + length (txs_of bs)) ws' \<and>
    total_supply ws' \<le> total_supply ws + length bs * unat (gc_BlockReward params) \<and>
    ((\<forall>tx\<in>set (txs_of bs). tx_Type tx \<noteq> TxBoostPost) \<longrightarrow>
       total_supply ws' = total_supply ws + length bs * unat (gc_BlockReward params))"
  by (rule apply_blocks_ok [OF assms])

section \<open>A run\<close>

definition chain_tx :: "TxType \<Rightarrow> byte \<Rightarrow> address \<Rightarrow> postid \<Rightarrow> bytes \<Rightarrow> u64 \<Rightarrow> u64 \<Rightarrow> Transaction" where
  "chain_tx ty b to i txt x n = \<lparr>tx_Type = ty, tx_Sender = chain_addr b, tx_Recipient = to, tx_PostID = i,
     tx_Text = txt, tx_Channel = [], tx_Amount = x, tx_Nonce = n, tx_Signature = chain_key b @ chain_key b,
     tx_PubKey = chain_key b\<rparr>"

definition chain_block :: "u64 \<Rightarrow> Transaction list \<Rightarrow> Block" where
  "chain_block h txs = \<lparr>blk_Header = \<lparr>hdr_Height = h, hdr_PrevHash = [], hdr_ProposerAddr = chain_addr 1,
     hdr_Timestamp = h, hdr_StateRoot = [], hdr_TxRoot = []\<rparr>, blk_Transactions = txs, blk_Evidence = [], blk_QC = None\<rparr>"

definition chain_post :: postid where
  "chain_post = DerivePostID chain_prims (chain_addr 1) 2"

text \<open>Key 1 pays key 2 and posts; key 2 boosts the post; then both take their stakes out again.\<close>

definition chain_run :: "Block list" where
  "chain_run =
    [chain_block 1 [chain_tx TxTransfer 1 (chain_addr 2) zeroPostID [] 200 1,
       chain_tx TxCreatePost 1 zeroAddress zeroPostID [104, 105] 1000 2,
       chain_tx TxBoostPost 2 zeroAddress chain_post [] 500 1],
     chain_block 2 [chain_tx TxStake 2 zeroAddress zeroPostID [] 300 2,
       chain_tx TxUnstakePost 1 zeroAddress chain_post [] 0 3]]"

definition chain_ws :: WorldState where
  "chain_ws = (case apply_blocks chain_prims plain_norm chain_params chain_ws0 chain_run of
     Inr ws \<Rightarrow> ws | Inl _ \<Rightarrow> NewWorldState)"

lemma chain_runs: "apply_blocks chain_prims plain_norm chain_params chain_ws0 chain_run = Inr chain_ws" by code_simp

lemma chain_post_id:
  assumes "length a = 24"
  shows "DerivePostID chain_prims a n = a @ be_bytes 8 (unat n)"
  using assms by (simp add: DerivePostID_def chain_prims_def len_prefixed_def Let_def)

lemma chain_ids: "post_ids_distinct chain_prims chain_ws"
proof -
  have "list_all (\<lambda>(a, x). length a = 24) (ws_accounts chain_ws)" by code_simp
  then have "length a = 24" if "GetAccount chain_ws a = Some x" for a x
    using that by (auto simp: list_all_iff GetAccount_def dest: map_of_SomeD)
  then show ?thesis unfolding post_ids_distinct_def by (auto simp: chain_post_id)
qed

lemma chain_run_length: "length (txs_of chain_run) = 5" "length chain_run = 2" by code_simp+

theorem chain_no_replay_witness:
  "distinct (map (\<lambda>tx. (tx_Sender tx, tx_Nonce tx)) (txs_of chain_run)) \<and> length (txs_of chain_run) = 5"
  using chain_no_replay [OF chain_ws0_wf(1) _ chain_runs] by (simp add: chain_run_length)

theorem chain_ledger_witness:
  "wf_ws chain_prims 5 chain_ws \<and> total_supply chain_ws \<le> 105020"
proof -
  have "params_ok chain_params" by code_simp
  from chain_ledger [OF chain_ws0_wf(1) _ _ this chain_ids chain_runs] show ?thesis
    by (simp add: chain_run_length chain_ws0_wf(2) chain_params_def)
qed

text \<open>
  C38: the public key that a first-time staker signs with is dropped: \<^verbatim>\<open>SetValidatorPubKey\<close> only updates an
  entry of the current active set, so when the next epoch admits the new staker its key is 32 zero bytes.
\<close>

theorem new_staker_zero_key:
  assumes "wf_ws P B ws" "\<forall>a x. GetAccount ws a = Some x \<longrightarrow> length a = 24"
    "\<forall>v\<in>set (ws_activeValidators ws). val_Address v \<noteq> tx_Sender tx"
    "GetAccount ws (tx_Sender tx) = Some acct" "m \<le> acc_StakedBalance acct + tx_Amount tx"
    "applyStake ws tx = Inr ws'"
  shows "\<exists>v\<in>set (ComputeActiveValidatorSet m ws').
    val_Address v = tx_Sender tx \<and> val_PubKey v = replicate 32 0"
proof -
  define x where "x = acct\<lparr>acc_Balance := acc_Balance acct - tx_Amount tx,
    acc_StakedBalance := acc_StakedBalance acct + tx_Amount tx, acc_Nonce := acc_Nonce acct + 1\<rparr>"
  have eq: "ws' = SetValidatorPubKey (tx_Sender tx) (tx_PubKey tx) (SetAccount x ws)"
    using assms(4,6) by (auto simp: applyStake_def x_def Let_def split: if_splits)
  have addr: "acc_Address x = tx_Sender tx" using wfD(5) [OF assms(1,4)] by (simp add: x_def)
  have same: "set_first_pubkey a pk vs = vs" if "\<forall>v\<in>set vs. val_Address v \<noteq> a" for a pk vs
    using that by (induction vs) simp_all
  have "ws_activeValidators ws' = ws_activeValidators ws"
    using same [OF assms(3)] by (simp add: eq SetValidatorPubKey_def)
  moreover have "find (\<lambda>v. val_Address v = tx_Sender tx) (ws_activeValidators ws) = None"
    using assms(3) by (simp add: find_None_iff)
  ultimately have key: "pubKeyForAccount ws' (tx_Sender tx) = replicate 32 0" by (simp add: pubKeyForAccount_def)
  have ga: "GetAccount ws' a = (if a = tx_Sender tx then Some x else GetAccount ws a)" for a
    using addr by (simp add: eq)
  have mok: "mok (ws_accounts ws')" using wfD(1) [OF assms(1)] by (simp add: eq SetValidatorPubKey_def map_ok_laws)
  have "accounts_keyed ws'"
    unfolding accounts_keyed_def
  proof (intro conjI mok ballI, clarify)
    fix k a
    assume "(k, a) \<in> set (ws_accounts ws')"
    then have "GetAccount ws' k = Some a" using mok by (simp add: GetAccount_def mok_def)
    then show "acc_Address a = k \<and> length k = 24"
      using assms(2,4) addr wfD(5) [OF assms(1)] by (auto simp: ga split: if_splits)
  qed
  moreover have "m \<le> acc_StakedBalance x" using assms(5) by (simp add: x_def)
  ultimately have "validator_of ws' x \<in> set (ComputeActiveValidatorSet m ws')"
    using ga [of "tx_Sender tx"] by (auto simp: active_set_facts(1))
  then show ?thesis using key addr by (auto simp: validator_of_def intro!: bexI [rotated])
qed

theorem new_staker_zero_key_witness:
  "\<exists>ws'. applyStake chain_ws0 (chain_tx TxStake 2 zeroAddress zeroPostID [] 300 1) = Inr ws'
     \<and> (\<exists>v\<in>set (ComputeActiveValidatorSet 100 ws'). val_Address v = chain_addr 2 \<and> val_PubKey v = replicate 32 0)"
proof -
  define tx where "tx = chain_tx TxStake 2 zeroAddress zeroPostID [] 300 1"
  have s: "tx_Sender tx = chain_addr 2" by (simp add: tx_def chain_tx_def)
  have a: "GetAccount chain_ws0 (chain_addr 2) = Some ((newAccount (chain_addr 2))\<lparr>acc_Balance := 5000\<rparr>)"
    by code_simp
  have "list_all (\<lambda>(a, x). length a = 24) (ws_accounts chain_ws0)" by code_simp
  then have l: "\<forall>a x. GetAccount chain_ws0 a = Some x \<longrightarrow> length a = 24"
    by (auto simp: list_all_iff GetAccount_def dest: map_of_SomeD)
  have "list_all (\<lambda>v. val_Address v \<noteq> chain_addr 2) (ws_activeValidators chain_ws0)" by code_simp
  then have v: "\<forall>v\<in>set (ws_activeValidators chain_ws0). val_Address v \<noteq> tx_Sender tx"
    by (simp add: list_all_iff s)
  have x: "tx_Amount tx = 300" by (simp add: tx_def chain_tx_def)
  obtain w where w: "applyStake chain_ws0 tx = Inr w" using a by (simp add: applyStake_def s x Let_def)
  have "\<exists>v\<in>set (ComputeActiveValidatorSet 100 w). val_Address v = tx_Sender tx \<and> val_PubKey v = replicate 32 0"
    by (rule new_staker_zero_key [OF chain_ws0_wf(1) l v a [folded s] _ w]) (simp add: x)
  with w show ?thesis by (simp add: s flip: tx_def)
qed

end
