(* ===== verification/WalletCrypto.thy ===== *)
theory WalletCrypto
  imports JsString
begin

text \<open>
  \<^verbatim>\<open>drana-app/src/wallet/crypto.ts\<close>: key pairs, addresses, hexadecimal text and the encryption of
  stored private keys.  The \<^verbatim>\<open>@noble\<close> packages and the Web Crypto API are the parameters in
  \<open>js_prims\<close>; base64 (\<^verbatim>\<open>btoa\<close>, \<^verbatim>\<open>atob\<close>) and \<^verbatim>\<open>parseInt\<close> are modelled.
\<close>

section \<open>Primitives and errors\<close>

record js_prims =
  noble_sha256 :: "bytes \<Rightarrow> bytes"
  ed_getPublicKey :: "bytes \<Rightarrow> bytes"
  ed_sign :: "bytes \<Rightarrow> bytes \<Rightarrow> bytes"
  pbkdf2 :: "bytes \<Rightarrow> bytes \<Rightarrow> nat \<Rightarrow> bytes"
  aes_gcm_encrypt :: "bytes \<Rightarrow> bytes \<Rightarrow> bytes \<Rightarrow> bytes"
  aes_gcm_decrypt :: "bytes \<Rightarrow> bytes \<Rightarrow> bytes \<Rightarrow> bytes option"

text \<open>Documented behaviour: digests and public keys have 32 bytes, and AES-GCM decrypts what it encrypted.\<close>

definition noble_sha256_len :: "js_prims \<Rightarrow> bool" where
  "noble_sha256_len Q \<longleftrightarrow> (\<forall>x. length (noble_sha256 Q x) = 32)"

definition ed_public_len :: "js_prims \<Rightarrow> bool" where
  "ed_public_len Q \<longleftrightarrow> (\<forall>seed. length (ed_getPublicKey Q seed) = 32)"

definition aes_gcm_correct :: "js_prims \<Rightarrow> bool" where
  "aes_gcm_correct Q \<longleftrightarrow> (\<forall>k iv m. aes_gcm_decrypt Q k iv (aes_gcm_encrypt Q k iv m) = Some m)"

datatype js_error =
    JsError string
  | RangeError
  | TypeError
  | SyntaxError
  | InvalidCharacterError
  | OperationError
  | ServerError jsstring
  | NetworkError

section \<open>Hexadecimal text\<close>

definition js_hex_char :: "nat \<Rightarrow> u16" where
  "js_hex_char n = of_nat (if n < 10 then 48 + n else 87 + n)"

definition js_hex_val :: "u16 \<Rightarrow> nat option" where
  "js_hex_val c = (let n = unat c in
     if 48 \<le> n \<and> n \<le> 57 then Some (n - 48)
     else if 97 \<le> n \<and> n \<le> 102 then Some (n - 87)
     else if 65 \<le> n \<and> n \<le> 70 then Some (n - 55)
     else None)"

text \<open>\<^verbatim>\<open>b.toString(16)\<close> of a byte and \<^verbatim>\<open>s.padStart(n, '0')\<close>.\<close>

definition byte_toString16 :: "byte \<Rightarrow> jsstring" where
  "byte_toString16 b =
     (if unat b < 16 then [js_hex_char (unat b)]
      else [js_hex_char (unat b div 16), js_hex_char (unat b mod 16)])"

definition js_padStart0 :: "nat \<Rightarrow> jsstring \<Rightarrow> jsstring" where
  "js_padStart0 n s = replicate (n - length s) 48 @ s"

definition toHex :: "bytes \<Rightarrow> jsstring" where
  "toHex bs = concat (map (\<lambda>b. js_padStart0 2 (byte_toString16 b)) bs)"

text \<open>
  \<^verbatim>\<open>parseInt(s, 16)\<close>: white space, a sign and \<^verbatim>\<open>0x\<close> are skipped; the longest run of hexadecimal digits
  counts; \<open>None\<close> is \<^verbatim>\<open>NaN\<close>.
\<close>

definition js_parseInt16 :: "jsstring \<Rightarrow> int option" where
  "js_parseInt16 s =
     (let t = dropWhile js_whitespace s;
          neg = (case t of c # _ \<Rightarrow> unat c = 45 | [] \<Rightarrow> False);
          u = (case t of c # v \<Rightarrow> if unat c = 45 \<or> unat c = 43 then v else t | [] \<Rightarrow> []);
          u = (if js_startsWith u (js ''0x'') \<or> js_startsWith u (js ''0X'') then drop 2 u else u);
          ds = takeWhile (\<lambda>c. js_hex_val c \<noteq> None) u;
          v = foldl (\<lambda>n c. 16 * n + the (js_hex_val c)) 0 ds
      in if ds = [] then None else Some (if neg then - int v else int v))"

text \<open>Assignment to an element of a \<^verbatim>\<open>Uint8Array\<close>: modulo 256, and \<^verbatim>\<open>NaN\<close> becomes 0.\<close>

definition js_ToUint8 :: "int option \<Rightarrow> byte" where
  "js_ToUint8 n = (case n of None \<Rightarrow> 0 | Some i \<Rightarrow> of_int i)"

text \<open>
  \<^verbatim>\<open>fromHex\<close>: the array has \<open>length div 2\<close> elements, so the write for a last odd character falls
  outside it and is ignored.
\<close>

fun fromHex :: "jsstring \<Rightarrow> bytes" where
  "fromHex [] = []"
| "fromHex [c] = []"
| "fromHex (c # d # s) = js_ToUint8 (js_parseInt16 [c, d]) # fromHex s"

section \<open>Keys and addresses\<close>

text \<open>\<open>seed\<close> is what \<^verbatim>\<open>ed.utils.randomPrivateKey()\<close> returned; the result is \<^verbatim>\<open>{ publicKey, privateKey }\<close>.\<close>

definition generateKeyPair :: "js_prims \<Rightarrow> bytes \<Rightarrow> bytes \<times> bytes" where
  "generateKeyPair Q seed =
     (let publicKey = ed_getPublicKey Q seed; privateKey = seed @ publicKey
      in (publicKey, privateKey))"

definition sign :: "js_prims \<Rightarrow> bytes \<Rightarrow> bytes \<Rightarrow> bytes" where
  "sign Q privateKey message = (let seed = take 32 privateKey in ed_sign Q message seed)"

definition deriveAddress :: "js_prims \<Rightarrow> bytes \<Rightarrow> jsstring" where
  "deriveAddress Q publicKey =
     (let pubKeyHash = noble_sha256 Q publicKey;
          body = take 20 pubKeyHash;
          checksumFull = noble_sha256 Q body;
          checksum = take 4 checksumFull;
          addrBytes = body @ checksum
      in js ''drana1'' @ toHex addrBytes)"

definition parseAddress :: "jsstring \<Rightarrow> (js_error, bytes) result" where
  "parseAddress addr =
     (if \<not> js_startsWith addr (js ''drana1'') then Inl (JsError ''Invalid address prefix'')
      else (let hex = js_slice_from addr 6
            in if length hex \<noteq> 48 then Inl (JsError ''Invalid address length'')
               else Inr (fromHex hex)))"

section \<open>base64\<close>

definition b64_char :: "nat \<Rightarrow> u16" where
  "b64_char n = of_nat (if n < 26 then 65 + n else if n < 52 then 71 + n else if n < 62 then n - 4
     else if n = 62 then 43 else 47)"

definition b64_val :: "u16 \<Rightarrow> nat option" where
  "b64_val c = (let n = unat c in
     if 65 \<le> n \<and> n \<le> 90 then Some (n - 65)
     else if 97 \<le> n \<and> n \<le> 122 then Some (n - 71)
     else if 48 \<le> n \<and> n \<le> 57 then Some (n + 4)
     else if n = 43 then Some 62 else if n = 47 then Some 63 else None)"

text \<open>\<^verbatim>\<open>btoa(String.fromCharCode(...bytes))\<close>.\<close>

fun btoa :: "bytes \<Rightarrow> jsstring" where
  "btoa [] = []"
| "btoa [a] = [b64_char (unat a div 4), b64_char (unat a mod 4 * 16), 61, 61]"
| "btoa [a, b] =
     [b64_char (unat a div 4), b64_char (unat a mod 4 * 16 + unat b div 16),
      b64_char (unat b mod 16 * 4), 61]"
| "btoa (a # b # c # s) =
     b64_char (unat a div 4) # b64_char (unat a mod 4 * 16 + unat b div 16)
     # b64_char (unat b mod 16 * 4 + unat c div 64) # b64_char (unat c mod 64) # btoa s"

text \<open>
  \<^verbatim>\<open>Uint8Array.from(atob(s), c => c.charCodeAt(0))\<close>: the forgiving decoder drops ASCII white space and
  up to two trailing \<^verbatim>\<open>=\<close> of a string whose length is a multiple of four.
\<close>

definition b64_ws :: "u16 \<Rightarrow> bool" where
  "b64_ws c \<longleftrightarrow> unat c \<in> {9, 10, 12, 13, 32}"

definition b64_unpad :: "jsstring \<Rightarrow> jsstring" where
  "b64_unpad t =
     (if length t mod 4 = 0
      then (if length t \<ge> 2 \<and> drop (length t - 2) t = [61, 61] then take (length t - 2) t
            else if length t \<ge> 1 \<and> last t = 61 then take (length t - 1) t else t)
      else t)"

definition b64_strip :: "jsstring \<Rightarrow> jsstring" where
  "b64_strip s = b64_unpad (filter (\<lambda>c. \<not> b64_ws c) s)"

fun b64_groups :: "nat list \<Rightarrow> bytes option" where
  "b64_groups [] = Some []"
| "b64_groups [a] = None"
| "b64_groups [a, b] = Some [of_nat (a * 4 + b div 16)]"
| "b64_groups [a, b, c] = Some [of_nat (a * 4 + b div 16), of_nat (b mod 16 * 16 + c div 4)]"
| "b64_groups (a # b # c # d # s) =
     map_option (\<lambda>r. of_nat (a * 4 + b div 16) # of_nat (b mod 16 * 16 + c div 4)
       # of_nat (c mod 4 * 64 + d) # r) (b64_groups s)"

definition atob :: "jsstring \<Rightarrow> bytes option" where
  "atob s =
     (let t = b64_strip s
      in if list_all (\<lambda>c. b64_val c \<noteq> None) t then b64_groups (map (\<lambda>c. the (b64_val c)) t) else None)"

section \<open>Encrypted private keys\<close>

record EncryptedKey =
  ek_ciphertext :: jsstring
  ek_salt :: jsstring
  ek_iv :: jsstring

text \<open>\<open>salt\<close> and \<open>iv\<close> are what \<^verbatim>\<open>crypto.getRandomValues\<close> filled in.\<close>

definition encryptPrivateKey :: "js_prims \<Rightarrow> bytes \<Rightarrow> bytes \<Rightarrow> bytes \<Rightarrow> jsstring \<Rightarrow> EncryptedKey" where
  "encryptPrivateKey Q salt iv privateKey password =
     (let aesKey = pbkdf2 Q (TextEncoder_encode password) salt 100000;
          ciphertext = aes_gcm_encrypt Q aesKey iv privateKey
      in \<lparr>ek_ciphertext = btoa ciphertext, ek_salt = btoa salt, ek_iv = btoa iv\<rparr>)"

definition decryptPrivateKey :: "js_prims \<Rightarrow> EncryptedKey \<Rightarrow> jsstring \<Rightarrow> (js_error, bytes) result" where
  "decryptPrivateKey Q encrypted password =
     (case atob (ek_salt encrypted) of None \<Rightarrow> Inl InvalidCharacterError
      | Some salt \<Rightarrow>
     (case atob (ek_iv encrypted) of None \<Rightarrow> Inl InvalidCharacterError
      | Some iv \<Rightarrow>
     (case atob (ek_ciphertext encrypted) of None \<Rightarrow> Inl InvalidCharacterError
      | Some ciphertext \<Rightarrow>
          (let aesKey = pbkdf2 Q (TextEncoder_encode password) salt 100000
           in case aes_gcm_decrypt Q aesKey iv ciphertext of
                None \<Rightarrow> Inl OperationError
              | Some plaintext \<Rightarrow> Inr plaintext))))"

section \<open>Facts: hexadecimal text\<close>

lemma js_hex_val_char: "n < 16 \<Longrightarrow> js_hex_val (js_hex_char n) = Some n"
  by (simp add: js_hex_val_def js_hex_char_def unat_of_nat Let_def del: of_nat_add)

lemma unat_js_hex_char: "n < 16 \<Longrightarrow> unat (js_hex_char n) = (if n < 10 then 48 + n else 87 + n)"
  by (simp add: js_hex_char_def unat_of_nat del: of_nat_add)

lemma parseInt16_pair:
  assumes "a < 16" "b < 16"
  shows "js_parseInt16 [js_hex_char a, js_hex_char b] = Some (int (16 * a + b))"
proof -
  have ws: "\<not> js_whitespace (js_hex_char a)" using assms
    by (auto simp: js_whitespace_def Let_def unat_js_hex_char)
  have nx: "unat (js_hex_char b) \<noteq> 120" "unat (js_hex_char b) \<noteq> 88"
    using assms by (auto simp: unat_js_hex_char)
  have "js_hex_char b \<noteq> 120" "js_hex_char b \<noteq> 88" using nx by auto
  then have "\<not> js_startsWith [js_hex_char a, js_hex_char b] (js ''0x'')"
    "\<not> js_startsWith [js_hex_char a, js_hex_char b] (js ''0X'')"
    by (simp_all add: js_startsWith_def js_def)
  with assms ws show ?thesis
    by (simp add: js_parseInt16_def Let_def js_hex_val_char unat_js_hex_char)
qed

lemma toHex_simps [simp]:
  "toHex [] = []"
  "toHex (b # bs) = js_hex_char (unat b div 16) # js_hex_char (unat b mod 16) # toHex bs"
  by (auto simp: toHex_def byte_toString16_def js_padStart0_def js_hex_char_def)

lemma length_toHex [simp, enc_simps]: "length (toHex bs) = 2 * length bs"
  by (induction bs) simp_all

lemma fromHex_toHex [simp]: "fromHex (toHex bs) = bs"
proof (induction bs)
  case (Cons b bs)
  have "unat b < 256" using unsigned_less [of b, where ?'a = nat] by simp
  then have "unat b div 16 < 16" by simp
  then have "js_parseInt16 [js_hex_char (unat b div 16), js_hex_char (unat b mod 16)] = Some (int (unat b))"
    by (subst parseInt16_pair) simp_all
  with Cons show ?case by (simp add: js_ToUint8_def)
qed simp

lemma length_fromHex [simp, enc_simps]: "length (fromHex s) = length s div 2"
  by (induction s rule: fromHex.induct) auto

lemma toHex_inj [simp]: "toHex a = toHex b \<longleftrightarrow> a = b"
  by (metis fromHex_toHex)

lemma length_deriveAddress:
  "noble_sha256_len Q \<Longrightarrow> length (deriveAddress Q pk) = 54"
  by (simp add: deriveAddress_def Let_def js_def noble_sha256_len_def)

lemma parseAddress_hex:
  "length bs = 24 \<Longrightarrow> parseAddress (js ''drana1'' @ toHex bs) = Inr bs"
  by (simp add: parseAddress_def js_startsWith_def js_slice_from_def js_def)

section \<open>Facts: base64\<close>

lemma b64_val_char: "n < 64 \<Longrightarrow> b64_val (b64_char n) = Some n"
  by (auto simp: b64_val_def b64_char_def unat_of_nat Let_def simp del: of_nat_add of_nat_diff)

lemma unat_b64_char:
  "n < 64 \<Longrightarrow> unat (b64_char n) = (if n < 26 then 65 + n else if n < 52 then 71 + n else if n < 62 then n - 4
     else if n = 62 then 43 else 47)"
  by (simp add: b64_char_def unat_of_nat del: of_nat_add of_nat_diff)

fun b64_idx :: "bytes \<Rightarrow> nat list" where
  "b64_idx [] = []"
| "b64_idx [a] = [unat a div 4, unat a mod 4 * 16]"
| "b64_idx [a, b] = [unat a div 4, unat a mod 4 * 16 + unat b div 16, unat b mod 16 * 4]"
| "b64_idx (a # b # c # s) = unat a div 4 # (unat a mod 4 * 16 + unat b div 16)
     # (unat b mod 16 * 4 + unat c div 64) # unat c mod 64 # b64_idx s"

fun b64_pad :: "bytes \<Rightarrow> nat" where
  "b64_pad [] = 0"
| "b64_pad [a] = 2"
| "b64_pad [a, b] = 1"
| "b64_pad (a # b # c # s) = b64_pad s"

lemma unat_byte: "unat (b :: byte) < 256"
  using unsigned_less [of b, where ?'a = nat] by simp

lemma unat_of_byte: "of_nat (unat (b :: byte)) = b"
  by simp

lemma btoa_split: "btoa bs = map b64_char (b64_idx bs) @ replicate (b64_pad bs) 61"
  by (induction bs rule: btoa.induct) (simp_all add: numeral_2_eq_2)

lemma b64_bounds:
  fixes a b c :: nat
  shows "a < 256 \<Longrightarrow> a div 4 < 64" "a mod 4 * 16 < 64" "b < 256 \<Longrightarrow> a mod 4 * 16 + b div 16 < 64"
    "b mod 16 * 4 < 64" "c < 256 \<Longrightarrow> b mod 16 * 4 + c div 64 < 64" "c mod 64 < 64"
proof -
  have a: "a mod 4 \<le> 3" and b: "b mod 16 \<le> 15" by (simp_all add: less_Suc_eq_le [symmetric])
  show "a mod 4 * 16 < 64" "b mod 16 * 4 < 64" using a b by linarith+
  have "b div 16 < 16" if "b < 256" using that by simp
  then show "b < 256 \<Longrightarrow> a mod 4 * 16 + b div 16 < 64" using a by linarith
  have "c div 64 < 4" if "c < 256" using that by simp
  then show "c < 256 \<Longrightarrow> b mod 16 * 4 + c div 64 < 64" using b by linarith
qed simp_all

lemma digit_split:
  fixes q r n :: nat
  assumes "r < n"
  shows "(q * n + r) div n = q" "(q * n + r) mod n = r"
  using assms by simp_all

lemma b64_regroup:
  fixes a b c :: nat
  shows "b < 256 \<Longrightarrow> a div 4 * 4 + (a mod 4 * 16 + b div 16) div 16 = a"
    "b < 256 \<Longrightarrow> (a mod 4 * 16 + b div 16) mod 16 * 16 + b mod 16 * 4 div 4 = b"
    "b < 256 \<Longrightarrow> c < 256 \<Longrightarrow> (a mod 4 * 16 + b div 16) mod 16 * 16 + (b mod 16 * 4 + c div 64) div 4 = b"
    "c < 256 \<Longrightarrow> (b mod 16 * 4 + c div 64) mod 4 * 64 + c mod 64 = c"
    "a div 4 * 4 + a mod 4 * 16 div 16 = a"
proof -
  have "b div 16 < 16" if "b < 256" using that by simp
  moreover have "c div 64 < 4" if "c < 256" using that by simp
  ultimately show "b < 256 \<Longrightarrow> a div 4 * 4 + (a mod 4 * 16 + b div 16) div 16 = a"
    "b < 256 \<Longrightarrow> (a mod 4 * 16 + b div 16) mod 16 * 16 + b mod 16 * 4 div 4 = b"
    "b < 256 \<Longrightarrow> c < 256 \<Longrightarrow> (a mod 4 * 16 + b div 16) mod 16 * 16 + (b mod 16 * 4 + c div 64) div 4 = b"
    "c < 256 \<Longrightarrow> (b mod 16 * 4 + c div 64) mod 4 * 64 + c mod 64 = c"
    by (simp_all only: digit_split div_mult_mod_eq) simp_all
qed simp

lemma b64_idx_less: "list_all (\<lambda>i. i < 64) (b64_idx bs)"
  by (induction bs rule: btoa.induct) (simp_all only: b64_idx.simps list.pred_inject b64_bounds unat_byte simp_thms)

lemma length_b64_eq: "length (b64_idx bs) + b64_pad bs = 4 * ((length bs + 2) div 3)"
proof (induction bs rule: btoa.induct)
  case (4 a b c s)
  have "(length (a # b # c # s) + 2) div 3 = Suc ((length s + 2) div 3)" by simp
  with 4 show ?case by simp
qed simp_all

lemma length_b64: "4 dvd (length (b64_idx bs) + b64_pad bs)"
  unfolding length_b64_eq by (rule dvd_triv_left)

lemma b64_pad_le: "b64_pad bs \<le> 2" "b64_pad bs \<noteq> 0 \<Longrightarrow> b64_idx bs \<noteq> []"
  by (induction bs rule: btoa.induct) simp_all

lemma b64_groups_idx: "b64_groups (b64_idx bs) = Some bs"
  by (induction bs rule: btoa.induct)
    (simp_all only: b64_idx.simps b64_groups.simps b64_regroup unat_byte option.map unat_of_byte)

lemma b64_char_plain:
  assumes "n < 64"
  shows "\<not> b64_ws (b64_char n)" "b64_char n \<noteq> 61"
proof -
  show "\<not> b64_ws (b64_char n)" using assms by (auto simp: b64_ws_def unat_b64_char split: if_splits)
  have "unat (b64_char n) \<noteq> 61" using assms by (auto simp: unat_b64_char split: if_splits)
  then show "b64_char n \<noteq> 61" by auto
qed

lemma b64_unpad_append:
  assumes "4 dvd length m + p" "p \<le> 2" "p \<noteq> 0 \<Longrightarrow> m \<noteq> []" "61 \<notin> set m"
  shows "b64_unpad (m @ replicate p 61) = m"
proof -
  consider "p = 0" | "p = 1" "m \<noteq> []" | "p = 2" using assms(2,3) by fastforce
  then show ?thesis
  proof cases
    case 1
    have "last m \<noteq> 61" if "m \<noteq> []" using assms(4) last_in_set [OF that] by auto
    moreover have "drop (length m - 2) m \<noteq> [61, 61]"
      using assms(4) by (metis in_set_dropD list.set_intros(1))
    ultimately show ?thesis using 1 by (cases "m = []") (auto simp: b64_unpad_def)
  next
    case 2
    then obtain l x where m: "m = l @ [x]" by (metis rev_exhaust)
    then have "x \<noteq> 61" using assms(4) by auto
    with assms(1) 2 m show ?thesis by (auto simp: b64_unpad_def)
  next
    case 3
    then have "replicate p 61 = [61 :: u16, 61]" by (simp add: numeral_2_eq_2)
    with assms(1) 3 show ?thesis by (auto simp: b64_unpad_def)
  qed
qed

lemma b64_strip_btoa: "b64_strip (btoa bs) = map b64_char (b64_idx bs)"
proof -
  have less: "i < 64" if "i \<in> set (b64_idx bs)" for i
    using b64_idx_less [of bs] that by (simp add: list_all_iff)
  have "\<not> b64_ws 61" by (simp add: b64_ws_def)
  then have "filter (\<lambda>c. \<not> b64_ws c) (btoa bs) = map b64_char (b64_idx bs) @ replicate (b64_pad bs) 61"
    using less b64_char_plain(1) by (auto simp: btoa_split filter_id_conv)
  moreover have "61 \<notin> set (map b64_char (b64_idx bs))"
    using less b64_char_plain(2) by (metis (no_types, lifting) imageE list.set_map)
  ultimately show ?thesis
    using length_b64 [of bs] b64_pad_le [of bs] by (simp add: b64_strip_def b64_unpad_append)
qed

lemma atob_btoa [simp]: "atob (btoa bs) = Some bs"
proof -
  have "map (\<lambda>c. the (b64_val c)) (map b64_char (b64_idx bs)) = b64_idx bs"
    using b64_idx_less [of bs] by (auto simp: b64_val_char list_all_iff intro: map_idI)
  moreover have "list_all (\<lambda>c. b64_val c \<noteq> None) (map b64_char (b64_idx bs))"
    using b64_idx_less [of bs] by (auto simp: list_all_iff b64_val_char)
  ultimately show ?thesis
    by (simp add: atob_def b64_strip_btoa b64_groups_idx del: map_map list.pred_map)
qed

lemma decrypt_encrypt:
  assumes "aes_gcm_correct Q"
  shows "decryptPrivateKey Q (encryptPrivateKey Q salt iv key pw) pw = Inr key"
  using assms
  by (simp add: decryptPrivateKey_def encryptPrivateKey_def Let_def aes_gcm_correct_def)

end
