(* ===== verification/WalletSigning.thy ===== *)
theory WalletSigning
  imports WalletCrypto
begin

text \<open>
  \<^verbatim>\<open>drana-app/src/wallet/signableBytes.ts\<close>: the bytes the browser wallet signs, the transaction hash
  and the post identifier, which have to agree with the node's encoders.  Buffers are filled the way
  the code fills them, by writes at growing offsets; \<open>concat_parts_eq\<close> shows that this is concatenation.
\<close>

section \<open>Encoding helpers\<close>

definition writeUint32 :: "jsnum \<Rightarrow> bytes" where
  "writeUint32 v = be_bytes 4 (js_ToUint32 v)"

definition writeUint64 :: "jsnum \<Rightarrow> (js_error, bytes) result" where
  "writeUint64 v =
     (case js_BigInt v of None \<Rightarrow> Inl RangeError
      | Some big \<Rightarrow> Inr (be_bytes 8 (nat (big mod 2 ^ 64))))"

text \<open>\<^verbatim>\<open>buf.set(part, offset)\<close> for a part that fits.\<close>

definition typed_set :: "bytes \<Rightarrow> bytes \<Rightarrow> nat \<Rightarrow> bytes" where
  "typed_set buf part offset = take offset buf @ part @ drop (offset + length part) buf"

text \<open>A length is a small integer, on which \<^verbatim>\<open>BigInt\<close> is defined.\<close>

definition writeLenPrefixed :: "bytes \<Rightarrow> bytes" where
  "writeLenPrefixed data =
     (let lenBuf = be_bytes 8 (length data);
          result = replicate (8 + length data) 0;
          result = typed_set result lenBuf 0
      in typed_set result data 8)"

fun set_parts :: "bytes \<Rightarrow> nat \<Rightarrow> bytes list \<Rightarrow> bytes" where
  "set_parts result offset [] = result"
| "set_parts result offset (part # parts) =
     set_parts (typed_set result part offset) (offset + length part) parts"

definition concat_parts :: "bytes list \<Rightarrow> bytes" where
  "concat_parts parts =
     (let totalLen = foldl (\<lambda>sum p. sum + length p) 0 parts
      in set_parts (replicate totalLen 0) 0 parts)"

section \<open>Exported functions\<close>

record SignTx =
  st_type :: jsnum
  st_sender :: jsstring
  st_recipient :: jsstring
  st_postId :: jsstring
  st_text :: jsstring
  st_channel :: jsstring
  st_amount :: jsnum
  st_nonce :: jsnum
  st_pubKey :: jsstring

definition computeSignableBytes :: "SignTx \<Rightarrow> (js_error, bytes) result" where
  "computeSignableBytes tx =
     bindR (parseAddress (st_sender tx)) (\<lambda>sender.
     bindR (if st_recipient tx \<noteq> [] then parseAddress (st_recipient tx) else Inr (replicate 24 0)) (\<lambda>recipient.
     bindR (writeUint64 (st_amount tx)) (\<lambda>amount.
     bindR (writeUint64 (st_nonce tx)) (\<lambda>nonce.
     Inr (concat_parts
       [writeUint32 (st_type tx),
        writeLenPrefixed sender,
        writeLenPrefixed recipient,
        writeLenPrefixed (if st_postId tx \<noteq> [] then fromHex (st_postId tx) else replicate 32 0),
        writeLenPrefixed (TextEncoder_encode (st_text tx)),
        writeLenPrefixed (TextEncoder_encode (st_channel tx)),
        amount,
        nonce,
        writeLenPrefixed (fromHex (st_pubKey tx))])))))"

definition computeTxHash :: "js_prims \<Rightarrow> SignTx \<Rightarrow> jsstring \<Rightarrow> (js_error, jsstring) result" where
  "computeTxHash Q tx signature =
     bindR (computeSignableBytes tx) (\<lambda>signable.
     Inr (let sig = fromHex signature;
              buf = concat_parts [writeLenPrefixed signable, writeLenPrefixed sig]
          in toHex (noble_sha256 Q buf)))"

definition derivePostID :: "js_prims \<Rightarrow> jsstring \<Rightarrow> jsnum \<Rightarrow> (js_error, jsstring) result" where
  "derivePostID Q authorAddress nonce =
     bindR (parseAddress authorAddress) (\<lambda>addrBytes.
     bindR (writeUint64 nonce) (\<lambda>n.
     Inr (toHex (noble_sha256 Q (concat_parts [writeLenPrefixed addrBytes, n])))))"

section \<open>Facts\<close>

lemma writeLenPrefixed_eq [simp]: "writeLenPrefixed data = len_prefixed data"
  by (simp add: writeLenPrefixed_def typed_set_def len_prefixed_def Let_def)

lemma set_parts_eq:
  "set_parts (done @ replicate (length (concat parts)) 0) (length done) parts = done @ concat parts"
proof (induction parts arbitrary: "done")
  case (Cons p ps)
  have "typed_set (done @ replicate (length (concat (p # ps))) 0) p (length done)
      = (done @ p) @ replicate (length (concat ps)) 0"
    by (simp add: typed_set_def)
  with Cons [of "done @ p"] show ?case by simp
qed simp

lemma total_length: "foldl (\<lambda>sum p. sum + length p) n parts = n + length (concat parts)"
  by (induction parts arbitrary: n) simp_all

lemma concat_parts_eq [simp]: "concat_parts parts = concat parts"
  using set_parts_eq [of "[]" parts] by (simp add: concat_parts_def total_length)

lemma writeUint64_int [simp]:
  "writeUint64 (Num (of_int n)) = Inr (be_bytes 8 (nat (n mod 2 ^ 64)))"
  by (simp add: writeUint64_def)

lemma writeUint64_word [simp]:
  "writeUint64 (Num (of_nat (unat (a :: u64)))) = Inr (be_bytes 8 (unat a))"
proof -
  have "int (unat a) mod 2 ^ 64 = int (unat a)"
    using unsigned_less [of a, where ?'a = int] by simp
  then show ?thesis using writeUint64_int [of "int (unat a)"] by simp
qed

lemma writeUint32_small:
  "n < 2 ^ 32 \<Longrightarrow> writeUint32 (Num (of_nat n)) = be_bytes 4 n"
  using floor_of_int [where ?'a = rat, of "int n"]
  by (simp add: writeUint32_def js_ToUint32_def nat_mod_distrib)

end
