(* ===== verification/Agreement.thy ===== *)
theory Agreement
  imports WalletSigning GoTypes
begin

text \<open>
  The contract between the browser wallet and the node: for the same transaction the two programs build the
  same signable bytes, transaction hash, post identifier and address, although one works on UTF-16 strings
  and doubles and the other on byte arrays and 64-bit words.
\<close>

section \<open>Corresponding values\<close>

text \<open>The two sides use one SHA-256; a node string of ASCII bytes is the browser string with the same codes.\<close>

definition same_hash :: "js_prims \<Rightarrow> prims \<Rightarrow> bool" where
  "same_hash Q P \<longleftrightarrow> noble_sha256 Q = sha256 P"

definition widen :: "bytes \<Rightarrow> jsstring" where
  "widen = map ucast"

definition app_number :: "u64 \<Rightarrow> jsnum" where
  "app_number v = Num (of_nat (unat v))"

definition app_address :: "address \<Rightarrow> jsstring" where
  "app_address a = js ''drana1'' @ toHex a"

text \<open>An absent recipient or post identifier is the empty string in the application, zero bytes in the node.\<close>

definition app_field :: "(bytes \<Rightarrow> jsstring) \<Rightarrow> bytes \<Rightarrow> jsstring \<Rightarrow> bool" where
  "app_field enc b s \<longleftrightarrow> s = enc b \<or> (s = [] \<and> b = replicate (length b) 0)"

definition describes :: "SignTx \<Rightarrow> Transaction \<Rightarrow> bool" where
  "describes s tx \<longleftrightarrow> st_type s = Num (of_nat (unat (tx_Type tx))) \<and> st_sender s = app_address (tx_Sender tx)
     \<and> app_field app_address (tx_Recipient tx) (st_recipient s) \<and> app_field toHex (tx_PostID tx) (st_postId s)
     \<and> TextEncoder_encode (st_text s) = tx_Text tx \<and> TextEncoder_encode (st_channel s) = tx_Channel tx
     \<and> st_amount s = app_number (tx_Amount tx) \<and> st_nonce s = app_number (tx_Nonce tx)
     \<and> st_pubKey s = toHex (tx_PubKey tx)"

section \<open>Hexadecimal strings\<close>

lemma hex_char_widen:
  assumes "n < 16"
  shows "ucast (hex_char n) = js_hex_char n"
proof (rule unsigned_word_eqI)
  have "unat (hex_char n) < 256" using unsigned_less [of "hex_char n", where ?'a = nat] by simp
  then show "unat (ucast (hex_char n) :: u16) = unat (js_hex_char n)"
    using assms by (simp add: unat_js_hex_char hex_char_def unat_of_nat unsigned_ucast_eq take_bit_nat_eq_self
        del: of_nat_add)
qed

lemma widen_Encode: "widen (EncodeToString bs) = toHex bs"
proof (induction bs)
  case (Cons b bs)
  have "unat b < 256" using unsigned_less [of b, where ?'a = nat] by simp
  then have "unat b div 16 < 16" "unat b mod 16 < 16" by simp_all
  with Cons show ?case by (simp add: widen_def hex_char_widen)
qed (simp add: widen_def)

lemma widen_go: "widen (go s) = js s"
proof -
  have "take_bit 8 (of_char c :: nat) = of_char c" for c
    by (rule take_bit_nat_eq_self) (use nat_of_char_less_256 [of c] in simp)
  then show ?thesis by (simp add: widen_def go_def js_def unsigned_of_nat)
qed

lemma widen_Address_String: "widen (Address_String a) = app_address a"
  using widen_Encode [of a] widen_go [of "''drana1''"]
  by (simp add: Address_String_def AddressPrefix_def app_address_def widen_def)

section \<open>Encodings\<close>

lemma parseAddress_app: "length a = 24 \<Longrightarrow> parseAddress (app_address a) = Inr a"
  by (simp add: app_address_def parseAddress_hex)

lemma app_field_recipient:
  assumes "app_field app_address a s" "length a = 24"
  shows "(if s \<noteq> [] then parseAddress s else Inr (replicate 24 0)) = Inr a"
  using assms parseAddress_app [OF assms(2)] by (auto simp: app_field_def) (simp add: app_address_def js_def)

lemma app_field_postid:
  assumes "app_field toHex i s" "length i = 32"
  shows "(if s \<noteq> [] then fromHex s else replicate 32 0) = i"
proof -
  have "toHex i \<noteq> []" using assms(2) length_toHex [of i] by (metis list.size(3) mult_is_0 zero_neq_numeral)
  with assms show ?thesis by (auto simp: app_field_def)
qed

lemma writeUint64_app [simp]: "writeUint64 (app_number v) = Inr (be_bytes 8 (unat v))"
  unfolding app_number_def by (rule writeUint64_word)

lemma writeUint32_type:
  "writeUint32 (Num (of_nat (unat (t :: TxType)))) = be_bytes 4 (unat (ucast t :: u32))"
proof -
  have "unat t < 256" using unsigned_less [of t, where ?'a = nat] by simp
  moreover from this have "unat (ucast t :: u32) = unat t" by (simp add: unsigned_ucast_eq take_bit_nat_eq_self)
  ultimately show ?thesis using writeUint32_small [of "unat t"] by (simp only:) simp
qed

lemma signable_agrees:
  assumes "wf_tx tx" "describes s tx"
  shows "computeSignableBytes s = Inr (SignableBytes tx)"
proof -
  have "computeSignableBytes s = Inr (concat
      [writeUint32 (st_type s), len_prefixed (tx_Sender tx), len_prefixed (tx_Recipient tx),
       len_prefixed (tx_PostID tx), len_prefixed (tx_Text tx), len_prefixed (tx_Channel tx),
       be_bytes 8 (unat (tx_Amount tx)), be_bytes 8 (unat (tx_Nonce tx)), len_prefixed (tx_PubKey tx)])"
    using assms app_field_recipient [of "tx_Recipient tx" "st_recipient s"]
      app_field_postid [of "tx_PostID tx" "st_postId s"]
    by (simp add: computeSignableBytes_def describes_def wf_tx_def parseAddress_app)
  moreover have "writeUint32 (st_type s) = be_bytes 4 (unat (ucast (tx_Type tx) :: u32))"
    using assms(2) writeUint32_type [of "tx_Type tx"] by (simp only: describes_def)
  ultimately show ?thesis by (simp add: SignableBytes_eq)
qed

lemma hash_agrees:
  assumes "wf_tx tx" "describes s tx" "same_hash Q P"
  shows "computeTxHash Q s (toHex (tx_Signature tx)) = Inr (toHex (Transaction_Hash P tx))"
  using assms by (simp add: computeTxHash_def signable_agrees Transaction_Hash_def Sum256_def same_hash_def Let_def)

lemma post_id_agrees:
  assumes "length a = 24" "same_hash Q P"
  shows "derivePostID Q (app_address a) (app_number n) = Inr (toHex (DerivePostID P a n))"
  using assms by (simp add: derivePostID_def parseAddress_app DerivePostID_def same_hash_def Let_def)

lemma address_agrees:
  assumes "sha256_len P" "same_hash Q P"
  shows "deriveAddress Q pk = app_address (AddressFromPublicKey P pk)"
proof -
  have "length (sha256 P x) = 32" for x using assms(1) by (simp add: sha256_len_def)
  then show ?thesis
    using assms(2) by (simp add: deriveAddress_def AddressFromPublicKey_def same_hash_def app_address_def
        copy_into_def Let_def)
qed

section \<open>Injectivity\<close>

lemma SignableBytes_inj:
  assumes "wf_tx tx" "wf_tx tx'" "SignableBytes tx = SignableBytes tx'"
  shows "tx_Type tx' = tx_Type tx \<and> tx_Sender tx' = tx_Sender tx \<and> tx_Recipient tx' = tx_Recipient tx
    \<and> tx_PostID tx' = tx_PostID tx \<and> tx_Text tx' = tx_Text tx \<and> tx_Channel tx' = tx_Channel tx
    \<and> tx_Amount tx' = tx_Amount tx \<and> tx_Nonce tx' = tx_Nonce tx \<and> tx_PubKey tx' = tx_PubKey tx"
proof -
  have len: "length (tx_Sender t) < 2 ^ 64" "length (tx_Recipient t) < 2 ^ 64" "length (tx_PostID t) < 2 ^ 64"
      "length (tx_Text t) < 2 ^ 64" "length (tx_Channel t) < 2 ^ 64" "length (tx_PubKey t) < 2 ^ 64"
    if "wf_tx t" for t
    using that by (auto simp: wf_tx_def)
  note l = len [OF assms(1)] len [OF assms(2)]
  note 1 = fixed_append_inj [OF assms(3) [unfolded SignableBytes_eq], simplified]
  note 2 = len_prefixed_append_inj [OF 1 [THEN conjunct2] l(1,7)]
  note 3 = len_prefixed_append_inj [OF 2 [THEN conjunct2] l(2,8)]
  note 4 = len_prefixed_append_inj [OF 3 [THEN conjunct2] l(3,9)]
  note 5 = len_prefixed_append_inj [OF 4 [THEN conjunct2] l(4,10)]
  note 6 = len_prefixed_append_inj [OF 5 [THEN conjunct2] l(5,11)]
  note 7 = fixed_append_inj [OF 6 [THEN conjunct2], simplified]
  note 8 = 7 [THEN conjunct2]
  have pk: "tx_PubKey tx = tx_PubKey tx'"
    using len_prefixed_append_inj [OF _ l(6,12), of "[]" "[]"] 8 by simp
  show ?thesis
    using type_bytes_inj [OF 1 [THEN conjunct1]] 2 3 4 5 6 7 8 pk by simp
qed

end
