(* ===== verification/Json.thy ===== *)
theory Json
  imports WalletCrypto
begin

text \<open>
  \<^verbatim>\<open>JSON.stringify\<close> and \<^verbatim>\<open>JSON.parse\<close> as the wallet application uses them: values without
  \<^verbatim>\<open>undefined\<close>, no indentation, and no \<^verbatim>\<open>toJSON\<close>.  An object is its list of properties in creation
  order.  The parser recurses on fuel; \<open>json_value_fuel\<close> shows that the fuel \<^verbatim>\<open>JSON.parse\<close> starts with
  never runs out, and \<open>JSON_parse_stringify\<close> that parsing undoes printing.
\<close>

section \<open>Values\<close>

datatype json =
    JNull
  | JBool bool
  | JNum jsnum
  | JStr jsstring
  | JArr "json list"
  | JObj "(jsstring \<times> json) list"

text \<open>\<^verbatim>\<open>o.k\<close> for a property name; \<open>None\<close> is \<^verbatim>\<open>undefined\<close>.\<close>

definition json_get :: "string \<Rightarrow> json \<Rightarrow> json option" where
  "json_get k v = (case v of JObj ps \<Rightarrow> map_of ps (js k) | _ \<Rightarrow> None)"

section \<open>JSON.stringify\<close>

definition hex4 :: "u16 \<Rightarrow> jsstring" where
  "hex4 c = [js_hex_char (unat c div 4096), js_hex_char (unat c div 256 mod 16),
             js_hex_char (unat c div 16 mod 16), js_hex_char (unat c mod 16)]"

definition json_escape :: "u16 \<Rightarrow> jsstring" where
  "json_escape c =
     (if c = 34 then [92, 34] else if c = 92 then [92, 92] else if c = 8 then [92, 98]
      else if c = 12 then [92, 102] else if c = 10 then [92, 110] else if c = 13 then [92, 114]
      else if c = 9 then [92, 116]
      else if unat c < 32 then [92, 117] @ hex4 c
      else [c])"

text \<open>A surrogate that is not part of a pair is printed as its escape.\<close>

fun json_escapes :: "jsstring \<Rightarrow> jsstring" where
  "json_escapes [] = []"
| "json_escapes [c] = (if is_high c \<or> is_low c then [92, 117] @ hex4 c else json_escape c)"
| "json_escapes (c # d # s) =
     (if is_high c \<and> is_low d then c # d # json_escapes s
      else (if is_high c \<or> is_low c then [92, 117] @ hex4 c else json_escape c) @ json_escapes (d # s))"

definition json_quote :: "jsstring \<Rightarrow> jsstring" where
  "json_quote s = 34 # json_escapes s @ [34]"

definition json_number :: "(rat \<Rightarrow> jsstring) \<Rightarrow> jsnum \<Rightarrow> jsstring" where
  "json_number fmt x = (case x of Num r \<Rightarrow> js_String fmt x | _ \<Rightarrow> js ''null'')"

fun json_print :: "(rat \<Rightarrow> jsstring) \<Rightarrow> json \<Rightarrow> jsstring"
  and json_print_elems :: "(rat \<Rightarrow> jsstring) \<Rightarrow> json list \<Rightarrow> jsstring"
  and json_print_members :: "(rat \<Rightarrow> jsstring) \<Rightarrow> (jsstring \<times> json) list \<Rightarrow> jsstring" where
  "json_print fmt JNull = js ''null''"
| "json_print fmt (JBool b) = (if b then js ''true'' else js ''false'')"
| "json_print fmt (JNum x) = json_number fmt x"
| "json_print fmt (JStr s) = json_quote s"
| "json_print fmt (JArr vs) = 91 # json_print_elems fmt vs @ [93]"
| "json_print fmt (JObj ps) = 123 # json_print_members fmt ps @ [125]"
| "json_print_elems fmt [] = []"
| "json_print_elems fmt [v] = json_print fmt v"
| "json_print_elems fmt (v # w # vs) = json_print fmt v @ 44 # json_print_elems fmt (w # vs)"
| "json_print_members fmt [] = []"
| "json_print_members fmt [(k, v)] = json_quote k @ 58 # json_print fmt v"
| "json_print_members fmt ((k, v) # p # ps) =
     json_quote k @ 58 # json_print fmt v @ 44 # json_print_members fmt (p # ps)"

definition JSON_stringify :: "(rat \<Rightarrow> jsstring) \<Rightarrow> json \<Rightarrow> jsstring" where
  "JSON_stringify fmt v = json_print fmt v"

section \<open>JSON.parse\<close>

definition json_ws :: "u16 \<Rightarrow> bool" where
  "json_ws c \<longleftrightarrow> c = 32 \<or> c = 9 \<or> c = 10 \<or> c = 13"

abbreviation skip_ws :: "jsstring \<Rightarrow> jsstring" where
  "skip_ws \<equiv> dropWhile json_ws"

definition unhex4 :: "u16 \<Rightarrow> u16 \<Rightarrow> u16 \<Rightarrow> u16 \<Rightarrow> u16 option" where
  "unhex4 a b c d =
     (case (js_hex_val a, js_hex_val b, js_hex_val c, js_hex_val d) of
        (Some w, Some x, Some y, Some z) \<Rightarrow> Some (of_nat (4096 * w + 256 * x + 16 * y + z))
      | _ \<Rightarrow> None)"

definition unescape :: "u16 \<Rightarrow> u16 option" where
  "unescape e =
     (if e = 34 \<or> e = 92 \<or> e = 47 then Some e else if e = 98 then Some 8 else if e = 102 then Some 12
      else if e = 110 then Some 10 else if e = 114 then Some 13 else if e = 116 then Some 9 else None)"

text \<open>The characters of a string literal after its opening quote, and what follows the closing one.\<close>

fun json_string :: "jsstring \<Rightarrow> (jsstring \<times> jsstring) option" where
  "json_string [] = None"
| "json_string (c # s) =
     (if c = 34 then Some ([], s)
      else if c = 92 then
        (case s of
           [] \<Rightarrow> None
         | e # s' \<Rightarrow>
             if e = 117 then
               (case s' of
                  h1 # h2 # h3 # h4 # s'' \<Rightarrow>
                    (case unhex4 h1 h2 h3 h4 of None \<Rightarrow> None
                     | Some u \<Rightarrow> map_option (\<lambda>(t, r). (u # t, r)) (json_string s''))
                | _ \<Rightarrow> None)
             else (case unescape e of None \<Rightarrow> None
                   | Some u \<Rightarrow> map_option (\<lambda>(t, r). (u # t, r)) (json_string s')))
      else if unat c < 32 then None
      else map_option (\<lambda>(t, r). (c # t, r)) (json_string s))"

definition json_fraction :: "jsstring \<Rightarrow> (jsstring \<times> jsstring) option" where
  "json_fraction s =
     (case s of
        c # t \<Rightarrow>
          if c = 46 then (let ds = takeWhile is_digit t in
                          if ds = [] then None else Some (ds, dropWhile is_digit t))
          else Some ([], s)
      | [] \<Rightarrow> Some ([], []))"

definition json_exponent :: "jsstring \<Rightarrow> (int \<times> jsstring) option" where
  "json_exponent s =
     (case s of
        c # t \<Rightarrow>
          if c = 101 \<or> c = 69 then
            (let neg = (case t of d # _ \<Rightarrow> d = 45 | [] \<Rightarrow> False);
                 u = (case t of d # v \<Rightarrow> if d = 45 \<or> d = 43 then v else t | [] \<Rightarrow> []);
                 ds = takeWhile is_digit u
             in if ds = [] then None
                else Some (if neg then - int (dec_val ds) else int (dec_val ds), dropWhile is_digit u))
          else Some (0, s)
      | [] \<Rightarrow> Some (0, []))"

definition json_numeral :: "jsstring \<Rightarrow> (jsnum \<times> jsstring) option" where
  "json_numeral s =
     (let neg = (case s of c # _ \<Rightarrow> c = 45 | [] \<Rightarrow> False);
          u = (if neg then tl s else s);
          ip = takeWhile is_digit u
      in if ip = [] \<or> (1 < length ip \<and> hd ip = 48) then None
         else case json_fraction (dropWhile is_digit u) of None \<Rightarrow> None
         | Some (fp, r) \<Rightarrow> (case json_exponent r of None \<Rightarrow> None
           | Some (e, r') \<Rightarrow>
               (let x = (of_nat (dec_val ip) + of_nat (dec_val fp) / 10 ^ length fp) * 10 powi e
                in Some (js_of_rat (if neg then - x else x), r'))))"

definition json_literal :: "string \<Rightarrow> json \<Rightarrow> jsstring \<Rightarrow> (json \<times> jsstring) option" where
  "json_literal w v s = (if js_startsWith s (js w) then Some (v, drop (length w) s) else None)"

text \<open>One character that has to come next.\<close>

definition expect :: "u16 \<Rightarrow> jsstring \<Rightarrow> jsstring option" where
  "expect c s = (case skip_ws s of d # t \<Rightarrow> if d = c then Some t else None | [] \<Rightarrow> None)"

fun json_value :: "nat \<Rightarrow> jsstring \<Rightarrow> (json \<times> jsstring) option"
  and json_elems :: "nat \<Rightarrow> json list \<Rightarrow> jsstring \<Rightarrow> (json \<times> jsstring) option"
  and json_members :: "nat \<Rightarrow> (jsstring \<times> json) list \<Rightarrow> jsstring \<Rightarrow> (json \<times> jsstring) option" where
  "json_value 0 s = None"
| "json_value (Suc n) s =
     (case skip_ws s of
        [] \<Rightarrow> None
      | c # t \<Rightarrow>
          if c = 123 then (case expect 125 t of Some r \<Rightarrow> Some (JObj [], r) | None \<Rightarrow> json_members n [] t)
          else if c = 91 then (case expect 93 t of Some r \<Rightarrow> Some (JArr [], r) | None \<Rightarrow> json_elems n [] t)
          else if c = 34 then map_option (\<lambda>(str, r). (JStr str, r)) (json_string t)
          else if c = 116 then json_literal ''true'' (JBool True) (c # t)
          else if c = 102 then json_literal ''false'' (JBool False) (c # t)
          else if c = 110 then json_literal ''null'' JNull (c # t)
          else map_option (\<lambda>(x, r). (JNum x, r)) (json_numeral (c # t)))"
| "json_elems 0 acc s = None"
| "json_elems (Suc n) acc s =
     (case json_value n s of None \<Rightarrow> None
      | Some (v, r) \<Rightarrow>
          (case expect 93 r of Some r' \<Rightarrow> Some (JArr (acc @ [v]), r')
           | None \<Rightarrow> (case expect 44 r of None \<Rightarrow> None | Some r' \<Rightarrow> json_elems n (acc @ [v]) r')))"
| "json_members 0 acc s = None"
| "json_members (Suc n) acc s =
     (case expect 34 s of None \<Rightarrow> None
      | Some t \<Rightarrow> (case json_string t of None \<Rightarrow> None
        | Some (k, r) \<Rightarrow> (case expect 58 r of None \<Rightarrow> None
          | Some r1 \<Rightarrow> (case json_value n r1 of None \<Rightarrow> None
            | Some (v, r2) \<Rightarrow>
                (case expect 125 r2 of Some r3 \<Rightarrow> Some (JObj (mput k v acc), r3)
                 | None \<Rightarrow> (case expect 44 r2 of None \<Rightarrow> None
                   | Some r3 \<Rightarrow> json_members n (mput k v acc) r3))))))"

definition JSON_parse :: "jsstring \<Rightarrow> (js_error, json) result" where
  "JSON_parse s =
     (case json_value (2 * length s + 2) s of
        Some (v, r) \<Rightarrow> if skip_ws r = [] then Inr v else Inl SyntaxError
      | None \<Rightarrow> Inl SyntaxError)"

section \<open>The parser consumes its input\<close>

lemma length_skip_ws: "length (skip_ws s) \<le> length s"
  by (rule length_dropWhile_le)

lemma expect_shorter: "expect c s = Some t \<Longrightarrow> length t < length s"
  using length_skip_ws [of s] by (auto simp: expect_def split: list.splits if_splits)

lemma json_string_shorter: "json_string s = Some (t, r) \<Longrightarrow> length r < length s"
proof (induction s arbitrary: t r rule: length_induct)
  case (1 s)
  have IH: "json_string u = Some (t', r') \<Longrightarrow> length u < length s \<Longrightarrow> length r' < length s" for u t' r'
    using 1(1) by (meson less_trans)
  from 1(2) show ?case
    by (cases s) (auto split: if_splits list.splits option.splits dest!: IH)
qed

lemma json_fraction_shorter: "json_fraction s = Some (t, r) \<Longrightarrow> length r \<le> length s"
  by (auto simp: json_fraction_def Let_def split: list.splits if_splits
      intro: le_SucI [OF length_dropWhile_le])

lemma json_exponent_shorter: "json_exponent s = Some (e, r) \<Longrightarrow> length r \<le> length s"
  by (auto simp: json_exponent_def Let_def split: list.splits if_splits
      intro: le_SucI [OF length_dropWhile_le] le_SucI [OF le_SucI [OF length_dropWhile_le]])

lemma length_dropWhile_less:
  "takeWhile P s \<noteq> [] \<Longrightarrow> length (dropWhile P s) < length s"
  by (metis length_append length_greater_0_conv less_add_same_cancel2 takeWhile_dropWhile_id)

lemma json_numeral_shorter:
  assumes "json_numeral s = Some (x, r)"
  shows "length r < length s"
proof -
  define u where "u = (if (case s of c # _ \<Rightarrow> c = 45 | [] \<Rightarrow> False) then tl s else s)"
  obtain fp r1 e where "takeWhile is_digit u \<noteq> []" "json_fraction (dropWhile is_digit u) = Some (fp, r1)"
    "json_exponent r1 = Some (e, r)"
    using assms by (auto simp: json_numeral_def Let_def u_def split: if_splits option.splits)
  then have "length r < length u"
    using json_exponent_shorter json_fraction_shorter length_dropWhile_less
    by (metis le_less_trans order_trans)
  moreover have "length u \<le> length s" by (simp add: u_def)
  ultimately show ?thesis by simp
qed

lemma json_literal_shorter:
  "json_literal w v (c # t) = Some (x, r) \<Longrightarrow> w \<noteq> [] \<Longrightarrow> length t < n \<Longrightarrow> length r < n"
  by (cases w) (auto simp: json_literal_def split: if_splits)

lemma json_numeral_shorter':
  "json_numeral (c # t) = Some (x, r) \<Longrightarrow> length t < n \<Longrightarrow> length r < n"
  using json_numeral_shorter by fastforce

lemma json_shorter:
  "json_value n s = Some (v, r) \<Longrightarrow> length r < length s"
  "json_elems n vs s = Some (v, r) \<Longrightarrow> length r < length s"
  "json_members n ps s = Some (v, r) \<Longrightarrow> length r < length s"
proof (induction n s and n vs s and n ps s arbitrary: v r and v r and v r
    rule: json_value_json_elems_json_members.induct)
  case (2 n s)
  have le: "skip_ws s = c # t \<Longrightarrow> length t < length s" for c t using length_skip_ws [of s] by auto
  from 2 show ?case
    by (auto split: list.splits if_splits option.splits dest!: le
        dest: expect_shorter json_string_shorter less_trans json_literal_shorter
          json_numeral_shorter')
next
  case (4 n vs s)
  obtain w r1 where w: "json_value n s = Some (w, r1)" using "4.prems" by (auto split: option.splits)
  have r1: "length r1 < length s" using "4.IH"(1) [OF w] .
  show ?case
  proof (cases "expect 93 r1")
    case None
    then obtain r2 where "expect 44 r1 = Some r2" "json_elems n (vs @ [w]) r2 = Some (v, r)"
      using "4.prems" w by (auto split: option.splits)
    then show ?thesis using r1 "4.IH"(2) [OF w refl None] expect_shorter by fastforce
  next
    case (Some r2)
    then show ?thesis using "4.prems" w r1 expect_shorter by fastforce
  qed
next
  case (6 n ps s)
  obtain t k r0 r1 w r2 where p: "expect 34 s = Some t" "json_string t = Some (k, r0)"
    "expect 58 r0 = Some r1" and w: "json_value n r1 = Some (w, r2)"
    using "6.prems" by (auto split: option.splits)
  have "length r1 < length s"
    using expect_shorter [OF p(1)] json_string_shorter [OF p(2)] expect_shorter [OF p(3)] by simp
  then have r2: "length r2 < length s" using "6.IH"(1) [OF p(1,2) refl p(3) w] by simp
  show ?case
  proof (cases "expect 125 r2")
    case None
    then obtain r3 where "expect 44 r2 = Some r3" "json_members n (mput k w ps) r3 = Some (v, r)"
      using "6.prems" p w by (auto split: option.splits)
    then show ?thesis using r2 "6.IH"(2) [OF p(1,2) refl p(3) w refl None] expect_shorter by fastforce
  next
    case (Some r3)
    then show ?thesis using "6.prems" p w r2 expect_shorter by fastforce
  qed
qed simp_all


section \<open>The fuel suffices\<close>

lemma json_fuel_step:
  "(2 * length s + 1 \<le> n \<longrightarrow> json_value (Suc n) s = json_value n s)
   \<and> (2 * length s + 2 \<le> n \<longrightarrow> json_elems (Suc n) vs s = json_elems n vs s)
   \<and> (2 * length s + 2 \<le> n \<longrightarrow> json_members (Suc n) ps s = json_members n ps s)"
proof (induction n arbitrary: s vs ps)
  case (Suc n)
  have v: "json_value (Suc n) s' = json_value n s'" if "2 * length s' + 1 \<le> n" for s'
    using Suc.IH that by blast
  have e: "json_elems (Suc n) vs' s' = json_elems n vs' s'" if "2 * length s' + 2 \<le> n" for s' vs'
    using Suc.IH that by blast
  have m: "json_members (Suc n) ps' s' = json_members n ps' s'" if "2 * length s' + 2 \<le> n" for s' ps'
    using Suc.IH that by blast
  show ?case
  proof (intro conjI impI)
    assume le: "2 * length s + 1 \<le> Suc n"
    show "json_value (Suc (Suc n)) s = json_value (Suc n) s"
    proof (cases "skip_ws s")
      case (Cons c t)
      then have "2 * length t + 2 \<le> n" using length_skip_ws [of s] le by simp
      then show ?thesis
        using e [of t] m [of t]
        by (simp add: Cons del: json_elems.simps json_members.simps split: option.split)
    next
      case Nil
      show ?thesis by (simp only: json_value.simps Nil list.case)
    qed
  next
    assume le: "2 * length s + 2 \<le> Suc n"
    have "2 * length r' + 2 \<le> n" if "json_value n s = Some (v, r)" "expect 44 r = Some r'" for v r r'
      using json_shorter(1) [OF that(1)] expect_shorter [OF that(2)] le by simp
    then show "json_elems (Suc (Suc n)) vs s = json_elems (Suc n) vs s"
      using le by (subst (1 2) json_elems.simps) (auto simp: e v simp del: json_value.simps json_elems.simps json_members.simps split: list.splits option.splits)
  next
    assume le: "2 * length s + 2 \<le> Suc n"
    have r: "2 * length r1 + 1 \<le> n"
      if "expect 34 s = Some t" "json_string t = Some (k, r)" "expect 58 r = Some r1" for t k r r1
      using expect_shorter [OF that(1)] json_string_shorter [OF that(2)] expect_shorter [OF that(3)] le by simp
    have "2 * length r3 + 2 \<le> n"
      if "expect 34 s = Some t" "json_string t = Some (k, r)" "expect 58 r = Some r1"
        "json_value n r1 = Some (v, r2)" "expect 44 r2 = Some r3" for t k r r1 v r2 r3
      using r [OF that(1-3)] json_shorter(1) [OF that(4)] expect_shorter [OF that(5)] by simp
    with r show "json_members (Suc (Suc n)) ps s = json_members (Suc n) ps s"
      by (subst (1 2) json_members.simps) (auto simp: m v simp del: json_value.simps json_elems.simps json_members.simps split: list.splits option.splits)
  qed
qed simp

text \<open>Beyond the fuel \<^verbatim>\<open>JSON.parse\<close> starts with, more fuel changes nothing.\<close>

lemma json_value_fuel:
  assumes "2 * length s + 1 \<le> n"
  shows "json_value n s = json_value (2 * length s + 1) s"
  using assms by (induction rule: dec_induct) (auto simp: json_fuel_step simp del: json_value.simps)

section \<open>Parsing undoes printing\<close>

lemma unhex4_hex4: "hex4 c = [p, q, r, s] \<Longrightarrow> unhex4 p q r s = Some c"
proof -
  assume h: "hex4 c = [p, q, r, s]"
  have c: "unat c < 65536" using unsigned_less [of c, where ?'a = nat] by simp
  have "unat c = 4096 * (unat c div 4096) + unat c mod 4096"
    "unat c mod 4096 = 256 * (unat c div 256 mod 16) + unat c mod 256"
    "unat c mod 256 = 16 * (unat c div 16 mod 16) + unat c mod 16"
    using mod_mult2_eq [of "unat c" 256 16] mod_mult2_eq [of "unat c" 16 16]
    by (simp_all only: mult_div_mod_eq) simp_all
  then have "4096 * (unat c div 4096) + 256 * (unat c div 256 mod 16) + 16 * (unat c div 16 mod 16) + unat c mod 16 = unat c"
    by linarith
  moreover have "unat c div 4096 < 16" using c by simp
  ultimately show ?thesis using h
    by (auto simp: hex4_def unhex4_def js_hex_val_char simp del: of_nat_add of_nat_mult)
qed

lemma json_string_u:
  "json_string (92 # 117 # hex4 c @ t) = map_option (\<lambda>(u, r). (c # u, r)) (json_string t)"
proof -
  obtain p q r s where h: "hex4 c = [p, q, r, s]" by (simp add: hex4_def)
  show ?thesis using unhex4_hex4 [OF h] by (simp add: h)
qed

lemma json_string_escape:
  "json_string (json_escape c @ t) = map_option (\<lambda>(u, r). (c # u, r)) (json_string t)"
  using json_string_u [of c t] by (simp add: json_escape_def unescape_def)

lemma surrogate_plain: "is_high c \<or> is_low c \<Longrightarrow> c \<noteq> 34 \<and> c \<noteq> 92 \<and> \<not> unat c < 32"
  by (auto simp: is_high_def is_low_def)

lemma json_string_escapes: "json_string (json_escapes s @ 34 # r) = Some (s, r)"
proof (induction s rule: json_escapes.induct)
  case (2 c)
  then show ?case using json_string_u [of c "34 # r"] json_string_escape [of c "34 # r"] by simp
next
  case (3 c d s)
  show ?case
  proof (cases "is_high c \<and> is_low d")
    case True
    then show ?thesis using 3(1) surrogate_plain [of c] surrogate_plain [of d] by simp
  next
    case False
    then show ?thesis
      using 3(2) json_string_u [of c "json_escapes (d # s) @ 34 # r"]
        json_string_escape [of c "json_escapes (d # s) @ 34 # r"] by (auto simp del: json_string.simps)
  qed
qed simp


text \<open>What can follow a number: the end, a comma or a closing bracket.\<close>

definition delim :: "jsstring \<Rightarrow> bool" where
  "delim r \<longleftrightarrow> (case r of [] \<Rightarrow> True | c # _ \<Rightarrow> c = 44 \<or> c = 93 \<or> c = 125)"

lemma delim_not_digit: "delim r \<Longrightarrow> takeWhile is_digit r = [] \<and> dropWhile is_digit r = r"
  by (cases r) (auto simp: delim_def is_digit_def)

lemma hd_dec_digits: "10 \<le> n \<Longrightarrow> hd (dec_digits n) \<noteq> 48"
proof (induction n rule: dec_digits.induct)
  case (1 n)
  have h: "hd (dec_digits n) = hd (dec_digits (n div 10))"
    using 1 by (subst dec_digits.simps) (simp add: dec_digits_nonempty)
  show ?case
  proof (cases "n < 100")
    case True
    then have "n div 10 < 10" "0 < n div 10" using 1 by auto
    then have "hd (dec_digits (n div 10)) = of_nat (48 + n div 10)" "unat (of_nat (48 + n div 10) :: u16) = 48 + n div 10"
      by (simp_all add: dec_digits.simps [of "n div 10"] unat_of_nat del: of_nat_add)
    moreover have "unat (48 :: u16) = 48" by simp
    ultimately show ?thesis using h \<open>0 < n div 10\<close> by (metis add_cancel_left_right less_numeral_extra(3))
  next
    case False
    then show ?thesis using 1 h by simp
  qed
qed

lemma json_numeral_digits:
  assumes "n < 2 ^ 53" "delim r"
  shows "json_numeral (dec_digits n @ r) = Some (Num (of_nat n), r)"
proof -
  have dig: "list_all is_digit (dec_digits n)" using is_digit_dec_digits by (simp add: list_all_iff)
  obtain c t where ct: "dec_digits n = c # t" using dec_digits_nonempty by (cases "dec_digits n") auto
  have c: "c \<noteq> 45" using dig ct by (auto simp: is_digit_def)
  have tw: "takeWhile is_digit (dec_digits n @ r) = dec_digits n" "dropWhile is_digit (dec_digits n @ r) = r"
    using is_digit_dec_digits delim_not_digit [OF assms(2)]
    by (simp_all add: takeWhile_append2 dropWhile_append2)
  have z: "\<not> (1 < length (dec_digits n) \<and> hd (dec_digits n) = 48)"
  proof (cases "n < 10")
    case True
    then show ?thesis by (subst (1) dec_digits.simps) simp
  next
    case False
    then show ?thesis using hd_dec_digits [of n] by simp
  qed
  have "js_of_rat (of_nat n) = Num (of_nat n)"
    using js_of_int_safe [of "int n"] assms(1) by (simp add: MAX_SAFE_INTEGER_def)
  moreover have "json_fraction r = Some ([], r)" "json_exponent r = Some (0, r)"
    using assms(2) by (auto simp: json_fraction_def json_exponent_def delim_def split: list.splits)
  moreover have "(case dec_digits n @ r of [] \<Rightarrow> False | c # _ \<Rightarrow> c = 45) = False" using ct c by simp
  ultimately show ?thesis using z
    by (simp add: json_numeral_def Let_def tw dec_digits_nonempty dec_val_dec_digits dec_val_def [of "[]"])
qed


text \<open>The values the application stores: natural numbers below \<open>2 ^ 53\<close>, and no repeated property.\<close>

fun json_wf :: "json \<Rightarrow> bool" where
  "json_wf (JNum x) = (case x of Num q \<Rightarrow> rat_is_int q \<and> 0 \<le> q \<and> q < 2 ^ 53 | _ \<Rightarrow> False)"
| "json_wf (JArr vs) = (\<forall>v\<in>set vs. json_wf v)"
| "json_wf (JObj ps) = (distinct (map fst ps) \<and> (\<forall>p\<in>set ps. json_wf (snd p)))"
| "json_wf _ = True"

lemma json_wf_NumE:
  assumes "json_wf (JNum x)"
  obtains n where "x = Num (of_nat n)" "n < 2 ^ 53"
proof -
  obtain q where q: "x = Num q" "rat_is_int q" "0 \<le> q" "q < 2 ^ 53"
    using assms by (auto split: jsnum.splits)
  then obtain i where i: "q = of_int i" by (auto simp: rat_is_int_iff)
  with q have "0 \<le> i" "(of_int i :: rat) < of_int (2 ^ 53)" by simp_all
  then have "0 \<le> i" "i < 2 ^ 53" by (simp_all only: of_int_less_iff)
  then show ?thesis using q i that [of "nat i"] by simp
qed

lemma json_number_nat: "n < 2 ^ 53 \<Longrightarrow> json_number fmt (Num (of_nat n)) = dec_digits n"
  by (simp add: json_number_def js_String_safe)

lemma js_literals:
  "js ''null'' = [110, 117, 108, 108]" "js ''true'' = [116, 114, 117, 101]"
  "js ''false'' = [102, 97, 108, 115, 101]"
  by (simp_all add: js_def)

lemma json_print_first:
  assumes "json_wf v"
  obtains c t where "json_print fmt v = c # t" "\<not> json_ws c" "c \<noteq> 93" "c \<noteq> 125"
proof (cases v)
  case (JNum x)
  then obtain n where n: "x = Num (of_nat n)" "n < 2 ^ 53" using assms json_wf_NumE by blast
  obtain c t where ct: "dec_digits n = c # t" using dec_digits_nonempty by (cases "dec_digits n") auto
  then have "is_digit c" using is_digit_dec_digits [of c n] by simp
  then have "\<not> json_ws c \<and> c \<noteq> 93 \<and> c \<noteq> 125" by (auto simp: is_digit_def json_ws_def)
  then show ?thesis using that ct n JNum by (simp add: json_number_nat)
next
  case (JBool b)
  then show ?thesis using that by (cases b) (auto simp: js_literals json_ws_def)
qed (use that in \<open>auto simp: json_quote_def json_ws_def js_literals\<close>)

lemma expect_now [simp]: "\<not> json_ws c \<Longrightarrow> expect d (c # t) = (if c = d then Some t else None)"
  by (simp add: expect_def)

lemma not_json_ws [simp]:
  "\<not> json_ws 44" "\<not> json_ws 93" "\<not> json_ws 125" "\<not> json_ws 34" "\<not> json_ws 58" "\<not> json_ws 91"
  "\<not> json_ws 123" "\<not> json_ws 110" "\<not> json_ws 116" "\<not> json_ws 102"
  by (simp_all add: json_ws_def)

definition eventually_parses :: "(nat \<Rightarrow> (json \<times> jsstring) option) \<Rightarrow> json \<Rightarrow> jsstring \<Rightarrow> bool" where
  "eventually_parses f v r \<longleftrightarrow> (\<exists>n. \<forall>m\<ge>n. f m = Some (v, r))"

lemma eventually_parsesI: "(\<And>m. n \<le> m \<Longrightarrow> f (Suc m) = Some (v, r)) \<Longrightarrow> eventually_parses f v r"
  unfolding eventually_parses_def by (metis Suc_le_D Suc_le_mono)

lemma eventually_parses_numeral:
  assumes "n < 2 ^ 53" "delim r"
  shows "json_value (Suc m) (dec_digits n @ r) = Some (JNum (Num (of_nat n)), r)"
proof -
  obtain c t where ct: "dec_digits n = c # t" using dec_digits_nonempty by (cases "dec_digits n") auto
  then have "is_digit c" using is_digit_dec_digits [of c n] by simp
  then have "\<not> json_ws c" "c \<noteq> 123" "c \<noteq> 91" "c \<noteq> 34" "c \<noteq> 116" "c \<noteq> 102" "c \<noteq> 110"
    by (auto simp: is_digit_def json_ws_def)
  with json_numeral_digits [OF assms] ct show ?thesis by simp
qed

lemma mput_fresh: "k \<notin> fst ` set m \<Longrightarrow> mput k v m = m @ [(k, v)]"
  by (induction m) auto

lemma json_roundtrip:
  "json_wf v \<Longrightarrow> delim r \<Longrightarrow> eventually_parses (\<lambda>n. json_value n (json_print fmt v @ r)) v r"
  "vs \<noteq> [] \<Longrightarrow> \<forall>v\<in>set vs. json_wf v \<Longrightarrow>
     eventually_parses (\<lambda>n. json_elems n acc (json_print_elems fmt vs @ 93 # r)) (JArr (acc @ vs)) r"
  "ps \<noteq> [] \<Longrightarrow> distinct (map fst (acc' @ ps)) \<Longrightarrow> \<forall>p\<in>set ps. json_wf (snd p) \<Longrightarrow>
     eventually_parses (\<lambda>n. json_members n acc' (json_print_members fmt ps @ 125 # r)) (JObj (acc' @ ps)) r"
proof (induction fmt v and fmt vs and fmt ps arbitrary: r and r acc and r acc'
    rule: json_print_json_print_elems_json_print_members.induct)
  case (3 fmt x)
  from "3.prems"(1) obtain n where "x = Num (of_nat n)" "n < 2 ^ 53" by (rule json_wf_NumE)
  with "3.prems"(2) show ?case
    by (intro eventually_parsesI) (simp add: json_number_nat eventually_parses_numeral del: json_value.simps)
next
  case (4 fmt s)
  show ?case by (rule eventually_parsesI) (simp add: json_quote_def json_string_escapes)
next
  case (5 fmt vs)
  show ?case
  proof (cases vs)
    case Nil
    then show ?thesis by (intro eventually_parsesI) simp
  next
    case (Cons v ws)
    then obtain c t where ct: "json_print_elems fmt vs = c # t" "\<not> json_ws c" "c \<noteq> 93"
      using "5.prems"(1) by (cases ws) (auto elim: json_print_first [of v fmt])
    from Cons "5.prems"(1) "5.IH" [of "[]" r] obtain n where
      "\<forall>m\<ge>n. json_elems m [] (json_print_elems fmt vs @ 93 # r) = Some (JArr vs, r)"
      by (auto simp: eventually_parses_def)
    with ct show ?thesis by (intro eventually_parsesI [of n]) simp
  qed
next
  case (6 fmt ps)
  show ?case
  proof (cases ps)
    case Nil
    then show ?thesis by (intro eventually_parsesI) simp
  next
    case (Cons p qs)
    then obtain t where ct: "json_print_members fmt ps = 34 # t"
      by (cases p; cases qs) (auto simp: json_quote_def)
    from Cons "6.prems"(1) "6.IH" [of "[]" r] obtain n where
      "\<forall>m\<ge>n. json_members m [] (json_print_members fmt ps @ 125 # r) = Some (JObj ps, r)"
      by (auto simp: eventually_parses_def)
    with ct show ?thesis by (intro eventually_parsesI [of n]) simp
  qed
next
  case (8 fmt v)
  from "8.IH" [of "93 # r"] "8.prems" obtain n where "\<forall>m\<ge>n. json_value m (json_print fmt v @ 93 # r) = Some (v, 93 # r)"
    by (auto simp: eventually_parses_def delim_def)
  then show ?case by (intro eventually_parsesI [of n]) simp
next
  case (9 fmt v w vs)
  define rest where "rest = json_print_elems fmt (w # vs) @ 93 # r"
  from 9 have "eventually_parses (\<lambda>n. json_value n (json_print fmt v @ 44 # rest)) v (44 # rest)"
    "eventually_parses (\<lambda>n. json_elems n (acc @ [v]) rest) (JArr (acc @ v # w # vs)) r"
    using "9.IH"(2) [of "acc @ [v]" r] by (auto simp: delim_def rest_def)
  then obtain n1 n2 where
    "\<forall>m\<ge>n1. json_value m (json_print fmt v @ 44 # rest) = Some (v, 44 # rest)"
    "\<forall>m\<ge>n2. json_elems m (acc @ [v]) rest = Some (JArr (acc @ v # w # vs), r)"
    by (auto simp: eventually_parses_def)
  then show ?case by (intro eventually_parsesI [of "max n1 n2"]) (simp add: rest_def)
next
  case (11 fmt k v)
  from "11.IH" [of "125 # r"] "11.prems" obtain n where "\<forall>m\<ge>n. json_value m (json_print fmt v @ 125 # r) = Some (v, 125 # r)"
    by (auto simp: eventually_parses_def delim_def)
  moreover have "mput k v acc' = acc' @ [(k, v)]" using 11 by (simp add: mput_fresh)
  ultimately show ?case
    by (intro eventually_parsesI [of n]) (simp add: json_quote_def json_string_escapes)
next
  case (12 fmt k v p ps)
  define rest where "rest = json_print_members fmt (p # ps) @ 125 # r"
  have fresh: "mput k v acc' = acc' @ [(k, v)]" using 12 by (simp add: mput_fresh)
  from 12 have "eventually_parses (\<lambda>n. json_value n (json_print fmt v @ 44 # rest)) v (44 # rest)"
    "eventually_parses (\<lambda>n. json_members n (acc' @ [(k, v)]) rest) (JObj (acc' @ (k, v) # p # ps)) r"
    using "12.IH"(2) [of "acc' @ [(k, v)]" r] by (auto simp: delim_def rest_def)
  then obtain n1 n2 where
    "\<forall>m\<ge>n1. json_value m (json_print fmt v @ 44 # rest) = Some (v, 44 # rest)"
    "\<forall>m\<ge>n2. json_members m (acc' @ [(k, v)]) rest = Some (JObj (acc' @ (k, v) # p # ps), r)"
    by (auto simp: eventually_parses_def)
  then show ?case
    by (intro eventually_parsesI [of "max n1 n2"])
      (simp add: rest_def json_quote_def json_string_escapes fresh)
qed (auto intro!: eventually_parsesI simp: js_literals json_literal_def js_startsWith_def)

lemma JSON_parse_stringify:
  assumes "json_wf v"
  shows "JSON_parse (JSON_stringify fmt v) = Inr v"
proof -
  define s where "s = JSON_stringify fmt v"
  have "eventually_parses (\<lambda>n. json_value n s) v []"
    using json_roundtrip(1) [OF assms, of "[]" fmt] by (simp add: delim_def s_def JSON_stringify_def)
  then obtain n where "\<forall>m\<ge>n. json_value m s = Some (v, [])" by (auto simp: eventually_parses_def)
  then have "json_value (max n (2 * length s + 1)) s = Some (v, [])" by simp
  then have "json_value (2 * length s + 2) s = Some (v, [])"
    using json_value_fuel [of s "max n (2 * length s + 1)"] json_value_fuel [of s "2 * length s + 2"]
    by simp
  then show ?thesis by (simp add: JSON_parse_def flip: s_def)
qed

end
