(* ===== verification/WalletStorage.thy ===== *)
theory WalletStorage
  imports Json
begin

text \<open>
  \<^verbatim>\<open>drana-app/src/wallet/storage.ts\<close>: the wallets kept in \<^verbatim>\<open>localStorage\<close>, as JSON text under string
  keys.  \<open>storage_ok\<close> is the invariant of the two keys; the locale \<open>wallet_store\<close> is what the wallet
  context relies on, and its interpretation shows that the code provides it.  A stored text that is not
  the JSON of a wallet list (it was edited by hand) is read like one that does not parse.
\<close>

section \<open>localStorage\<close>

type_synonym storage = "(jsstring, jsstring) gomap"

abbreviation getItem :: "jsstring \<Rightarrow> storage \<Rightarrow> jsstring option" where
  "getItem k s \<equiv> mget s k"

abbreviation setItem :: "jsstring \<Rightarrow> jsstring \<Rightarrow> storage \<Rightarrow> storage" where
  "setItem \<equiv> mput"

abbreviation removeItem :: "jsstring \<Rightarrow> storage \<Rightarrow> storage" where
  "removeItem \<equiv> mdel"

definition WALLETS_KEY :: jsstring where "WALLETS_KEY = js ''drana_wallets''"
definition ACTIVE_KEY :: jsstring where "ACTIVE_KEY = js ''drana_active_wallet''"
definition LEGACY_KEY :: jsstring where "LEGACY_KEY = js ''drana_wallet''"

section \<open>Stored wallets and their JSON\<close>

text \<open>
  The name is declared a string; it is kept as the value the account query returned, which the reviver
  may have turned into a number.
\<close>

record StoredWallet =
  sw_address :: jsstring
  sw_publicKey :: jsstring
  sw_encryptedKey :: EncryptedKey
  sw_name :: json

definition wallet_ok :: "StoredWallet \<Rightarrow> bool" where
  "wallet_ok w \<longleftrightarrow> sw_address w \<noteq> [] \<and> json_wf (sw_name w)"

definition wallet_json :: "StoredWallet \<Rightarrow> json" where
  "wallet_json w = JObj
     [(js ''address'', JStr (sw_address w)),
      (js ''publicKey'', JStr (sw_publicKey w)),
      (js ''encryptedKey'', JObj
         [(js ''ciphertext'', JStr (ek_ciphertext (sw_encryptedKey w))),
          (js ''salt'', JStr (ek_salt (sw_encryptedKey w))),
          (js ''iv'', JStr (ek_iv (sw_encryptedKey w)))]),
      (js ''name'', sw_name w)]"

definition wallets_json :: "StoredWallet list \<Rightarrow> json" where
  "wallets_json ws = JArr (map wallet_json ws)"

definition str_field :: "string \<Rightarrow> json \<Rightarrow> jsstring option" where
  "str_field k v = (case json_get k v of Some (JStr s) \<Rightarrow> Some s | _ \<Rightarrow> None)"

definition key_of_json :: "json \<Rightarrow> EncryptedKey option" where
  "key_of_json v =
     (case (str_field ''ciphertext'' v, str_field ''salt'' v, str_field ''iv'' v) of
        (Some c, Some s, Some i) \<Rightarrow> Some \<lparr>ek_ciphertext = c, ek_salt = s, ek_iv = i\<rparr>
      | _ \<Rightarrow> None)"

definition wallet_of_json :: "json \<Rightarrow> StoredWallet option" where
  "wallet_of_json v =
     (case (str_field ''address'' v, str_field ''publicKey'' v,
            Option.bind (json_get ''encryptedKey'' v) key_of_json, json_get ''name'' v) of
        (Some a, Some p, Some k, Some n) \<Rightarrow>
          Some \<lparr>sw_address = a, sw_publicKey = p, sw_encryptedKey = k, sw_name = n\<rparr>
      | _ \<Rightarrow> None)"

fun all_some :: "'a option list \<Rightarrow> 'a list option" where
  "all_some [] = Some []"
| "all_some (None # xs) = None"
| "all_some (Some x # xs) = map_option ((#) x) (all_some xs)"

definition wallets_of_json :: "json \<Rightarrow> StoredWallet list option" where
  "wallets_of_json v = (case v of JArr vs \<Rightarrow> all_some (map wallet_of_json vs) | _ \<Rightarrow> None)"

definition wallets_of_text :: "jsstring \<Rightarrow> StoredWallet list" where
  "wallets_of_text raw =
     (case JSON_parse raw of
        Inr v \<Rightarrow> (case wallets_of_json v of Some ws \<Rightarrow> ws | None \<Rightarrow> [])
      | Inl _ \<Rightarrow> [])"

section \<open>Operations\<close>

definition falsy_item :: "jsstring option \<Rightarrow> bool" where
  "falsy_item v \<longleftrightarrow> v = None \<or> v = Some []"

definition migrate :: "(rat \<Rightarrow> jsstring) \<Rightarrow> storage \<Rightarrow> storage" where
  "migrate fmt s =
     (if \<not> falsy_item (getItem WALLETS_KEY s) then s
      else case getItem LEGACY_KEY s of
        None \<Rightarrow> s
      | Some legacy \<Rightarrow>
          if legacy = [] then s
          else case JSON_parse legacy of
            Inl _ \<Rightarrow> s
          | Inr v \<Rightarrow> (case wallet_of_json v of
              None \<Rightarrow> s
            | Some wallet \<Rightarrow>
                removeItem LEGACY_KEY
                  (setItem ACTIVE_KEY (sw_address wallet)
                    (setItem WALLETS_KEY (JSON_stringify fmt (wallets_json [wallet])) s))))"

text \<open>The functions that call \<^verbatim>\<open>migrate\<close> return the storage it leaves beside their result.\<close>

definition loadAllWallets :: "(rat \<Rightarrow> jsstring) \<Rightarrow> storage \<Rightarrow> storage \<times> StoredWallet list" where
  "loadAllWallets fmt s =
     (let s = migrate fmt s in
      case getItem WALLETS_KEY s of
        None \<Rightarrow> (s, [])
      | Some raw \<Rightarrow> (s, if raw = [] then [] else wallets_of_text raw))"

definition find_wallet :: "jsstring \<Rightarrow> StoredWallet list \<Rightarrow> StoredWallet option" where
  "find_wallet addr ws = find (\<lambda>w. sw_address w = addr) ws"

definition loadActiveWallet :: "(rat \<Rightarrow> jsstring) \<Rightarrow> storage \<Rightarrow> storage \<times> StoredWallet option" where
  "loadActiveWallet fmt s =
     (let s = migrate fmt s in
      case getItem ACTIVE_KEY s of
        None \<Rightarrow> (s, None)
      | Some addr \<Rightarrow>
          if addr = [] then (s, None)
          else (let (s, wallets) = loadAllWallets fmt s in
                (s, case find_wallet addr wallets of
                      Some w \<Rightarrow> Some w
                    | None \<Rightarrow> (case wallets of w # _ \<Rightarrow> Some w | [] \<Rightarrow> None))))"

definition setActiveWallet :: "jsstring \<Rightarrow> storage \<Rightarrow> storage" where
  "setActiveWallet address s = setItem ACTIVE_KEY address s"

text \<open>\<^verbatim>\<open>findIndex\<close>, then an assignment at the index or a \<^verbatim>\<open>push\<close>.\<close>

fun upsert :: "StoredWallet \<Rightarrow> StoredWallet list \<Rightarrow> StoredWallet list" where
  "upsert w [] = [w]"
| "upsert w (v # vs) = (if sw_address v = sw_address w then w # vs else v # upsert w vs)"

definition saveWallet :: "(rat \<Rightarrow> jsstring) \<Rightarrow> StoredWallet \<Rightarrow> storage \<Rightarrow> storage" where
  "saveWallet fmt wallet s =
     (let (s, wallets) = loadAllWallets fmt s;
          wallets = upsert wallet wallets;
          s = setItem WALLETS_KEY (JSON_stringify fmt (wallets_json wallets)) s
      in setItem ACTIVE_KEY (sw_address wallet) s)"

definition removeWallet :: "(rat \<Rightarrow> jsstring) \<Rightarrow> jsstring \<Rightarrow> storage \<Rightarrow> storage" where
  "removeWallet fmt address s =
     (let (s, wallets) = loadAllWallets fmt s;
          wallets = filter (\<lambda>w. sw_address w \<noteq> address) wallets;
          s = setItem WALLETS_KEY (JSON_stringify fmt (wallets_json wallets)) s
      in if getItem ACTIVE_KEY s = Some address
         then (case wallets of w # _ \<Rightarrow> setItem ACTIVE_KEY (sw_address w) s | [] \<Rightarrow> removeItem ACTIVE_KEY s)
         else s)"

definition clearWallet :: "storage \<Rightarrow> storage" where
  "clearWallet s = removeItem ACTIVE_KEY (removeItem WALLETS_KEY s)"

section \<open>Facts about the stored text\<close>

lemma keys_distinct [simp]:
  "WALLETS_KEY \<noteq> ACTIVE_KEY" "ACTIVE_KEY \<noteq> WALLETS_KEY" "WALLETS_KEY \<noteq> LEGACY_KEY"
  "LEGACY_KEY \<noteq> WALLETS_KEY" "ACTIVE_KEY \<noteq> LEGACY_KEY" "LEGACY_KEY \<noteq> ACTIVE_KEY"
  by (simp_all add: WALLETS_KEY_def ACTIVE_KEY_def LEGACY_KEY_def js_def)

lemma json_wf_wallet: "wallet_ok w \<Longrightarrow> json_wf (wallet_json w)"
  by (simp add: wallet_json_def wallet_ok_def js_def)

lemma json_wf_wallets: "list_all wallet_ok ws \<Longrightarrow> json_wf (wallets_json ws)"
  by (auto simp: wallets_json_def list_all_iff json_wf_wallet)

lemma wallet_of_json_json [simp]: "wallet_of_json (wallet_json w) = Some w"
  by (simp add: wallet_of_json_def wallet_json_def str_field_def json_get_def key_of_json_def js_def)

lemma all_some_map_Some [simp]: "all_some (map Some xs) = Some xs"
  by (induction xs) auto

lemma wallets_of_text_stringify:
  assumes "list_all wallet_ok ws"
  shows "wallets_of_text (JSON_stringify fmt (wallets_json ws)) = ws"
proof -
  have "map wallet_of_json (map wallet_json ws) = map Some ws" by simp
  then have "wallets_of_json (wallets_json ws) = Some ws"
    by (simp add: wallets_of_json_def wallets_json_def del: map_map)
  then show ?thesis
    by (simp add: wallets_of_text_def JSON_parse_stringify [OF json_wf_wallets [OF assms]])
qed

lemma JSON_stringify_wallets_nonempty [simp]:
  "JSON_stringify fmt (wallets_json ws) \<noteq> []" "[] \<noteq> JSON_stringify fmt (wallets_json ws)"
  by (simp_all add: JSON_stringify_def wallets_json_def)

section \<open>The invariant\<close>

text \<open>
  What the keys hold: nothing in a fresh browser; afterwards the JSON of a list of wallets with
  different addresses, and under the active key the address of one of them, if there is one.
\<close>

definition stored_as :: "(rat \<Rightarrow> jsstring) \<Rightarrow> StoredWallet list \<Rightarrow> storage \<Rightarrow> bool" where
  "stored_as fmt ws s \<longleftrightarrow> mok s \<and> list_all wallet_ok ws
     \<and> (getItem WALLETS_KEY s = Some (JSON_stringify fmt (wallets_json ws))
        \<or> ws = [] \<and> getItem WALLETS_KEY s = None \<and> getItem LEGACY_KEY s = None)"

definition storage_ok :: "(rat \<Rightarrow> jsstring) \<Rightarrow> storage \<Rightarrow> bool" where
  "storage_ok fmt s \<longleftrightarrow> (let ws = snd (loadAllWallets fmt s) in
     stored_as fmt ws s \<and> distinct (map sw_address ws)
     \<and> (case getItem ACTIVE_KEY s of None \<Rightarrow> ws = [] | Some a \<Rightarrow> a \<in> sw_address ` set ws))"

lemma migrate_stored_as: "stored_as fmt ws s \<Longrightarrow> migrate fmt s = s"
  by (auto simp: stored_as_def migrate_def falsy_item_def)

lemma loadAllWallets_stored_as: "stored_as fmt ws s \<Longrightarrow> loadAllWallets fmt s = (s, ws)"
  using migrate_stored_as [of fmt ws s]
  by (auto simp: stored_as_def loadAllWallets_def wallets_of_text_stringify)

lemma storage_ok_iff:
  "storage_ok fmt s \<longleftrightarrow> (\<exists>ws. stored_as fmt ws s \<and> distinct (map sw_address ws)
     \<and> (case getItem ACTIVE_KEY s of None \<Rightarrow> ws = [] | Some a \<Rightarrow> a \<in> sw_address ` set ws))"
  (is "_ \<longleftrightarrow> (\<exists>ws. ?ok ws)")
proof
  assume "storage_ok fmt s"
  then show "\<exists>ws. ?ok ws" by (auto simp: storage_ok_def Let_def)
next
  assume "\<exists>ws. ?ok ws"
  then obtain ws where ok: "?ok ws" by blast
  then have "loadAllWallets fmt s = (s, ws)" by (blast dest: loadAllWallets_stored_as)
  with ok show "storage_ok fmt s" by (simp add: storage_ok_def)
qed

lemma storage_okE:
  assumes "storage_ok fmt s"
  obtains ws where "stored_as fmt ws s" "loadAllWallets fmt s = (s, ws)" "distinct (map sw_address ws)"
    "case getItem ACTIVE_KEY s of None \<Rightarrow> ws = [] | Some a \<Rightarrow> a \<in> sw_address ` set ws"
  using assms unfolding storage_ok_iff by (blast dest: loadAllWallets_stored_as)

lemma loadAllWallets_same [simp]: "storage_ok fmt s \<Longrightarrow> fst (loadAllWallets fmt s) = s"
  by (erule storage_okE) simp

lemma upsert_addresses:
  "sw_address ` set (upsert w ws) = insert (sw_address w) (sw_address ` set ws)"
  by (induction ws) auto

lemma distinct_upsert:
  "distinct (map sw_address ws) \<Longrightarrow> distinct (map sw_address (upsert w ws))"
  using upsert_addresses by (induction ws) auto

lemma upsert_members:
  "distinct (map sw_address ws) \<Longrightarrow>
     v \<in> set (upsert w ws) \<longleftrightarrow> v = w \<or> (v \<in> set ws \<and> sw_address v \<noteq> sw_address w)"
  by (induction ws) (auto simp: rev_image_eqI)

lemma loadAllWallets_saveWallet:
  assumes "stored_as fmt ws s" "wallet_ok w"
  shows "stored_as fmt (upsert w ws) (saveWallet fmt w s)"
proof -
  have "list_all wallet_ok vs \<Longrightarrow> list_all wallet_ok (upsert w vs)" for vs
    using assms(2) by (induction vs) auto
  with assms loadAllWallets_stored_as [OF assms(1)] show ?thesis
    by (simp add: saveWallet_def stored_as_def)
qed

lemma storage_ok_saveWallet:
  assumes "storage_ok fmt s" "wallet_ok w"
  shows "storage_ok fmt (saveWallet fmt w s)"
proof -
  obtain ws where ws: "stored_as fmt ws s" "loadAllWallets fmt s = (s, ws)"
    "distinct (map sw_address ws)"
    using assms(1) by (rule storage_okE)
  have "stored_as fmt (upsert w ws) (saveWallet fmt w s)"
    using loadAllWallets_saveWallet [OF ws(1) assms(2)] .
  moreover have "getItem ACTIVE_KEY (saveWallet fmt w s) = Some (sw_address w)"
    using ws(2) by (simp add: saveWallet_def)
  ultimately show ?thesis
    using ws assms(2) unfolding storage_ok_iff
    by (intro exI [of _ "upsert w ws"])
      (auto simp: distinct_upsert upsert_addresses upsert_members)
qed

lemma storage_ok_removeWallet:
  assumes "storage_ok fmt s"
  shows "storage_ok fmt (removeWallet fmt a s)"
proof -
  obtain ws where ws: "stored_as fmt ws s" "loadAllWallets fmt s = (s, ws)"
    "distinct (map sw_address ws)"
    "case getItem ACTIVE_KEY s of None \<Rightarrow> ws = [] | Some a \<Rightarrow> a \<in> sw_address ` set ws"
    using assms by (rule storage_okE)
  define rest where "rest = filter (\<lambda>w. sw_address w \<noteq> a) ws"
  have "stored_as fmt rest (removeWallet fmt a s)"
    using ws(1,2)
    by (auto simp: removeWallet_def stored_as_def Let_def list_all_iff rest_def split: list.splits)
  moreover have "distinct (map sw_address rest)"
    using ws by (auto simp: rest_def distinct_map_filter)
  moreover have "case getItem ACTIVE_KEY (removeWallet fmt a s) of None \<Rightarrow> rest = []
      | Some b \<Rightarrow> b \<in> sw_address ` set rest"
  proof (cases "getItem ACTIVE_KEY s = Some a")
    case True
    then show ?thesis using ws(2)
      by (auto simp: removeWallet_def Let_def rest_def [symmetric] split: list.splits)
  next
    case False
    then have "getItem ACTIVE_KEY (removeWallet fmt a s) = getItem ACTIVE_KEY s"
      using ws(2) by (simp add: removeWallet_def)
    with False ws(4) show ?thesis by (auto simp: rest_def split: option.splits)
  qed
  ultimately show ?thesis unfolding storage_ok_iff by blast
qed

lemma storage_ok_setActiveWallet:
  assumes "storage_ok fmt s" "a \<in> sw_address ` set (snd (loadAllWallets fmt s))"
  shows "storage_ok fmt (setActiveWallet a s)"
  using assms(1)
proof (rule storage_okE)
  fix ws
  assume ws: "stored_as fmt ws s" "loadAllWallets fmt s = (s, ws)" "distinct (map sw_address ws)"
  then have "stored_as fmt ws (setActiveWallet a s)" by (simp add: stored_as_def setActiveWallet_def)
  with ws assms(2) show ?thesis
    unfolding storage_ok_iff by (intro exI [of _ ws]) (simp add: setActiveWallet_def)
qed

lemma find_wallet_distinct:
  "w \<in> set ws \<Longrightarrow> distinct (map sw_address ws) \<Longrightarrow> find_wallet (sw_address w) ws = Some w"
  by (induction ws) (auto simp: find_wallet_def image_iff)

lemma loadActive_of_list:
  assumes "stored_as fmt ws s" "getItem ACTIVE_KEY s = Some (sw_address w)" "w \<in> set ws"
    "distinct (map sw_address ws)"
  shows "loadActiveWallet fmt s = (s, Some w)"
proof -
  have "find_wallet (sw_address w) ws = Some w"
    using assms(3,4) by (rule find_wallet_distinct)
  moreover have "sw_address w \<noteq> []" using assms(1,3) by (auto simp: stored_as_def list_all_iff wallet_ok_def)
  ultimately show ?thesis
    using assms loadAllWallets_stored_as [OF assms(1)] migrate_stored_as [OF assms(1)]
    by (simp add: loadActiveWallet_def)
qed

section \<open>The interface of the wallet context\<close>

text \<open>
  What \<^verbatim>\<open>WalletContext\<close> relies on: the list of wallets, the active one, and the operations that change
  them.  The laws say what is read after each operation.
\<close>

locale wallet_store =
  fixes ok :: "'s \<Rightarrow> bool"
    and wallets :: "'s \<Rightarrow> StoredWallet list"
    and active :: "'s \<Rightarrow> StoredWallet option"
    and save :: "StoredWallet \<Rightarrow> 's \<Rightarrow> 's"
    and remove :: "jsstring \<Rightarrow> 's \<Rightarrow> 's"
    and activate :: "jsstring \<Rightarrow> 's \<Rightarrow> 's"
  assumes distinct_wallets: "ok s \<Longrightarrow> distinct (map sw_address (wallets s))"
    and active_member: "ok s \<Longrightarrow> active s = None \<longleftrightarrow> wallets s = []"
      "ok s \<Longrightarrow> active s = Some w \<Longrightarrow> w \<in> set (wallets s)"
    and ok_save: "ok s \<Longrightarrow> wallet_ok w \<Longrightarrow> ok (save w s)"
    and ok_remove: "ok s \<Longrightarrow> ok (remove a s)"
    and ok_activate: "ok s \<Longrightarrow> a \<in> sw_address ` set (wallets s) \<Longrightarrow> ok (activate a s)"
    and wallets_save: "ok s \<Longrightarrow> wallet_ok w \<Longrightarrow> wallets (save w s) = upsert w (wallets s)"
    and wallets_remove: "ok s \<Longrightarrow> wallets (remove a s) = filter (\<lambda>w. sw_address w \<noteq> a) (wallets s)"
    and wallets_activate: "ok s \<Longrightarrow> wallets (activate a s) = wallets s"
    and active_save: "ok s \<Longrightarrow> wallet_ok w \<Longrightarrow> active (save w s) = Some w"
    and active_remove: "ok s \<Longrightarrow> active (remove a s) =
      (if map_option sw_address (active s) = Some a
       then (case wallets (remove a s) of w # _ \<Rightarrow> Some w | [] \<Rightarrow> None) else active s)"
    and active_activate: "ok s \<Longrightarrow> w \<in> set (wallets s) \<Longrightarrow> active (activate (sw_address w) s) = Some w"
begin

lemma saved_is_found:
  assumes "ok s" "wallet_ok w"
  shows "find_wallet (sw_address w) (wallets (save w s)) = Some w"
proof -
  have "find_wallet (sw_address w) (upsert w ws) = Some w" for ws
    by (induction ws) (auto simp: find_wallet_def)
  then show ?thesis by (simp add: wallets_save assms)
qed

lemma save_keeps_others:
  assumes "ok s" "wallet_ok w" "v \<in> set (wallets s)" "sw_address v \<noteq> sw_address w"
  shows "v \<in> set (wallets (save w s))"
  using assms by (simp add: wallets_save upsert_members distinct_wallets)

lemma removed_is_gone: "ok s \<Longrightarrow> a \<notin> sw_address ` set (wallets (remove a s))"
  by (auto simp: wallets_remove)

lemma active_after_remove:
  assumes "ok s" "wallets s \<noteq> []" "\<exists>v\<in>set (wallets s). sw_address v \<noteq> a"
  shows "\<exists>w. active (remove a s) = Some w \<and> sw_address w \<noteq> a \<and> w \<in> set (wallets s)"
proof -
  have "wallets (remove a s) \<noteq> []" using assms by (auto simp: wallets_remove filter_empty_conv)
  then obtain w where "active (remove a s) = Some w"
    using active_member(1) [OF ok_remove [OF assms(1)]] by auto
  with active_member(2) [OF ok_remove [OF assms(1)]] show ?thesis
    by (auto simp: wallets_remove [OF assms(1)])
qed

end

lemma loadActive_ok:
  assumes "storage_ok fmt s"
  shows "case snd (loadActiveWallet fmt s) of None \<Rightarrow> snd (loadAllWallets fmt s) = []
    | Some w \<Rightarrow> w \<in> set (snd (loadAllWallets fmt s)) \<and> getItem ACTIVE_KEY s = Some (sw_address w)"
  using assms
proof (rule storage_okE)
  fix ws
  assume ws: "stored_as fmt ws s" "loadAllWallets fmt s = (s, ws)" "distinct (map sw_address ws)"
    "case getItem ACTIVE_KEY s of None \<Rightarrow> ws = [] | Some a \<Rightarrow> a \<in> sw_address ` set ws"
  show ?thesis
  proof (cases "getItem ACTIVE_KEY s")
    case None
    with ws migrate_stored_as [OF ws(1)] show ?thesis by (simp add: loadActiveWallet_def)
  next
    case (Some a)
    then obtain w where "w \<in> set ws" "a = sw_address w" using ws(4) by auto
    with Some ws loadActive_of_list [of fmt ws s w] show ?thesis by simp
  qed
qed

lemma loadActive_removeWallet:
  assumes "storage_ok fmt s"
  shows "snd (loadActiveWallet fmt (removeWallet fmt a s)) =
    (if map_option sw_address (snd (loadActiveWallet fmt s)) = Some a
     then (case snd (loadAllWallets fmt (removeWallet fmt a s)) of w # _ \<Rightarrow> Some w | [] \<Rightarrow> None)
     else snd (loadActiveWallet fmt s))"
proof -
  define t where "t = removeWallet fmt a s"
  obtain ws where ws: "stored_as fmt ws s" "loadAllWallets fmt s = (s, ws)" "distinct (map sw_address ws)"
    using assms by (rule storage_okE)
  obtain vs where vs: "stored_as fmt vs t" "loadAllWallets fmt t = (t, vs)" "distinct (map sw_address vs)"
    using storage_ok_removeWallet [OF assms] unfolding t_def by (rule storage_okE)
  have rest: "vs = filter (\<lambda>w. sw_address w \<noteq> a) ws"
  proof -
    have "stored_as fmt (filter (\<lambda>w. sw_address w \<noteq> a) ws) t" using ws(1,2)
      by (auto simp: removeWallet_def stored_as_def Let_def list_all_iff t_def split: list.splits)
    from loadAllWallets_stored_as [OF this] vs(2) show ?thesis by simp
  qed
  have key: "getItem ACTIVE_KEY t = (if getItem ACTIVE_KEY s = Some a
      then (case vs of w # _ \<Rightarrow> Some (sw_address w) | [] \<Rightarrow> None) else getItem ACTIVE_KEY s)"
    using ws(2) by (auto simp: removeWallet_def Let_def t_def rest split: list.splits)
  note s_active = loadActive_ok [OF assms]
  note t_active = loadActive_ok [OF storage_ok_removeWallet [OF assms, of a], folded t_def]
  show ?thesis
  proof (cases "snd (loadActiveWallet fmt s)")
    case None
    then have "vs = []" using s_active ws(2) rest by simp
    with None t_active vs show ?thesis by (auto simp flip: t_def split: option.splits)
  next
    case (Some w)
    then have w: "w \<in> set ws" "getItem ACTIVE_KEY s = Some (sw_address w)" using s_active ws(2) by auto
    show ?thesis
    proof (cases "sw_address w = a")
      case True
      with w key have k: "getItem ACTIVE_KEY t = (case vs of w # _ \<Rightarrow> Some (sw_address w) | [] \<Rightarrow> None)"
        by simp
      have "snd (loadActiveWallet fmt t) = (case vs of w # _ \<Rightarrow> Some w | [] \<Rightarrow> None)"
      proof (cases vs)
        case Nil
        with t_active vs(2) show ?thesis by (auto split: option.splits)
      next
        case (Cons v _)
        with k loadActive_of_list [OF vs(1) _ _ vs(3), of v] show ?thesis by simp
      qed
      with True Some vs(2) show ?thesis by (simp flip: t_def)
    next
      case False
      with w key rest loadActive_of_list [OF vs(1) _ _ vs(3), of w] Some show ?thesis
        by (simp flip: t_def)
    qed
  qed
qed

interpretation ls: wallet_store "storage_ok fmt" "\<lambda>s. snd (loadAllWallets fmt s)"
  "\<lambda>s. snd (loadActiveWallet fmt s)" "saveWallet fmt" "removeWallet fmt" setActiveWallet
proof unfold_locales
  fix s w a
  assume ok: "storage_ok fmt s"
  obtain ws where ws: "stored_as fmt ws s" "loadAllWallets fmt s = (s, ws)"
    "distinct (map sw_address ws)"
    "case getItem ACTIVE_KEY s of None \<Rightarrow> ws = [] | Some a \<Rightarrow> a \<in> sw_address ` set ws"
    using ok by (rule storage_okE)
  show "distinct (map sw_address (snd (loadAllWallets fmt s)))" using ws by simp
  show "(snd (loadActiveWallet fmt s) = None) = (snd (loadAllWallets fmt s) = [])"
    using loadActive_ok [OF ok] ws by (auto split: option.splits)
  show "w \<in> set (snd (loadAllWallets fmt s))" if "snd (loadActiveWallet fmt s) = Some w"
    using loadActive_ok [OF ok] that by simp
  note saved = loadAllWallets_saveWallet [OF ws(1)]
  show "snd (loadAllWallets fmt (saveWallet fmt w s)) = upsert w (snd (loadAllWallets fmt s))"
    if "wallet_ok w"
    using loadAllWallets_stored_as [OF saved [OF that]] ws by simp
  have removed: "stored_as fmt (filter (\<lambda>w. sw_address w \<noteq> a) ws) (removeWallet fmt a s)"
    using ws(1,2)
    by (auto simp: removeWallet_def stored_as_def Let_def list_all_iff split: list.splits)
  then show "snd (loadAllWallets fmt (removeWallet fmt a s))
      = filter (\<lambda>w. sw_address w \<noteq> a) (snd (loadAllWallets fmt s))"
    using loadAllWallets_stored_as [OF removed] ws by simp
  have act: "stored_as fmt ws (setActiveWallet b s)" for b
    using ws(1) by (simp add: stored_as_def setActiveWallet_def)
  show "snd (loadAllWallets fmt (setActiveWallet a s)) = snd (loadAllWallets fmt s)"
    using loadAllWallets_stored_as [OF act] ws by simp
  show "snd (loadActiveWallet fmt (saveWallet fmt w s)) = Some w" if "wallet_ok w"
  proof -
    have "getItem ACTIVE_KEY (saveWallet fmt w s) = Some (sw_address w)"
      using ws(2) by (simp add: saveWallet_def)
    from loadActive_of_list [OF saved [OF that] this _ distinct_upsert [OF ws(3)]] show ?thesis
      using ws(3) by (simp add: upsert_members)
  qed
  show "snd (loadActiveWallet fmt (setActiveWallet (sw_address w) s)) = Some w"
    if "w \<in> set (snd (loadAllWallets fmt s))"
    using loadActive_of_list [OF act, of "sw_address w" w] that ws by (simp add: setActiveWallet_def)
qed (simp_all add: storage_ok_saveWallet storage_ok_removeWallet storage_ok_setActiveWallet
    loadActive_removeWallet)

text \<open>The legacy key: one wallet under \<^verbatim>\<open>drana_wallet\<close> becomes a list of one, and the active one.\<close>

lemma migrate_legacy:
  assumes "mok s" "falsy_item (getItem WALLETS_KEY s)"
    and "getItem LEGACY_KEY s = Some (JSON_stringify fmt (wallet_json w))" "wallet_ok w"
  shows "storage_ok fmt (migrate fmt s) \<and> snd (loadAllWallets fmt (migrate fmt s)) = [w]
    \<and> getItem LEGACY_KEY (migrate fmt s) = None"
proof -
  have wf: "json_wf (wallet_json w)" using assms(4) by (rule json_wf_wallet)
  have ne: "JSON_stringify fmt (wallet_json w) \<noteq> []" by (simp add: JSON_stringify_def wallet_json_def)
  define s' where "s' = migrate fmt s"
  have s': "s' = removeItem LEGACY_KEY (setItem ACTIVE_KEY (sw_address w)
      (setItem WALLETS_KEY (JSON_stringify fmt (wallets_json [w])) s))"
    using assms(2,3) ne by (simp add: s'_def migrate_def JSON_parse_stringify [OF wf])
  then have st: "stored_as fmt [w] s'" and a: "getItem ACTIVE_KEY s' = Some (sw_address w)"
    and l: "getItem LEGACY_KEY s' = None"
    using assms(1,4) by (simp_all add: stored_as_def)
  have "storage_ok fmt s'"
    unfolding storage_ok_iff using st a assms(4) by (intro exI [of _ "[w]"]) simp
  then show ?thesis using l loadAllWallets_stored_as [OF st] by (simp flip: s'_def)
qed

end
