(* ===== verification/Api.thy ===== *)
theory Api
  imports Json
begin

text \<open>
  \<^verbatim>\<open>drana-app/src/api\<close>: the base addresses, the reviver that turns digit strings back into numbers,
  the \<^verbatim>\<open>GET\<close> helper of the two clients, the request paths, and the submission of a transaction.
  \<^verbatim>\<open>fetch\<close> is a parameter: a function from the address to what the promise resolves to (or the error it
  rejects with), so that one call of the model is one request against one state of the server.
\<close>

section \<open>JavaScript values\<close>

fun json_truthy :: "json \<Rightarrow> bool" where
  "json_truthy JNull = False"
| "json_truthy (JBool b) = b"
| "json_truthy (JNum x) = js_truthy x"
| "json_truthy (JStr s) = (s \<noteq> [])"
| "json_truthy _ = True"

fun js_join :: "jsstring \<Rightarrow> jsstring list \<Rightarrow> jsstring" where
  "js_join sep [] = []"
| "js_join sep [s] = s"
| "js_join sep (s # t # ts) = s @ sep @ js_join sep (t # ts)"

text \<open>\<^verbatim>\<open>String(v)\<close>; inside an array \<^verbatim>\<open>null\<close> prints as nothing.\<close>

fun json_toString :: "(rat \<Rightarrow> jsstring) \<Rightarrow> json \<Rightarrow> jsstring" where
  "json_toString fmt JNull = js ''null''"
| "json_toString fmt (JBool b) = (if b then js ''true'' else js ''false'')"
| "json_toString fmt (JNum x) = js_String fmt x"
| "json_toString fmt (JStr s) = s"
| "json_toString fmt (JArr vs) =
     js_join (js '','') (map (\<lambda>v. if v = JNull then [] else json_toString fmt v) vs)"
| "json_toString fmt (JObj ps) = js ''[object Object]''"

section \<open>config.ts\<close>

definition env_or :: "jsstring option \<Rightarrow> jsstring \<Rightarrow> jsstring" where
  "env_or v d = (case v of Some s \<Rightarrow> if s \<noteq> [] then s else d | None \<Rightarrow> d)"

definition NODE_RPC :: "jsstring option \<Rightarrow> jsstring" where
  "NODE_RPC VITE_NODE_RPC = env_or VITE_NODE_RPC (js ''/api/node'')"

definition INDEXER_API :: "jsstring option \<Rightarrow> jsstring" where
  "INDEXER_API VITE_INDEXER_API = env_or VITE_INDEXER_API (js ''/api/indexer'')"

section \<open>numericReviver.ts\<close>

definition numericReviver :: "jsstring \<Rightarrow> json \<Rightarrow> json" where
  "numericReviver key value =
     (case value of
        JStr s \<Rightarrow>
          if s \<noteq> [] \<and> list_all is_digit s \<and> length s > 0 \<and> length s \<le> 20
          then (let n = js_Number_digits s in if isSafeInteger n then JNum n else value)
          else value
      | _ \<Rightarrow> value)"

text \<open>\<^verbatim>\<open>JSON.parse(text, reviver)\<close>: the reviver sees every value after the values inside it.\<close>

fun json_revive :: "(jsstring \<Rightarrow> json \<Rightarrow> json) \<Rightarrow> jsstring \<Rightarrow> json \<Rightarrow> json"
  and json_revive_elems :: "(jsstring \<Rightarrow> json \<Rightarrow> json) \<Rightarrow> nat \<Rightarrow> json list \<Rightarrow> json list"
  and json_revive_members ::
    "(jsstring \<Rightarrow> json \<Rightarrow> json) \<Rightarrow> (jsstring \<times> json) list \<Rightarrow> (jsstring \<times> json) list" where
  "json_revive f k (JArr vs) = f k (JArr (json_revive_elems f 0 vs))"
| "json_revive f k (JObj ps) = f k (JObj (json_revive_members f ps))"
| "json_revive f k v = f k v"
| "json_revive_elems f i [] = []"
| "json_revive_elems f i (v # vs) = json_revive f (dec_digits i) v # json_revive_elems f (Suc i) vs"
| "json_revive_members f [] = []"
| "json_revive_members f ((k, v) # ps) = (k, json_revive f k v) # json_revive_members f ps"

definition JSON_parse_revive :: "jsstring \<Rightarrow> (js_error, json) result" where
  "JSON_parse_revive text = bindR (JSON_parse text) (\<lambda>v. Inr (json_revive numericReviver [] v))"

section \<open>The GET helper of nodeRpc.ts and indexerApi.ts\<close>

text \<open>A response: \<^verbatim>\<open>res.ok\<close>, \<^verbatim>\<open>res.status\<close>, and what \<^verbatim>\<open>res.text()\<close> resolves to.\<close>

record Response =
  res_ok :: bool
  res_status :: nat
  res_text :: "(js_error, jsstring) result"

type_synonym fetch = "jsstring \<Rightarrow> (js_error, Response) result"

definition error_message :: "(rat \<Rightarrow> jsstring) \<Rightarrow> Response \<Rightarrow> jsstring" where
  "error_message fmt res =
     (let text = (case res_text res of Inr t \<Rightarrow> t | Inl _ \<Rightarrow> []);
          msg = js ''HTTP '' @ dec_digits (res_status res)
      in case JSON_parse text of
           Inr v \<Rightarrow> (case json_get ''error'' v of
                      Some e \<Rightarrow> if json_truthy e then json_toString fmt e else msg
                    | None \<Rightarrow> msg)
         | Inl _ \<Rightarrow> msg)"

definition http_get :: "(rat \<Rightarrow> jsstring) \<Rightarrow> jsstring \<Rightarrow> fetch \<Rightarrow> jsstring \<Rightarrow> (js_error, json) result" where
  "http_get fmt base fetch path =
     bindR (fetch (base @ path)) (\<lambda>res.
       if \<not> res_ok res then Inl (ServerError (error_message fmt res))
       else bindR (res_text res) JSON_parse_revive)"

definition node_get :: "(rat \<Rightarrow> jsstring) \<Rightarrow> jsstring option \<Rightarrow> fetch \<Rightarrow> jsstring \<Rightarrow> (js_error, json) result" where
  "node_get fmt env fetch path = http_get fmt (NODE_RPC env) fetch path"

definition indexer_get :: "(rat \<Rightarrow> jsstring) \<Rightarrow> jsstring option \<Rightarrow> fetch \<Rightarrow> jsstring \<Rightarrow> (js_error, json) result" where
  "indexer_get fmt env fetch path = http_get fmt (INDEXER_API env) fetch path"

section \<open>Query strings\<close>

text \<open>\<^verbatim>\<open>URLSearchParams\<close>: \<^verbatim>\<open>set\<close> on a fresh name appends; printing percent-encodes the UTF-8 bytes.\<close>

definition form_safe :: "byte \<Rightarrow> bool" where
  "form_safe b \<longleftrightarrow> (let n = unat b in (48 \<le> n \<and> n \<le> 57) \<or> (65 \<le> n \<and> n \<le> 90) \<or> (97 \<le> n \<and> n \<le> 122)
     \<or> n = 42 \<or> n = 45 \<or> n = 46 \<or> n = 95)"

definition upper_hex :: "nat \<Rightarrow> u16" where
  "upper_hex n = of_nat (if n < 10 then 48 + n else 55 + n)"

definition form_byte :: "byte \<Rightarrow> jsstring" where
  "form_byte b =
     (if form_safe b then [of_nat (unat b)] else if b = 32 then [43]
      else [37, upper_hex (unat b div 16), upper_hex (unat b mod 16)])"

definition form_encode :: "jsstring \<Rightarrow> jsstring" where
  "form_encode s = concat (map form_byte (TextEncoder_encode s))"

type_synonym query = "(jsstring, jsstring) gomap"

definition query_set :: "string \<Rightarrow> jsstring \<Rightarrow> query \<Rightarrow> query" where
  "query_set k v q = mput (js k) v q"

definition query_toString :: "query \<Rightarrow> jsstring" where
  "query_toString q = js_join (js ''&'') (map (\<lambda>(k, v). form_encode k @ js ''='' @ form_encode v) q)"

section \<open>indexerApi.ts\<close>

record FeedParams =
  fp_strategy :: "jsstring option"
  fp_channel :: "jsstring option"
  fp_page :: "jsnum option"
  fp_pageSize :: "jsnum option"

text \<open>\<^verbatim>\<open>if (params.x)\<close> for an optional string, and \<^verbatim>\<open>params.n || d\<close> for an optional number.\<close>

definition set_if :: "string \<Rightarrow> jsstring option \<Rightarrow> query \<Rightarrow> query" where
  "set_if k v q = (case v of Some s \<Rightarrow> if s \<noteq> [] then query_set k s q else q | None \<Rightarrow> q)"

definition num_or :: "jsnum option \<Rightarrow> nat \<Rightarrow> jsnum" where
  "num_or x d = (case x of Some n \<Rightarrow> if js_truthy n then n else Num (of_nat d) | None \<Rightarrow> Num (of_nat d))"

definition getFeed_path :: "(rat \<Rightarrow> jsstring) \<Rightarrow> FeedParams \<Rightarrow> jsstring" where
  "getFeed_path fmt params =
     (let q = [];
          q = set_if ''strategy'' (fp_strategy params) q;
          q = set_if ''channel'' (fp_channel params) q;
          q = query_set ''page'' (js_String fmt (num_or (fp_page params) 1)) q;
          q = query_set ''pageSize'' (js_String fmt (num_or (fp_pageSize params) 20)) q
      in js ''/v1/feed?'' @ query_toString q)"

definition getFeedByAuthor_path ::
    "(rat \<Rightarrow> jsstring) \<Rightarrow> jsstring \<Rightarrow> jsstring option \<Rightarrow> jsnum option \<Rightarrow> jsstring" where
  "getFeedByAuthor_path fmt address strategy page =
     (let q = set_if ''strategy'' strategy [];
          q = (case page of Some n \<Rightarrow> if js_truthy n then query_set ''page'' (js_String fmt n) q else q
               | None \<Rightarrow> q)
      in js ''/v1/feed/author/'' @ address @ js ''?'' @ query_toString q)"

definition getChannels_path :: jsstring where "getChannels_path = js ''/v1/channels''"
definition getPost_path :: "jsstring \<Rightarrow> jsstring" where "getPost_path i = js ''/v1/posts/'' @ i"

definition getPostBoosts_path :: "(rat \<Rightarrow> jsstring) \<Rightarrow> jsstring \<Rightarrow> jsnum \<Rightarrow> jsstring" where
  "getPostBoosts_path fmt i page = js ''/v1/posts/'' @ i @ js ''/boosts?page='' @ js_String fmt page"

definition getPostReplies_path :: "(rat \<Rightarrow> jsstring) \<Rightarrow> jsstring \<Rightarrow> jsnum \<Rightarrow> jsstring" where
  "getPostReplies_path fmt i page = js ''/v1/posts/'' @ i @ js ''/replies?page='' @ js_String fmt page"

definition getAuthorProfile_path :: "jsstring \<Rightarrow> jsstring" where
  "getAuthorProfile_path addr = js ''/v1/authors/'' @ addr"

definition getStats_path :: jsstring where "getStats_path = js ''/v1/stats''"

definition getRewards_path :: "(rat \<Rightarrow> jsstring) \<Rightarrow> jsstring \<Rightarrow> jsnum \<Rightarrow> jsnum \<Rightarrow> jsstring" where
  "getRewards_path fmt address sinceHeight page =
     js ''/v1/rewards/'' @ address @ js ''?since='' @ js_String fmt sinceHeight
     @ js ''&page='' @ js_String fmt page"

definition getRewardSummary_path :: "jsstring \<Rightarrow> jsstring" where
  "getRewardSummary_path address = js ''/v1/rewards/'' @ address @ js ''/summary''"

definition getLeaderboard_path :: "(rat \<Rightarrow> jsstring) \<Rightarrow> jsnum \<Rightarrow> jsstring" where
  "getLeaderboard_path fmt page = js ''/v1/leaderboard?page='' @ js_String fmt page"

definition getRewardsForPost_path :: "jsstring \<Rightarrow> jsstring \<Rightarrow> jsstring" where
  "getRewardsForPost_path address postId = js ''/v1/rewards/'' @ address @ js ''/post/'' @ postId"

section \<open>nodeRpc.ts\<close>

definition getNodeInfo_path :: jsstring where "getNodeInfo_path = js ''/v1/node/info''"
definition getAccount_path :: "jsstring \<Rightarrow> jsstring" where "getAccount_path addr = js ''/v1/accounts/'' @ addr"

definition getAccountByName_path :: "jsstring \<Rightarrow> jsstring" where
  "getAccountByName_path name = js ''/v1/accounts/name/'' @ name"

definition getUnbonding_path :: "jsstring \<Rightarrow> jsstring" where
  "getUnbonding_path addr = js ''/v1/accounts/'' @ addr @ js ''/unbonding''"

definition getValidators_path :: jsstring where "getValidators_path = js ''/v1/network/validators''"

definition getTxStatus_path :: "jsstring \<Rightarrow> jsstring" where
  "getTxStatus_path hash = js ''/v1/transactions/'' @ hash @ js ''/status''"

definition getMempoolPending_path :: "jsstring option \<Rightarrow> jsstring" where
  "getMempoolPending_path sender =
     js ''/v1/mempool/pending''
     @ (case sender of Some s \<Rightarrow> if s \<noteq> [] then js ''?sender='' @ s else [] | None \<Rightarrow> [])"

definition getMyPostStakes_path :: "jsstring \<Rightarrow> jsstring" where
  "getMyPostStakes_path addr = js ''/v1/accounts/'' @ addr @ js ''/post-stakes''"

definition getPostStakers_path :: "jsstring \<Rightarrow> jsstring" where
  "getPostStakers_path postId = js ''/v1/posts/'' @ postId @ js ''/stakers''"

section \<open>Typed responses and requests (types.ts)\<close>

text \<open>
  \<^verbatim>\<open>Account\<close>.  The numeric fields are declared \<^verbatim>\<open>number\<close>; a response in which one of them is something else
  (a value above \<^verbatim>\<open>MAX_SAFE_INTEGER\<close> stays a string) is outside the declared type and is not decoded.
  The name keeps the value the reviver returned for it.
\<close>

record JsAccount =
  ja_address :: json
  ja_balance :: jsnum
  ja_nonce :: jsnum
  ja_name :: "json option"
  ja_stakedBalance :: jsnum
  ja_postStakeBalance :: jsnum

definition json_num :: "string \<Rightarrow> json \<Rightarrow> jsnum option" where
  "json_num k v = (case json_get k v of Some (JNum x) \<Rightarrow> Some x | _ \<Rightarrow> None)"

definition account_of_json :: "json \<Rightarrow> JsAccount option" where
  "account_of_json v =
     (case (json_get ''address'' v, json_num ''balance'' v, json_num ''nonce'' v,
            json_num ''stakedBalance'' v, json_num ''postStakeBalance'' v) of
        (Some a, Some b, Some n, Some st, Some p) \<Rightarrow>
          Some \<lparr>ja_address = a, ja_balance = b, ja_nonce = n, ja_name = json_get ''name'' v,
                ja_stakedBalance = st, ja_postStakeBalance = p\<rparr>
      | _ \<Rightarrow> None)"

record JsSubmitTxRequest =
  jr_type :: jsstring
  jr_sender :: jsstring
  jr_recipient :: "jsstring option"
  jr_postId :: "jsstring option"
  jr_text :: "jsstring option"
  jr_channel :: "jsstring option"
  jr_amount :: jsstring
  jr_nonce :: jsstring
  jr_signature :: jsstring
  jr_pubKey :: jsstring

text \<open>The object passed to \<^verbatim>\<open>JSON.stringify\<close>: a property that is \<^verbatim>\<open>undefined\<close> is not printed.\<close>

definition opt_member :: "string \<Rightarrow> jsstring option \<Rightarrow> (jsstring \<times> json) list" where
  "opt_member k v = (case v of Some s \<Rightarrow> [(js k, JStr s)] | None \<Rightarrow> [])"

definition submit_json :: "JsSubmitTxRequest \<Rightarrow> json" where
  "submit_json r = JObj
     ([(js ''type'', JStr (jr_type r)), (js ''sender'', JStr (jr_sender r))]
      @ opt_member ''recipient'' (jr_recipient r)
      @ opt_member ''postId'' (jr_postId r)
      @ opt_member ''text'' (jr_text r)
      @ opt_member ''channel'' (jr_channel r)
      @ [(js ''amount'', JStr (jr_amount r)), (js ''nonce'', JStr (jr_nonce r)),
         (js ''signature'', JStr (jr_signature r)), (js ''pubKey'', JStr (jr_pubKey r))])"

text \<open>\<open>post\<close> is \<^verbatim>\<open>fetch\<close> with method \<^verbatim>\<open>POST\<close>: the address and the body to the response.  Its status is not read.\<close>

definition submitTransaction ::
    "(rat \<Rightarrow> jsstring) \<Rightarrow> jsstring option \<Rightarrow> (jsstring \<Rightarrow> jsstring \<Rightarrow> (js_error, Response) result)
      \<Rightarrow> JsSubmitTxRequest \<Rightarrow> (js_error, json) result" where
  "submitTransaction fmt env post req =
     bindR (post (NODE_RPC env @ js ''/v1/transactions'') (JSON_stringify fmt (submit_json req))) (\<lambda>res.
     bindR (res_text res) JSON_parse_revive)"

section \<open>Facts\<close>

lemma numericReviver_other [simp]:
  "numericReviver k JNull = JNull" "numericReviver k (JBool b) = JBool b"
  "numericReviver k (JNum x) = JNum x" "numericReviver k (JArr vs) = JArr vs"
  "numericReviver k (JObj ps) = JObj ps"
  by (simp_all add: numericReviver_def)

lemma js_Number_digits_safe:
  assumes "dec_val s < 2 ^ 53"
  shows "js_Number_digits s = Num (of_nat (dec_val s)) \<and> isSafeInteger (js_Number_digits s)"
proof -
  have "\<bar>int (dec_val s)\<bar> \<le> MAX_SAFE_INTEGER" using assms by (simp add: MAX_SAFE_INTEGER_def)
  from js_of_int_safe [OF this]
  have n: "js_Number_digits s = Num (of_nat (dec_val s))" by (simp add: js_Number_digits_def)
  have "(of_nat (dec_val s) :: rat) \<le> of_nat (2 ^ 53 - 1)"
    using assms by (simp only: of_nat_le_iff)
  with n show ?thesis
    using rat_is_int_of_int [of "int (dec_val s)"]
    by (simp add: isSafeInteger_def MAX_SAFE_INTEGER_def of_nat_diff)
qed

lemma isSafeInteger_fl:
  assumes "2 ^ 53 \<le> n"
  shows "\<not> isSafeInteger (js_of_rat (of_nat n))"
proof -
  have "(2 ^ 53 :: rat) \<le> of_nat n" using assms by (metis of_nat_le_iff of_nat_numeral of_nat_power)
  then have "2 ^ 53 \<le> fl (of_nat n)" by (rule fl_ge_2_53)
  then show ?thesis
    by (auto simp: js_of_rat_def Let_def isSafeInteger_def MAX_SAFE_INTEGER_def)
qed

text \<open>A decimal string below \<open>2 ^ 64\<close> has at most 20 characters, so the reviver always sees a counter.\<close>

lemma numericReviver_digits:
  assumes "n < 2 ^ 64"
  shows "numericReviver k (JStr (dec_digits n))
    = (if n < 2 ^ 53 then JNum (Num (of_nat n)) else JStr (dec_digits n))"
proof -
  have d: "list_all is_digit (dec_digits n)" using is_digit_dec_digits by (simp add: list_all_iff)
  have "n < 10 ^ Suc 19" using assms by simp
  then have l: "length (dec_digits n) \<le> 20" using length_dec_digits [of n 19] by simp
  show ?thesis
  proof (cases "n < 2 ^ 53")
    case True
    then show ?thesis using js_Number_digits_safe [of "dec_digits n"] d l
      by (auto simp: numericReviver_def dec_digits_nonempty dec_val_dec_digits Let_def)
  next
    case False
    then show ?thesis using isSafeInteger_fl [of n] d l
      by (simp add: numericReviver_def dec_digits_nonempty dec_val_dec_digits js_Number_digits_def)
  qed
qed

lemma json_get_revive:
  "json_get k (json_revive numericReviver kk (JObj ps))
    = map_option (json_revive numericReviver (js k)) (map_of ps (js k))"
  by (induction ps) (auto simp: json_get_def)

lemma json_wf_submit: "json_wf (submit_json r)"
  by (auto simp: submit_json_def opt_member_def js_def split: option.splits)

end
