(* ===== verification/PendingTxs.thy ===== *)
theory PendingTxs
  imports WalletStorage Api
begin

text \<open>
  \<^verbatim>\<open>drana-app/src/wallet/PendingContext.tsx\<close>: the list of submitted transactions the interface shows
  until they are confirmed.  The callbacks of the component (additions, polls, the reconciliation with the
  mempool, the clean-up) interleave at their \<^verbatim>\<open>await\<close>s; \<open>pending_step\<close> has one rule per callback
  segment, and a poll or a reconciliation in flight keeps the list its closure captured.
\<close>

section \<open>Data and persistence\<close>

datatype PendingStatus = Pending | Confirmed | Failed

record PendingTx =
  pt_hash :: jsstring
  pt_type :: jsnum
  pt_text :: "jsstring option"
  pt_channel :: "jsstring option"
  pt_amount :: jsnum
  pt_submittedAt :: nat
  pt_status :: PendingStatus

text \<open>\<^verbatim>\<open>TxStatus['status']\<close> of \<^verbatim>\<open>api/types.ts\<close>.\<close>

datatype TxStatus = TxConfirmed | TxPending | TxUnknown

definition STORAGE_KEY :: jsstring where "STORAGE_KEY = js ''drana_pending_txs''"

definition status_str :: "PendingStatus \<Rightarrow> jsstring" where
  "status_str s = (case s of Pending \<Rightarrow> js ''pending'' | Confirmed \<Rightarrow> js ''confirmed'' | Failed \<Rightarrow> js ''failed'')"

definition status_of_str :: "jsstring \<Rightarrow> PendingStatus option" where
  "status_of_str s =
     (if s = js ''pending'' then Some Pending else if s = js ''confirmed'' then Some Confirmed
      else if s = js ''failed'' then Some Failed else None)"

definition pending_json :: "PendingTx \<Rightarrow> json" where
  "pending_json t = JObj
     ([(js ''hash'', JStr (pt_hash t)), (js ''type'', JNum (pt_type t))]
      @ opt_member ''text'' (pt_text t) @ opt_member ''channel'' (pt_channel t)
      @ [(js ''amount'', JNum (pt_amount t)), (js ''submittedAt'', JNum (Num (of_nat (pt_submittedAt t)))),
         (js ''status'', JStr (status_str (pt_status t)))])"

definition pending_of_json :: "json \<Rightarrow> PendingTx option" where
  "pending_of_json v =
     (case (str_field ''hash'' v, json_num ''type'' v, json_num ''amount'' v, json_num ''submittedAt'' v,
            Option.bind (str_field ''status'' v) status_of_str) of
        (Some h, Some ty, Some a, Some (Num sub), Some st) \<Rightarrow>
          Some \<lparr>pt_hash = h, pt_type = ty, pt_text = str_field ''text'' v, pt_channel = str_field ''channel'' v,
                pt_amount = a, pt_submittedAt = nat \<lfloor>sub\<rfloor>, pt_status = st\<rparr>
      | _ \<Rightarrow> None)"

definition loadPending :: "storage \<Rightarrow> PendingTx list" where
  "loadPending s =
     (case getItem STORAGE_KEY s of
        None \<Rightarrow> []
      | Some raw \<Rightarrow>
          if raw = [] then []
          else case JSON_parse raw of
            Inr (JArr vs) \<Rightarrow> (case all_some (map pending_of_json vs) of Some ts \<Rightarrow> ts | None \<Rightarrow> [])
          | _ \<Rightarrow> [])"

definition savePending :: "(rat \<Rightarrow> jsstring) \<Rightarrow> PendingTx list \<Rightarrow> storage \<Rightarrow> storage" where
  "savePending fmt txs s = setItem STORAGE_KEY (JSON_stringify fmt (JArr (map pending_json txs))) s"

section \<open>The callbacks\<close>

text \<open>
  One element of the poll: the list it is part of is captured, \<open>now1\<close> is \<^verbatim>\<open>Date.now()\<close> before the request,
  \<open>reply\<close> what \<^verbatim>\<open>getTxStatus\<close> returned, \<open>now2\<close> the time after it.  The flag is the assignment to \<^verbatim>\<open>changed\<close>.
\<close>

definition poll_tx :: "nat \<Rightarrow> (js_error, TxStatus) result \<Rightarrow> nat \<Rightarrow> PendingTx \<Rightarrow> PendingTx \<times> bool" where
  "poll_tx now1 reply now2 tx =
     (if pt_status tx \<noteq> Pending then (tx, False)
      else if int now1 - int (pt_submittedAt tx) > 5 * 60 * 1000 then (tx\<lparr>pt_status := Failed\<rparr>, True)
      else case reply of
        Inl _ \<Rightarrow> (tx, False)
      | Inr st \<Rightarrow>
          if st = TxConfirmed then (tx\<lparr>pt_status := Confirmed\<rparr>, True)
          else if st = TxUnknown \<and> int now2 - int (pt_submittedAt tx) > 15000
            then (tx\<lparr>pt_status := Failed\<rparr>, True)
          else (tx, False))"

text \<open>The rest of \<^verbatim>\<open>poll\<close>: \<open>captured\<close> is the list of the closure, \<open>current\<close> the state when it resumes.\<close>

definition poll_finish ::
    "nat \<Rightarrow> (PendingTx \<Rightarrow> (js_error, TxStatus) result) \<Rightarrow> nat \<Rightarrow> PendingTx list \<Rightarrow> PendingTx list
      \<Rightarrow> PendingTx list" where
  "poll_finish now1 reply now2 captured current =
     (let results = map (\<lambda>tx. poll_tx now1 (reply tx) now2 tx) captured
      in if list_ex snd results then map fst results else current)"

text \<open>
  The reconciliation on mount: a pending transaction that is not in the mempool gets a status request,
  and if there is one the captured list is written back.
\<close>

definition reconcile_requests :: "jsstring list \<Rightarrow> PendingTx list \<Rightarrow> jsstring list" where
  "reconcile_requests mempoolHashes captured =
     map pt_hash (filter (\<lambda>tx. pt_status tx = Pending \<and> pt_hash tx \<notin> set mempoolHashes) captured)"

definition reconcile_finish :: "jsstring list \<Rightarrow> PendingTx list \<Rightarrow> PendingTx list \<Rightarrow> PendingTx list" where
  "reconcile_finish mempoolHashes captured current =
     (if reconcile_requests mempoolHashes captured \<noteq> [] then captured else current)"

definition set_status :: "jsstring \<Rightarrow> PendingStatus \<Rightarrow> PendingTx list \<Rightarrow> PendingTx list" where
  "set_status hash st prev = map (\<lambda>p. if pt_hash p = hash then p\<lparr>pt_status := st\<rparr> else p) prev"

definition reconcile_status :: "jsstring \<Rightarrow> (js_error, TxStatus) result \<Rightarrow> PendingTx list \<Rightarrow> PendingTx list" where
  "reconcile_status hash reply prev =
     (case reply of
        Inl _ \<Rightarrow> prev
      | Inr st \<Rightarrow>
          if st = TxConfirmed then set_status hash Confirmed prev
          else if st = TxUnknown then set_status hash Failed prev
          else prev)"

definition cleanup :: "nat \<Rightarrow> PendingTx list \<Rightarrow> PendingTx list" where
  "cleanup now prev =
     filter (\<lambda>tx. pt_status tx = Pending \<or> int now - int (pt_submittedAt tx) < 10 * 60 * 1000) prev"

text \<open>\<^verbatim>\<open>addPending\<close> takes the transaction without the two last fields.\<close>

definition addPending :: "nat \<Rightarrow> PendingTx \<Rightarrow> PendingTx list \<Rightarrow> PendingTx list" where
  "addPending now tx prev = prev @ [tx\<lparr>pt_submittedAt := now, pt_status := Pending\<rparr>]"

definition getPendingPosts :: "PendingTx list \<Rightarrow> PendingTx list" where
  "getPendingPosts txs = filter (\<lambda>t. pt_status t = Pending \<and> pt_type t = Num 2) txs"

definition pendingOutgoing :: "PendingTx list \<Rightarrow> jsnum" where
  "pendingOutgoing txs =
     foldl (\<lambda>sum t. js_add sum (pt_amount t)) (Num 0) (filter (\<lambda>t. pt_status t = Pending) txs)"

section \<open>The component as a step relation\<close>

record PendingState =
  pe_txs :: "PendingTx list"
  pe_polls :: "PendingTx list list"
  pe_reconciles :: "PendingTx list list"
  pe_checks :: "jsstring list"

datatype pending_event =
    Add nat PendingTx
  | PollStart
  | PollFinish "PendingTx list" nat "PendingTx \<Rightarrow> (js_error, TxStatus) result" nat
  | Mount
  | ReconcileFinish "PendingTx list" "jsstring list"
  | ReconcileFail "PendingTx list"
  | CheckFinish jsstring "(js_error, TxStatus) result"
  | Cleanup nat

definition some_pending :: "PendingTx list \<Rightarrow> bool" where
  "some_pending txs \<longleftrightarrow> filter (\<lambda>t. pt_status t = Pending) txs \<noteq> []"

inductive pending_step :: "PendingState \<Rightarrow> pending_event \<Rightarrow> PendingState \<Rightarrow> bool" where
  add: "pending_step s (Add now tx) (s\<lparr>pe_txs := addPending now tx (pe_txs s)\<rparr>)"
| poll_start: "some_pending (pe_txs s) \<Longrightarrow>
    pending_step s PollStart (s\<lparr>pe_polls := pe_txs s # pe_polls s\<rparr>)"
| poll_finish: "captured \<in> set (pe_polls s) \<Longrightarrow>
    pending_step s (PollFinish captured now1 reply now2)
      (s\<lparr>pe_txs := poll_finish now1 reply now2 captured (pe_txs s),
         pe_polls := remove1 captured (pe_polls s)\<rparr>)"
| mount: "some_pending (pe_txs s) \<Longrightarrow>
    pending_step s Mount (s\<lparr>pe_reconciles := pe_txs s # pe_reconciles s\<rparr>)"
| reconcile_finish: "captured \<in> set (pe_reconciles s) \<Longrightarrow>
    pending_step s (ReconcileFinish captured hashes)
      (s\<lparr>pe_txs := reconcile_finish hashes captured (pe_txs s),
         pe_reconciles := remove1 captured (pe_reconciles s),
         pe_checks := pe_checks s @ reconcile_requests hashes captured\<rparr>)"
| reconcile_fail: "captured \<in> set (pe_reconciles s) \<Longrightarrow>
    pending_step s (ReconcileFail captured) (s\<lparr>pe_reconciles := remove1 captured (pe_reconciles s)\<rparr>)"
| check_finish: "hash \<in> set (pe_checks s) \<Longrightarrow>
    pending_step s (CheckFinish hash reply)
      (s\<lparr>pe_txs := reconcile_status hash reply (pe_txs s), pe_checks := remove1 hash (pe_checks s)\<rparr>)"
| clean: "pending_step s (Cleanup now) (s\<lparr>pe_txs := cleanup now (pe_txs s)\<rparr>)"

inductive_cases pending_stepE: "pending_step s e s'"

inductive pending_steps :: "PendingState \<Rightarrow> pending_event list \<Rightarrow> PendingState \<Rightarrow> bool" where
  refl: "pending_steps s [] s"
| step: "pending_step s e s' \<Longrightarrow> pending_steps s' es s'' \<Longrightarrow> pending_steps s (e # es) s''"

definition initial_pending :: "PendingTx list \<Rightarrow> PendingState" where
  "initial_pending txs = \<lparr>pe_txs = txs, pe_polls = [], pe_reconciles = [], pe_checks = []\<rparr>"

section \<open>Facts about one callback\<close>

lemma poll_tx_frame:
  "fst (poll_tx n1 r n2 tx) = tx\<lparr>pt_status := pt_status (fst (poll_tx n1 r n2 tx))\<rparr>"
  by (simp add: poll_tx_def split: sum.split)

lemma poll_tx_settled: "pt_status tx \<noteq> Pending \<Longrightarrow> fst (poll_tx n1 r n2 tx) = tx"
  by (simp add: poll_tx_def)

lemma poll_tx_unchanged: "\<not> snd (poll_tx n1 r n2 tx) \<Longrightarrow> fst (poll_tx n1 r n2 tx) = tx"
  by (auto simp: poll_tx_def split: sum.splits if_splits)

lemma poll_finish_eq:
  "poll_finish n1 reply n2 captured captured = map (\<lambda>tx. fst (poll_tx n1 (reply tx) n2 tx)) captured"
proof (cases "list_ex snd (map (\<lambda>tx. poll_tx n1 (reply tx) n2 tx) captured)")
  case True
  then show ?thesis by (simp add: poll_finish_def Let_def comp_def)
next
  case False
  then have "map (\<lambda>tx. fst (poll_tx n1 (reply tx) n2 tx)) captured = captured"
    by (intro map_idI) (auto simp: list_ex_iff poll_tx_unchanged)
  with False show ?thesis by (simp add: poll_finish_def Let_def)
qed

section \<open>The amounts that are on their way\<close>

fun nat_amounts :: "PendingTx list \<Rightarrow> nat list option" where
  "nat_amounts [] = Some []"
| "nat_amounts (t # ts) =
     (case pt_amount t of
        Num q \<Rightarrow> if rat_is_int q \<and> 0 \<le> q then map_option ((#) (nat \<lfloor>q\<rfloor>)) (nat_amounts ts) else None
      | _ \<Rightarrow> None)"

lemma js_add_nat:
  assumes "a + b < 2 ^ 53"
  shows "js_add (Num (of_nat a)) (Num (of_nat b)) = Num (of_nat (a + b))"
  using js_of_int_safe [of "int (a + b)"] assms by (simp add: MAX_SAFE_INTEGER_def)

lemma foldl_js_add:
  assumes "nat_amounts ts = Some ns" "acc + sum_list ns < 2 ^ 53"
  shows "foldl (\<lambda>sum t. js_add sum (pt_amount t)) (Num (of_nat acc)) ts = Num (of_nat (acc + sum_list ns))"
  using assms
proof (induction ts arbitrary: acc ns)
  case Nil
  then show ?case by simp
next
  case (Cons t ts)
  from Cons.prems(1) obtain q ms where q: "pt_amount t = Num q" "rat_is_int q" "0 \<le> q"
    "nat_amounts ts = Some ms" "ns = nat \<lfloor>q\<rfloor> # ms"
    by (auto split: jsnum.splits if_splits)
  then obtain i where i: "q = of_int i" by (auto simp: rat_is_int_iff)
  with q have t: "pt_amount t = Num (of_nat (nat \<lfloor>q\<rfloor>))" by simp
  have "js_add (Num (of_nat acc)) (pt_amount t) = Num (of_nat (acc + nat \<lfloor>q\<rfloor>))"
    unfolding t using Cons.prems(2) q(5) by (intro js_add_nat) simp
  moreover have "acc + nat \<lfloor>q\<rfloor> + sum_list ms < 2 ^ 53" using Cons.prems(2) q(5) by simp
  ultimately show ?case using Cons.IH [OF q(4), of "acc + nat \<lfloor>q\<rfloor>"] q(5) by (simp add: add.assoc)
qed


text \<open>
  The amount shown as outgoing is exactly the sum of the amounts of the pending transactions, as long
  as the amounts are whole and the sum is a safe integer; confirmed and failed transactions do not count.
\<close>

theorem pendingOutgoing_exact:
  assumes "nat_amounts (filter (\<lambda>t. pt_status t = Pending) txs) = Some ns" "sum_list ns < 2 ^ 53"
  shows "pendingOutgoing txs = Num (of_nat (sum_list ns))"
  using foldl_js_add [of _ ns 0] assms by (simp add: pendingOutgoing_def)

section \<open>Persistence\<close>

definition safe_tx :: "PendingTx \<Rightarrow> bool" where
  "safe_tx t \<longleftrightarrow> json_wf (JNum (pt_type t)) \<and> json_wf (JNum (pt_amount t)) \<and> pt_submittedAt t < 2 ^ 53"

lemma status_of_str_str [simp]: "status_of_str (status_str s) = Some s"
  by (cases s) (simp_all add: status_of_str_def status_str_def js_def)

lemma pending_of_json_json [simp]: "pending_of_json (pending_json t) = Some t"
proof -
  have "json_get ''text'' (pending_json t) = map_option JStr (pt_text t)"
    "json_get ''channel'' (pending_json t) = map_option JStr (pt_channel t)"
    "json_get ''hash'' (pending_json t) = Some (JStr (pt_hash t))"
    "json_get ''type'' (pending_json t) = Some (JNum (pt_type t))"
    "json_get ''amount'' (pending_json t) = Some (JNum (pt_amount t))"
    "json_get ''submittedAt'' (pending_json t) = Some (JNum (Num (of_nat (pt_submittedAt t))))"
    "json_get ''status'' (pending_json t) = Some (JStr (status_str (pt_status t)))"
    by (simp_all add: pending_json_def json_get_def opt_member_def js_def split: option.split)
  moreover have "(case map_option JStr x of Some (JStr s) \<Rightarrow> Some s | _ \<Rightarrow> None) = x" for x
    by (cases x) auto
  ultimately show ?thesis
    by (simp add: pending_of_json_def str_field_def json_num_def)
qed

lemma json_wf_pending: "safe_tx t \<Longrightarrow> json_wf (pending_json t)"
  using rat_is_int_of_int [of "int (pt_submittedAt t)"] of_nat_less_iff [where ?'a = rat, of "pt_submittedAt t" "2 ^ 53"]
  by (auto simp: safe_tx_def pending_json_def opt_member_def js_def split: option.splits)

text \<open>
  What the effect on \<^verbatim>\<open>txs\<close> stores, the next session reads back unchanged.
\<close>

theorem load_save_pending:
  assumes "mok s" "list_all safe_tx txs"
  shows "loadPending (savePending fmt txs s) = txs"
proof -
  define v where "v = JArr (map pending_json txs)"
  have "json_wf v" using assms(2) by (auto simp: v_def list_all_iff intro: json_wf_pending)
  then have "JSON_parse (JSON_stringify fmt v) = Inr v" by (rule JSON_parse_stringify)
  moreover have "JSON_stringify fmt v \<noteq> []" by (simp add: v_def JSON_stringify_def)
  moreover have "all_some (map pending_of_json (map pending_json txs)) = Some txs"
    by (simp add: comp_def)
  ultimately show ?thesis
    using assms(1) by (simp add: loadPending_def savePending_def flip: v_def) (simp add: v_def)
qed

section \<open>Executions\<close>

text \<open>Every transaction of a list comes from \<open>origin\<close>, with at most its status changed.\<close>

definition same_tx :: "PendingTx \<Rightarrow> PendingTx \<Rightarrow> bool" where
  "same_tx t u \<longleftrightarrow> t\<lparr>pt_status := pt_status u\<rparr> = u"

definition from_origin :: "PendingTx set \<Rightarrow> PendingTx list \<Rightarrow> bool" where
  "from_origin A ts \<longleftrightarrow> (\<forall>t\<in>set ts. \<exists>u\<in>A. same_tx u t)"

definition added :: "pending_event \<Rightarrow> PendingTx set" where
  "added e = (case e of Add now tx \<Rightarrow> {tx\<lparr>pt_submittedAt := now, pt_status := Pending\<rparr>} | _ \<Rightarrow> {})"

definition state_from :: "PendingTx set \<Rightarrow> PendingState \<Rightarrow> bool" where
  "state_from A s \<longleftrightarrow> from_origin A (pe_txs s) \<and> (\<forall>c\<in>set (pe_polls s). from_origin A c)
     \<and> (\<forall>c\<in>set (pe_reconciles s). from_origin A c)"

lemma same_tx_refl [simp]: "same_tx t t" by (simp add: same_tx_def)

lemma same_tx_status: "same_tx u t \<Longrightarrow> same_tx u (t\<lparr>pt_status := st\<rparr>)"
  by (cases u; cases t) (simp add: same_tx_def)

lemma from_origin_mono: "from_origin A ts \<Longrightarrow> A \<subseteq> B \<Longrightarrow> from_origin B ts"
  unfolding from_origin_def by blast

lemma from_origin_map:
  assumes "from_origin A ts" "\<And>t. t \<in> set ts \<Longrightarrow> \<exists>st. f t = t\<lparr>pt_status := st\<rparr>"
  shows "from_origin A (map f ts)"
  using assms same_tx_status unfolding from_origin_def by fastforce

lemma from_origin_poll_finish:
  assumes "from_origin A captured" "from_origin A current"
  shows "from_origin A (poll_finish n1 r n2 captured current)"
proof -
  have "from_origin A (map (\<lambda>tx. fst (poll_tx n1 (r tx) n2 tx)) captured)"
    using assms(1) by (rule from_origin_map) (metis poll_tx_frame)
  with assms(2) show ?thesis by (simp add: poll_finish_def Let_def comp_def)
qed

lemma from_origin_reconcile_status:
  assumes "from_origin A prev"
  shows "from_origin A (reconcile_status h r prev)"
proof -
  have "from_origin A (set_status h st prev)" for st
    unfolding set_status_def using assms
    by (rule from_origin_map) (metis (full_types) PendingTx.surjective PendingTx.update_convs(7))
  with assms show ?thesis by (auto simp: reconcile_status_def split: sum.split)
qed

lemma state_from_step:
  assumes "pending_step s e s'" "state_from A s"
  shows "state_from (A \<union> added e) s'"
  using assms
proof (cases rule: pending_step.cases)
  case (add now tx)
  then show ?thesis
    using assms(2) by (auto simp: state_from_def from_origin_def addPending_def added_def)
next
  case (poll_finish captured now1 reply now2)
  then show ?thesis using assms(2)
    by (auto simp: state_from_def added_def intro: from_origin_poll_finish dest: notin_set_remove1)
next
  case (reconcile_finish captured hashes)
  then show ?thesis using assms(2)
    by (auto simp: state_from_def added_def reconcile_finish_def dest: notin_set_remove1)
next
  case (check_finish hash reply)
  then show ?thesis using assms(2)
    by (auto simp: state_from_def added_def intro: from_origin_reconcile_status)
next
  case (clean now)
  then show ?thesis using assms(2)
    by (auto simp: state_from_def added_def from_origin_def cleanup_def)
qed (auto simp: state_from_def added_def dest: notin_set_remove1)

lemma state_from_steps:
  "pending_steps s es s' \<Longrightarrow> state_from A s \<Longrightarrow> state_from (A \<union> \<Union> (added ` set es)) s'"
proof (induction arbitrary: A rule: pending_steps.induct)
  case (step s e s' es s'')
  have "state_from (A \<union> added e \<union> \<Union> (added ` set es)) s''"
    using step.IH state_from_step [OF step.hyps(1) step.prems] by blast
  then show ?case by (simp add: Un_assoc)
qed simp

text \<open>
  C25: whatever order the callbacks interleave in, every listed transaction was loaded from storage or
  added by \<^verbatim>\<open>addPending\<close>, and nothing but its status ever changed: no callback invents a transaction or
  alters a hash, an amount or a submission time.
\<close>

theorem pending_no_invention:
  assumes "pending_steps (initial_pending txs) es s" "t \<in> set (pe_txs s)"
  shows "\<exists>u \<in> set txs \<union> \<Union> (added ` set es). t = u\<lparr>pt_status := pt_status t\<rparr>"
proof -
  have "state_from (set txs) (initial_pending txs)"
    by (auto simp: state_from_def initial_pending_def from_origin_def intro!: bexI same_tx_refl)
  from state_from_steps [OF assms(1) this] assms(2) show ?thesis
    unfolding state_from_def from_origin_def same_tx_def by metis
qed

text \<open>
  A poll that nothing overtakes decides every pending transaction the way the comments say: one that
  is older than five minutes fails, a confirmed one is marked, an unknown one fails after fifteen
  seconds, every other is left alone; and a settled transaction never changes.
\<close>

theorem poll_outcome:
  assumes "t \<in> set txs"
  shows "\<exists>t' \<in> set (poll_finish now1 reply now2 txs txs). t' = t\<lparr>pt_status :=
    (if pt_status t \<noteq> Pending then pt_status t
     else if now1 > pt_submittedAt t + 300000 then Failed
     else if reply t = Inr TxConfirmed then Confirmed
     else if reply t = Inr TxUnknown \<and> now2 > pt_submittedAt t + 15000 then Failed
     else Pending)\<rparr>"
proof -
  have "fst (poll_tx now1 (reply t) now2 t) \<in> set (poll_finish now1 reply now2 txs txs)"
    using assms by (auto simp: poll_finish_eq)
  then show ?thesis by (rule bexI [rotated]) (auto simp: poll_tx_def split: sum.split)
qed

text \<open>
  C40: an addition that arrives while a poll is in flight is lost when the poll marks any older
  transaction: the poll writes back the list its closure captured.
\<close>

theorem poll_loses_concurrent_addition:
  assumes "some_pending txs" "list_ex (\<lambda>tx. snd (poll_tx now1 (reply tx) now2 tx)) txs"
    and "\<forall>t\<in>set txs. pt_hash t \<noteq> pt_hash new"
  shows "\<exists>s. pending_steps (initial_pending txs)
      [PollStart, Add now new, PollFinish txs now1 reply now2] s
    \<and> pt_hash new \<notin> pt_hash ` set (pe_txs s)"
proof -
  define s1 where "s1 = (initial_pending txs)\<lparr>pe_polls := [txs]\<rparr>"
  define s2 where "s2 = s1\<lparr>pe_txs := addPending now new txs\<rparr>"
  define s3 where "s3 = s2\<lparr>pe_txs := poll_finish now1 reply now2 txs (pe_txs s2), pe_polls := []\<rparr>"
  have "pending_step (initial_pending txs) PollStart s1"
    using poll_start [of "initial_pending txs"] assms(1) by (simp add: s1_def initial_pending_def)
  moreover have "pending_step s1 (Add now new) s2"
    using add [of s1 now new] by (simp add: s1_def s2_def initial_pending_def)
  moreover have "pending_step s2 (PollFinish txs now1 reply now2) s3"
    using poll_finish [of txs s2 now1 reply now2] by (simp add: s1_def s2_def s3_def)
  moreover have "pe_txs s3 = map (\<lambda>tx. fst (poll_tx now1 (reply tx) now2 tx)) txs"
    using assms(2) by (simp add: s3_def poll_finish_def Let_def list_ex_iff comp_def)
  moreover have "pt_hash (fst (poll_tx n1 r n2 t)) = pt_hash t" for n1 r n2 t
    by (subst poll_tx_frame) simp
  ultimately show ?thesis
    using assms(3) by (intro exI [of _ s3]) (auto intro!: pending_steps.intros)
qed


section \<open>Witnesses\<close>

definition sample_tx :: PendingTx where
  "sample_tx = \<lparr>pt_hash = js ''aa'', pt_type = Num 2, pt_text = Some (js ''hello''), pt_channel = None,
     pt_amount = Num 1000000, pt_submittedAt = 1000, pt_status = Pending\<rparr>"

definition sample_new :: PendingTx where
  "sample_new = sample_tx\<lparr>pt_hash := js ''bb''\<rparr>"

lemma rat_is_int_numeral [simp]: "rat_is_int (numeral n)" "rat_is_int 0" "rat_is_int 1"
  by (simp_all add: rat_is_int_def)

theorem pendingOutgoing_exact_witness:
  "pendingOutgoing [sample_tx, sample_new\<lparr>pt_status := Failed\<rparr>] = Num 1000000"
  using pendingOutgoing_exact [of "[sample_tx, sample_new\<lparr>pt_status := Failed\<rparr>]" "[1000000]"]
  by (simp add: sample_tx_def sample_new_def)

theorem load_save_pending_witness:
  "loadPending (savePending (\<lambda>_. []) [sample_tx, sample_new] []) = [sample_tx, sample_new]"
  using load_save_pending [of "[]" "[sample_tx, sample_new]" "\<lambda>_. []"]
  by (simp add: safe_tx_def sample_tx_def sample_new_def)

theorem pending_no_invention_witness:
  "\<exists>u \<in> set [] \<union> \<Union> (added ` set [Add 1000 sample_tx]). sample_tx = u\<lparr>pt_status := pt_status sample_tx\<rparr>"
proof (rule pending_no_invention)
  show "pending_steps (initial_pending []) [Add 1000 sample_tx]
      ((initial_pending [])\<lparr>pe_txs := addPending 1000 sample_tx []\<rparr>)"
    using add [of "initial_pending []" 1000 sample_tx]
    by (auto simp: initial_pending_def intro!: pending_steps.intros)
  show "sample_tx \<in> set (pe_txs ((initial_pending [])\<lparr>pe_txs := addPending 1000 sample_tx []\<rparr>))"
    by (simp add: addPending_def sample_tx_def)
qed

theorem poll_outcome_witness:
  "\<exists>t' \<in> set (poll_finish 400000 (\<lambda>_. Inr TxPending) 400000 [sample_tx] [sample_tx]).
     t' = sample_tx\<lparr>pt_status := Failed\<rparr>"
  using poll_outcome [of sample_tx "[sample_tx]" 400000 "\<lambda>_. Inr TxPending" 400000]
  by (simp add: sample_tx_def)

theorem poll_loses_concurrent_addition_witness:
  "\<exists>s. pending_steps (initial_pending [sample_tx])
      [PollStart, Add 6000 sample_new, PollFinish [sample_tx] 5000 (\<lambda>_. Inr TxConfirmed) 5000] s
    \<and> pt_hash sample_new \<notin> pt_hash ` set (pe_txs s)"
  by (rule poll_loses_concurrent_addition)
    (simp_all add: some_pending_def sample_tx_def sample_new_def poll_tx_def js_def)

end
