(* ===== verification/WalletContext.thy ===== *)
theory WalletContext
  imports WalletStorage WalletSigning Api
begin

text \<open>
  \<^verbatim>\<open>drana-app/src/wallet/WalletContext.tsx\<close>: the wallet held by the interface.  The state hooks are the
  fields of \<open>WalletState\<close>, beside the browser's storage.  A callback that awaits is split where it
  resumes: the \<open>_finish\<close> functions take what the closure captured and the current state.  \<open>wallet_run\<close>
  are the executions in which every callback finishes before the next one starts.
\<close>

section \<open>State\<close>

record WalletState =
  wc_storage :: storage
  wc_stored :: "StoredWallet option"
  wc_allWallets :: "StoredWallet list"
  wc_privateKey :: "bytes option"
  wc_balance :: jsnum
  wc_stakedBalance :: jsnum
  wc_postStakeBalance :: jsnum
  wc_nameCache :: "(jsstring, json) gomap"
  wc_lookups :: "jsstring list"

definition wc_address :: "WalletState \<Rightarrow> jsstring option" where
  "wc_address st = map_option sw_address (wc_stored st)"

definition wc_publicKey :: "WalletState \<Rightarrow> jsstring option" where
  "wc_publicKey st = map_option sw_publicKey (wc_stored st)"

definition isUnlocked :: "WalletState \<Rightarrow> bool" where
  "isUnlocked st \<longleftrightarrow> wc_privateKey st \<noteq> None"

definition hasWallet :: "WalletState \<Rightarrow> bool" where
  "hasWallet st \<longleftrightarrow> wc_stored st \<noteq> None"

definition WalletProvider_init :: "(rat \<Rightarrow> jsstring) \<Rightarrow> storage \<Rightarrow> WalletState" where
  "WalletProvider_init fmt s =
     (let (s, stored) = loadActiveWallet fmt s; (s, allWallets) = loadAllWallets fmt s
      in \<lparr>wc_storage = s, wc_stored = stored, wc_allWallets = allWallets, wc_privateKey = None,
          wc_balance = Num 0, wc_stakedBalance = Num 0, wc_postStakeBalance = Num 0,
          wc_nameCache = [], wc_lookups = []\<rparr>)"

section \<open>Callbacks\<close>

definition reloadWallets :: "(rat \<Rightarrow> jsstring) \<Rightarrow> WalletState \<Rightarrow> WalletState" where
  "reloadWallets fmt st =
     (let (s, ws) = loadAllWallets fmt (wc_storage st) in st\<lparr>wc_storage := s, wc_allWallets := ws\<rparr>)"

text \<open>\<open>captured\<close> is \<^verbatim>\<open>stored\<close> in the closure; the address is its address.\<close>

definition refreshBalance_finish ::
    "(rat \<Rightarrow> jsstring) \<Rightarrow> StoredWallet option \<Rightarrow> (js_error, JsAccount) result \<Rightarrow> WalletState \<Rightarrow> WalletState" where
  "refreshBalance_finish fmt captured reply st =
     (case captured of
        None \<Rightarrow> st
      | Some stored \<Rightarrow>
          if sw_address stored = [] then st
          else case reply of
            Inl _ \<Rightarrow> st
          | Inr acct \<Rightarrow>
              (let st = st\<lparr>wc_balance := ja_balance acct, wc_stakedBalance := ja_stakedBalance acct,
                           wc_postStakeBalance := js_or_zero (ja_postStakeBalance acct)\<rparr>
               in case ja_name acct of
                    None \<Rightarrow> st
                  | Some nm \<Rightarrow>
                      if \<not> json_truthy nm then st
                      else (let st = st\<lparr>wc_nameCache := mput (sw_address stored) nm (wc_nameCache st)\<rparr>
                            in if nm \<noteq> sw_name stored
                               then (let updated = stored\<lparr>sw_name := nm\<rparr>;
                                         st = st\<lparr>wc_stored := Some updated,
                                                 wc_storage := saveWallet fmt updated (wc_storage st)\<rparr>
                                     in reloadWallets fmt st)
                               else st)))"

text \<open>\<open>seed\<close>, \<open>salt\<close> and \<open>iv\<close> are the random bytes drawn; nothing before the \<^verbatim>\<open>await\<close> reads the state.\<close>

definition createWallet ::
    "(rat \<Rightarrow> jsstring) \<Rightarrow> js_prims \<Rightarrow> bytes \<Rightarrow> bytes \<Rightarrow> bytes \<Rightarrow> jsstring \<Rightarrow> WalletState \<Rightarrow> WalletState \<times> jsstring" where
  "createWallet fmt Q seed salt iv password st =
     (let (publicKey, privateKey) = generateKeyPair Q seed;
          addr = deriveAddress Q publicKey;
          encrypted = encryptPrivateKey Q salt iv privateKey password;
          wallet = \<lparr>sw_address = addr, sw_publicKey = toHex publicKey, sw_encryptedKey = encrypted,
                    sw_name = JStr []\<rparr>;
          st = st\<lparr>wc_storage := saveWallet fmt wallet (wc_storage st), wc_stored := Some wallet,
                  wc_privateKey := Some privateKey\<rparr>
      in (reloadWallets fmt st, toHex privateKey))"

definition unlock_finish ::
    "js_prims \<Rightarrow> StoredWallet option \<Rightarrow> jsstring \<Rightarrow> WalletState \<Rightarrow> (js_error, unit) result \<times> WalletState" where
  "unlock_finish Q captured password st =
     (case captured of
        None \<Rightarrow> (Inl (JsError ''No wallet''), st)
      | Some stored \<Rightarrow>
          (case decryptPrivateKey Q (sw_encryptedKey stored) password of
             Inl e \<Rightarrow> (Inl e, st)
           | Inr key \<Rightarrow> (Inr (), st\<lparr>wc_privateKey := Some key\<rparr>)))"

definition unlock :: "js_prims \<Rightarrow> jsstring \<Rightarrow> WalletState \<Rightarrow> (js_error, unit) result \<times> WalletState" where
  "unlock Q password st = unlock_finish Q (wc_stored st) password st"

definition lock :: "WalletState \<Rightarrow> WalletState" where
  "lock st = st\<lparr>wc_privateKey := None\<rparr>"

definition importWallet ::
    "(rat \<Rightarrow> jsstring) \<Rightarrow> js_prims \<Rightarrow> bytes \<Rightarrow> bytes \<Rightarrow> jsstring \<Rightarrow> jsstring \<Rightarrow> WalletState
      \<Rightarrow> (js_error, unit) result \<times> WalletState" where
  "importWallet fmt Q salt iv privateKeyHex password st =
     (let key = fromHex privateKeyHex in
      if length key \<noteq> 64 then (Inl (JsError ''Private key must be 64 bytes (128 hex chars)''), st)
      else (let pub = drop 32 key;
                addr = deriveAddress Q pub;
                encrypted = encryptPrivateKey Q salt iv key password;
                wallet = \<lparr>sw_address = addr, sw_publicKey = toHex pub, sw_encryptedKey = encrypted,
                          sw_name = JStr []\<rparr>;
                st = st\<lparr>wc_storage := saveWallet fmt wallet (wc_storage st), wc_stored := Some wallet,
                        wc_privateKey := Some key\<rparr>
            in (Inr (), reloadWallets fmt st)))"

definition switchWallet :: "(rat \<Rightarrow> jsstring) \<Rightarrow> jsstring \<Rightarrow> WalletState \<Rightarrow> WalletState" where
  "switchWallet fmt addr st =
     (let s = setActiveWallet addr (wc_storage st);
          (s, ws) = loadAllWallets fmt s
      in st\<lparr>wc_privateKey := None, wc_storage := s, wc_stored := find_wallet addr ws,
            wc_balance := Num 0, wc_stakedBalance := Num 0\<rparr>)"

definition removeWalletFn :: "(rat \<Rightarrow> jsstring) \<Rightarrow> jsstring \<Rightarrow> WalletState \<Rightarrow> WalletState" where
  "removeWalletFn fmt addr st =
     (let address = wc_address st;
          st = reloadWallets fmt (st\<lparr>wc_storage := removeWallet fmt addr (wc_storage st)\<rparr>)
      in if Some addr = address
         then (let (s, remaining) = loadAllWallets fmt (wc_storage st)
               in st\<lparr>wc_privateKey := None, wc_storage := s,
                     wc_stored := (case remaining of w # _ \<Rightarrow> Some w | [] \<Rightarrow> None)\<rparr>)
         else st)"

section \<open>Signing and submission\<close>

record UnsignedTx =
  ut_type :: jsnum
  ut_recipient :: "jsstring option"
  ut_postId :: "jsstring option"
  ut_text :: "jsstring option"
  ut_channel :: "jsstring option"
  ut_amount :: jsnum

text \<open>\<^verbatim>\<open>x || ''\<close> and \<^verbatim>\<open>s || undefined\<close>.\<close>

definition or_empty :: "jsstring option \<Rightarrow> jsstring" where
  "or_empty x = (case x of Some s \<Rightarrow> s | None \<Rightarrow> [])"

definition or_undefined :: "jsstring \<Rightarrow> jsstring option" where
  "or_undefined s = (if s = [] then None else Some s)"

definition txTypeNames :: "jsstring list" where
  "txTypeNames = map js ['''', ''transfer'', ''create_post'', ''boost_post'', ''register_name'', ''stake'',
     ''unstake'', ''unstake_post'']"

text \<open>\<^verbatim>\<open>[...][fullTx.type] || 'transfer'\<close>: no element, or the empty string, gives \<^verbatim>\<open>'transfer'\<close>.\<close>

definition txTypeName :: "jsnum \<Rightarrow> jsstring" where
  "txTypeName t =
     (case t of
        Num q \<Rightarrow>
          if rat_is_int q \<and> 0 \<le> q \<and> \<lfloor>q\<rfloor> < int (length txTypeNames) \<and> txTypeNames ! nat \<lfloor>q\<rfloor> \<noteq> []
          then txTypeNames ! nat \<lfloor>q\<rfloor> else js ''transfer''
      | _ \<Rightarrow> js ''transfer'')"

definition fullTx :: "jsstring \<Rightarrow> jsstring \<Rightarrow> JsAccount \<Rightarrow> UnsignedTx \<Rightarrow> SignTx" where
  "fullTx address publicKey acct tx =
     \<lparr>st_type = ut_type tx, st_sender = address, st_recipient = or_empty (ut_recipient tx),
      st_postId = or_empty (ut_postId tx), st_text = or_empty (ut_text tx),
      st_channel = or_empty (ut_channel tx), st_amount = ut_amount tx,
      st_nonce = js_add (ja_nonce acct) (Num 1), st_pubKey = publicKey\<rparr>"

definition submit_request :: "(rat \<Rightarrow> jsstring) \<Rightarrow> SignTx \<Rightarrow> bytes \<Rightarrow> JsSubmitTxRequest" where
  "submit_request fmt tx signature =
     \<lparr>jr_type = txTypeName (st_type tx), jr_sender = st_sender tx,
      jr_recipient = or_undefined (st_recipient tx), jr_postId = or_undefined (st_postId tx),
      jr_text = or_undefined (st_text tx), jr_channel = or_undefined (st_channel tx),
      jr_amount = js_String fmt (st_amount tx), jr_nonce = js_String fmt (st_nonce tx),
      jr_signature = toHex signature, jr_pubKey = st_pubKey tx\<rparr>"

text \<open>\<open>getAccount\<close>: the account query, decoded at its declared type.\<close>

definition getAccount ::
    "(rat \<Rightarrow> jsstring) \<Rightarrow> jsstring option \<Rightarrow> fetch \<Rightarrow> jsstring \<Rightarrow> (js_error, JsAccount) result" where
  "getAccount fmt env fetch addr =
     bindR (node_get fmt env fetch (getAccount_path addr)) (\<lambda>v.
       case account_of_json v of Some a \<Rightarrow> Inr a | None \<Rightarrow> Inl TypeError)"

definition signAndSubmit ::
    "(rat \<Rightarrow> jsstring) \<Rightarrow> js_prims \<Rightarrow> jsstring option \<Rightarrow> fetch
      \<Rightarrow> (jsstring \<Rightarrow> jsstring \<Rightarrow> (js_error, Response) result) \<Rightarrow> UnsignedTx \<Rightarrow> WalletState
      \<Rightarrow> (js_error, json) result" where
  "signAndSubmit fmt Q env fetch post tx st =
     (case (wc_privateKey st, or_empty (wc_address st), or_empty (wc_publicKey st)) of
        (Some privateKey, address, publicKey) \<Rightarrow>
          if address = [] \<or> publicKey = [] then Inl (JsError ''Wallet not unlocked'')
          else bindR (getAccount fmt env fetch address) (\<lambda>acct.
               bindR (computeSignableBytes (fullTx address publicKey acct tx)) (\<lambda>signable.
               submitTransaction fmt env post
                 (submit_request fmt (fullTx address publicKey acct tx) (sign Q privateKey signable))))
      | _ \<Rightarrow> Inl (JsError ''Wallet not unlocked''))"

section \<open>Name lookups\<close>

definition resolveName :: "jsstring \<Rightarrow> WalletState \<Rightarrow> json option \<times> WalletState" where
  "resolveName addr st =
     (case mget (wc_nameCache st) addr of
        Some nm \<Rightarrow> (if json_truthy nm then Some nm else None, st)
      | None \<Rightarrow>
          if addr \<in> set (wc_lookups st) then (None, st)
          else (None, st\<lparr>wc_lookups := addr # wc_lookups st\<rparr>))"

definition resolveName_finish :: "jsstring \<Rightarrow> (js_error, JsAccount) result \<Rightarrow> WalletState \<Rightarrow> WalletState" where
  "resolveName_finish addr reply st =
     (let st = st\<lparr>wc_lookups := removeAll addr (wc_lookups st)\<rparr>
      in case reply of
           Inl _ \<Rightarrow> st
         | Inr acct \<Rightarrow>
             (case ja_name acct of
                Some nm \<Rightarrow> if json_truthy nm then st\<lparr>wc_nameCache := mput addr nm (wc_nameCache st)\<rparr> else st
              | None \<Rightarrow> st))"

section \<open>Executions in which the callbacks do not overlap\<close>

text \<open>\<open>opens\<close>: the private key is the one of the wallet; \<open>sealed\<close>: its stored form is that key, encrypted.\<close>

definition opens :: "js_prims \<Rightarrow> bytes \<Rightarrow> StoredWallet \<Rightarrow> bool" where
  "opens Q key w \<longleftrightarrow> length key = 64 \<and> sw_publicKey w = toHex (drop 32 key)
     \<and> sw_address w = deriveAddress Q (drop 32 key)"

definition sealed :: "js_prims \<Rightarrow> StoredWallet \<Rightarrow> bool" where
  "sealed Q w \<longleftrightarrow> (\<exists>salt iv key pw. opens Q key w \<and> sw_encryptedKey w = encryptPrivateKey Q salt iv key pw)"

text \<open>
  One attempt to decrypt: what comes out is what was encrypted, or the tag is rejected.  AES-GCM gives this for
  the right password, and for a wrong one unless the tag of the ciphertext happens to fit the other key; it is
  assumed of the attempts a run makes, not of all passwords.
\<close>

definition tag_checked :: "js_prims \<Rightarrow> EncryptedKey \<Rightarrow> jsstring \<Rightarrow> bool" where
  "tag_checked Q ek pw \<longleftrightarrow>
     (\<forall>salt iv key pw0 k. ek = encryptPrivateKey Q salt iv key pw0 \<longrightarrow> decryptPrivateKey Q ek pw = Inr k \<longrightarrow> k = key)"

fun key_fits :: "js_prims \<Rightarrow> bytes option \<Rightarrow> StoredWallet option \<Rightarrow> bool" where
  "key_fits Q None w = True"
| "key_fits Q (Some key) None = False"
| "key_fits Q (Some key) (Some w) = opens Q key w"

definition wallet_inv :: "(rat \<Rightarrow> jsstring) \<Rightarrow> js_prims \<Rightarrow> WalletState \<Rightarrow> bool" where
  "wallet_inv fmt Q st \<longleftrightarrow> storage_ok fmt (wc_storage st)
     \<and> wc_allWallets st = snd (loadAllWallets fmt (wc_storage st))
     \<and> wc_stored st = snd (loadActiveWallet fmt (wc_storage st))
     \<and> list_all (sealed Q) (wc_allWallets st)
     \<and> key_fits Q (wc_privateKey st) (wc_stored st)"

text \<open>The part of the invariant about the storage alone.\<close>

definition wallet_synced :: "(rat \<Rightarrow> jsstring) \<Rightarrow> WalletState \<Rightarrow> bool" where
  "wallet_synced fmt st \<longleftrightarrow> storage_ok fmt (wc_storage st)
     \<and> wc_allWallets st = snd (loadAllWallets fmt (wc_storage st))
     \<and> wc_stored st = snd (loadActiveWallet fmt (wc_storage st))"

definition good_name :: "(js_error, JsAccount) result \<Rightarrow> bool" where
  "good_name reply = (case reply of Inl _ \<Rightarrow> True | Inr acct \<Rightarrow> opt_val True json_wf (ja_name acct))"

inductive wallet_run :: "(rat \<Rightarrow> jsstring) \<Rightarrow> js_prims \<Rightarrow> WalletState \<Rightarrow> WalletState \<Rightarrow> bool"
  for fmt Q where
  start: "wallet_run fmt Q st st"
| create: "wallet_run fmt Q st st' \<Longrightarrow> length seed = 32 \<Longrightarrow>
    wallet_run fmt Q st (fst (createWallet fmt Q seed salt iv pw st'))"
| unlock: "wallet_run fmt Q st st' \<Longrightarrow> \<forall>w. wc_stored st' = Some w \<longrightarrow> tag_checked Q (sw_encryptedKey w) pw \<Longrightarrow>
    wallet_run fmt Q st (snd (unlock Q pw st'))"
| lock: "wallet_run fmt Q st st' \<Longrightarrow> wallet_run fmt Q st (lock st')"
| imported: "wallet_run fmt Q st st' \<Longrightarrow>
    wallet_run fmt Q st (snd (importWallet fmt Q salt iv hex pw st'))"
| switch: "wallet_run fmt Q st st' \<Longrightarrow> a \<in> sw_address ` set (wc_allWallets st') \<Longrightarrow>
    wallet_run fmt Q st (switchWallet fmt a st')"
| remove: "wallet_run fmt Q st st' \<Longrightarrow> wallet_run fmt Q st (removeWalletFn fmt a st')"
| refresh: "wallet_run fmt Q st st' \<Longrightarrow> good_name reply \<Longrightarrow>
    wallet_run fmt Q st (refreshBalance_finish fmt (wc_stored st') reply st')"
| resolve: "wallet_run fmt Q st st' \<Longrightarrow> wallet_run fmt Q st (snd (resolveName a st'))"
| resolved: "wallet_run fmt Q st st' \<Longrightarrow> wallet_run fmt Q st (resolveName_finish a reply st')"
| reload: "wallet_run fmt Q st st' \<Longrightarrow> wallet_run fmt Q st (WalletProvider_init fmt (wc_storage st'))"

text \<open>
  What the first session finds in the browser: nothing of the application, or the one wallet that the version with
  a single wallet left under its key.
\<close>

definition first_storage :: "(rat \<Rightarrow> jsstring) \<Rightarrow> js_prims \<Rightarrow> storage \<Rightarrow> bool" where
  "first_storage fmt Q s \<longleftrightarrow> mok s \<and> getItem WALLETS_KEY s = None
     \<and> (case getItem LEGACY_KEY s of
          None \<Rightarrow> getItem ACTIVE_KEY s = None
        | Some raw \<Rightarrow> \<exists>w. raw = JSON_stringify fmt (wallet_json w) \<and> wallet_ok w \<and> sealed Q w)"

section \<open>The invariant\<close>

lemma tag_checked_opens:
  assumes "sealed Q w" "tag_checked Q (sw_encryptedKey w) pw" "decryptPrivateKey Q (sw_encryptedKey w) pw = Inr key"
  shows "opens Q key w"
  using assms unfolding sealed_def tag_checked_def by metis

lemma deriveAddress_nonempty [simp]: "deriveAddress Q pk \<noteq> []"
  by (simp add: deriveAddress_def Let_def js_def)

lemma reloadWallets_ok:
  "storage_ok fmt (wc_storage st) \<Longrightarrow>
     reloadWallets fmt st = st\<lparr>wc_allWallets := snd (loadAllWallets fmt (wc_storage st))\<rparr>"
  by (simp add: reloadWallets_def split: prod.split) (metis fst_conv loadAllWallets_same WalletState.surjective WalletState.update_convs(1))

lemma list_all_upsert:
  assumes "list_all P ws" "P w"
  shows "list_all P (upsert w ws)"
  using assms by (induction ws) auto

text \<open>The common tail of \<^verbatim>\<open>createWallet\<close>, \<^verbatim>\<open>importWallet\<close> and the renaming in \<^verbatim>\<open>refreshBalance\<close>.\<close>

lemma wallet_inv_save:
  assumes "wallet_inv fmt Q st" "wallet_ok w" "sealed Q w"
    and "key_fits Q key (Some w)"
  shows "wallet_inv fmt Q (reloadWallets fmt
    (st\<lparr>wc_storage := saveWallet fmt w (wc_storage st), wc_stored := Some w, wc_privateKey := key\<rparr>))"
proof -
  have ok: "storage_ok fmt (wc_storage st)" using assms(1) by (simp add: wallet_inv_def)
  note saved = ls.ok_save [OF ok assms(2)] ls.wallets_save [OF ok assms(2)] ls.active_save [OF ok assms(2)]
  from saved assms show ?thesis
    by (auto simp: wallet_inv_def reloadWallets_ok list_all_upsert)
qed

text \<open>The wallet object both functions build around a 64-byte key, and what they return.\<close>

definition key_wallet :: "js_prims \<Rightarrow> bytes \<Rightarrow> bytes \<Rightarrow> jsstring \<Rightarrow> bytes \<Rightarrow> StoredWallet" where
  "key_wallet Q salt iv pw key =
     \<lparr>sw_address = deriveAddress Q (drop 32 key), sw_publicKey = toHex (drop 32 key),
      sw_encryptedKey = encryptPrivateKey Q salt iv key pw, sw_name = JStr []\<rparr>"

definition with_wallet :: "(rat \<Rightarrow> jsstring) \<Rightarrow> StoredWallet \<Rightarrow> bytes \<Rightarrow> WalletState \<Rightarrow> WalletState" where
  "with_wallet fmt w key st = reloadWallets fmt
     (st\<lparr>wc_storage := saveWallet fmt w (wc_storage st), wc_stored := Some w, wc_privateKey := Some key\<rparr>)"

lemma createWallet_eq:
  assumes "length seed = 32"
  shows "createWallet fmt Q seed salt iv pw st =
    (let key = seed @ ed_getPublicKey Q seed
     in (with_wallet fmt (key_wallet Q salt iv pw key) key st, toHex key))"
  using assms by (simp add: createWallet_def generateKeyPair_def with_wallet_def key_wallet_def Let_def)

lemma importWallet_eq:
  assumes "length (fromHex hex) = 64"
  shows "importWallet fmt Q salt iv hex pw st =
    (Inr (), with_wallet fmt (key_wallet Q salt iv pw (fromHex hex)) (fromHex hex) st)"
  using assms by (simp add: importWallet_def with_wallet_def key_wallet_def Let_def)

lemma wallet_ok_key_wallet [simp]: "wallet_ok (key_wallet Q salt iv pw key)"
  by (simp add: wallet_ok_def key_wallet_def)

lemma with_wallet_fields:
  assumes "storage_ok fmt (wc_storage st)" "wallet_ok w"
  shows "wc_storage (with_wallet fmt w key st) = saveWallet fmt w (wc_storage st)"
    "wc_stored (with_wallet fmt w key st) = Some w"
    "wc_privateKey (with_wallet fmt w key st) = Some key"
    "wc_allWallets (with_wallet fmt w key st) = upsert w (snd (loadAllWallets fmt (wc_storage st)))"
  using ls.ok_save [OF assms] ls.wallets_save [OF assms]
  by (simp_all add: with_wallet_def reloadWallets_ok)

lemma wallet_inv_with_wallet:
  assumes "wallet_inv fmt Q st" "length key = 64"
  shows "wallet_inv fmt Q (with_wallet fmt (key_wallet Q salt iv pw key) key st)"
proof -
  have o: "opens Q key (key_wallet Q salt iv pw key)" using assms(2) by (simp add: opens_def key_wallet_def)
  moreover have "sw_encryptedKey (key_wallet Q salt iv pw key) = encryptPrivateKey Q salt iv key pw" by (simp add: key_wallet_def)
  ultimately have "sealed Q (key_wallet Q salt iv pw key)" unfolding sealed_def by blast
  with o show ?thesis
    unfolding with_wallet_def by (intro wallet_inv_save [OF assms(1)]) simp_all
qed

lemma wallet_inv_create:
  assumes "wallet_inv fmt Q st" "ed_public_len Q" "length seed = 32"
  shows "wallet_inv fmt Q (fst (createWallet fmt Q seed salt iv pw st))"
  using assms by (simp add: createWallet_eq Let_def wallet_inv_with_wallet ed_public_len_def)

lemma wallet_inv_import:
  assumes "wallet_inv fmt Q st"
  shows "wallet_inv fmt Q (snd (importWallet fmt Q salt iv hex pw st))"
proof (cases "length (fromHex hex) = 64")
  case True
  then show ?thesis using assms by (simp only: importWallet_eq snd_conv wallet_inv_with_wallet)
next
  case False
  with assms show ?thesis by (simp add: importWallet_def Let_def)
qed

lemma wallet_inv_unlock:
  assumes "wallet_inv fmt Q st" and tag: "\<forall>w. wc_stored st = Some w \<longrightarrow> tag_checked Q (sw_encryptedKey w) pw"
  shows "wallet_inv fmt Q (snd (unlock Q pw st))"
proof (cases "wc_stored st")
  case (Some w)
  then have "w \<in> set (wc_allWallets st)"
    using assms(1) ls.active_member(2) by (auto simp: wallet_inv_def)
  then have "sealed Q w" using assms(1) by (simp add: wallet_inv_def list_all_iff)
  show ?thesis
  proof (cases "decryptPrivateKey Q (sw_encryptedKey w) pw")
    case (Inl e)
    with Some assms show ?thesis by (simp add: unlock_def unlock_finish_def)
  next
    case (Inr key)
    then have "opens Q key w" using tag_checked_opens [OF \<open>sealed Q w\<close>] tag Some by blast
    moreover have "snd (unlock Q pw st) = st\<lparr>wc_privateKey := Some key\<rparr>"
      using Some Inr by (simp add: unlock_def unlock_finish_def)
    moreover have "key_fits Q (Some key) (wc_stored st)" using Some \<open>opens Q key w\<close> by simp
    ultimately show ?thesis using assms(1) by (auto simp: wallet_inv_def)
  qed
next
  case None
  with assms show ?thesis by (simp add: unlock_def unlock_finish_def)
qed

lemma wallet_inv_switch:
  assumes "wallet_inv fmt Q st" "a \<in> sw_address ` set (wc_allWallets st)"
  shows "wallet_inv fmt Q (switchWallet fmt a st)"
proof -
  have ok: "storage_ok fmt (wc_storage st)"
    and ws: "wc_allWallets st = snd (loadAllWallets fmt (wc_storage st))"
    using assms(1) by (simp_all add: wallet_inv_def)
  obtain w where w: "w \<in> set (wc_allWallets st)" "a = sw_address w" using assms(2) by auto
  have act: "storage_ok fmt (setActiveWallet a (wc_storage st))"
    "snd (loadAllWallets fmt (setActiveWallet a (wc_storage st))) = wc_allWallets st"
    "snd (loadActiveWallet fmt (setActiveWallet a (wc_storage st))) = Some w"
    using ls.ok_activate [OF ok, of a] ls.wallets_activate [OF ok, of a]
      ls.active_activate [OF ok, of w] w assms(2) by (simp_all add: ws)
  have "find_wallet a (wc_allWallets st) = Some w"
    using w ls.distinct_wallets [OF ok] unfolding ws by (simp add: find_wallet_distinct)
  then have "switchWallet fmt a st = st\<lparr>wc_privateKey := None,
      wc_storage := setActiveWallet a (wc_storage st), wc_stored := Some w,
      wc_balance := Num 0, wc_stakedBalance := Num 0\<rparr>"
    using act(2) loadAllWallets_same [OF act(1)]
    by (cases "loadAllWallets fmt (setActiveWallet a (wc_storage st))") (simp add: switchWallet_def)
  with act assms(1) show ?thesis by (auto simp: wallet_inv_def)
qed

lemma wallet_inv_remove:
  assumes "wallet_inv fmt Q st"
  shows "wallet_inv fmt Q (removeWalletFn fmt a st)"
proof -
  define s where "s = removeWallet fmt a (wc_storage st)"
  have ok: "storage_ok fmt (wc_storage st)"
    and ws: "wc_allWallets st = snd (loadAllWallets fmt (wc_storage st))"
    and stored: "wc_stored st = snd (loadActiveWallet fmt (wc_storage st))"
    using assms by (simp_all add: wallet_inv_def)
  have s: "storage_ok fmt s" using ls.ok_remove [OF ok] by (simp add: s_def)
  have rest: "snd (loadAllWallets fmt s) = filter (\<lambda>w. sw_address w \<noteq> a) (wc_allWallets st)"
    using ls.wallets_remove [OF ok] by (simp add: s_def ws)
  obtain vs where eq: "loadAllWallets fmt s = (s, vs)"
    using loadAllWallets_same [OF s] by (metis prod.collapse)
  have active: "snd (loadActiveWallet fmt s) =
      (if Some a = wc_address st then (case snd (loadAllWallets fmt s) of w # _ \<Rightarrow> Some w | [] \<Rightarrow> None)
       else wc_stored st)"
  proof -
    have "Some a = wc_address st \<longleftrightarrow> map_option sw_address (snd (loadActiveWallet fmt (wc_storage st))) = Some a"
      by (simp only: wc_address_def stored eq_commute [of "Some a"])
    then show ?thesis using ls.active_remove [OF ok, of a] by (simp only: s_def stored)
  qed
  have "removeWalletFn fmt a st = st\<lparr>wc_storage := s, wc_allWallets := snd (loadAllWallets fmt s),
      wc_stored := snd (loadActiveWallet fmt s),
      wc_privateKey := (if Some a = wc_address st then None else wc_privateKey st)\<rparr>"
    unfolding active by (simp add: removeWalletFn_def reloadWallets_def Let_def eq flip: s_def)
  moreover have "list_all (sealed Q) (snd (loadAllWallets fmt s))"
    using assms by (simp add: rest wallet_inv_def list_all_iff)
  ultimately show ?thesis
    using assms s active by (auto simp: wallet_inv_def)
qed

lemma wallet_inv_balances:
  "wallet_inv fmt Q (st\<lparr>wc_balance := x\<rparr>) = wallet_inv fmt Q st"
  "wallet_inv fmt Q (st\<lparr>wc_stakedBalance := x\<rparr>) = wallet_inv fmt Q st"
  "wallet_inv fmt Q (st\<lparr>wc_postStakeBalance := x\<rparr>) = wallet_inv fmt Q st"
  "wallet_inv fmt Q (st\<lparr>wc_nameCache := c\<rparr>) = wallet_inv fmt Q st"
  "wallet_inv fmt Q (st\<lparr>wc_lookups := l\<rparr>) = wallet_inv fmt Q st"
  by (simp_all add: wallet_inv_def)

lemma opens_rename: "opens Q k (w\<lparr>sw_name := n\<rparr>) = opens Q k w"
  by (simp add: opens_def)

lemma sealed_rename: "sealed Q (w\<lparr>sw_name := n\<rparr>) = sealed Q w"
  by (simp add: sealed_def opens_rename)

lemma wallet_inv_rename:
  assumes "wallet_inv fmt Q st" "wc_stored st = Some w" "json_wf n"
  shows "wallet_inv fmt Q (reloadWallets fmt (st\<lparr>wc_stored := Some (w\<lparr>sw_name := n\<rparr>),
    wc_storage := saveWallet fmt (w\<lparr>sw_name := n\<rparr>) (wc_storage st)\<rparr>))"
proof -
  have ok: "storage_ok fmt (wc_storage st)"
    and w: "w \<in> set (wc_allWallets st)"
    using assms(1,2) ls.active_member(2) by (auto simp: wallet_inv_def)
  have "wallet_ok w" using ok assms(1) w
    by (auto simp: wallet_inv_def stored_as_def list_all_iff elim!: storage_okE)
  moreover have "sealed Q w" using assms(1) w by (simp add: wallet_inv_def list_all_iff)
  moreover have "key_fits Q (wc_privateKey st) (Some (w\<lparr>sw_name := n\<rparr>))"
    using assms(1,2) by (cases "wc_privateKey st") (auto simp: wallet_inv_def opens_rename)
  ultimately have "wallet_inv fmt Q (reloadWallets fmt
      (st\<lparr>wc_storage := saveWallet fmt (w\<lparr>sw_name := n\<rparr>) (wc_storage st),
          wc_stored := Some (w\<lparr>sw_name := n\<rparr>), wc_privateKey := wc_privateKey st\<rparr>))"
    using assms(3) by (intro wallet_inv_save [OF assms(1)]) (simp_all add: wallet_ok_def sealed_rename)
  moreover have "st\<lparr>wc_storage := x, wc_stored := y, wc_privateKey := wc_privateKey st\<rparr>
      = st\<lparr>wc_stored := y, wc_storage := x\<rparr>" for x y
    by (cases st) simp
  ultimately show ?thesis by metis
qed

lemma wallet_inv_refresh:
  assumes "wallet_inv fmt Q st" "good_name reply"
  shows "wallet_inv fmt Q (refreshBalance_finish fmt (wc_stored st) reply st)"
proof (cases "wc_stored st")
  case (Some w)
  show ?thesis
  proof (cases reply)
    case (Inr acct)
    define st1 where "st1 = st\<lparr>wc_balance := ja_balance acct, wc_stakedBalance := ja_stakedBalance acct,
      wc_postStakeBalance := js_or_zero (ja_postStakeBalance acct)\<rparr>"
    have st1: "wallet_inv fmt Q st1" "wc_stored st1 = Some w"
      using assms(1) Some by (simp_all add: st1_def wallet_inv_balances)
    show ?thesis
    proof (cases "ja_name acct")
      case (Some nm)
      define st2 where "st2 = st1\<lparr>wc_nameCache := mput (sw_address w) nm (wc_nameCache st1)\<rparr>"
      have "wallet_inv fmt Q st2" "wc_stored st2 = Some w"
        using st1 by (simp_all add: st2_def wallet_inv_balances)
      moreover have "json_wf nm" using assms(2) Inr Some by (simp add: good_name_def)
      ultimately have "wallet_inv fmt Q (reloadWallets fmt (st2\<lparr>wc_stored := Some (w\<lparr>sw_name := nm\<rparr>),
          wc_storage := saveWallet fmt (w\<lparr>sw_name := nm\<rparr>) (wc_storage st2)\<rparr>))"
        by (rule wallet_inv_rename)
      with \<open>wallet_inv fmt Q st2\<close> st1 assms(1) Some \<open>wc_stored st = Some w\<close> Inr show ?thesis
        by (simp add: refreshBalance_finish_def Let_def flip: st1_def st2_def) 
    qed (use Inr Some st1 assms(1) in \<open>simp add: refreshBalance_finish_def flip: st1_def\<close>)
  qed (use Some assms(1) in \<open>simp add: refreshBalance_finish_def\<close>)
qed (use assms(1) in \<open>simp add: refreshBalance_finish_def\<close>)

lemma wallet_inv_resolve:
  assumes "wallet_inv fmt Q st"
  shows "wallet_inv fmt Q (snd (resolveName a st))" "wallet_inv fmt Q (resolveName_finish a reply st)"
  using assms by (auto simp: resolveName_def resolveName_finish_def wallet_inv_balances Let_def
      split: option.splits sum.splits)

text \<open>
  Starting the provider: \<^verbatim>\<open>loadActiveWallet\<close> migrates a wallet of the old format, and what is read afterwards is the
  storage it left.
\<close>

lemma migrate_ok [simp]: "storage_ok fmt s \<Longrightarrow> migrate fmt s = s"
  by (erule storage_okE) (rule migrate_stored_as)

lemma init_migrated:
  assumes "storage_ok fmt (migrate fmt s)"
  shows "WalletProvider_init fmt s = \<lparr>wc_storage = migrate fmt s, wc_stored = snd (loadActiveWallet fmt (migrate fmt s)),
    wc_allWallets = snd (loadAllWallets fmt (migrate fmt s)), wc_privateKey = None, wc_balance = Num 0,
    wc_stakedBalance = Num 0, wc_postStakeBalance = Num 0, wc_nameCache = [], wc_lookups = []\<rparr>"
proof -
  define t ws where "t = migrate fmt s" and "ws = snd (loadAllWallets fmt (migrate fmt s))"
  have t: "migrate fmt t = t" "loadAllWallets fmt t = (t, ws)"
    using assms loadAllWallets_same [of fmt t] by (simp_all add: t_def ws_def prod_eq_iff)
  have eq: "loadActiveWallet fmt s = loadActiveWallet fmt t"
    unfolding loadActiveWallet_def t(1) t_def [symmetric] ..
  have "fst (loadActiveWallet fmt t) = t"
    unfolding loadActiveWallet_def t Let_def by (simp split: option.split)
  then obtain w where w: "loadActiveWallet fmt t = (t, w)" by (metis prod.collapse)
  show ?thesis
    unfolding WalletProvider_init_def eq t_def [symmetric] w ws_def [symmetric] by (simp add: t w)
qed

lemma wallet_inv_start:
  assumes "storage_ok fmt (migrate fmt s)" "list_all (sealed Q) (snd (loadAllWallets fmt (migrate fmt s)))"
  shows "wallet_inv fmt Q (WalletProvider_init fmt s)"
  using assms by (simp add: init_migrated wallet_inv_def)

lemma wallet_inv_reload:
  assumes "wallet_inv fmt Q st"
  shows "wallet_inv fmt Q (WalletProvider_init fmt (wc_storage st))"
  using assms unfolding wallet_inv_def by (intro wallet_inv_start [unfolded wallet_inv_def]) (metis migrate_ok)+

lemma wallet_inv_first:
  assumes "first_storage fmt Q s"
  shows "wallet_inv fmt Q (WalletProvider_init fmt s)"
proof (cases "getItem LEGACY_KEY s")
  case None
  then have st: "stored_as fmt [] s" and act: "getItem ACTIVE_KEY s = None"
    using assms by (simp_all add: first_storage_def stored_as_def)
  then have "storage_ok fmt s" unfolding storage_ok_iff by (intro exI [of _ "[]"]) simp
  then show ?thesis using loadAllWallets_stored_as [OF st] by (intro wallet_inv_start) simp_all
next
  case (Some raw)
  then obtain w where w: "getItem LEGACY_KEY s = Some (JSON_stringify fmt (wallet_json w))" "wallet_ok w" "sealed Q w"
    and s: "mok s" "falsy_item (getItem WALLETS_KEY s)"
    using assms by (auto simp: first_storage_def falsy_item_def)
  from migrate_legacy [OF s w(1,2)] w(3) show ?thesis by (intro wallet_inv_start) simp_all
qed

lemma wallet_inv_run:
  assumes "wallet_run fmt Q st st'" "wallet_inv fmt Q st" "ed_public_len Q"
  shows "wallet_inv fmt Q st'"
  using assms
proof (induction rule: wallet_run.induct)
  case (lock st st')
  then have "wallet_inv fmt Q st'" by blast
  then show ?case by (auto simp: lock_def wallet_inv_def)
qed (simp_all add: wallet_inv_create wallet_inv_unlock wallet_inv_import wallet_inv_switch
    wallet_inv_remove wallet_inv_refresh wallet_inv_resolve wallet_inv_reload)

section \<open>Properties\<close>

lemma wallet_inv_init: "wallet_inv fmt Q (WalletProvider_init fmt [])"
  by (rule wallet_inv_first) (simp add: first_storage_def)


text \<open>
  C22: a wallet that was created and locked is unlocked by its password, and then the same private key is
  in memory.
\<close>

theorem create_lock_unlock:
  assumes "aes_gcm_correct Q" "storage_ok fmt (wc_storage st)" "length seed = 32"
  shows "unlock Q pw (lock (fst (createWallet fmt Q seed salt iv pw st)))
    = (Inr (), fst (createWallet fmt Q seed salt iv pw st))"
proof -
  define key where "key = seed @ ed_getPublicKey Q seed"
  define w where "w = key_wallet Q salt iv pw key"
  define st1 where "st1 = fst (createWallet fmt Q seed salt iv pw st)"
  have "st1 = with_wallet fmt w key st"
    using assms(3) by (simp add: st1_def createWallet_eq Let_def w_def key_def)
  then have "wc_stored st1 = Some w" "wc_privateKey st1 = Some key"
    using with_wallet_fields [OF assms(2), of w] by (simp_all add: w_def)
  moreover have "decryptPrivateKey Q (sw_encryptedKey w) pw = Inr key"
    using decrypt_encrypt [OF assms(1)] by (simp add: w_def key_wallet_def)
  ultimately show ?thesis
    by (simp add: unlock_def unlock_finish_def lock_def flip: st1_def)
qed

text \<open>
  The private key shown after creation is a complete backup: importing it, in any browser, gives a
  wallet with the same address and public key, unlocked with the same private key.
\<close>

theorem import_created_key:
  assumes "ed_public_len Q" "length seed = 32"
    and "createWallet fmt Q seed salt iv pw st = (st1, hex)"
    and "importWallet fmt Q salt' iv' hex pw' st' = (r, st2)"
    and "storage_ok fmt (wc_storage st)" "storage_ok fmt (wc_storage st')"
  shows "r = Inr () \<and> wc_address st2 = wc_address st1 \<and> wc_publicKey st2 = wc_publicKey st1
    \<and> wc_privateKey st2 = wc_privateKey st1"
proof -
  define key where "key = seed @ ed_getPublicKey Q seed"
  have len: "length key = 64" using assms(1,2) by (simp add: key_def ed_public_len_def)
  have st1: "st1 = with_wallet fmt (key_wallet Q salt iv pw key) key st" "fromHex hex = key"
    using assms(2,3) by (auto simp: createWallet_eq Let_def key_def)
  have "r = Inr ()" "st2 = with_wallet fmt (key_wallet Q salt' iv' pw' key) key st'"
    using assms(4) len st1(2) by (simp_all add: importWallet_eq)
  then show ?thesis
    by (simp add: st1 with_wallet_fields assms(5,6) wc_address_def wc_publicKey_def)
      (simp add: key_wallet_def)
qed

text \<open>
  C39: when the user switches wallets while an unlock is decrypting, the unlock still stores its key: the
  new wallet is then shown as unlocked with a private key that is not its own.
\<close>

theorem unlock_overtaken_by_switch:
  assumes "wallet_synced fmt st" "wc_stored st = Some w" "v \<in> set (wc_allWallets st)"
    and "sw_address v \<noteq> sw_address w"
    and "decryptPrivateKey Q (sw_encryptedKey w) pw = Inr key" "opens Q key w"
  shows "let st' = snd (unlock_finish Q (wc_stored st) pw (switchWallet fmt (sw_address v) st))
    in isUnlocked st' \<and> wc_stored st' = Some v \<and> \<not> key_fits Q (wc_privateKey st') (wc_stored st')"
proof -
  define st1 where "st1 = switchWallet fmt (sw_address v) st"
  have ok: "storage_ok fmt (wc_storage st)"
    and ws: "wc_allWallets st = snd (loadAllWallets fmt (wc_storage st))"
    using assms(1) by (simp_all add: wallet_synced_def)
  have "find_wallet (sw_address v) (snd (loadAllWallets fmt (setActiveWallet (sw_address v) (wc_storage st))))
      = Some v"
    using ls.wallets_activate [OF ok] ls.distinct_wallets [OF ok] assms(3)
    by (simp add: ws find_wallet_distinct)
  then have v: "wc_stored st1 = Some v"
    by (cases "loadAllWallets fmt (setActiveWallet (sw_address v) (wc_storage st))")
      (simp add: st1_def switchWallet_def)
  have "\<not> opens Q key v" using assms(4,6) by (auto simp: opens_def)
  with v assms(2,5) show ?thesis
    by (simp add: unlock_finish_def isUnlocked_def Let_def flip: st1_def)
qed

section \<open>Witnesses\<close>

text \<open>Primitives on which the documented facts hold: padding for the digest, a tag for the cipher.\<close>

definition pad32 :: "bytes \<Rightarrow> bytes" where
  "pad32 x = take 32 (x @ replicate 32 0)"

definition sample_prims :: js_prims where
  "sample_prims =
     \<lparr>noble_sha256 = pad32, ed_getPublicKey = (\<lambda>seed. map (\<lambda>b. b + 1) (pad32 seed)),
      ed_sign = (\<lambda>m seed. pad32 seed @ pad32 m), pbkdf2 = (\<lambda>pw salt n. pad32 (pw @ salt)),
      aes_gcm_encrypt = (\<lambda>k iv m. m @ pad32 k),
      aes_gcm_decrypt = (\<lambda>k iv c. if drop (length c - 32) c = pad32 k then Some (take (length c - 32) c) else None)\<rparr>"

lemma length_pad32 [simp]: "length (pad32 x) = 32" by (simp add: pad32_def)

lemma sample_prims_ok:
  "aes_gcm_correct sample_prims" "ed_public_len sample_prims" "noble_sha256_len sample_prims"
  by (auto simp: aes_gcm_correct_def ed_public_len_def noble_sha256_len_def
      sample_prims_def split: if_splits)

definition sample_fmt :: "rat \<Rightarrow> jsstring" where "sample_fmt x = []"

definition sample_st :: WalletState where
  "sample_st = fst (createWallet sample_fmt sample_prims (replicate 32 7) [1] [2] (js ''pw'')
     (WalletProvider_init sample_fmt []))"

lemma sample_run: "wallet_run sample_fmt sample_prims (WalletProvider_init sample_fmt []) sample_st"
  unfolding sample_st_def by (rule wallet_run.create [OF wallet_run.start]) simp

lemma sample_inv: "wallet_inv sample_fmt sample_prims sample_st"
  using wallet_inv_run [OF sample_run wallet_inv_init sample_prims_ok(2)] .









lemma sample_storage_ok: "storage_ok sample_fmt (wc_storage (WalletProvider_init sample_fmt []))"
  using wallet_inv_init by (auto simp: wallet_inv_def)

theorem create_lock_unlock_witness:
  "unlock sample_prims (js ''pw'') (lock sample_st) = (Inr (), sample_st)"
  unfolding sample_st_def by (rule create_lock_unlock [OF sample_prims_ok(1) sample_storage_ok]) simp

theorem import_created_key_witness:
  "let (st1, hex) = createWallet sample_fmt sample_prims (replicate 32 7) [1] [2] (js ''pw'')
         (WalletProvider_init sample_fmt []);
       (r, st2) = importWallet sample_fmt sample_prims [3] [4] hex (js ''other'')
         (WalletProvider_init sample_fmt [])
   in r = Inr () \<and> wc_address st2 = wc_address st1 \<and> wc_publicKey st2 = wc_publicKey st1
      \<and> wc_privateKey st2 = wc_privateKey st1"
proof -
  obtain st1 hex where c: "createWallet sample_fmt sample_prims (replicate 32 7) [1] [2] (js ''pw'')
      (WalletProvider_init sample_fmt []) = (st1, hex)" by fastforce
  obtain r st2 where i: "importWallet sample_fmt sample_prims [3] [4] hex (js ''other'')
      (WalletProvider_init sample_fmt []) = (r, st2)" by fastforce
  from import_created_key [OF sample_prims_ok(2) _ c i sample_storage_ok sample_storage_ok]
  show ?thesis by (simp add: c i)
qed

definition sample_key :: "byte \<Rightarrow> bytes" where
  "sample_key b = replicate 32 b @ ed_getPublicKey sample_prims (replicate 32 b)"

definition sample_wallet :: "byte \<Rightarrow> StoredWallet" where
  "sample_wallet b = key_wallet sample_prims [1] [2] (js ''pw'') (sample_key b)"

definition sample_st2 :: WalletState where
  "sample_st2 = fst (createWallet sample_fmt sample_prims (replicate 32 9) [1] [2] (js ''pw'') sample_st)"

lemma sample_wallets_differ: "sw_address (sample_wallet 7) \<noteq> sw_address (sample_wallet 9)"
  by (simp add: sample_wallet_def key_wallet_def sample_key_def deriveAddress_def sample_prims_def pad32_def
      Let_def js_def)

theorem unlock_overtaken_by_switch_witness:
  "let st' = snd (unlock_finish sample_prims (Some (sample_wallet 9)) (js ''pw'')
         (switchWallet sample_fmt (sw_address (sample_wallet 7)) sample_st2))
    in isUnlocked st' \<and> wc_stored st' = Some (sample_wallet 7)
       \<and> \<not> key_fits sample_prims (wc_privateKey st') (wc_stored st')"
proof -
  note inv = sample_inv
  then have inv2: "wallet_inv sample_fmt sample_prims sample_st2"
    using sample_prims_ok(2) unfolding sample_st2_def by (rule wallet_inv_create) simp
  then have synced: "wallet_synced sample_fmt sample_st2" by (simp add: wallet_inv_def wallet_synced_def)
  have ok: "storage_ok sample_fmt (wc_storage sample_st)" using inv by (simp add: wallet_inv_def)
  have st: "sample_st = with_wallet sample_fmt (sample_wallet 7) (sample_key 7) (WalletProvider_init sample_fmt [])"
    "sample_st2 = with_wallet sample_fmt (sample_wallet 9) (sample_key 9) sample_st"
    by (simp_all add: sample_st_def sample_st2_def createWallet_eq Let_def sample_wallet_def sample_key_def)
  have w: "wallet_ok (sample_wallet b)" for b by (simp add: sample_wallet_def)
  have all: "snd (loadAllWallets sample_fmt (wc_storage sample_st)) = wc_allWallets sample_st"
    using inv by (simp add: wallet_inv_def)
  have "sample_wallet 7 \<in> set (wc_allWallets sample_st)"
    unfolding st(1) with_wallet_fields(4) [OF sample_storage_ok w]
    using ls.distinct_wallets [OF sample_storage_ok] by (simp add: upsert_members)
  then have "sample_wallet 7 \<in> set (wc_allWallets sample_st2)"
    unfolding st(2) with_wallet_fields(4) [OF ok w] all
    using ls.distinct_wallets [OF ok] all sample_wallets_differ by (simp add: upsert_members)
  moreover have stored: "wc_stored sample_st2 = Some (sample_wallet 9)"
    unfolding st(2) by (rule with_wallet_fields(2) [OF ok w])
  moreover have "decryptPrivateKey sample_prims (sw_encryptedKey (sample_wallet 9)) (js ''pw'') = Inr (sample_key 9)"
    using decrypt_encrypt [OF sample_prims_ok(1)] by (simp add: sample_wallet_def key_wallet_def)
  moreover have "opens sample_prims (sample_key 9) (sample_wallet 9)"
    using sample_prims_ok(2) by (simp add: opens_def sample_wallet_def key_wallet_def sample_key_def ed_public_len_def)
  ultimately show ?thesis
    using unlock_overtaken_by_switch [OF synced _ _ sample_wallets_differ] by (simp add: stored)
qed

end
