(* ===== verification/Ui.thy ===== *)
theory Ui
  imports PendingTxs WalletContext
begin

text \<open>
  What the components render, without markup and styles: a tree of texts, inputs and buttons.  A button
  carries the action of its \<^verbatim>\<open>onClick\<close> and whether it is disabled; the actions of a component are a datatype
  of its own.  Here also the small display components and what the transaction forms share.
\<close>

section \<open>Rendered trees\<close>

datatype 'a node =
    Text jsstring
  | Input jsstring jsstring
  | Button jsstring bool 'a
  | Link jsstring 'a
  | Checkbox bool 'a
  | Modal jsstring 'a "'a node list"

text \<open>
  \<^verbatim>\<open>components/Modal.tsx\<close>: Escape, a click on the overlay and the cross all call \<^verbatim>\<open>onClose\<close>.  \<open>actions\<close> are the
  actions a user can trigger; a disabled button triggers none.
\<close>

fun actions :: "'a node \<Rightarrow> 'a list" where
  "actions (Text s) = []"
| "actions (Input p v) = []"
| "actions (Button l disabled a) = (if disabled then [] else [a])"
| "actions (Link l a) = [a]"
| "actions (Checkbox b a) = [a]"
| "actions (Modal title onClose ns) = onClose # concat (map actions ns)"

fun children :: "'a node \<Rightarrow> 'a node list" where
  "children (Modal title onClose ns) = ns"
| "children n = []"

definition shown_if :: "bool \<Rightarrow> 'a node list \<Rightarrow> 'a node list" where
  "shown_if b ns = (if b then ns else [])"

section \<open>DranaAmount.tsx and TimeAgo.tsx\<close>

definition drana_text :: "(rat \<Rightarrow> jsstring) \<Rightarrow> jsnum \<Rightarrow> jsstring" where
  "drana_text fmt microdrana = js_toFixed fmt 2 (js_div_const microdrana 1000000)"

definition DranaAmount :: "(rat \<Rightarrow> jsstring) \<Rightarrow> jsnum \<Rightarrow> jsstring" where
  "DranaAmount fmt microdrana = drana_text fmt microdrana @ js '' DRANA''"

definition TimeAgo :: "(rat \<Rightarrow> jsstring) \<Rightarrow> jsnum \<Rightarrow> jsnum \<Rightarrow> jsstring" where
  "TimeAgo fmt now timestamp =
     (let seconds = js_floor (js_sub (js_div_const now 1000) timestamp) in
      if js_less seconds (Num 60) then js_String fmt seconds @ js ''s ago''
      else if js_less seconds (Num 3600) then js_String fmt (js_floor (js_div_const seconds 60)) @ js ''m ago''
      else if js_less seconds (Num 86400) then js_String fmt (js_floor (js_div_const seconds 3600)) @ js ''h ago''
      else js_String fmt (js_floor (js_div_const seconds 86400)) @ js ''d ago'')"

section \<open>Transaction forms\<close>

text \<open>
  \<^verbatim>\<open>SubmitTxResponse\<close> of \<^verbatim>\<open>api/types.ts\<close>, and the three fields every transaction form keeps.  \<open>msg\<close> is
  \<^verbatim>\<open>e.message\<close> of a caught exception.
\<close>

record SubmitTxResponse =
  sr_accepted :: bool
  sr_txHash :: "jsstring option"
  sr_error :: "jsstring option"

record TxForm =
  tf_error :: jsstring
  tf_loading :: bool
  tf_success :: jsstring

definition empty_form :: TxForm where
  "empty_form = \<lparr>tf_error = [], tf_loading = False, tf_success = []\<rparr>"

definition js_or :: "jsstring option \<Rightarrow> jsstring \<Rightarrow> jsstring" where
  "js_or x d = (case x of Some s \<Rightarrow> if s \<noteq> [] then s else d | None \<Rightarrow> d)"

text \<open>\<^verbatim>\<open>`${resp.txHash?.slice(0, 16)}...`\<close>: an absent hash prints as \<^verbatim>\<open>undefined\<close>.\<close>

definition hash_text :: "SubmitTxResponse \<Rightarrow> jsstring" where
  "hash_text resp =
     (case sr_txHash resp of Some h \<Rightarrow> js_slice h 0 16 | None \<Rightarrow> js ''undefined'') @ js ''...''"

definition pending_of :: "SubmitTxResponse \<Rightarrow> UnsignedTx \<Rightarrow> bool \<Rightarrow> PendingTx" where
  "pending_of resp tx withText =
     \<lparr>pt_hash = js_or (sr_txHash resp) [], pt_type = ut_type tx,
      pt_text = (if withText then ut_text tx else None), pt_channel = (if withText then ut_channel tx else None),
      pt_amount = ut_amount tx, pt_submittedAt = 0, pt_status = Pending\<rparr>"

definition fail :: "jsstring \<Rightarrow> 'a TxForm_scheme \<Rightarrow> 'a TxForm_scheme" where
  "fail e f = f\<lparr>tf_error := e\<rparr>"

definition start_loading :: "'a TxForm_scheme \<Rightarrow> 'a TxForm_scheme" where
  "start_loading f = f\<lparr>tf_loading := True, tf_error := []\<rparr>"

text \<open>
  The \<^verbatim>\<open>try\<close> block after \<^verbatim>\<open>await signAndSubmit(...)\<close>: the form, and the transaction to pass to \<^verbatim>\<open>addPending\<close>.
\<close>

definition finish_form ::
    "(js_error \<Rightarrow> jsstring) \<Rightarrow> (SubmitTxResponse \<Rightarrow> jsstring) \<Rightarrow> (SubmitTxResponse \<Rightarrow> PendingTx)
      \<Rightarrow> (js_error, SubmitTxResponse) result \<Rightarrow> 'a TxForm_scheme \<Rightarrow> 'a TxForm_scheme \<times> PendingTx option" where
  "finish_form msg done_text pend reply f =
     (case reply of
        Inl e \<Rightarrow> (f\<lparr>tf_error := msg e, tf_loading := False\<rparr>, None)
      | Inr resp \<Rightarrow>
          if sr_accepted resp
          then (f\<lparr>tf_success := done_text resp, tf_loading := False\<rparr>, Some (pend resp))
          else (f\<lparr>tf_error := js_or (sr_error resp) (js ''Rejected''), tf_loading := False\<rparr>, None))"

definition insufficient :: "(rat \<Rightarrow> jsstring) \<Rightarrow> jsnum \<Rightarrow> jsstring" where
  "insufficient fmt available =
     js ''Insufficient balance. Available: '' @ drana_text fmt available @ js '' DRANA''"

text \<open>\<^verbatim>\<open>Math.floor(parseFloat(amount) * 1_000_000)\<close>.\<close>

definition to_microdrana :: "jsstring \<Rightarrow> jsnum" where
  "to_microdrana amount = js_floor (js_mul (parseFloat amount) (Num 1000000))"

definition js_const :: "rat \<Rightarrow> jsnum" where
  "js_const r = js_of_rat r"

text \<open>\<^verbatim>\<open>(parseFloat(amount) * c).toFixed(2)\<close>.\<close>

definition part_of :: "(rat \<Rightarrow> jsstring) \<Rightarrow> jsstring \<Rightarrow> rat \<Rightarrow> jsstring" where
  "part_of fmt amount c = js_toFixed fmt 2 (js_mul (parseFloat amount) (js_const c))"

definition excerpt :: "jsstring \<Rightarrow> jsstring" where
  "excerpt text = js ''\"'' @ (if length text > 80 then js_slice text 0 80 @ js ''...'' else text) @ js ''\"''"

section \<open>Facts\<close>

lemma shown_if_set [simp]: "set (shown_if b ns) = (if b then set ns else {})"
  by (simp add: shown_if_def)

lemma js_floor_int: "js_floor x = Num r \<Longrightarrow> rat_is_int r"
  by (auto simp: js_floor_def split: jsnum.splits)

lemma finish_form_pending:
  "snd (finish_form msg d p reply f) = Some t \<longleftrightarrow> (\<exists>resp. reply = Inr resp \<and> sr_accepted resp \<and> t = p resp)"
  by (auto simp: finish_form_def split: sum.splits)

end
