(* ===== verification/WalletForms.thy ===== *)
theory WalletForms
  imports Ui GoText
begin

text \<open>
  \<^verbatim>\<open>drana-app/src/wallet/WalletModals.tsx\<close>: the dialogs that create, unlock, import and remove wallets and
  register a name.  The callbacks of the wallet context are those of the theory \<open>WalletContext\<close>; a dialog only
  decides when to call them and what to show.
\<close>

section \<open>CreateWalletModal\<close>

record CreateForm =
  cf_password :: jsstring
  cf_confirm :: jsstring
  cf_error :: jsstring
  cf_loading :: bool
  cf_privateKeyHex :: jsstring
  cf_copied :: bool
  cf_confirmed :: bool

definition CreateForm_init :: CreateForm where
  "CreateForm_init = \<lparr>cf_password = [], cf_confirm = [], cf_error = [], cf_loading = False,
     cf_privateKeyHex = [], cf_copied = False, cf_confirmed = False\<rparr>"

datatype create_action = CloseCreate | KeepOpen | DoCreate | DoCopy | SetConfirmed bool

text \<open>\<open>True\<close> when \<^verbatim>\<open>handleCreate\<close> goes on to \<^verbatim>\<open>createWallet(password)\<close>.\<close>

definition handleCreate_start :: "CreateForm \<Rightarrow> CreateForm \<times> bool" where
  "handleCreate_start f =
     (if length (cf_password f) < 6 then (f\<lparr>cf_error := js ''Password must be at least 6 characters''\<rparr>, False)
      else if cf_password f \<noteq> cf_confirm f then (f\<lparr>cf_error := js ''Passwords do not match''\<rparr>, False)
      else (f\<lparr>cf_loading := True\<rparr>, True))"

definition handleCreate_finish :: "(js_error \<Rightarrow> jsstring) \<Rightarrow> (js_error, jsstring) result \<Rightarrow> CreateForm \<Rightarrow> CreateForm" where
  "handleCreate_finish msg reply f =
     (case reply of
        Inr keyHex \<Rightarrow> f\<lparr>cf_privateKeyHex := keyHex, cf_loading := False\<rparr>
      | Inl e \<Rightarrow> f\<lparr>cf_error := msg e, cf_loading := False\<rparr>)"

text \<open>\<^verbatim>\<open>handleCopy\<close>: the flag is set when the clipboard accepted the key and cleared by the timer.\<close>

definition handleCopy :: "bool \<Rightarrow> CreateForm \<Rightarrow> CreateForm" where
  "handleCopy timer f = f\<lparr>cf_copied := \<not> timer\<rparr>"

definition CreateWalletModal :: "jsstring option \<Rightarrow> CreateForm \<Rightarrow> create_action node" where
  "CreateWalletModal address f =
     (if cf_privateKeyHex f \<noteq> []
      then Modal (js ''Back Up Your Private Key'') (if cf_confirmed f then CloseCreate else KeepOpen)
        [Text (js ''Save this key now. It will never be shown again.''),
         Text (js ''YOUR ADDRESS''), Text (js_or address []), Text (js ''YOUR PRIVATE KEY''),
         Input [] (cf_privateKeyHex f),
         Button (if cf_copied f then js ''Copied!'' else js ''Copy'') False DoCopy,
         Checkbox (cf_confirmed f) (SetConfirmed (\<not> cf_confirmed f)),
         Button (js ''I've Saved My Key'') (\<not> cf_confirmed f) CloseCreate]
      else Modal (js ''Create Wallet'') CloseCreate
        ([Text (js ''Choose a password to encrypt your private key.''),
          Input (js ''Password'') (cf_password f), Input (js ''Confirm password'') (cf_confirm f)]
         @ shown_if (cf_error f \<noteq> []) [Text (cf_error f)]
         @ [Button (if cf_loading f then js ''Creating...'' else js ''Create Wallet'') (cf_loading f) DoCreate]))"

section \<open>UnlockWalletModal\<close>

record UnlockForm =
  uf_password :: jsstring
  uf_error :: jsstring
  uf_loading :: bool
  uf_showForgot :: bool
  uf_showRemoveConfirm :: bool
  uf_removeInput :: jsstring

definition UnlockForm_init :: UnlockForm where
  "UnlockForm_init = \<lparr>uf_password = [], uf_error = [], uf_loading = False, uf_showForgot = False,
     uf_showRemoveConfirm = False, uf_removeInput = []\<rparr>"

datatype unlock_action =
    CloseUnlock | DoUnlock | SwitchTo jsstring | ToggleForgot | CloseAndImport | CloseAndCreate
  | ShowRemove | DoRemove

text \<open>
  \<^verbatim>\<open>handleUnlock\<close> with the wallet context: the dialog closes (\<open>True\<close>) when \<^verbatim>\<open>unlock\<close> returned, and shows one
  message for every exception.
\<close>

definition handleUnlock ::
    "js_prims \<Rightarrow> UnlockForm \<Rightarrow> WalletState \<Rightarrow> UnlockForm \<times> WalletState \<times> bool" where
  "handleUnlock Q f st =
     (case unlock Q (uf_password f) st of
        (Inr _, st') \<Rightarrow> (f\<lparr>uf_loading := False\<rparr>, st', True)
      | (Inl _, st') \<Rightarrow> (f\<lparr>uf_error := js ''Wrong password'', uf_loading := False\<rparr>, st', False))"

definition handleRemove ::
    "(rat \<Rightarrow> jsstring) \<Rightarrow> UnlockForm \<Rightarrow> WalletState \<Rightarrow> WalletState \<times> bool" where
  "handleRemove fmt f st =
     (if Some (uf_removeInput f) \<noteq> wc_address st then (st, False)
      else (removeWalletFn fmt (uf_removeInput f) st, True))"

text \<open>A stored name is whatever the node's reply contained; a falsy one gives way to the address.\<close>

definition wallet_label :: "(rat \<Rightarrow> jsstring) \<Rightarrow> StoredWallet \<Rightarrow> jsstring" where
  "wallet_label fmt w =
     (if json_truthy (sw_name w) then json_toString fmt (sw_name w)
      else js_slice (sw_address w) 0 10 @ js ''...'' @ js_slice_last (sw_address w) 6)"

definition UnlockWalletModal ::
    "(rat \<Rightarrow> jsstring) \<Rightarrow> bool \<Rightarrow> bool \<Rightarrow> UnlockForm \<Rightarrow> WalletState \<Rightarrow> unlock_action node" where
  "UnlockWalletModal fmt onSwitchToCreate onSwitchToImport f st =
     (let address = wc_address st in
      Modal (js ''Unlock Wallet'') CloseUnlock
        ([Text (js_or address []), Input (js ''Password'') (uf_password f)]
         @ shown_if (uf_error f \<noteq> []) [Text (uf_error f)]
         @ [Button (if uf_loading f then js ''Unlocking...'' else js ''Unlock'') (uf_loading f) DoUnlock]
         @ shown_if (length (wc_allWallets st) > 1)
             (Text (js ''Switch to another wallet:'')
              # map (\<lambda>w. Link (wallet_label fmt w) (SwitchTo (sw_address w)))
                  (filter (\<lambda>w. Some (sw_address w) \<noteq> address) (wc_allWallets st)))
         @ [Button (js ''Forgot password?'') False ToggleForgot]
         @ shown_if (uf_showForgot f \<and> \<not> uf_showRemoveConfirm f)
             (Text (js ''Your password cannot be recovered. Without it, this wallet's private key is inaccessible.'')
              # shown_if onSwitchToImport [Button (js ''Import from backup'') False CloseAndImport]
              @ shown_if onSwitchToCreate [Button (js ''Create new wallet'') False CloseAndCreate]
              @ [Button (js ''Remove this wallet'') False ShowRemove])
         @ shown_if (uf_showRemoveConfirm f)
             [Text (js ''This will permanently remove this wallet. Type the full address to confirm:''),
              Input (js ''drana1...'') (uf_removeInput f),
              Button (js ''Remove Wallet'') (Some (uf_removeInput f) \<noteq> address) DoRemove]))"

section \<open>ImportWalletModal\<close>

record ImportForm =
  if_keyHex :: jsstring
  if_password :: jsstring
  if_error :: jsstring
  if_loading :: bool

datatype import_action = CloseImport | DoImport

text \<open>\<open>salt\<close> and \<open>iv\<close> are the random bytes of the encryption; the flag closes the dialog.\<close>

definition handleImport ::
    "(rat \<Rightarrow> jsstring) \<Rightarrow> (js_error \<Rightarrow> jsstring) \<Rightarrow> js_prims \<Rightarrow> bytes \<Rightarrow> bytes \<Rightarrow> ImportForm \<Rightarrow> WalletState
      \<Rightarrow> ImportForm \<times> WalletState \<times> bool" where
  "handleImport fmt msg Q salt iv f st =
     (if length (if_password f) < 6
      then (f\<lparr>if_error := js ''Password must be at least 6 characters''\<rparr>, st, False)
      else case importWallet fmt Q salt iv (js_trim (if_keyHex f)) (if_password f) st of
        (Inr _, st') \<Rightarrow> (f\<lparr>if_loading := False\<rparr>, st', True)
      | (Inl e, st') \<Rightarrow> (f\<lparr>if_error := msg e, if_loading := False\<rparr>, st', False))"

definition ImportWalletModal :: "ImportForm \<Rightarrow> import_action node" where
  "ImportWalletModal f =
     Modal (js ''Import Wallet'') CloseImport
       ([Input (js ''Private key (128 hex characters)'') (if_keyHex f),
         Input (js ''Password to encrypt'') (if_password f)]
        @ shown_if (if_error f \<noteq> []) [Text (if_error f)]
        @ [Button (if if_loading f then js ''Importing...'' else js ''Import'') (if_loading f) DoImport])"

section \<open>RegisterNameModal\<close>

record NameForm = TxForm +
  nf_nameInput :: jsstring

datatype name_action = CloseName | DoRegister

definition validateName :: "jsstring \<Rightarrow> jsstring option" where
  "validateName n =
     (if length n < 3 then Some (js ''At least 3 characters'')
      else if length n > 20 then Some (js ''At most 20 characters'')
      else if \<not> (n \<noteq> [] \<and> list_all name_char n) then Some (js ''Only a-z, 0-9, underscore'')
      else if js_startsWith n (js ''_'') \<or> js_endsWith n (js ''_'') then Some (js ''Cannot start or end with underscore'')
      else if js_includes n (js ''__'') then Some (js ''No consecutive underscores'')
      else None)"

text \<open>\<^verbatim>\<open>onChange\<close> of the field: the allowed characters, at most \<^verbatim>\<open>maxLength\<close> of what was typed.\<close>

definition setNameInput :: "(jsstring \<Rightarrow> jsstring) \<Rightarrow> jsstring \<Rightarrow> NameForm \<Rightarrow> NameForm" where
  "setNameInput lower v f = f\<lparr>nf_nameInput := js_sanitize lower v\<rparr>"

definition handleRegister_start ::
    "(jsstring \<Rightarrow> jsstring) \<Rightarrow> NameForm \<Rightarrow> NameForm \<times> UnsignedTx option" where
  "handleRegister_start lower f =
     (let cleaned = js_trim (lower (nf_nameInput f)) in
      case validateName cleaned of
        Some err \<Rightarrow> (fail err f, None)
      | None \<Rightarrow>
          (start_loading f,
           Some \<lparr>ut_type = Num 4, ut_recipient = None, ut_postId = None, ut_text = Some cleaned,
                 ut_channel = None, ut_amount = Num 0\<rparr>))"

text \<open>Unlike the other forms, a registration is not added to the pending transactions.\<close>

definition handleRegister_finish ::
    "(js_error \<Rightarrow> jsstring) \<Rightarrow> jsstring \<Rightarrow> (js_error, SubmitTxResponse) result \<Rightarrow> NameForm \<Rightarrow> NameForm" where
  "handleRegister_finish msg cleaned reply f =
     (case reply of
        Inl e \<Rightarrow> f\<lparr>tf_error := msg e, tf_loading := False\<rparr>
      | Inr resp \<Rightarrow>
          if sr_accepted resp
          then f\<lparr>tf_success := js ''Name \"'' @ cleaned @ js ''\" registered!'', tf_loading := False\<rparr>
          else f\<lparr>tf_error := js_or (sr_error resp) (js ''Rejected''), tf_loading := False\<rparr>)"

definition RegisterNameModal ::
    "(rat \<Rightarrow> jsstring) \<Rightarrow> jsnum \<Rightarrow> json option \<Rightarrow> NameForm \<Rightarrow> name_action node" where
  "RegisterNameModal fmt balance currentName f =
     Modal (js ''Register Name'') CloseName
       (if balance = Num 0
        then [Text (js ''You need DRANA in your wallet before registering a name. Get funds from another user or a faucet.''),
              Button (js ''Close'') False CloseName]
        else if (case currentName of Some nm \<Rightarrow> json_truthy nm | None \<Rightarrow> False)
        then [Text (js ''Your name is \"'' @ json_toString fmt (the currentName) @ js ''\". Names are permanent.''),
              Button (js ''Close'') False CloseName]
        else if tf_success f \<noteq> []
        then [Text (tf_success f), Button (js ''Close'') False CloseName]
        else [Text (js ''Choose a permanent username. This cannot be changed.''),
              Input (js ''username'') (nf_nameInput f), Text (js ''3-20 chars: a-z, 0-9, _'')]
          @ shown_if (tf_error f \<noteq> []) [Text (tf_error f)]
          @ [Button (if tf_loading f then js ''Registering...'' else js ''Register'')
               (tf_loading f \<or> length (nf_nameInput f) < 3) DoRegister])"

section \<open>What the dialogs guarantee\<close>

lemma validateName_agrees: "validateName n = None \<longleftrightarrow> ValidateName (TextEncoder_encode n) = Inr ()"
proof (cases "list_all (\<lambda>c. unat c < 128) n \<and> 3 \<le> length n")
  case True
  then have "n \<noteq> []" by auto
  have "list_all (\<lambda>b. name_rune (unat b)) (map (ucast :: u16 \<Rightarrow> byte) n) \<longleftrightarrow> list_all name_char n"
    using True by (auto simp: list_all_iff name_char_rune)
  moreover have "unat (hd n) < 128" "unat (last n) < 128"
    using True \<open>n \<noteq> []\<close> by (simp_all add: list_all_iff)
  ultimately show ?thesis
    using True \<open>n \<noteq> []\<close> js_includes_double [of n]
      TextEncoder_encode_ascii [of n] js_startsWith_hd [of n 95] js_endsWith_last [of n 95]
    by (auto simp: ValidateName_iff validateName_def hd_map last_map underscore_byte js_def)
next
  case False
  then consider "\<not> list_all (\<lambda>c. unat c < 128) n" | "list_all (\<lambda>c. unat c < 128) n" "length n < 3" by force
  then show ?thesis
  proof cases
    case 1
    have "\<not> list_all name_char n" using 1 by (fastforce simp: list_all_iff name_char_def Let_def)
    moreover have "\<not> list_all (\<lambda>b. name_rune (unat b)) (TextEncoder_encode n)"
      using 1 TextEncoder_encode_ascii_inv [of n] by (fastforce simp: list_all_iff name_rune_def)
    ultimately show ?thesis by (simp add: ValidateName_iff validateName_def)
  next
    case 2
    then show ?thesis using TextEncoder_encode_ascii [of n] by (simp add: ValidateName_iff validateName_def)
  qed
qed

text \<open>
  C32: the name dialog and the node apply the same rule: the form reports no error for a name exactly when
  \<^verbatim>\<open>ValidateName\<close> accepts its UTF-8 bytes, for every string of code units.
\<close>

theorem app_name_rule: "validateName n = None \<longleftrightarrow> ValidateName (TextEncoder_encode n) = Inr ()"
  by (rule validateName_agrees)

text \<open>
  A freshly created key cannot be skipped: when \<^verbatim>\<open>createWallet\<close> returned a key the dialog shows it, and no
  button, link, Escape or click outside closes the dialog until the box is ticked; ticking it is always possible.
\<close>

theorem backup_before_close:
  assumes "keyHex \<noteq> []"
  shows "Input [] keyHex \<in> set (children (CreateWalletModal address (handleCreate_finish msg (Inr keyHex) f)))
    \<and> (CloseCreate \<in> set (actions (CreateWalletModal address (handleCreate_finish msg (Inr keyHex) f)))
        \<longleftrightarrow> cf_confirmed f)
    \<and> SetConfirmed (\<not> cf_confirmed f)
        \<in> set (actions (CreateWalletModal address (handleCreate_finish msg (Inr keyHex) f)))"
  using assms by (simp add: CreateWalletModal_def handleCreate_finish_def)

theorem backup_before_close_witness:
  "CloseCreate \<notin> set (actions (CreateWalletModal None (handleCreate_finish (\<lambda>e. []) (Inr (js ''ab'')) CreateForm_init)))"
  using backup_before_close [of "js ''ab''" None "\<lambda>e. []" CreateForm_init] by (simp add: CreateForm_init_def js_def)

text \<open>
  The remove dialog removes the active wallet and no other, and only when its full address was typed:
  then the wallet is gone from the storage, the others are kept and the wallet is locked; otherwise nothing
  changes.
\<close>

theorem remove_confirmed:
  assumes "storage_ok fmt (wc_storage st)" "handleRemove fmt f st = (st', removed)"
  shows "(removed \<longleftrightarrow> wc_address st = Some (uf_removeInput f))
    \<and> (if removed
       then snd (loadAllWallets fmt (wc_storage st'))
              = filter (\<lambda>w. sw_address w \<noteq> uf_removeInput f) (snd (loadAllWallets fmt (wc_storage st)))
            \<and> wc_privateKey st' = None
       else st' = st)"
proof (cases "wc_address st = Some (uf_removeInput f)")
  case True
  define s where "s = removeWallet fmt (uf_removeInput f) (wc_storage st)"
  have "storage_ok fmt s" unfolding s_def by (rule ls.ok_remove [OF assms(1)])
  then obtain ws where "loadAllWallets fmt s = (s, ws)" by (rule storage_okE)
  moreover have "snd (loadAllWallets fmt s)
      = filter (\<lambda>w. sw_address w \<noteq> uf_removeInput f) (snd (loadAllWallets fmt (wc_storage st)))"
    unfolding s_def by (rule ls.wallets_remove [OF assms(1)])
  ultimately show ?thesis
    using True assms(2) by (auto simp: handleRemove_def removeWalletFn_def reloadWallets_def Let_def simp flip: s_def)
qed (use assms(2) in \<open>auto simp: handleRemove_def\<close>)

text \<open>Removing the only wallet of a browser leaves none.\<close>

definition typed_form :: UnlockForm where
  "typed_form = UnlockForm_init\<lparr>uf_removeInput := opt_val [] id (wc_address sample_st)\<rparr>"

lemma wallet_ok_sample: "wallet_ok (sample_wallet b)"
  by (simp add: sample_wallet_def)

lemma typed_address: "wc_address sample_st = Some (uf_removeInput typed_form)"
proof -
  have st: "sample_st = with_wallet sample_fmt (sample_wallet 7) (sample_key 7) (WalletProvider_init sample_fmt [])"
    by (simp add: sample_st_def createWallet_eq Let_def sample_wallet_def sample_key_def)
  have "wc_stored sample_st = Some (sample_wallet 7)"
    unfolding st by (rule with_wallet_fields(2) [OF sample_storage_ok wallet_ok_sample])
  then show ?thesis by (simp add: wc_address_def typed_form_def UnlockForm_init_def)
qed

theorem remove_confirmed_witness:
  "snd (handleRemove sample_fmt typed_form sample_st)
   \<and> wc_privateKey (fst (handleRemove sample_fmt typed_form sample_st)) = None"
proof -
  have "storage_ok sample_fmt (wc_storage sample_st)" using sample_inv by (simp add: wallet_inv_def)
  from remove_confirmed [OF this prod.collapse [symmetric]] show ?thesis using typed_address by metis
qed

end
