(* ===== verification/Router.thy ===== *)
theory Router
  imports JsString
begin

text \<open>
  \<^verbatim>\<open>drana-app/src/router.ts\<close>, the page switch of \<^verbatim>\<open>App.tsx\<close> and the channel parameter of \<^verbatim>\<open>pages/Feed.tsx\<close>:
  everything the application keeps in the fragment of its address.  Assigning \<^verbatim>\<open>location.hash\<close> may
  percent-encode characters, and \<^verbatim>\<open>decodeURIComponent\<close> undoes it; both belong to the browser and are
  parameters.
\<close>

section \<open>router.ts\<close>

record Route =
  rt_page :: jsstring
  rt_params :: "(jsstring \<times> jsstring) list"

text \<open>\<^verbatim>\<open>.replace(/^#\/?/, '')\<close> and \<^verbatim>\<open>.replace(/^\//, '')\<close>.\<close>

definition strip_hash :: "jsstring \<Rightarrow> jsstring" where
  "strip_hash s =
     (case s of
        c # t \<Rightarrow> if c = 35 then (case t of d # u \<Rightarrow> if d = 47 then u else t | [] \<Rightarrow> []) else s
      | [] \<Rightarrow> [])"

definition strip_slash :: "jsstring \<Rightarrow> jsstring" where
  "strip_slash s = (case s of c # t \<Rightarrow> if c = 47 then t else s | [] \<Rightarrow> [])"

text \<open>\<^verbatim>\<open>parts[i]\<close>, the empty string standing for \<^verbatim>\<open>undefined\<close>: both are falsy.\<close>

definition part :: "jsstring list \<Rightarrow> nat \<Rightarrow> jsstring" where
  "part parts i = (if i < length parts then parts ! i else [])"

definition parseHash :: "jsstring \<Rightarrow> Route" where
  "parseHash location_hash =
     (let hash = strip_hash location_hash in
      if hash = [] \<or> hash = js ''/'' then \<lparr>rt_page = js ''feed'', rt_params = []\<rparr>
      else (let parts = js_split 47 hash in
            if part parts 0 = js ''post'' \<and> part parts 1 \<noteq> []
              then \<lparr>rt_page = js ''post'', rt_params = [(js ''id'', part parts 1)]\<rparr>
            else if part parts 0 = js ''channels'' then \<lparr>rt_page = js ''channels'', rt_params = []\<rparr>
            else if part parts 0 = js ''rewards'' then \<lparr>rt_page = js ''rewards'', rt_params = []\<rparr>
            else if part parts 0 = js ''profile'' \<and> part parts 1 \<noteq> []
              then \<lparr>rt_page = js ''profile'', rt_params = [(js ''address'', part parts 1)]\<rparr>
            else \<lparr>rt_page = js ''feed'', rt_params = []\<rparr>))"

text \<open>\<open>set_hash\<close>: what \<^verbatim>\<open>location.hash\<close> reads after the assignment.\<close>

definition navigate :: "(jsstring \<Rightarrow> jsstring) \<Rightarrow> jsstring \<Rightarrow> jsstring" where
  "navigate set_hash path = set_hash (js ''#/'' @ strip_slash path)"

text \<open>\<^verbatim>\<open>useRoute\<close>: the state is parsed once on mount and again on every \<^verbatim>\<open>hashchange\<close>.\<close>

definition useRoute :: "jsstring \<Rightarrow> jsstring list \<Rightarrow> Route" where
  "useRoute initial changes = foldl (\<lambda>route h. parseHash h) (parseHash initial) changes"

section \<open>App.tsx\<close>

datatype content = PostDetail_page jsstring | Channels_page | Rewards_page | Profile_page jsstring | Feed_page

text \<open>A parameter is read with \<^verbatim>\<open>params.id\<close>; the routes that need one always carry it.\<close>

definition param :: "string \<Rightarrow> Route \<Rightarrow> jsstring" where
  "param k r = (case map_of (rt_params r) (js k) of Some v \<Rightarrow> v | None \<Rightarrow> [])"

definition AppInner :: "Route \<Rightarrow> content" where
  "AppInner r =
     (if rt_page r = js ''post'' then PostDetail_page (param ''id'' r)
      else if rt_page r = js ''channels'' then Channels_page
      else if rt_page r = js ''rewards'' then Rewards_page
      else if rt_page r = js ''profile'' then Profile_page (param ''address'' r)
      else Feed_page)"

section \<open>The channel of the feed\<close>

text \<open>\<^verbatim>\<open>match(/[?&]channel=([^&]*)/)\<close>: the group of the leftmost match.\<close>

fun match_channel :: "jsstring \<Rightarrow> jsstring option" where
  "match_channel [] = None"
| "match_channel (c # s) =
     (if (c = 63 \<or> c = 38) \<and> js_startsWith s (js ''channel='')
      then Some (takeWhile (\<lambda>x. x \<noteq> 38) (drop 8 s))
      else match_channel s)"

definition feed_channel :: "(jsstring \<Rightarrow> jsstring) \<Rightarrow> jsstring \<Rightarrow> jsstring" where
  "feed_channel decodeURIComponent location_hash =
     (case match_channel location_hash of Some g \<Rightarrow> decodeURIComponent g | None \<Rightarrow> [])"

text \<open>The fragment that \<^verbatim>\<open>setChannel\<close> of the feed, and the channel list with \<^verbatim>\<open>location.hash\<close>, write.\<close>

definition channel_hash :: "jsstring \<Rightarrow> jsstring" where
  "channel_hash ch = (if ch \<noteq> [] then js ''#/?channel='' @ ch else js ''#/'')"

section \<open>Facts\<close>

text \<open>Letters, digits and underscores pass through the browser unchanged, as do the separators of a path.\<close>

definition plain_char :: "u16 \<Rightarrow> bool" where
  "plain_char c \<longleftrightarrow> name_char c \<or> c = 35 \<or> c = 47 \<or> c = 63 \<or> c = 61"

definition keeps_plain :: "(jsstring \<Rightarrow> jsstring) \<Rightarrow> bool" where
  "keeps_plain f \<longleftrightarrow> (\<forall>s. list_all plain_char s \<longrightarrow> f s = s)"

lemma js_split_no_sep: "sep \<notin> set s \<Longrightarrow> js_split sep s = [s]"
  by (induction s) auto

lemma js_split_append: "sep \<notin> set a \<Longrightarrow> js_split sep (a @ sep # s) = a # js_split sep s"
  by (induction a) auto

lemma name_char_no_sep: "list_all name_char s \<Longrightarrow> 47 \<notin> set s \<and> 38 \<notin> set s"
  by (auto simp: list_all_iff name_char_def)

text \<open>
  The links of the application lead where they say: after \<^verbatim>\<open>navigate\<close> to a post or a profile the router
  shows that post or profile, for every identifier of letters, digits and underscores (post identifiers and
  addresses are), and the two fixed pages are reached by their own paths.
\<close>

theorem navigate_parseHash:
  assumes "keeps_plain set_hash" "list_all name_char i" "i \<noteq> []"
  shows "AppInner (parseHash (navigate set_hash (js ''post/'' @ i))) = PostDetail_page i
    \<and> AppInner (parseHash (navigate set_hash (js ''profile/'' @ i))) = Profile_page i
    \<and> AppInner (parseHash (navigate set_hash (js ''channels''))) = Channels_page
    \<and> AppInner (parseHash (navigate set_hash (js ''rewards''))) = Rewards_page
    \<and> AppInner (parseHash (navigate set_hash [])) = Feed_page"
proof -
  have keep: "set_hash s = s" if "list_all plain_char s" for s using assms(1) that by (simp add: keeps_plain_def)
  have i: "list_all plain_char i" "47 \<notin> set i"
    using assms(2) name_char_no_sep [OF assms(2)] by (auto simp: list_all_iff plain_char_def)
  have post: "navigate set_hash (js ''post/'' @ i) = js ''#/post/'' @ i"
    and prof: "navigate set_hash (js ''profile/'' @ i) = js ''#/profile/'' @ i"
    and rest: "navigate set_hash (js ''channels'') = js ''#/channels''"
      "navigate set_hash (js ''rewards'') = js ''#/rewards''" "navigate set_hash [] = js ''#/''"
    using i(1) by (simp_all add: navigate_def strip_slash_def keep js_def plain_char_def name_char_def)
  show ?thesis
    unfolding post prof rest
    using i(2) assms(3)
    by (simp add: parseHash_def strip_hash_def js_def js_split_no_sep AppInner_def param_def part_def)
qed

theorem navigate_parseHash_witness:
  "AppInner (parseHash (navigate (\<lambda>s. s) (js ''post/ab12''))) = PostDetail_page (js ''ab12'')"
  using navigate_parseHash [of "\<lambda>s. s" "js ''ab12''"]
  by (simp add: keeps_plain_def js_def name_char_def)

text \<open>
  Choosing a channel in the feed and reloading the page shows the same channel: the feed reads back from
  the fragment exactly the channel that was written to it, and the router stays on the feed.
\<close>

theorem channel_roundtrip:
  assumes "keeps_plain decode" "list_all name_char ch"
  shows "feed_channel decode (channel_hash ch) = ch \<and> AppInner (parseHash (channel_hash ch)) = Feed_page"
proof (cases "ch = []")
  case True
  then show ?thesis
    by (simp add: channel_hash_def feed_channel_def js_def js_startsWith_def parseHash_def strip_hash_def
        AppInner_def)
next
  case False
  have n: "47 \<notin> set ch" "38 \<notin> set ch" "takeWhile (\<lambda>x. x \<noteq> 38) ch = ch"
    using name_char_no_sep [OF assms(2)] by (auto simp: takeWhile_eq_all_conv)
  have "decode ch = ch" using assms by (auto simp: keeps_plain_def list_all_iff plain_char_def)
  then show ?thesis
    using False
    by (simp add: n channel_hash_def feed_channel_def js_def js_startsWith_def parseHash_def strip_hash_def
        js_split_no_sep AppInner_def part_def)
qed

theorem channel_roundtrip_witness:
  "feed_channel (\<lambda>s. s) (channel_hash (js ''gaming'')) = js ''gaming''"
  using channel_roundtrip [of "\<lambda>s. s" "js ''gaming''"] by (simp add: keeps_plain_def js_def name_char_def)

end
