(* ===== verification/Cards.thy ===== *)
theory Cards
  imports WalletForms Router
begin

text \<open>
  The building blocks of the pages: the post types of \<^verbatim>\<open>api/types.ts\<close>, \<^verbatim>\<open>PostCard.tsx\<close>,
  \<^verbatim>\<open>PendingPostCard.tsx\<close>, \<^verbatim>\<open>ChannelSearch.tsx\<close>, \<^verbatim>\<open>pages/Channels.tsx\<close> and \<^verbatim>\<open>TopBar.tsx\<close>.  A field that the
  reviver may have turned into a number (a text, a name or a channel of digits) is a JSON value; calling a
  string method on it throws.
\<close>

section \<open>Types\<close>

record JsPost =
  jp_postId :: jsstring
  jp_author :: jsstring
  jp_text :: json
  jp_channel :: "json option"
  jp_parentPostId :: "jsstring option"
  jp_createdAtHeight :: jsnum
  jp_createdAtTime :: jsnum
  jp_totalStaked :: jsnum
  jp_totalBurned :: jsnum
  jp_stakerCount :: jsnum
  jp_withdrawn :: bool

record JsRankedPost = JsPost +
  jr_authorStaked :: jsnum
  jr_thirdPartyStaked :: jsnum
  jr_uniqueBoosterCount :: jsnum
  jr_lastBoostAtHeight :: jsnum
  jr_replyCount :: jsnum
  jr_score :: jsnum

record ChannelInfo =
  ci_channel :: json
  ci_postCount :: jsnum

section \<open>JSX\<close>

text \<open>
  \<^verbatim>\<open>{v && <...>}\<close>: the element when \<^verbatim>\<open>v\<close> is truthy; a falsy number is rendered itself, \<^verbatim>\<open>null\<close>, \<^verbatim>\<open>false\<close> and
  the empty string are not.  \<^verbatim>\<open>{v || d}\<close> renders \<^verbatim>\<open>v\<close> when it is truthy.
\<close>

definition react_and :: "(rat \<Rightarrow> jsstring) \<Rightarrow> json option \<Rightarrow> 'a node list \<Rightarrow> 'a node list" where
  "react_and fmt v ns =
     (case v of
        None \<Rightarrow> []
      | Some j \<Rightarrow> if json_truthy j then ns else (case j of JNum x \<Rightarrow> [Text (js_String fmt x)] | _ \<Rightarrow> []))"

definition react_or :: "(rat \<Rightarrow> jsstring) \<Rightarrow> json option \<Rightarrow> jsstring \<Rightarrow> jsstring" where
  "react_or fmt v d =
     (case v of None \<Rightarrow> d | Some j \<Rightarrow> if json_truthy j then json_toString fmt j else d)"

definition channel_tag :: "(rat \<Rightarrow> jsstring) \<Rightarrow> json option \<Rightarrow> 'a node list" where
  "channel_tag fmt ch = react_and fmt ch [Text (js ''#'' @ opt_val [] (json_toString fmt) ch)]"

definition pushpin :: jsstring where "pushpin = [0xD83D, 0xDCCC]"
definition hourglass :: jsstring where "hourglass = [0x23F3]"
definition speech :: jsstring where "speech = [0xD83D, 0xDCAC]"
definition lens :: jsstring where "lens = [0xD83D, 0xDD0D]"
definition down_arrow :: jsstring where "down_arrow = [0x25BC]"
definition cross_mark :: jsstring where "cross_mark = [0x2715]"

section \<open>PostCard.tsx\<close>

datatype card_action = CardProfile jsstring | CardPost jsstring | CardBoost | CardReply | CardUnstake

definition authorDisplay :: "(rat \<Rightarrow> jsstring) \<Rightarrow> json option \<Rightarrow> jsstring \<Rightarrow> jsstring" where
  "authorDisplay fmt resolvedName author =
     react_or fmt resolvedName
       (if length author > 20 then js_slice author 0 10 @ js ''...'' @ js_slice_last author 6 else author)"

text \<open>
  \<open>userStake\<close> is \<^verbatim>\<open>None\<close> when the property is not passed; \<open>onUnstake\<close> says whether the handler is.  The
  highlighting of \<^verbatim>\<open>isHighValue\<close> is style only.
\<close>

definition has_stake :: "jsnum option \<Rightarrow> bool" where
  "has_stake userStake = opt_val False (\<lambda>s. js_less (Num 0) s) userStake"

definition PostCard ::
    "(rat \<Rightarrow> jsstring) \<Rightarrow> jsnum \<Rightarrow> json option \<Rightarrow> bool \<Rightarrow> jsnum option \<Rightarrow> 'a JsRankedPost_scheme \<Rightarrow> card_action node list" where
  "PostCard fmt now resolvedName onUnstake userStake post =
     [Text pushpin, Text (DranaAmount fmt (jp_totalStaked post)),
      Text (js ''('' @ js_String fmt (jp_stakerCount post) @ js '' staker''
        @ (if jp_stakerCount post \<noteq> Num 1 then js ''s'' else []) @ js '')''),
      Text (TimeAgo fmt now (jp_createdAtTime post)),
      Link (authorDisplay fmt resolvedName (jp_author post)) (CardProfile (jp_author post))]
     @ channel_tag fmt (jp_channel post)
     @ [Link (json_toString fmt (jp_text post)) (CardPost (jp_postId post))]
     @ shown_if (js_less (Num 0) (jr_replyCount post)) [Text (speech @ js '' '' @ js_String fmt (jr_replyCount post))]
     @ shown_if (has_stake userStake)
         [Text (js ''Your stake: '' @ opt_val [] (drana_text fmt) userStake)]
     @ (if \<not> jp_withdrawn post
        then [if has_stake userStake \<and> onUnstake then Button (js ''Unstake'') False CardUnstake
              else Button (js ''Stake'') False CardBoost,
              Button (js ''Reply'') False CardReply]
        else [Text (js ''WITHDRAWN'')])"

section \<open>PendingPostCard.tsx\<close>

definition PendingPostCard :: "(rat \<Rightarrow> jsstring) \<Rightarrow> PendingTx \<Rightarrow> 'a node list" where
  "PendingPostCard fmt tx =
     [Text (hourglass @ js '' PENDING''), Text (js ''just now''), Text (js ''you'')]
     @ shown_if (js_or (pt_channel tx) [] \<noteq> []) [Text (js ''#'' @ js_or (pt_channel tx) [])]
     @ [Text (js_or (pt_text tx) []), Text (DranaAmount fmt (pt_amount tx)), Text (js ''committed''),
        Text (js ''Waiting for next block...'')]"

section \<open>ChannelSearch.tsx\<close>

abbreviation MAX_PILLS :: nat where "MAX_PILLS \<equiv> 5"
abbreviation MAX_RESULTS :: nat where "MAX_RESULTS \<equiv> 5"

record ChannelSearchState =
  cs_searchOpen :: bool
  cs_query :: jsstring

datatype channel_action = SelectChannel json | OpenSearch

text \<open>A call of a string method: a value that is not a string has no such method.\<close>

definition string_method :: "json \<Rightarrow> (jsstring \<Rightarrow> 'b) \<Rightarrow> (js_error, 'b) result" where
  "string_method v f = (case v of JStr s \<Rightarrow> Inr (f s) | _ \<Rightarrow> Inl (JsError ''TypeError''))"

fun filterR :: "('a \<Rightarrow> (js_error, bool) result) \<Rightarrow> 'a list \<Rightarrow> (js_error, 'a list) result" where
  "filterR P [] = Inr []"
| "filterR P (x # xs) =
     bindR (P x) (\<lambda>b. bindR (filterR P xs) (\<lambda>ys. Inr (if b then x # ys else ys)))"

text \<open>
  \<^verbatim>\<open>Array.prototype.sort\<close> is stable; \<open>localeCompare\<close> is the collation of the browser.  The comparison only
  sees channels that passed the filter, which are strings.
\<close>

fun insert_by :: "('a \<Rightarrow> 'a \<Rightarrow> int) \<Rightarrow> 'a \<Rightarrow> 'a list \<Rightarrow> 'a list" where
  "insert_by cmp x [] = [x]"
| "insert_by cmp x (y # ys) = (if cmp x y \<le> 0 then x # y # ys else y # insert_by cmp x ys)"

definition js_sort :: "('a \<Rightarrow> 'a \<Rightarrow> int) \<Rightarrow> 'a list \<Rightarrow> 'a list" where
  "js_sort cmp xs = foldr (insert_by cmp) xs []"

definition channel_name :: "ChannelInfo \<Rightarrow> jsstring" where
  "channel_name c = (case ci_channel c of JStr s \<Rightarrow> s | _ \<Rightarrow> [])"

definition searchResults ::
    "(jsstring \<Rightarrow> jsstring) \<Rightarrow> (jsstring \<Rightarrow> jsstring \<Rightarrow> int) \<Rightarrow> ChannelInfo list \<Rightarrow> jsstring
      \<Rightarrow> (js_error, ChannelInfo list) result" where
  "searchResults lower localeCompare channels query =
     (if query \<noteq> []
      then bindR (filterR (\<lambda>c. string_method (ci_channel c) (\<lambda>s. js_startsWith s (lower query))) channels) (\<lambda>cs.
             Inr (take MAX_RESULTS (js_sort (\<lambda>a b. localeCompare (channel_name a) (channel_name b)) cs)))
      else Inr (take MAX_RESULTS channels))"

definition topChannels :: "ChannelInfo list \<Rightarrow> ChannelInfo list" where
  "topChannels channels = take MAX_PILLS channels"

definition showSelectedPill :: "ChannelInfo list \<Rightarrow> json \<Rightarrow> bool" where
  "showSelectedPill channels selected \<longleftrightarrow>
     json_truthy selected \<and> selected \<notin> set (map ci_channel (topChannels channels))"

text \<open>\<^verbatim>\<open>onChange\<close>, Escape and a click outside, and \<^verbatim>\<open>selectChannel\<close>, which also calls \<^verbatim>\<open>onSelect\<close>.\<close>

definition setQuery :: "(jsstring \<Rightarrow> jsstring) \<Rightarrow> jsstring \<Rightarrow> ChannelSearchState \<Rightarrow> ChannelSearchState" where
  "setQuery lower v s = s\<lparr>cs_query := js_sanitize lower v\<rparr>"

definition closeSearch :: "ChannelSearchState \<Rightarrow> ChannelSearchState" where
  "closeSearch s = s\<lparr>cs_searchOpen := False, cs_query := []\<rparr>"

definition selectChannel :: "json \<Rightarrow> ChannelSearchState \<Rightarrow> json \<times> ChannelSearchState" where
  "selectChannel ch s = (ch, closeSearch s)"

text \<open>The Enter key takes the first result; nothing happens when there is none.\<close>

definition search_enter :: "ChannelInfo list \<Rightarrow> ChannelSearchState \<Rightarrow> json option \<times> ChannelSearchState" where
  "search_enter results s =
     (case results of c # _ \<Rightarrow> (Some (ci_channel c), closeSearch s) | [] \<Rightarrow> (None, s))"

definition channel_label :: "(rat \<Rightarrow> jsstring) \<Rightarrow> ChannelInfo \<Rightarrow> jsstring" where
  "channel_label fmt c = react_or fmt (Some (ci_channel c)) (js ''general'')"

definition ChannelSearch ::
    "(rat \<Rightarrow> jsstring) \<Rightarrow> (jsstring \<Rightarrow> jsstring) \<Rightarrow> (jsstring \<Rightarrow> jsstring \<Rightarrow> int) \<Rightarrow> ChannelInfo list \<Rightarrow> json
      \<Rightarrow> ChannelSearchState \<Rightarrow> (js_error, channel_action node list) result" where
  "ChannelSearch fmt lower localeCompare channels selected s =
     bindR (searchResults lower localeCompare channels (cs_query s)) (\<lambda>results.
       Inr ([Button (js ''All'') False (SelectChannel (JStr []))]
         @ map (\<lambda>c. Button (channel_label fmt c) False (SelectChannel (ci_channel c))) (topChannels channels)
         @ shown_if (showSelectedPill channels selected)
             [Button (json_toString fmt selected @ js '' '' @ cross_mark) False (SelectChannel (JStr []))]
         @ (if \<not> cs_searchOpen s then [Button (lens @ js '' ...'') False OpenSearch]
            else Input (js ''Search channels...'') (cs_query s)
              # map (\<lambda>c. Link (js ''#'' @ channel_label fmt c @ js ''('' @ js_String fmt (ci_postCount c) @ js '')'')
                       (SelectChannel (ci_channel c))) results)))"

section \<open>Channels.tsx\<close>

datatype channels_action = GoChannel jsstring

text \<open>\<open>None\<close> while the query loads; the fragment that a click writes is the action.\<close>

definition Channels_view :: "(rat \<Rightarrow> jsstring) \<Rightarrow> bool \<Rightarrow> ChannelInfo list option \<Rightarrow> channels_action node list" where
  "Channels_view fmt isLoading data =
     (if isLoading then [Text (js ''Loading...'')]
      else Text (js ''Channels'')
        # shown_if (opt_val [] id data = [])
            [Text (js ''No channels yet. Create a post with a channel to start one.'')]
        @ map (\<lambda>c. Link (js ''#'' @ channel_label fmt c @ js_String fmt (ci_postCount c) @ js '' posts'')
                 (GoChannel (js ''#/?channel='' @ json_toString fmt (ci_channel c))))
            (opt_val [] id data))"

end
