(* ===== verification/TopBar.thy ===== *)
theory TopBar
  imports Cards
begin

text \<open>
  \<^verbatim>\<open>components/TopBar.tsx\<close>: the navigation, the balance of the wallet with what is pending, and the menu from
  which the wallet dialogs are opened.  A click on an entry of the menu also reaches the menu itself, which
  closes it.
\<close>

section \<open>State and values\<close>

datatype ModalType = MCreate | MUnlock | MImport | MRegisterName | MSend

record TopBarState =
  tb_modal :: "ModalType option"
  tb_dropdownOpen :: bool

definition TopBar_init :: TopBarState where
  "TopBar_init = \<lparr>tb_modal = None, tb_dropdownOpen = False\<rparr>"

definition nameDisplay :: "(rat \<Rightarrow> jsstring) \<Rightarrow> WalletState \<Rightarrow> jsstring" where
  "nameDisplay fmt st =
     react_or fmt (map_option sw_name (wc_stored st))
       (if js_or (wc_address st) [] \<noteq> [] then js_slice (js_or (wc_address st) []) 0 10 @ js ''...'' else [])"

definition activePending :: "PendingTx list \<Rightarrow> PendingTx list" where
  "activePending txs = filter (\<lambda>t. pt_status t = Pending) txs"

definition estimatedBalance :: "jsnum \<Rightarrow> PendingTx list \<Rightarrow> jsnum" where
  "estimatedBalance balance txs = js_max (Num 0) (js_sub balance (pendingOutgoing txs))"

definition pillLabel :: "(rat \<Rightarrow> jsstring) \<Rightarrow> WalletState \<Rightarrow> jsstring" where
  "pillLabel fmt st = (if \<not> hasWallet st then js ''Connect'' else nameDisplay fmt st)"

section \<open>What is shown\<close>

datatype top_action =
    GoFeed | GoChannels | GoRewards | ToggleDropdown | CloseDropdown
  | OpenModal ModalType | MenuRewards | CopyAddress | LockWallet | SwitchWallet jsstring

definition tx_label :: "jsnum \<Rightarrow> jsstring" where
  "tx_label t =
     (if t = Num 2 then js ''Post'' else if t = Num 3 then js ''Stake'' else if t = Num 7 then js ''Unstake''
      else if t = Num 1 then js ''Transfer'' else js ''Tx'')"

definition pill :: "(rat \<Rightarrow> jsstring) \<Rightarrow> PendingTx list \<Rightarrow> WalletState \<Rightarrow> jsstring" where
  "pill fmt txs st =
     (let pending = activePending txs; hasPending = (pending \<noteq> []) in
      pillLabel fmt st
      @ (if isUnlocked st
         then (if hasPending then js ''~'' else [])
           @ DranaAmount fmt (if hasPending then estimatedBalance (wc_balance st) txs else wc_balance st)
           @ (if js_less (Num 0) (wc_postStakeBalance st)
              then pushpin @ js_toFixed fmt 0 (js_div_const (wc_postStakeBalance st) 1000000) else [])
           @ (if hasPending then js ''('' @ js_String fmt (Num (of_nat (length pending))) @ js '')'' else [])
         else [])
      @ down_arrow)"

definition pending_item :: "(rat \<Rightarrow> jsstring) \<Rightarrow> PendingTx \<Rightarrow> top_action node" where
  "pending_item fmt tx =
     Link (hourglass @ js '' '' @ tx_label (pt_type tx)
         @ (if js_or (pt_channel tx) [] \<noteq> [] then js '' in #'' @ js_or (pt_channel tx) [] else [])
         @ js_toFixed fmt 1 (js_div_const (pt_amount tx) 1000000))
       CloseDropdown"

definition dropdown :: "(rat \<Rightarrow> jsstring) \<Rightarrow> PendingTx list \<Rightarrow> WalletState \<Rightarrow> top_action node list" where
  "dropdown fmt txs st =
     (let pending = activePending txs in
      shown_if (pending \<noteq> [])
        (Text (js ''Pending ('' @ js_String fmt (Num (of_nat (length pending))) @ js '')'')
         # map (pending_item fmt) pending)
      @ shown_if (isUnlocked st)
          [Link (js ''Send DRANA'') (OpenModal MSend), Link (js ''My Stakes & Rewards'') MenuRewards,
           Link (js ''Register Name'') (OpenModal MRegisterName), Link (js ''Copy Address'') CopyAddress,
           Link (js ''Lock Wallet'') LockWallet]
      @ shown_if (hasWallet st \<and> \<not> isUnlocked st) [Link (js ''Unlock Wallet'') (OpenModal MUnlock)]
      @ shown_if (length (wc_allWallets st) > 1)
          (Text (js ''Switch wallet'')
           # map (\<lambda>w. Link (wallet_label fmt w) (SwitchWallet (sw_address w)))
               (filter (\<lambda>w. Some (sw_address w) \<noteq> wc_address st) (wc_allWallets st)))
      @ [Link (js ''Create New Wallet'') (OpenModal MCreate), Link (js ''Import Wallet'') (OpenModal MImport)])"

definition TopBar :: "(rat \<Rightarrow> jsstring) \<Rightarrow> PendingTx list \<Rightarrow> WalletState \<Rightarrow> TopBarState \<Rightarrow> top_action node list" where
  "TopBar fmt txs st tb =
     [Link (js ''DRANA'') GoFeed, Link (js ''Feed'') GoFeed, Link (js ''Channels'') GoChannels]
     @ shown_if (isUnlocked st) [Link (js ''Rewards'') GoRewards]
     @ [Button (pill fmt txs st) False ToggleDropdown]
     @ shown_if (tb_dropdownOpen tb) (dropdown fmt txs st)"

section \<open>What a click does\<close>

text \<open>
  The links of the header only change the address; \<^verbatim>\<open>MenuRewards\<close> does so too and closes the menu.  A dialog
  closes with \<^verbatim>\<open>setModal(null)\<close>; the unlock dialog can open the create and import dialogs instead.
\<close>

definition TopBar_click ::
    "(rat \<Rightarrow> jsstring) \<Rightarrow> top_action \<Rightarrow> TopBarState \<times> WalletState \<Rightarrow> TopBarState \<times> WalletState" where
  "TopBar_click fmt a = (\<lambda>(tb, st).
     case a of
       GoFeed \<Rightarrow> (tb, st)
     | GoChannels \<Rightarrow> (tb, st)
     | GoRewards \<Rightarrow> (tb, st)
     | ToggleDropdown \<Rightarrow> (tb\<lparr>tb_dropdownOpen := \<not> tb_dropdownOpen tb\<rparr>, st)
     | CloseDropdown \<Rightarrow> (tb\<lparr>tb_dropdownOpen := False\<rparr>, st)
     | OpenModal m \<Rightarrow> (tb\<lparr>tb_modal := Some m, tb_dropdownOpen := False\<rparr>, st)
     | MenuRewards \<Rightarrow> (tb\<lparr>tb_dropdownOpen := False\<rparr>, st)
     | CopyAddress \<Rightarrow> (tb\<lparr>tb_dropdownOpen := False\<rparr>, st)
     | LockWallet \<Rightarrow> (tb\<lparr>tb_dropdownOpen := False\<rparr>, lock st)
     | SwitchWallet addr \<Rightarrow> (tb\<lparr>tb_dropdownOpen := False\<rparr>, switchWallet fmt addr st))"

definition TopBar_closeModal :: "TopBarState \<Rightarrow> TopBarState" where
  "TopBar_closeModal tb = tb\<lparr>tb_modal := None\<rparr>"

section \<open>Facts\<close>

abbreviation offered :: "(rat \<Rightarrow> jsstring) \<Rightarrow> PendingTx list \<Rightarrow> WalletState \<Rightarrow> TopBarState \<Rightarrow> top_action set" where
  "offered fmt txs st tb \<equiv> set (concat (map actions (TopBar fmt txs st tb)))"

lemma offered_iff:
  "OpenModal MSend \<in> offered fmt txs st tb \<longleftrightarrow> tb_dropdownOpen tb \<and> isUnlocked st"
  "OpenModal MRegisterName \<in> offered fmt txs st tb \<longleftrightarrow> tb_dropdownOpen tb \<and> isUnlocked st"
  "LockWallet \<in> offered fmt txs st tb \<longleftrightarrow> tb_dropdownOpen tb \<and> isUnlocked st"
  "OpenModal MUnlock \<in> offered fmt txs st tb \<longleftrightarrow> tb_dropdownOpen tb \<and> hasWallet st \<and> \<not> isUnlocked st"
  "SwitchWallet a \<in> offered fmt txs st tb \<longleftrightarrow> tb_dropdownOpen tb \<and> length (wc_allWallets st) > 1
     \<and> a \<in> sw_address ` set (wc_allWallets st) \<and> wc_address st \<noteq> Some a"
  by (auto simp: TopBar_def dropdown_def Let_def pending_item_def bex_Un image_iff split: if_splits)

text \<open>
  What the menu offers fits the state of the wallet: sending, registering a name and locking need an
  unlocked wallet, unlocking a locked one; and a click on another wallet makes exactly that wallet the active
  one, locked, with the menu closed.
\<close>

theorem topbar_menu:
  assumes "wallet_inv fmt Q st" "tb_dropdownOpen tb"
  shows "(OpenModal MSend \<in> set (concat (map actions (TopBar fmt txs st tb))) \<longleftrightarrow> isUnlocked st)
    \<and> (OpenModal MRegisterName \<in> set (concat (map actions (TopBar fmt txs st tb))) \<longleftrightarrow> isUnlocked st)
    \<and> (LockWallet \<in> set (concat (map actions (TopBar fmt txs st tb))) \<longleftrightarrow> isUnlocked st)
    \<and> (OpenModal MUnlock \<in> set (concat (map actions (TopBar fmt txs st tb))) \<longleftrightarrow> hasWallet st \<and> \<not> isUnlocked st)
    \<and> (\<forall>a. SwitchWallet a \<in> set (concat (map actions (TopBar fmt txs st tb))) \<longrightarrow>
        (\<exists>w. w \<in> set (wc_allWallets st) \<and> sw_address w = a \<and> wc_stored st \<noteq> Some w
          \<and> TopBar_click fmt (SwitchWallet a) (tb, st)
              = (tb\<lparr>tb_dropdownOpen := False\<rparr>, switchWallet fmt a st)
          \<and> wc_stored (switchWallet fmt a st) = Some w \<and> \<not> isUnlocked (switchWallet fmt a st)))"
proof (intro conjI allI impI)
  fix a
  assume "SwitchWallet a \<in> offered fmt txs st tb"
  then obtain w where w: "w \<in> set (wc_allWallets st)" "sw_address w = a" "wc_address st \<noteq> Some a"
    by (auto simp: offered_iff simp del: set_concat)
  have ok: "storage_ok fmt (wc_storage st)" and ws: "wc_allWallets st = snd (loadAllWallets fmt (wc_storage st))"
    using assms(1) by (simp_all add: wallet_inv_def)
  have "find_wallet a (snd (loadAllWallets fmt (setActiveWallet a (wc_storage st)))) = Some w"
    using ls.wallets_activate [OF ok] ls.distinct_wallets [OF ok] w(1,2) by (auto simp: ws find_wallet_distinct)
  then have "wc_stored (switchWallet fmt a st) = Some w" "\<not> isUnlocked (switchWallet fmt a st)"
    by (simp_all add: switchWallet_def isUnlocked_def case_prod_beta)
  moreover have "wc_stored st \<noteq> Some w" using w(2,3) by (auto simp: wc_address_def)
  ultimately show "\<exists>w. w \<in> set (wc_allWallets st) \<and> sw_address w = a \<and> wc_stored st \<noteq> Some w
      \<and> TopBar_click fmt (SwitchWallet a) (tb, st) = (tb\<lparr>tb_dropdownOpen := False\<rparr>, switchWallet fmt a st)
      \<and> wc_stored (switchWallet fmt a st) = Some w \<and> \<not> isUnlocked (switchWallet fmt a st)"
    using w by (intro exI [of _ w]) (simp add: TopBar_click_def)
qed (use assms(2) in \<open>simp_all add: offered_iff del: set_concat\<close>)

theorem topbar_menu_witness:
  "OpenModal MSend \<in> set (concat (map actions (TopBar sample_fmt [] sample_st (TopBar_init\<lparr>tb_dropdownOpen := True\<rparr>))))
    \<longleftrightarrow> isUnlocked sample_st"
  using topbar_menu [OF sample_inv, of "TopBar_init\<lparr>tb_dropdownOpen := True\<rparr>" "[]"]
  by (simp add: TopBar_init_def del: set_concat)

text \<open>
  The estimated balance is exact and never negative: below \<open>2 ^ 53\<close> it is the balance less what is
  pending, or zero when more is pending than there is.
\<close>

theorem estimatedBalance_exact:
  assumes "balance < 2 ^ 53" "pendingOutgoing txs = Num (of_nat out)" "out < 2 ^ 53"
  shows "estimatedBalance (Num (of_nat balance)) txs = Num (of_nat (balance - out))"
proof -
  have "js_of_rat (of_int (int balance - int out)) = Num (of_int (int balance - int out))"
    by (rule js_of_int_safe) (use assms in \<open>simp add: MAX_SAFE_INTEGER_def\<close>)
  then have "js_sub (Num (of_nat balance)) (pendingOutgoing txs) = Num (of_nat balance - of_nat out)"
    by (simp add: js_sub_def assms(2))
  then show ?thesis
    by (cases "out \<le> balance") (simp_all add: estimatedBalance_def js_max_def of_nat_diff)
qed

theorem estimatedBalance_exact_witness:
  "estimatedBalance (Num (of_nat 5)) [] = Num (of_nat 5)"
  using estimatedBalance_exact [of 5 "[]" 0] by (simp add: pendingOutgoing_def)

end
