(* ===== verification/Forms.thy ===== *)
theory Forms
  imports Ui GoText
begin

text \<open>
  The forms that submit transactions: \<^verbatim>\<open>BoostModal.tsx\<close>, \<^verbatim>\<open>NewPostModal.tsx\<close>, \<^verbatim>\<open>SendModal.tsx\<close> and
  \<^verbatim>\<open>UnstakeModal.tsx\<close>.  A handler is split at its \<^verbatim>\<open>await\<close>: the start checks the input and returns the
  transaction to sign, if any; the finish takes the reply.  \<open>balance\<close> and \<open>pendingTxs\<close> are the values of the
  two contexts when the button is clicked.
\<close>

section \<open>BoostModal.tsx\<close>

record BoostForm = TxForm +
  bf_amount :: jsstring

datatype boost_action = CloseBoost | DoBoost

definition BoostForm_init :: BoostForm where
  "BoostForm_init = TxForm.extend empty_form (BoostForm.fields (js ''0.5''))"

definition handleBoost_start ::
    "(rat \<Rightarrow> jsstring) \<Rightarrow> jsstring \<Rightarrow> jsnum \<Rightarrow> PendingTx list \<Rightarrow> BoostForm \<Rightarrow> BoostForm \<times> UnsignedTx option" where
  "handleBoost_start fmt postId balance pendingTxs f =
     (let microdrana = to_microdrana (bf_amount f) in
      if js_isNaN microdrana \<or> js_less microdrana (Num 100000) then (fail (js ''Minimum 0.1 DRANA'') f, None)
      else (let available = js_sub balance (pendingOutgoing pendingTxs) in
            if js_less available microdrana then (fail (insufficient fmt available) f, None)
            else (start_loading f,
                  Some \<lparr>ut_type = Num 3, ut_recipient = None, ut_postId = Some postId, ut_text = None,
                        ut_channel = None, ut_amount = microdrana\<rparr>)))"

definition handleBoost_finish ::
    "(js_error \<Rightarrow> jsstring) \<Rightarrow> UnsignedTx \<Rightarrow> (js_error, SubmitTxResponse) result \<Rightarrow> BoostForm
      \<Rightarrow> BoostForm \<times> PendingTx option" where
  "handleBoost_finish msg tx reply f =
     finish_form msg (\<lambda>resp. js ''Boosted! Tx: '' @ hash_text resp) (\<lambda>resp. pending_of resp tx False) reply f"

definition BoostModal :: "(rat \<Rightarrow> jsstring) \<Rightarrow> jsstring \<Rightarrow> jsnum \<Rightarrow> BoostForm \<Rightarrow> boost_action node" where
  "BoostModal fmt postText totalStaked f =
     (if tf_success f \<noteq> []
      then Modal (js ''Boost Post'') CloseBoost [Text (tf_success f), Button (js ''Close'') False CloseBoost]
      else Modal (js ''Boost Post'') CloseBoost
        ([Text (excerpt postText),
          Text (js ''Currently '' @ drana_text fmt totalStaked @ js '' DRANA staked''),
          Input [] (bf_amount f), Text (js ''DRANA'')]
         @ shown_if (js_less (Num 0) (parseFloat (bf_amount f)))
             [Text (js ''Burned: '' @ part_of fmt (bf_amount f) (3 / 100) @ js '' DRANA (3%)''),
              Text (js ''Author: '' @ part_of fmt (bf_amount f) (2 / 100) @ js '' DRANA (2%)''),
              Text (js ''Stakers: '' @ part_of fmt (bf_amount f) (1 / 100) @ js '' DRANA (1%)''),
              Text (js ''Your stake: '' @ part_of fmt (bf_amount f) (94 / 100) @ js '' DRANA (recoverable)'')]
         @ shown_if (tf_error f \<noteq> []) [Text (tf_error f)]
         @ [Button (if tf_loading f then js ''Staking...'' else js ''Stake on Post'') (tf_loading f) DoBoost,
            Text (js ''You can unstake and recover ''
              @ part_of fmt (if bf_amount f = [] then js ''0'' else bf_amount f) (94 / 100)
              @ js '' DRANA at any time.'')]))"

section \<open>NewPostModal.tsx\<close>

record PostForm = TxForm +
  pf_text :: jsstring
  pf_channel :: jsstring
  pf_amount :: jsstring

datatype post_action = ClosePost | DoSubmit

definition PostForm_init :: PostForm where
  "PostForm_init = TxForm.extend empty_form (PostForm.fields [] [] (js ''1.0''))"

text \<open>The channel field keeps only allowed characters; the text area stops at 280 UTF-16 units.\<close>

definition setChannel_input :: "(jsstring \<Rightarrow> jsstring) \<Rightarrow> jsstring \<Rightarrow> PostForm \<Rightarrow> PostForm" where
  "setChannel_input lower v f = f\<lparr>pf_channel := js_sanitize lower v\<rparr>"

definition isReply :: "jsstring option \<Rightarrow> bool" where
  "isReply parentPostId \<longleftrightarrow> js_or parentPostId [] \<noteq> []"

definition handleSubmit_start ::
    "(rat \<Rightarrow> jsstring) \<Rightarrow> jsstring option \<Rightarrow> jsnum \<Rightarrow> PendingTx list \<Rightarrow> PostForm \<Rightarrow> PostForm \<times> UnsignedTx option" where
  "handleSubmit_start fmt parentPostId balance pendingTxs f =
     (let microdrana = to_microdrana (pf_amount f) in
      if js_isNaN microdrana \<or> js_less microdrana (Num 1000000) then (fail (js ''Minimum 1.0 DRANA'') f, None)
      else if js_trim (pf_text f) = [] then (fail (js ''Text is required'') f, None)
      else (let available = js_sub balance (pendingOutgoing pendingTxs) in
            if js_less available microdrana then (fail (insufficient fmt available) f, None)
            else (start_loading f,
                  Some \<lparr>ut_type = Num 2, ut_recipient = None, ut_postId = parentPostId,
                        ut_text = Some (js_trim (pf_text f)),
                        ut_channel = Some (if isReply parentPostId then [] else pf_channel f),
                        ut_amount = microdrana\<rparr>)))"

definition handleSubmit_finish ::
    "(js_error \<Rightarrow> jsstring) \<Rightarrow> UnsignedTx \<Rightarrow> (js_error, SubmitTxResponse) result \<Rightarrow> PostForm
      \<Rightarrow> PostForm \<times> PendingTx option" where
  "handleSubmit_finish msg tx reply f =
     finish_form msg (\<lambda>resp. js ''Posted! Tx: '' @ hash_text resp) (\<lambda>resp. pending_of resp tx True) reply f"

definition NewPostModal :: "(rat \<Rightarrow> jsstring) \<Rightarrow> jsstring option \<Rightarrow> PostForm \<Rightarrow> post_action node" where
  "NewPostModal fmt parentPostId f =
     (let title = (if isReply parentPostId then js ''Reply'' else js ''New Post'') in
      if tf_success f \<noteq> []
      then Modal title ClosePost [Text (tf_success f), Button (js ''Close'') False ClosePost]
      else Modal title ClosePost
        (shown_if (\<not> isReply parentPostId) [Input (js ''Channel (optional, e.g. gaming)'') (pf_channel f)]
         @ [Input (js ''Your message...'') (pf_text f),
            Text (js_String fmt (Num (of_nat (length (pf_text f)))) @ js '' / 280''),
            Input [] (pf_amount f), Text (js ''DRANA'')]
         @ shown_if (js_less (Num 0) (parseFloat (pf_amount f)))
             [Text (js ''Fee (6%): '' @ part_of fmt (pf_amount f) (6 / 100) @ js '' DRANA burned''),
              Text (js ''Staked: '' @ part_of fmt (pf_amount f) (94 / 100) @ js '' DRANA (recoverable)'')]
         @ shown_if (tf_error f \<noteq> []) [Text (tf_error f)]
         @ [Button (if tf_loading f then js ''Posting...'' else js ''Post'') (tf_loading f) DoSubmit,
            Text (js ''You can unstake and recover ''
              @ part_of fmt (if pf_amount f = [] then js ''0'' else pf_amount f) (94 / 100)
              @ js '' DRANA at any time.'')]))"

section \<open>SendModal.tsx\<close>

record SendForm = TxForm +
  sf_to :: jsstring
  sf_resolvedAddr :: jsstring
  sf_amount :: jsstring

datatype send_action = CloseSend | DoSend

definition SendForm_init :: SendForm where
  "SendForm_init = TxForm.extend empty_form (SendForm.fields [] [] [])"

definition setTo_input :: "jsstring \<Rightarrow> SendForm \<Rightarrow> SendForm" where
  "setTo_input v f = f\<lparr>sf_to := v, sf_resolvedAddr := []\<rparr>"

text \<open>
  \<^verbatim>\<open>resolveName\<close>: \<open>reply\<close> is what \<^verbatim>\<open>getAccountByName(to.trim())\<close> gave, its address; it is not asked for an
  address.  The result is the address or \<^verbatim>\<open>null\<close>.
\<close>

definition send_resolveName :: "(js_error, jsstring) result \<Rightarrow> SendForm \<Rightarrow> SendForm \<times> jsstring option" where
  "send_resolveName reply f =
     (if js_startsWith (sf_to f) (js ''drana1'') then (f\<lparr>sf_resolvedAddr := sf_to f\<rparr>, Some (sf_to f))
      else case reply of
        Inr address \<Rightarrow> (f\<lparr>sf_resolvedAddr := address\<rparr>, Some address)
      | Inl _ \<Rightarrow> (f\<lparr>tf_error := js ''Name \"'' @ sf_to f @ js ''\" not found''\<rparr>, None))"

text \<open>The first part of \<^verbatim>\<open>handleSend\<close>: \<open>Some microdrana\<close> when it goes on to resolve the recipient.\<close>

definition handleSend_start ::
    "(rat \<Rightarrow> jsstring) \<Rightarrow> jsnum \<Rightarrow> PendingTx list \<Rightarrow> SendForm \<Rightarrow> SendForm \<times> jsnum option" where
  "handleSend_start fmt balance pendingTxs f =
     (let microdrana = to_microdrana (sf_amount f) in
      if js_isNaN microdrana \<or> js_le microdrana (Num 0) then (fail (js ''Enter a valid amount'') f, None)
      else if js_trim (sf_to f) = [] then (fail (js ''Enter a recipient'') f, None)
      else (let available = js_sub balance (pendingOutgoing pendingTxs) in
            if js_less available microdrana then (fail (insufficient fmt available) f, None)
            else (start_loading f, Some microdrana)))"

text \<open>The second part, after the recipient is known; an empty address ends it like \<^verbatim>\<open>null\<close>.\<close>

definition handleSend_resolved ::
    "jsnum \<Rightarrow> (js_error, jsstring) result \<Rightarrow> SendForm \<Rightarrow> SendForm \<times> UnsignedTx option" where
  "handleSend_resolved microdrana reply f =
     (let (f, addr) = send_resolveName reply f in
      if js_or addr [] = [] then (f\<lparr>tf_loading := False\<rparr>, None)
      else (f, Some \<lparr>ut_type = Num 1, ut_recipient = addr, ut_postId = None, ut_text = None,
                     ut_channel = None, ut_amount = microdrana\<rparr>))"

definition handleSend_finish ::
    "(js_error \<Rightarrow> jsstring) \<Rightarrow> UnsignedTx \<Rightarrow> (js_error, SubmitTxResponse) result \<Rightarrow> SendForm
      \<Rightarrow> SendForm \<times> PendingTx option" where
  "handleSend_finish msg tx reply f =
     finish_form msg (\<lambda>resp. js ''Sent! Tx: '' @ hash_text resp) (\<lambda>resp. pending_of resp tx False) reply f"

definition SendModal :: "(rat \<Rightarrow> jsstring) \<Rightarrow> jsnum \<Rightarrow> SendForm \<Rightarrow> send_action node" where
  "SendModal fmt balance f =
     (if tf_success f \<noteq> []
      then Modal (js ''Send DRANA'') CloseSend [Text (tf_success f), Button (js ''Close'') False CloseSend]
      else Modal (js ''Send DRANA'') CloseSend
        ([Input (js ''Recipient (drana1... or name)'') (sf_to f)]
         @ shown_if (sf_resolvedAddr f \<noteq> [] \<and> sf_resolvedAddr f \<noteq> sf_to f) [Text (sf_resolvedAddr f)]
         @ [Input [] (sf_amount f), Text (js ''DRANA''),
            Text (js ''Balance: '' @ drana_text fmt balance @ js '' DRANA'')]
         @ shown_if (tf_error f \<noteq> []) [Text (tf_error f)]
         @ [Button (if tf_loading f then js ''Sending...'' else js ''Send'') (tf_loading f) DoSend]))"

section \<open>UnstakeModal.tsx\<close>

datatype unstake_action = CloseUnstake | DoUnstake

definition handleUnstake_start :: "jsstring \<Rightarrow> TxForm \<Rightarrow> TxForm \<times> UnsignedTx option" where
  "handleUnstake_start postId f =
     (start_loading f,
      Some \<lparr>ut_type = Num 7, ut_recipient = None, ut_postId = Some postId, ut_text = None,
            ut_channel = None, ut_amount = Num 0\<rparr>)"

definition handleUnstake_finish ::
    "(rat \<Rightarrow> jsstring) \<Rightarrow> (js_error \<Rightarrow> jsstring) \<Rightarrow> jsnum \<Rightarrow> UnsignedTx \<Rightarrow> (js_error, SubmitTxResponse) result
      \<Rightarrow> TxForm \<Rightarrow> TxForm \<times> PendingTx option" where
  "handleUnstake_finish fmt msg stakeAmount tx reply f =
     finish_form msg (\<lambda>resp. js ''Unstaked! '' @ drana_text fmt stakeAmount @ js '' DRANA returned.'')
       (\<lambda>resp. pending_of resp tx False) reply f"

definition UnstakeModal ::
    "(rat \<Rightarrow> jsstring) \<Rightarrow> jsstring option \<Rightarrow> jsstring \<Rightarrow> jsstring \<Rightarrow> jsstring \<Rightarrow> jsnum \<Rightarrow> TxForm
      \<Rightarrow> unstake_action node" where
  "UnstakeModal fmt address author postText channel stakeAmount f =
     (if tf_success f \<noteq> []
      then Modal (js ''Unstake from Post'') CloseUnstake [Text (tf_success f), Button (js ''Close'') False CloseUnstake]
      else Modal (js ''Unstake from Post'') CloseUnstake
        ([Text (excerpt postText),
          Text (js ''by '' @ js_slice author 0 12 @ js ''... '' @ [183] @ js '' #'' @ (if channel = [] then js ''general'' else channel)),
          Text (js ''Your stake: '' @ DranaAmount fmt stakeAmount),
          Text (js ''This will return '' @ drana_text fmt stakeAmount @ js '' DRANA to your wallet.'')]
         @ shown_if (address = Some author)
             [Text (js ''You are the author. Unstaking will withdraw this post and refund all other stakers.'')]
         @ shown_if (tf_error f \<noteq> []) [Text (tf_error f)]
         @ [Button (if tf_loading f then js ''Unstaking...'' else js ''Unstake'') (tf_loading f) DoUnstake,
            Button (js ''Cancel'') False CloseUnstake]))"

section \<open>What the forms submit\<close>

lemma to_microdrana_cases:
  assumes "\<not> js_isNaN (to_microdrana s)" "\<not> js_less (Num avail) (to_microdrana s)" "\<not> js_less (to_microdrana s) (Num lo)"
  shows "\<exists>n. to_microdrana s = Num (of_int n) \<and> lo \<le> of_int n \<and> of_int n \<le> avail"
proof (cases "to_microdrana s")
  case (Num r)
  then have "rat_is_int r" using js_floor_int by (auto simp: to_microdrana_def)
  then obtain n where "r = of_int n" by (auto simp: rat_is_int_iff)
  with assms Num show ?thesis by auto
qed (use assms in \<open>auto simp: js_isNaN_def\<close>)

text \<open>
  C31: the forms only submit what the wallet can pay: when a boost, a post or a transfer is submitted its amount
  is a whole number of microdrana, at least the minimum of the form and at most the balance less what is
  already pending.
\<close>

theorem forms_affordable:
  assumes "js_sub balance (pendingOutgoing txs) = Num avail"
  shows "(\<forall>f f' tx. handleBoost_start fmt i balance txs f = (f', Some tx) \<longrightarrow>
      (\<exists>n. ut_amount tx = Num (of_int n) \<and> 100000 \<le> n \<and> of_int n \<le> avail))
    \<and> (\<forall>f f' tx. handleSubmit_start fmt parent balance txs f = (f', Some tx) \<longrightarrow>
      (\<exists>n. ut_amount tx = Num (of_int n) \<and> 1000000 \<le> n \<and> of_int n \<le> avail))
    \<and> (\<forall>f f' x. handleSend_start fmt balance txs f = (f', Some x) \<longrightarrow>
      (\<exists>n. x = Num (of_int n) \<and> 0 < n \<and> of_int n \<le> avail))"
proof (intro conjI allI impI)
  fix f f' tx
  assume "handleBoost_start fmt i balance txs f = (f', Some tx)"
  then show "\<exists>n. ut_amount tx = Num (of_int n) \<and> 100000 \<le> n \<and> of_int n \<le> avail"
    using to_microdrana_cases [of "bf_amount f" avail 100000]
    by (auto simp: handleBoost_start_def Let_def assms split: if_splits)
next
  fix f f' tx
  assume "handleSubmit_start fmt parent balance txs f = (f', Some tx)"
  then show "\<exists>n. ut_amount tx = Num (of_int n) \<and> 1000000 \<le> n \<and> of_int n \<le> avail"
    using to_microdrana_cases [of "pf_amount f" avail 1000000]
    by (auto simp: handleSubmit_start_def Let_def assms split: if_splits)
next
  fix f f' x
  assume *: "handleSend_start fmt balance txs f = (f', Some x)"
  then have "\<not> js_le x (Num 0)" "x = to_microdrana (sf_amount f)" "\<not> js_isNaN x" "\<not> js_less (Num avail) x"
    by (auto simp: handleSend_start_def Let_def assms split: if_splits)
  then show "\<exists>n. x = Num (of_int n) \<and> 0 < n \<and> of_int n \<le> avail"
    using to_microdrana_cases [of "sf_amount f" avail 0] by (auto simp: js_le_def)
qed

lemma fl_8_2: "fl (41 / 5) = 4616189618054758 / 562949953421312"
  using fl_eval [of "41 / 5" 3 4616189618054758] by simp

lemma fl_8_2_scaled: "fl (4616189618054758 / 562949953421312 * 1000000) = 8804682956799999 / 1073741824"
  using fl_eval [of "4616189618054758 / 562949953421312 * 1000000" 22 8804682956799999] by simp

lemma js_of_rat_small: "\<bar>fl x\<bar> < 2 ^ 53 \<Longrightarrow> js_of_rat x = Num (fl x)"
proof -
  assume a: "\<bar>fl x\<bar> < 2 ^ 53"
  have "(2 :: rat) ^ 53 \<le> pow2 1024" by simp
  with a show ?thesis by (auto simp: js_of_rat_def Let_def)
qed

text \<open>
  Converting the typed amount through a double loses a microdrana: \<^verbatim>\<open>8.2\<close> is read as 8199999 microdrana,
  not 8200000, so the amount that is signed is smaller than the one on the screen.
\<close>

theorem amount_truncated: "to_microdrana (js ''8.2'') = Num 8199999"
proof -
  have "js_unsigned_literal (js ''8.2'') = Some (41 / 5)"
    by (simp add: js_unsigned_literal_def js_def is_digit_def dec_val_def digit_val_def js_exponent_def)
  then have "parseFloat (js ''8.2'') = js_of_rat (41 / 5)"
    by (simp add: parseFloat_def js_def js_whitespace_def js_startsWith_def)
  then have "parseFloat (js ''8.2'') = Num (4616189618054758 / 562949953421312)"
    using js_of_rat_small [of "41 / 5"] by (simp add: fl_8_2)
  moreover have "js_of_rat (4616189618054758 / 562949953421312 * 1000000) = Num (8804682956799999 / 1073741824)"
    using js_of_rat_small [of "4616189618054758 / 562949953421312 * 1000000"] unfolding fl_8_2_scaled by simp
  ultimately show "to_microdrana (js ''8.2'') = Num 8199999"
    by (simp add: to_microdrana_def js_floor_def floor_eq_iff)
qed

lemma parseFloat_digits:
  assumes "n < 2 ^ 53"
  shows "parseFloat (dec_digits n) = Num (of_nat n)"
proof -
  obtain c t where ct: "dec_digits n = c # t" by (cases "dec_digits n") (auto simp: dec_digits_nonempty)
  have d: "is_digit x" if "x \<in> set (dec_digits n)" for x using that by (rule is_digit_dec_digits)
  then have c: "48 \<le> unat c" "unat c \<le> 57" using ct by (auto simp: is_digit_def)
  have tw: "takeWhile is_digit (dec_digits n) = dec_digits n" "dropWhile is_digit (dec_digits n) = []"
    using d by (auto simp: takeWhile_eq_all_conv dropWhile_eq_Nil_conv)
  have lit: "js_unsigned_literal (dec_digits n) = Some (of_nat n)"
    by (simp add: tw js_unsigned_literal_def dec_digits_nonempty dec_val_dec_digits dec_val_def [of "[]"]
        js_exponent_def Let_def)
  have "\<not> js_startsWith (c # t) (js ''Infinity'')" using c by (auto simp: js_startsWith_def js_def)
  moreover have "\<not> js_whitespace c" using c by (auto simp: js_whitespace_def)
  ultimately have "parseFloat (dec_digits n) = js_of_rat (of_nat n)"
    using lit c by (simp add: parseFloat_def ct)
  moreover have "\<bar>int n\<bar> \<le> MAX_SAFE_INTEGER" using assms by (simp add: MAX_SAFE_INTEGER_def)
  ultimately show ?thesis using js_of_int_safe [of "int n"] by simp
qed

text \<open>
  Whole amounts convert exactly: typing a number of DRANA without a fraction gives that number of millions
  of microdrana, up to the exactness limit of doubles.
\<close>

theorem whole_amount_exact:
  assumes "n * 1000000 < 2 ^ 53"
  shows "to_microdrana (dec_digits n) = Num (of_nat (n * 1000000))"
proof -
  have "n < 2 ^ 53" using assms by simp
  moreover have "js_of_rat (of_int (int (n * 1000000))) = Num (of_int (int (n * 1000000)))"
    by (rule js_of_int_safe) (use assms in \<open>simp add: MAX_SAFE_INTEGER_def\<close>)
  ultimately show ?thesis by (simp add: to_microdrana_def parseFloat_digits js_floor_def)
qed

theorem whole_amount_exact_witness: "to_microdrana (dec_digits 25) = Num 25000000"
  using whole_amount_exact [of 25] by simp

text \<open>
  C30: a text that the post form submits is accepted by the node: it is not empty, at most 280 code points and
  valid UTF-8, and the form trims it, so with the limits of the chain only a text that is not in NFC is rejected.
\<close>

theorem post_form_text_accepted:
  assumes "handleSubmit_start fmt parent balance txs f = (f', Some tx)" "length (pf_text f) \<le> 280"
    "\<And>s. ut_text tx = Some s \<Longrightarrow> NFC_IsNormalString N (TextEncoder_encode s)"
  shows "\<exists>s. ut_text tx = Some s \<and> ValidatePostText N (TextEncoder_encode s) 280 1024 = Inr ()"
proof -
  have tx: "ut_text tx = Some (js_trim (pf_text f))" "js_trim (pf_text f) \<noteq> []"
    using assms(1) by (auto simp: handleSubmit_start_def Let_def split: if_splits)
  have "length (js_trim (pf_text f)) \<le> length (pf_text f)"
    unfolding js_trim_def by (metis dual_order.trans length_dropWhile_le length_rev)
  then show ?thesis using tx assms(2,3) text_accepted [of "js_trim (pf_text f)" N] by simp
qed

definition hi_form :: PostForm where
  "hi_form = PostForm_init\<lparr>pf_text := js '' hi '', pf_amount := js ''2''\<rparr>"

lemma hi_form_submits:
  "handleSubmit_start fmt None (Num 5000000) [] hi_form = (start_loading hi_form,
     Some \<lparr>ut_type = Num 2, ut_recipient = None, ut_postId = None, ut_text = Some (js ''hi''),
       ut_channel = Some [], ut_amount = Num 2000000\<rparr>)"
proof -
  have "dec_digits 2 = js ''2''" by (simp add: dec_digits.simps js_def)
  then have "to_microdrana (js ''2'') = Num 2000000"
    using parseFloat_digits [of 2] js_of_int_safe [of 2000000]
    by (simp add: to_microdrana_def js_floor_def MAX_SAFE_INTEGER_def)
  moreover have "js_trim (js '' hi '') = js ''hi''" by (simp add: js_trim_def js_def js_whitespace_def)
  moreover have "js_sub (Num 5000000) (pendingOutgoing []) = Num 5000000"
    using js_of_int_safe [of 5000000] by (simp add: js_sub_def pendingOutgoing_def MAX_SAFE_INTEGER_def)
  moreover have "js ''hi'' \<noteq> []" by (simp add: js_def)
  ultimately show ?thesis
    by (simp add: handleSubmit_start_def hi_form_def PostForm_init_def TxForm.defs PostForm.defs empty_form_def
        js_isNaN_def isReply_def js_or_def start_loading_def)
qed

theorem post_form_text_accepted_witness:
  "\<exists>f' tx s. handleSubmit_start (\<lambda>x. []) None (Num 5000000) [] hi_form = (f', Some tx) \<and> ut_text tx = Some s
     \<and> ValidatePostText plain_norm (TextEncoder_encode s) 280 1024 = Inr ()"
  using post_form_text_accepted [OF hi_form_submits [where fmt = "\<lambda>x. []"], where N = plain_norm]
    hi_form_submits [where fmt = "\<lambda>x. []"]
  by (auto simp: hi_form_def PostForm_init_def TxForm.defs PostForm.defs empty_form_def js_def plain_norm_def)

theorem forms_affordable_witness:
  "\<exists>f' tx n. handleSubmit_start (\<lambda>x. []) None (Num 5000000) [] hi_form = (f', Some tx)
     \<and> ut_amount tx = Num (of_int n) \<and> 1000000 \<le> n \<and> (of_int n :: rat) \<le> 5000000"
proof -
  have "js_sub (Num 5000000) (pendingOutgoing []) = Num 5000000"
    using js_of_int_safe [of 5000000] by (simp add: js_sub_def pendingOutgoing_def MAX_SAFE_INTEGER_def)
  from forms_affordable [OF this, THEN conjunct2, THEN conjunct1, rule_format,
      OF hi_form_submits [where fmt = "\<lambda>x. []"]] hi_form_submits [where fmt = "\<lambda>x. []"]
  show ?thesis by blast
qed

end
