(* ===== verification/Pages.thy ===== *)
theory Pages
  imports TopBar Forms
begin

text \<open>
  The pages \<^verbatim>\<open>Feed.tsx\<close>, \<^verbatim>\<open>PostDetail.tsx\<close>, \<^verbatim>\<open>Rewards.tsx\<close> and \<^verbatim>\<open>Profile.tsx\<close>: the paging of the feed, the guard
  in front of every action that signs, the dialogs a page opens, and what it shows for given query results
  (\<open>None\<close> while there is no data).  Fetching, caching and repeating a query is done by \<^verbatim>\<open>react-query\<close>: of it the
  model uses that an infinite query appends the page that \<^verbatim>\<open>getNextPageParam\<close> names.
\<close>

section \<open>Types\<close>

record JsFeedResponse =
  fr_posts :: "JsRankedPost list"
  fr_totalCount :: jsnum
  fr_page :: jsnum
  fr_pageSize :: jsnum
  fr_strategy :: jsstring

record PostStakePosition =
  psp_postId :: jsstring
  psp_amount :: jsnum
  psp_height :: jsnum

record MyStakesResponse =
  ms_stakes :: "PostStakePosition list"
  ms_totalCount :: jsnum
  ms_totalStaked :: jsnum

record AuthorProfile =
  ap_address :: jsstring
  ap_postCount :: jsnum
  ap_totalStaked :: jsnum
  ap_totalReceived :: jsnum
  ap_uniqueBoosterCount :: jsnum

record RewardEvent =
  re_postId :: jsstring
  re_recipient :: jsstring
  re_amount :: jsnum
  re_blockHeight :: jsnum
  re_blockTime :: jsnum
  re_triggerTx :: jsstring
  re_triggerAddress :: jsstring
  re_type :: jsstring

record RewardSummary =
  rs_last24h :: jsnum
  rs_last7d :: jsnum
  rs_allTime :: jsnum
  rs_postCount :: jsnum
  rs_totalStaked :: jsnum

definition num_or_zero :: "jsnum option \<Rightarrow> jsnum" where
  "num_or_zero x = opt_val (Num 0) js_or_zero x"

section \<open>Feed.tsx: paging\<close>

abbreviation PAGE_SIZE :: nat where "PAGE_SIZE \<equiv> 20"

text \<open>\<^verbatim>\<open>getFeed({strategy, channel, page, pageSize})\<close>: a falsy channel is left out of the query.\<close>

definition feed_params :: "(rat \<Rightarrow> jsstring) \<Rightarrow> jsstring \<Rightarrow> json \<Rightarrow> nat \<Rightarrow> FeedParams" where
  "feed_params fmt strategy channel pageParam =
     \<lparr>fp_strategy = Some strategy,
      fp_channel = (if json_truthy channel then Some (json_toString fmt channel) else None), fp_page = Some (Num (of_nat pageParam)),
      fp_pageSize = Some (Num (of_nat PAGE_SIZE))\<rparr>"

definition getNextPageParam :: "JsFeedResponse \<Rightarrow> JsFeedResponse list \<Rightarrow> nat option" where
  "getNextPageParam lastPage allPages =
     (let loaded = length allPages * PAGE_SIZE
      in if js_less (Num (of_nat loaded)) (fr_totalCount lastPage) then Some (length allPages + 1) else None)"

text \<open>
  The infinite query: the first fetch asks for \<^verbatim>\<open>initialPageParam\<close>, every other one for the next page; a
  failed fetch leaves the pages as they are.
\<close>

definition hasNextPage :: "JsFeedResponse list \<Rightarrow> bool" where
  "hasNextPage pages \<longleftrightarrow> pages \<noteq> [] \<and> getNextPageParam (last pages) pages \<noteq> None"

definition fetch_page ::
    "(nat \<Rightarrow> (js_error, JsFeedResponse) result) \<Rightarrow> JsFeedResponse list \<Rightarrow> JsFeedResponse list" where
  "fetch_page getPage pages =
     (case (if pages = [] then Some 1 else getNextPageParam (last pages) pages) of
        None \<Rightarrow> pages
      | Some p \<Rightarrow> (case getPage p of Inr r \<Rightarrow> pages @ [r] | Inl _ \<Rightarrow> pages))"

definition allPosts :: "JsFeedResponse list \<Rightarrow> JsRankedPost list" where
  "allPosts pages = concat (map fr_posts pages)"

section \<open>Feed.tsx: values\<close>

definition topStaked :: "JsRankedPost list \<Rightarrow> jsnum" where
  "topStaked posts = (case posts of p # _ \<Rightarrow> js_or_zero (jp_totalStaked p) | [] \<Rightarrow> Num 0)"

definition highValueThreshold :: "JsRankedPost list \<Rightarrow> jsnum" where
  "highValueThreshold posts = js_mul (topStaked posts) (Num (1 / 2))"

definition isHighValue :: "JsRankedPost list \<Rightarrow> JsRankedPost \<Rightarrow> bool" where
  "isHighValue posts p \<longleftrightarrow>
     js_less (highValueThreshold posts) (jp_totalStaked p) \<and> js_less (Num 0) (jp_totalStaked p)"

definition stakeMap :: "MyStakesResponse option \<Rightarrow> (jsstring, jsnum) gomap" where
  "stakeMap r = fold (\<lambda>s m. mput (psp_postId s) (psp_amount s) m) (opt_val [] ms_stakes r) []"

definition userStake :: "MyStakesResponse option \<Rightarrow> jsstring \<Rightarrow> jsnum" where
  "userStake r i = num_or_zero (mget (stakeMap r) i)"

section \<open>Feed.tsx: dialogs\<close>

datatype page_modal = PM_post | PM_reply | PM_boost | PM_unstake | PM_wallet_create | PM_wallet_unlock

record FeedState =
  fs_strategy :: jsstring
  fs_channel :: json
  fs_modal :: "page_modal option"
  fs_selectedPost :: "JsRankedPost option"
  fs_replyToId :: "jsstring option"
  fs_unstakeAmount :: jsnum

definition Feed_init :: "jsstring \<Rightarrow> FeedState" where
  "Feed_init channel = \<lparr>fs_strategy = js ''trending'', fs_channel = JStr channel, fs_modal = None,
     fs_selectedPost = None, fs_replyToId = None, fs_unstakeAmount = Num 0\<rparr>"

text \<open>
  \<^verbatim>\<open>setChannel\<close>, with the fragment it writes, the \<^verbatim>\<open>hashchange\<close> handler, and \<^verbatim>\<open>setStrategy\<close>.  The channel is a
  string but for one chosen from the list, which the reviver may have turned into a number.
\<close>

definition feed_setChannel :: "(rat \<Rightarrow> jsstring) \<Rightarrow> json \<Rightarrow> FeedState \<Rightarrow> FeedState \<times> jsstring" where
  "feed_setChannel fmt ch fs =
     (fs\<lparr>fs_channel := ch\<rparr>, channel_hash (if json_truthy ch then json_toString fmt ch else []))"

definition feed_hashchange :: "(jsstring \<Rightarrow> jsstring) \<Rightarrow> jsstring \<Rightarrow> FeedState \<Rightarrow> FeedState" where
  "feed_hashchange decode location_hash fs = fs\<lparr>fs_channel := JStr (feed_channel decode location_hash)\<rparr>"

definition feed_setStrategy :: "jsstring \<Rightarrow> FeedState \<Rightarrow> FeedState" where
  "feed_setStrategy s fs = fs\<lparr>fs_strategy := s\<rparr>"

text \<open>\<^verbatim>\<open>requireWallet\<close>: a wallet dialog instead of the action when there is no wallet or it is locked.\<close>

definition requireWallet :: "WalletState \<Rightarrow> (page_modal option \<Rightarrow> 's) \<Rightarrow> 's \<Rightarrow> 's" where
  "requireWallet st setModal action =
     (if \<not> hasWallet st then setModal (Some PM_wallet_create)
      else if \<not> isUnlocked st then setModal (Some PM_wallet_unlock)
      else action)"

definition feed_setModal :: "FeedState \<Rightarrow> page_modal option \<Rightarrow> FeedState" where
  "feed_setModal fs m = fs\<lparr>fs_modal := m\<rparr>"

definition feed_newPost :: "WalletState \<Rightarrow> FeedState \<Rightarrow> FeedState" where
  "feed_newPost st fs = requireWallet st (feed_setModal fs) (fs\<lparr>fs_modal := Some PM_post\<rparr>)"

definition feed_onBoost :: "WalletState \<Rightarrow> JsRankedPost \<Rightarrow> FeedState \<Rightarrow> FeedState" where
  "feed_onBoost st post fs =
     requireWallet st (feed_setModal fs) (fs\<lparr>fs_selectedPost := Some post, fs_modal := Some PM_boost\<rparr>)"

definition feed_onReply :: "WalletState \<Rightarrow> JsRankedPost \<Rightarrow> FeedState \<Rightarrow> FeedState" where
  "feed_onReply st post fs =
     requireWallet st (feed_setModal fs) (fs\<lparr>fs_replyToId := Some (jp_postId post), fs_modal := Some PM_reply\<rparr>)"

definition feed_onUnstake :: "WalletState \<Rightarrow> MyStakesResponse option \<Rightarrow> JsRankedPost \<Rightarrow> FeedState \<Rightarrow> FeedState" where
  "feed_onUnstake st r post fs =
     requireWallet st (feed_setModal fs)
       (fs\<lparr>fs_selectedPost := Some post, fs_unstakeAmount := userStake r (jp_postId post),
           fs_modal := Some PM_unstake\<rparr>)"

datatype page_dialog =
    DlgNewPost "jsstring option"
  | DlgBoost JsRankedPost
  | DlgUnstake JsRankedPost jsnum
  | DlgCreateWallet
  | DlgUnlockWallet

definition feed_dialog :: "FeedState \<Rightarrow> page_dialog option" where
  "feed_dialog fs =
     (case fs_modal fs of
        None \<Rightarrow> None
      | Some PM_post \<Rightarrow> Some (DlgNewPost None)
      | Some PM_reply \<Rightarrow> Some (DlgNewPost (fs_replyToId fs))
      | Some PM_boost \<Rightarrow> map_option DlgBoost (fs_selectedPost fs)
      | Some PM_unstake \<Rightarrow> map_option (\<lambda>p. DlgUnstake p (fs_unstakeAmount fs)) (fs_selectedPost fs)
      | Some PM_wallet_create \<Rightarrow> Some DlgCreateWallet
      | Some PM_wallet_unlock \<Rightarrow> Some DlgUnlockWallet)"

text \<open>\<^verbatim>\<open>onClose\<close> of the dialog that is shown.\<close>

definition feed_close :: "FeedState \<Rightarrow> FeedState" where
  "feed_close fs =
     (case fs_modal fs of
        Some PM_reply \<Rightarrow> fs\<lparr>fs_modal := None, fs_replyToId := None\<rparr>
      | Some PM_boost \<Rightarrow> fs\<lparr>fs_modal := None, fs_selectedPost := None\<rparr>
      | Some PM_unstake \<Rightarrow> fs\<lparr>fs_modal := None, fs_selectedPost := None\<rparr>
      | _ \<Rightarrow> fs\<lparr>fs_modal := None\<rparr>)"

section \<open>Feed.tsx: view\<close>

datatype feed_action =
    FeedNewPost
  | FeedCard JsRankedPost card_action
  | FeedChannel channel_action

text \<open>An exception of the channel search ends the rendering of the page.\<close>

definition Feed_view ::
    "(rat \<Rightarrow> jsstring) \<Rightarrow> (jsstring \<Rightarrow> jsstring) \<Rightarrow> (jsstring \<Rightarrow> jsstring \<Rightarrow> int) \<Rightarrow> jsnum
      \<Rightarrow> (jsstring \<Rightarrow> json option) \<Rightarrow> bool \<Rightarrow> PendingTx list \<Rightarrow> MyStakesResponse option \<Rightarrow> ChannelInfo list option
      \<Rightarrow> JsFeedResponse list \<Rightarrow> ChannelSearchState \<Rightarrow> FeedState \<Rightarrow> (js_error, feed_action node list) result" where
  "Feed_view fmt lower localeCompare now resolve isLoading txs stakes channels pages cs fs =
     (let posts = allPosts pages; pendingPosts = getPendingPosts txs in
      bindR (if opt_val [] id channels \<noteq> []
             then ChannelSearch fmt lower localeCompare (opt_val [] id channels) (fs_channel fs) cs
             else Inr []) (\<lambda>search.
      Inr ([Button (js ''New Post'') False FeedNewPost]
        @ map (map_node FeedChannel) search
        @ shown_if isLoading [Text (js ''Loading...'')]
        @ shown_if (\<not> isLoading \<and> posts = [] \<and> pendingPosts = [])
            [Text (js ''No posts yet.''), Button (js ''Create the first post'') False FeedNewPost]
        @ concat (map (PendingPostCard fmt) pendingPosts)
        @ concat (map (\<lambda>post. map (map_node (FeedCard post))
            (PostCard fmt now (resolve (jp_author post)) True (Some (userStake stakes (jp_postId post))) post)) posts))))"

text \<open>
  What a click on the feed does to its state.  The links of a card only change the address, the search box
  keeps its own state, and a chosen channel is passed to \<^verbatim>\<open>setChannel\<close>.
\<close>

definition Feed_click ::
    "(rat \<Rightarrow> jsstring) \<Rightarrow> WalletState \<Rightarrow> MyStakesResponse option \<Rightarrow> feed_action \<Rightarrow> FeedState \<Rightarrow> FeedState" where
  "Feed_click fmt st stakes a fs =
     (case a of
        FeedNewPost \<Rightarrow> feed_newPost st fs
      | FeedCard post CardBoost \<Rightarrow> feed_onBoost st post fs
      | FeedCard post CardReply \<Rightarrow> feed_onReply st post fs
      | FeedCard post CardUnstake \<Rightarrow> feed_onUnstake st stakes post fs
      | FeedCard post (CardProfile _) \<Rightarrow> fs
      | FeedCard post (CardPost _) \<Rightarrow> fs
      | FeedChannel (SelectChannel ch) \<Rightarrow> fst (feed_setChannel fmt ch fs)
      | FeedChannel OpenSearch \<Rightarrow> fs)"

section \<open>PostDetail.tsx\<close>

record PostReplies =
  pr_replies :: "JsPost list"
  pr_totalCount :: jsnum

datatype detail_action = GoBack | DetailProfile jsstring | DetailStake | DetailUnstake | DetailReply

definition myStake :: "jsstring \<Rightarrow> MyStakesResponse option \<Rightarrow> PostStakePosition option" where
  "myStake i r = find (\<lambda>s. psp_postId s = i) (opt_val [] ms_stakes r)"

definition shortAuthor :: "(rat \<Rightarrow> jsstring) \<Rightarrow> json option \<Rightarrow> jsstring \<Rightarrow> jsstring" where
  "shortAuthor fmt resolved author =
     react_or fmt resolved (if length author > 20 then js_slice author 0 10 @ js ''...'' else author)"

definition detail_click :: "WalletState \<Rightarrow> detail_action \<Rightarrow> page_modal option \<Rightarrow> page_modal option" where
  "detail_click st a m =
     (case a of
        DetailStake \<Rightarrow> requireWallet st id (Some PM_boost)
      | DetailUnstake \<Rightarrow> requireWallet st id (Some PM_unstake)
      | DetailReply \<Rightarrow> requireWallet st id (Some PM_reply)
      | _ \<Rightarrow> m)"

definition reply_view :: "(rat \<Rightarrow> jsstring) \<Rightarrow> jsnum \<Rightarrow> (jsstring \<Rightarrow> json option) \<Rightarrow> JsPost \<Rightarrow> detail_action node list" where
  "reply_view fmt now resolve r =
     [Text (DranaAmount fmt (jp_totalStaked r)), Text (TimeAgo fmt now (jp_createdAtTime r)),
      Link (shortAuthor fmt (resolve (jp_author r)) (jp_author r)) (DetailProfile (jp_author r)),
      Text (json_toString fmt (jp_text r))]"

definition middle_dot :: jsstring where "middle_dot = [0xB7]"
definition left_arrow :: jsstring where "left_arrow = [0x2190]"
definition warning_sign :: jsstring where "warning_sign = [0x26A0]"
definition em_dash :: jsstring where "em_dash = [0x2014]"
definition money_bag :: jsstring where "money_bag = [0xD83D, 0xDCB0]"

definition PostDetail_view ::
    "(rat \<Rightarrow> jsstring) \<Rightarrow> jsnum \<Rightarrow> (jsstring \<Rightarrow> json option) \<Rightarrow> jsstring \<Rightarrow> bool \<Rightarrow> JsRankedPost option
      \<Rightarrow> PostReplies option \<Rightarrow> MyStakesResponse option \<Rightarrow> detail_action node list" where
  "PostDetail_view fmt now resolve i isLoading post replies stakes =
     (if isLoading then [Text (js ''Loading...'')]
      else case post of
        None \<Rightarrow> [Text (js ''Post not found'')]
      | Some p \<Rightarrow>
          (let mine = myStake i stakes in
           [Button (left_arrow @ js '' Back'') False GoBack]
           @ shown_if (jp_withdrawn p)
               [Text (warning_sign @ js '' WITHDRAWN '' @ em_dash @ js '' This post's author has unstaked. Content preserved for history.'')]
           @ [Text pushpin, Text (DranaAmount fmt (jp_totalStaked p)),
              Text (drana_text fmt (js_or_zero (jr_authorStaked p)) @ js '' by author '' @ middle_dot @ js '' ''
                @ drana_text fmt (js_or_zero (jr_thirdPartyStaked p)) @ js '' by ''
                @ js_String fmt (js_or_zero (jr_uniqueBoosterCount p)) @ js '' others''
                @ (if js_truthy (jp_totalBurned p)
                   then js '' '' @ middle_dot @ js '' '' @ drana_text fmt (jp_totalBurned p) @ js '' burned in fees''
                   else [])),
              Link (shortAuthor fmt (resolve (jp_author p)) (jp_author p)) (DetailProfile (jp_author p))]
           @ channel_tag fmt (jp_channel p)
           @ [Text (js ''Block '' @ js_String fmt (jp_createdAtHeight p)),
              Text (TimeAgo fmt now (jp_createdAtTime p)), Text (json_toString fmt (jp_text p))]
           @ shown_if (\<not> jp_withdrawn p)
               [case mine of
                  Some s \<Rightarrow> Button (js ''Unstake ('' @ drana_text fmt (psp_amount s) @ js '' DRANA)'') False DetailUnstake
                | None \<Rightarrow> Button (js ''Stake on this post'') False DetailStake]
           @ [Text (js ''REPLIES ('' @ js_String fmt (num_or_zero (map_option pr_totalCount replies)) @ js '')'')]
           @ shown_if (\<not> jp_withdrawn p) [Button (js ''Write a reply'') False DetailReply]
           @ concat (map (reply_view fmt now resolve) (opt_val [] pr_replies replies))
           @ shown_if (js_less (Num 0) (jp_stakerCount p))
               (Text (js_String fmt (jp_stakerCount p) @ js '' STAKER''
                  @ (if jp_stakerCount p \<noteq> Num 1 then js ''S'' else []) @ js '' '' @ middle_dot @ js '' ''
                  @ drana_text fmt (jp_totalStaked p) @ js '' DRANA staked'')
                # (case mine of
                     None \<Rightarrow> []
                   | Some s \<Rightarrow> [Text (js ''Your stake: '' @ drana_text fmt (psp_amount s) @ js '' DRANA (since block ''
                       @ js_String fmt (psp_height s) @ js '')'')]))))"

definition detail_dialog ::
    "jsstring \<Rightarrow> JsRankedPost \<Rightarrow> MyStakesResponse option \<Rightarrow> page_modal option \<Rightarrow> page_dialog option" where
  "detail_dialog i p stakes m =
     (case m of
        Some PM_boost \<Rightarrow> Some (DlgBoost p)
      | Some PM_unstake \<Rightarrow> map_option (\<lambda>s. DlgUnstake p (psp_amount s)) (myStake i stakes)
      | Some PM_reply \<Rightarrow> Some (DlgNewPost (Some i))
      | Some PM_wallet_create \<Rightarrow> Some DlgCreateWallet
      | Some PM_wallet_unlock \<Rightarrow> Some DlgUnlockWallet
      | _ \<Rightarrow> None)"

section \<open>Rewards.tsx\<close>

text \<open>The loop of the fourth query: one request per stake, in order; a failed one counts as zero.\<close>

definition rewardsPerPost ::
    "(jsstring \<Rightarrow> (js_error, jsnum) result) \<Rightarrow> PostStakePosition list \<Rightarrow> (jsstring, jsnum) gomap" where
  "rewardsPerPost getReward stakes =
     fold (\<lambda>s m. mput (psp_postId s) (case getReward (psp_postId s) of Inr r \<Rightarrow> r | Inl _ \<Rightarrow> Num 0) m) stakes []"

datatype rewards_action = RewardPost jsstring

definition plural :: "jsnum \<Rightarrow> jsstring" where
  "plural n = (if n \<noteq> Num 1 then js ''s'' else [])"

definition stake_row ::
    "(rat \<Rightarrow> jsstring) \<Rightarrow> (jsstring, jsnum) gomap option \<Rightarrow> PostStakePosition \<Rightarrow> rewards_action node list" where
  "stake_row fmt perPost s =
     (let earned = opt_val (Num 0) (\<lambda>m. opt_val (Num 0) id (mget m (psp_postId s))) perPost in
      [Link (pushpin @ js '' '' @ DranaAmount fmt (psp_amount s)
          @ (if js_less (Num 0) earned then js ''+'' @ drana_text fmt earned @ js '' earned'' else [])
          @ js_slice (psp_postId s) 0 16 @ js ''...since block '' @ js_String fmt (psp_height s))
        (RewardPost (js ''post/'' @ psp_postId s))])"

definition reward_row :: "(rat \<Rightarrow> jsstring) \<Rightarrow> jsnum \<Rightarrow> RewardEvent \<Rightarrow> 'a node list" where
  "reward_row fmt now ev =
     [Text (js ''+'' @ drana_text fmt (re_amount ev)),
      Text (if re_type ev = js ''author'' then js ''Author reward'' else js ''Staker reward''),
      Text (TimeAgo fmt now (re_blockTime ev))]"

definition Rewards_view ::
    "(rat \<Rightarrow> jsstring) \<Rightarrow> jsnum \<Rightarrow> WalletState \<Rightarrow> RewardSummary option \<Rightarrow> RewardEvent list option
      \<Rightarrow> MyStakesResponse option \<Rightarrow> (jsstring, jsnum) gomap option \<Rightarrow> rewards_action node list" where
  "Rewards_view fmt now st summary rewards stakes perPost =
     (if \<not> isUnlocked st then [Text (js ''Unlock your wallet to see rewards.'')]
      else
        (let n = num_or_zero (map_option ms_totalCount stakes) in
         [Text (money_bag @ js '' Rewards & Stakes''),
          Text (js ''Spendable Balance''), Text (DranaAmount fmt (wc_balance st)),
          Text (js ''Locked in Post Stakes''), Text (DranaAmount fmt (wc_postStakeBalance st)),
          Text (js ''Total Value''), Text (DranaAmount fmt (js_add (wc_balance st) (wc_postStakeBalance st)))]
         @ opt_val [] (\<lambda>s.
             [Text (js ''Rewards (24h)''), Text (js ''+'' @ drana_text fmt (rs_last24h s)),
              Text (js ''Rewards (7d)''), Text (js ''+'' @ drana_text fmt (rs_last7d s)),
              Text (js ''Rewards (All Time)''), Text (js ''+'' @ drana_text fmt (rs_allTime s))]) summary
         @ [Text (js ''Staked across '' @ js_String fmt n @ js '' post'' @ plural n @ js ''. ''
              @ js ''Rewards are paid directly to your wallet when others stake on posts you're invested in.'')]
         @ shown_if (opt_val [] id rewards \<noteq> [])
             (Text (js ''RECENT REWARDS'') # concat (map (reward_row fmt now) (opt_val [] id rewards)))
         @ [Text (js ''MY STAKES ('' @ js_String fmt n @ js '' post'' @ plural n @ js '' '' @ middle_dot @ js '' ''
              @ DranaAmount fmt (num_or_zero (map_option ms_totalStaked stakes)) @ js '')'')]
         @ shown_if (opt_val [] ms_stakes stakes = [])
             [Text (js ''No active stakes. Stake on posts to start earning rewards when others stake after you.'')]
         @ concat (map (stake_row fmt perPost) (opt_val [] ms_stakes stakes))))"

section \<open>Profile.tsx\<close>

definition truncated :: "jsstring \<Rightarrow> jsstring" where
  "truncated address =
     (if length address > 20 then js_slice address 0 14 @ js ''...'' @ js_slice_last address 8 else address)"

text \<open>The cards of a profile get handlers that do nothing, no unstake handler and no stake.\<close>

definition Profile_view ::
    "(rat \<Rightarrow> jsstring) \<Rightarrow> jsnum \<Rightarrow> (jsstring \<Rightarrow> json option) \<Rightarrow> jsstring \<Rightarrow> JsAccount option
      \<Rightarrow> AuthorProfile option \<Rightarrow> JsRankedPost list option \<Rightarrow> card_action node list" where
  "Profile_view fmt now resolve address account profile posts =
     (let name = (case account of Some a \<Rightarrow> ja_name a | None \<Rightarrow> None) in
      [Text (react_or fmt name (truncated address))]
      @ react_and fmt name [Text address]
      @ opt_val [] (\<lambda>a.
          [Text (js ''Balance''), Text (DranaAmount fmt (ja_balance a))]
          @ shown_if (js_less (Num 0) (ja_stakedBalance a))
              [Text (js ''Validator Staked''), Text (DranaAmount fmt (ja_stakedBalance a))]
          @ shown_if (js_less (Num 0) (ja_postStakeBalance a))
              [Text (js ''Post Stakes''), Text (DranaAmount fmt (ja_postStakeBalance a))]) account
      @ opt_val [] (\<lambda>p.
          [Text (js ''Posts''), Text (js_String fmt (ap_postCount p)),
           Text (js ''Rewards Earned''), Text (DranaAmount fmt (ap_totalReceived p))]) profile
      @ [Text (js ''POSTS'')]
      @ shown_if (posts = Some []) [Text (js ''No posts yet.'')]
      @ concat (map (\<lambda>post. PostCard fmt now (resolve (jp_author post)) False None post) (opt_val [] id posts)))"

end
