(* ===== verification/Indexer.thy ===== *)
theory Indexer
  imports GoTypes GoSort JsNumber
begin

text \<open>
  The feed of the indexer: the query parameters of \<^verbatim>\<open>indexer/api.go\<close> and the ranked queries of
  \<^verbatim>\<open>indexer/ranking.go\<close>.  The posts table is the list of its rows.  The order in which the database returns rows, with
  and without \<^verbatim>\<open>ORDER BY\<close>, and the floating-point score of a trending post are parameters (\<open>sql_env\<close>); each request
  has its own, as a database may order equal rows differently from one query to the next.  \<^verbatim>\<open>int\<close> is 64 bits wide,
  and its arithmetic is written with its wrap-around.
\<close>

section \<open>Rows\<close>

record IndexedPost =
  ip_PostID :: bytes
  ip_Author :: bytes
  ip_Text :: bytes
  ip_Channel :: bytes
  ip_ParentPostID :: bytes
  ip_CreatedAtHeight :: u64
  ip_CreatedAtTime :: int
  ip_TotalStaked :: u64
  ip_AuthorStaked :: u64
  ip_ThirdPartyStaked :: u64
  ip_StakerCount :: u64
  ip_UniqueBoosterCount :: int
  ip_LastBoostAtHeight :: u64
  ip_ReplyCount :: int
  ip_Withdrawn :: bool
  ip_TotalBurned :: u64

type_synonym RankedPost = "IndexedPost \<times> rat"

datatype db_driver = Sqlite | Pgx

record DB =
  db_driver :: db_driver
  db_posts :: "IndexedPost list"

record sql_env =
  se_order :: "(IndexedPost \<Rightarrow> rat) \<Rightarrow> IndexedPost list \<Rightarrow> IndexedPost list"
  se_scan :: "IndexedPost list \<Rightarrow> IndexedPost list"
  se_trendingScore :: "IndexedPost \<Rightarrow> int \<Rightarrow> rat"

text \<open>
  What the database promises of one query: a plain \<^verbatim>\<open>SELECT\<close> returns the rows in some order, and
  \<^verbatim>\<open>ORDER BY key DESC\<close> returns them in descending order of the key, equal ones in any order.
\<close>

definition orders_rows :: "sql_env \<Rightarrow> bool" where
  "orders_rows env \<longleftrightarrow> (\<forall>rows. mset (se_scan env rows) = mset rows) \<and>
     (\<forall>k rows. mset (se_order env k rows) = mset rows \<and> sorted_wrt (\<lambda>p q. k q \<le> k p) (se_order env k rows))"

section \<open>Query parameters (api.go)\<close>

datatype RankingStrategy = RankByTrending | RankByTopAllTime | RankByNew | RankByControversial

definition strategyParam :: "bytes \<Rightarrow> RankingStrategy" where
  "strategyParam s =
     (if s = go ''trending'' then RankByTrending
      else if s = go ''top'' then RankByTopAllTime
      else if s = go ''new'' then RankByNew
      else if s = go ''controversial'' then RankByControversial
      else RankByTrending)"

definition wrap_int :: "int \<Rightarrow> int" where
  "wrap_int x = signed_take_bit 63 x"

definition ascii_digit :: "byte \<Rightarrow> bool" where
  "ascii_digit b \<longleftrightarrow> 48 \<le> unat b \<and> unat b \<le> 57"

definition digits_val :: "bytes \<Rightarrow> int" where
  "digits_val s = foldl (\<lambda>n b. 10 * n + int (unat b - 48)) 0 s"

text \<open>
  The value \<^verbatim>\<open>strconv.Atoi\<close> returns beside its error: 0 for a syntax error, the nearest \<^verbatim>\<open>int\<close> for a number
  out of range.
\<close>

definition Atoi :: "bytes \<Rightarrow> int" where
  "Atoi s =
     (let neg = (s \<noteq> [] \<and> hd s = 45);
          ds = (if s \<noteq> [] \<and> (hd s = 45 \<or> hd s = 43) then tl s else s)
      in if ds = [] \<or> \<not> list_all ascii_digit ds then 0
         else if neg then max (- (2 ^ 63)) (- digits_val ds)
         else min (2 ^ 63 - 1) (digits_val ds))"

definition pageParams :: "bytes \<Rightarrow> bytes \<Rightarrow> int \<times> int" where
  "pageParams page_param pageSize_param =
     (let page = Atoi page_param;
          page = (if page < 1 then 1 else page);
          pageSize = Atoi pageSize_param;
          pageSize = (if pageSize < 1 \<or> pageSize > 100 then 20 else pageSize)
      in (page, pageSize))"

section \<open>ranking.go\<close>

datatype index_error = QueryError | SliceBounds

text \<open>The \<^verbatim>\<open>WHERE\<close> clause of \<^verbatim>\<open>buildWhere\<close>, as the rows it keeps.\<close>

definition buildWhere :: "bytes \<Rightarrow> bytes \<Rightarrow> IndexedPost \<Rightarrow> bool" where
  "buildWhere author channel p \<longleftrightarrow> ip_ParentPostID p = []
     \<and> (author \<noteq> [] \<longrightarrow> ip_Author p = author) \<and> (channel \<noteq> [] \<longrightarrow> ip_Channel p = channel)"

text \<open>
  \<^verbatim>\<open>LIMIT ? OFFSET ?\<close> with a positive limit: a negative offset counts as none in SQLite and is an error in
  PostgreSQL.
\<close>

definition limit_offset :: "db_driver \<Rightarrow> int \<Rightarrow> int \<Rightarrow> 'a list \<Rightarrow> (index_error, 'a list) result" where
  "limit_offset driver n off rows =
     (if off < 0 \<and> driver = Pgx then Inl QueryError else Inr (take (nat n) (drop (nat off) rows)))"

definition sqlPaginatedQuery ::
    "sql_env \<Rightarrow> (IndexedPost \<Rightarrow> rat) \<Rightarrow> (IndexedPost \<Rightarrow> rat) \<Rightarrow> bytes \<Rightarrow> bytes \<Rightarrow> int \<Rightarrow> int \<Rightarrow> DB
      \<Rightarrow> (index_error, RankedPost list \<times> int) result" where
  "sqlPaginatedQuery env orderByExpr scoreExpr author channel page pageSize d =
     (let rows = filter (buildWhere author channel) (db_posts d);
          total = int (length rows);
          off = wrap_int (wrap_int (page - 1) * pageSize)
      in bindR (limit_offset (db_driver d) pageSize off (se_order env orderByExpr rows)) (\<lambda>rows.
           Inr (map (\<lambda>p. (p, scoreExpr p)) rows, total)))"

abbreviation trendingWindowHours :: int where "trendingWindowHours \<equiv> 72"

definition higher_score :: "RankedPost \<Rightarrow> RankedPost \<Rightarrow> bool" where
  "higher_score x y \<longleftrightarrow> snd x > snd y"

text \<open>The slice \<^verbatim>\<open>all[start:end]\<close> of the page; indices out of range panic.\<close>

definition paginate :: "int \<Rightarrow> int \<Rightarrow> 'a list \<Rightarrow> (index_error, 'a list) result" where
  "paginate page pageSize xs =
     (let start = wrap_int (wrap_int (page - 1) * pageSize)
      in if start \<ge> int (length xs) then Inr []
         else (let finish = wrap_int (start + pageSize);
                   finish = (if finish > int (length xs) then int (length xs) else finish)
               in if 0 \<le> start \<and> start \<le> finish
                  then Inr (take (nat (finish - start)) (drop (nat start) xs))
                  else Inl SliceBounds))"

definition trendingQuery ::
    "sql_env \<Rightarrow> bytes \<Rightarrow> bytes \<Rightarrow> int \<Rightarrow> int \<Rightarrow> int \<Rightarrow> DB \<Rightarrow> (index_error, RankedPost list \<times> int) result" where
  "trendingQuery env author channel page pageSize nowUnix d =
     (let rows = filter (buildWhere author channel) (db_posts d);
          total = int (length rows);
          cutoff = wrap_int (nowUnix - trendingWindowHours * 3600);
          all = map (\<lambda>p. (p, se_trendingScore env p nowUnix)) (se_scan env (filter (\<lambda>p. ip_CreatedAtTime p > cutoff) rows));
          all = insertion_sort higher_score all
      in bindR (paginate page pageSize all) (\<lambda>posts. Inr (posts, total)))"

text \<open>The keys of \<^verbatim>\<open>ORDER BY\<close>, and the scores: the same numbers as doubles.\<close>

definition top_key :: "IndexedPost \<Rightarrow> rat" where "top_key p = of_nat (unat (ip_TotalStaked p))"
definition new_key :: "IndexedPost \<Rightarrow> rat" where "new_key p = of_nat (unat (ip_CreatedAtHeight p))"

definition controversial_key :: "IndexedPost \<Rightarrow> rat" where
  "controversial_key p = fl (fl (of_nat (unat (ip_StakerCount p))) * fl (of_nat (unat (ip_TotalStaked p))))"

definition rankedPostsQuery ::
    "sql_env \<Rightarrow> RankingStrategy \<Rightarrow> bytes \<Rightarrow> bytes \<Rightarrow> int \<Rightarrow> int \<Rightarrow> int \<Rightarrow> DB
      \<Rightarrow> (index_error, RankedPost list \<times> int) result" where
  "rankedPostsQuery env strategy author channel page pageSize nowUnix d =
     (case strategy of
        RankByTopAllTime \<Rightarrow> sqlPaginatedQuery env top_key (\<lambda>p. fl (top_key p)) author channel page pageSize d
      | RankByNew \<Rightarrow> sqlPaginatedQuery env new_key (\<lambda>p. fl (new_key p)) author channel page pageSize d
      | RankByControversial \<Rightarrow>
          sqlPaginatedQuery env controversial_key controversial_key author channel page pageSize d
      | RankByTrending \<Rightarrow> trendingQuery env author channel page pageSize nowUnix d)"

definition RankedPosts ::
    "sql_env \<Rightarrow> RankingStrategy \<Rightarrow> int \<Rightarrow> int \<Rightarrow> int \<Rightarrow> bytes \<Rightarrow> DB
      \<Rightarrow> (index_error, RankedPost list \<times> int) result" where
  "RankedPosts env strategy page pageSize nowUnix channel d =
     rankedPostsQuery env strategy [] channel page pageSize nowUnix d"

definition RankedPostsByAuthor ::
    "sql_env \<Rightarrow> bytes \<Rightarrow> RankingStrategy \<Rightarrow> int \<Rightarrow> int \<Rightarrow> int \<Rightarrow> DB
      \<Rightarrow> (index_error, RankedPost list \<times> int) result" where
  "RankedPostsByAuthor env author strategy page pageSize nowUnix d =
     rankedPostsQuery env strategy author [] page pageSize nowUnix d"

record GoFeedResponse =
  gfr_Posts :: "RankedPost list"
  gfr_TotalCount :: int
  gfr_Page :: int
  gfr_PageSize :: int
  gfr_Strategy :: RankingStrategy

text \<open>\<^verbatim>\<open>handleFeed\<close> from the raw query parameters; an error is answered with status 500, a panic ends the request.\<close>

definition handleFeed ::
    "sql_env \<Rightarrow> int \<Rightarrow> bytes \<Rightarrow> bytes \<Rightarrow> bytes \<Rightarrow> bytes \<Rightarrow> DB \<Rightarrow> (index_error, GoFeedResponse) result" where
  "handleFeed env now strategy_param channel page_param pageSize_param d =
     (let (page, pageSize) = pageParams page_param pageSize_param;
          strategy = strategyParam strategy_param
      in bindR (RankedPosts env strategy page pageSize now channel d) (\<lambda>(posts, total).
           Inr \<lparr>gfr_Posts = posts, gfr_TotalCount = total, gfr_Page = page, gfr_PageSize = pageSize,
                gfr_Strategy = strategy\<rparr>))"

section \<open>Pages\<close>

text \<open>
  What a client that loads pages of 20 relies on to stop: every page it asks for is served, with the same count.
  \<open>ok\<close> says when the server is in a state in which this holds.
\<close>

locale counted_pages =
  fixes ok :: "'s \<Rightarrow> bool"
    and serve :: "'s \<Rightarrow> nat \<Rightarrow> ('p list \<times> int) option"
    and total :: "'s \<Rightarrow> nat"
  assumes counts: "ok s \<Longrightarrow> 1 \<le> p \<Longrightarrow> (p - 1) * 20 \<le> total s \<Longrightarrow>
      \<exists>xs. serve s p = Some (xs, int (total s)) \<and> length xs \<le> 20"
begin

lemma loaded_at_most:
  assumes "ok s" "(n - 1) * 20 \<le> total s"
  shows "length (concat (map (\<lambda>p. opt_val [] fst (serve s p)) [1..<Suc n])) \<le> n * 20"
  using assms(2)
proof (induction n)
  case (Suc n)
  obtain xs where "serve s (Suc n) = Some (xs, int (total s))" "length xs \<le> 20"
    using counts [OF assms(1), of "Suc n"] Suc.prems by auto
  moreover have "(n - 1) * 20 \<le> total s" using Suc.prems by simp
  ultimately show ?case using Suc.IH by simp
qed simp

end

text \<open>What it relies on to get everything: the pages are the slices of one list.\<close>

locale page_source =
  fixes ok :: "'s \<Rightarrow> bool"
    and serve :: "'s \<Rightarrow> nat \<Rightarrow> ('p list \<times> int) option"
    and total :: "'s \<Rightarrow> nat"
    and items :: "'s \<Rightarrow> 'p list"
  assumes served: "ok s \<Longrightarrow> 1 \<le> p \<Longrightarrow> (p - 1) * 20 \<le> total s \<Longrightarrow>
      serve s p = Some (take 20 (drop ((p - 1) * 20) (items s)), int (total s))"
    and counted: "ok s \<Longrightarrow> length (items s) \<le> total s"

sublocale page_source \<subseteq> counted_pages ok serve total
  by unfold_locales (simp add: served)

context page_source begin

lemma first_pages:
  assumes "ok s" "(n - 1) * 20 \<le> total s"
  shows "concat (map (\<lambda>p. opt_val [] fst (serve s p)) [1..<Suc n]) = take (n * 20) (items s)"
  using assms(2)
proof (induction n)
  case (Suc n)
  have "serve s (Suc n) = Some (take 20 (drop (n * 20) (items s)), int (total s))"
    using served [OF assms(1), of "Suc n"] Suc.prems by simp
  moreover have "(n - 1) * 20 \<le> total s" using Suc.prems by simp
  ultimately show ?case using Suc.IH by (simp add: take_add [of "n * 20" 20, symmetric] add.commute)
qed simp

text \<open>A client that stops when it asked for as many posts as were counted has loaded them all.\<close>

lemma all_pages:
  assumes "ok s" "(n - 1) * 20 \<le> total s" "total s \<le> n * 20"
  shows "concat (map (\<lambda>p. opt_val [] fst (serve s p)) [1..<Suc n]) = items s"
proof -
  have "length (items s) \<le> n * 20" using counted [OF assms(1)] assms(3) by simp
  then show ?thesis by (simp only: first_pages [OF assms(1,2)] take_all)
qed

end

section \<open>The ranked queries as sources of pages\<close>

text \<open>A client's requests for one channel and strategy: the database and the clock each page is answered with.\<close>

record feed_query =
  fq_env :: "nat \<Rightarrow> sql_env"
  fq_db :: DB
  fq_now :: "nat \<Rightarrow> int"
  fq_channel :: bytes
  fq_strategy :: RankingStrategy

definition matching :: "feed_query \<Rightarrow> IndexedPost list" where
  "matching q = filter (buildWhere [] (fq_channel q)) (db_posts (fq_db q))"

definition small_db :: "feed_query \<Rightarrow> bool" where
  "small_db q \<longleftrightarrow> length (db_posts (fq_db q)) < 2 ^ 62"

definition serve_page :: "feed_query \<Rightarrow> nat \<Rightarrow> (RankedPost list \<times> int) option" where
  "serve_page q p =
     (case RankedPosts (fq_env q p) (fq_strategy q) (int p) 20 (fq_now q p) (fq_channel q) (fq_db q) of
        Inr r \<Rightarrow> Some r | Inl _ \<Rightarrow> None)"

text \<open>The value a strategy ranks by, and the score it shows.\<close>

definition ranking_value :: "RankingStrategy \<Rightarrow> IndexedPost \<Rightarrow> rat" where
  "ranking_value s p =
     (case s of
        RankByNew \<Rightarrow> of_nat (unat (ip_CreatedAtHeight p))
      | RankByControversial \<Rightarrow> fl (fl (of_nat (unat (ip_StakerCount p))) * fl (of_nat (unat (ip_TotalStaked p))))
      | _ \<Rightarrow> of_nat (unat (ip_TotalStaked p)))"

definition shown_score :: "RankingStrategy \<Rightarrow> IndexedPost \<Rightarrow> rat" where
  "shown_score s p = (if s = RankByControversial then ranking_value s p else fl (ranking_value s p))"

definition no_ties :: "feed_query \<Rightarrow> bool" where
  "no_ties q \<longleftrightarrow> fq_strategy q \<noteq> RankByTrending \<and> distinct (map (ranking_value (fq_strategy q)) (matching q))"

definition descending :: "feed_query \<Rightarrow> RankedPost list" where
  "descending q = map (\<lambda>p. (p, shown_score (fq_strategy q) p)) (rev (sort_key (ranking_value (fq_strategy q)) (matching q)))"

interpretation sc: sort_order higher_score "\<lambda>x. True"
  by unfold_locales (auto simp: higher_score_def)

lemma wrap_int_small: "- (2 ^ 63) \<le> x \<Longrightarrow> x < 2 ^ 63 \<Longrightarrow> wrap_int x = x"
  by (simp add: wrap_int_def signed_take_bit_int_eq_self)

lemma page_offset:
  assumes "1 \<le> p" "1 \<le> n" "p * n < 2 ^ 63"
  shows "wrap_int (wrap_int (int p - 1) * int n) = int ((p - 1) * n)" "wrap_int (int ((p - 1) * n) + int n) = int (p * n)"
proof -
  obtain k where k: "p = Suc k" using assms(1) by (cases p) auto
  define m where "m = k * n"
  have "k \<le> m" using assms(2) by (simp add: m_def)
  moreover have "m + n < 2 ^ 63" using assms(3) by (simp add: k m_def add.commute)
  ultimately have "int k < 2 ^ 63" "int m < 2 ^ 63" "int m + int n < 2 ^ 63" by simp_all
  then have "wrap_int (int k) = int k" "wrap_int (int m) = int m" "wrap_int (int m + int n) = int m + int n"
    by (intro wrap_int_small; simp)+
  then have "wrap_int (int k) = int k" "wrap_int (int k * int n) = int k * int n" "wrap_int (int k * int n + int n) = int k * int n + int n"
    by (simp_all add: m_def)
  then show "wrap_int (wrap_int (int p - 1) * int n) = int ((p - 1) * n)" "wrap_int (int ((p - 1) * n) + int n) = int (p * n)"
    by (simp_all add: k add.commute)
qed

lemma paginate_slice:
  assumes "1 \<le> p" "1 \<le> n" "p * n < 2 ^ 63"
  shows "paginate (int p) (int n) xs = Inr (take n (drop ((p - 1) * n) xs))"
proof -
  define k where "k = (p - 1) * n"
  have "int (p * n) = int k + int n" using assms(1) by (cases p) (simp_all add: k_def)
  then have "wrap_int (wrap_int (int p - 1) * int n) = int k" "wrap_int (int k + int n) = int k + int n"
    using page_offset [OF assms] by (simp_all only: k_def)
  then show ?thesis unfolding paginate_def Let_def k_def [symmetric] by (auto simp: min_def)
qed

lemma matching_small: "length (matching q) \<le> length (db_posts (fq_db q))"
  by (simp add: matching_def)

text \<open>The list a trending page is cut from.\<close>

definition trending_list :: "sql_env \<Rightarrow> int \<Rightarrow> IndexedPost list \<Rightarrow> RankedPost list" where
  "trending_list env now rows = insertion_sort higher_score (map (\<lambda>p. (p, se_trendingScore env p now))
     (se_scan env (filter (\<lambda>p. ip_CreatedAtTime p > wrap_int (now - trendingWindowHours * 3600)) rows)))"

lemma trending_list_sorted:
  assumes "orders_rows env"
  shows "mset (map fst (trending_list env now rows))
      = mset (filter (\<lambda>p. ip_CreatedAtTime p > wrap_int (now - trendingWindowHours * 3600)) rows)"
    "sorted_wrt (\<lambda>x y. snd y \<le> snd x) (trending_list env now rows)"
    "\<forall>x\<in>set (trending_list env now rows). snd x = se_trendingScore env (fst x) now"
proof -
  define all where "all = map (\<lambda>p. (p, se_trendingScore env p now))
     (se_scan env (filter (\<lambda>p. ip_CreatedAtTime p > wrap_int (now - trendingWindowHours * 3600)) rows))"
  have s: "sorted_wrt sc.in_order (trending_list env now rows)" "mset (trending_list env now rows) = mset all"
    using sc.insertion_sort_sorted [of all] by (simp_all add: trending_list_def all_def list_all_iff)
  have "mset (map fst (trending_list env now rows)) = mset (map fst all)" using s(2) by (metis mset_map)
  then show "mset (map fst (trending_list env now rows))
      = mset (filter (\<lambda>p. ip_CreatedAtTime p > wrap_int (now - trendingWindowHours * 3600)) rows)"
    using assms by (simp add: all_def comp_def orders_rows_def)
  show "sorted_wrt (\<lambda>x y. snd y \<le> snd x) (trending_list env now rows)"
    by (rule sorted_wrt_mono_rel [OF _ s(1)]) (simp add: sc.in_order_def higher_score_def)
  have "set (trending_list env now rows) = set all" using s(2) by (metis set_mset_mset)
  then show "\<forall>x\<in>set (trending_list env now rows). snd x = se_trendingScore env (fst x) now" by (auto simp: all_def)
qed

lemma serve_page_eq:
  assumes "small_db q" "1 \<le> p" "(p - 1) * 20 \<le> length (matching q)"
  shows "serve_page q p = Some (take 20 (drop ((p - 1) * 20)
      (if fq_strategy q = RankByTrending then trending_list (fq_env q p) (fq_now q p) (matching q)
       else map (\<lambda>x. (x, shown_score (fq_strategy q) x)) (se_order (fq_env q p) (ranking_value (fq_strategy q)) (matching q)))),
    int (length (matching q)))"
proof -
  have len: "length (matching q) < 2 ^ 62" using assms(1) matching_small [of q] by (simp add: small_db_def)
  have fits: "p * 20 < 2 ^ 63" using assms(2,3) len by (cases p) simp_all
  have off: "wrap_int (wrap_int (int p - 1) * 20) = int ((p - 1) * 20)"
    using page_offset(1) [OF assms(2) _ fits] by simp
  have slice: "paginate (int p) 20 xs = Inr (take 20 (drop ((p - 1) * 20) xs))" for xs :: "RankedPost list"
    using paginate_slice [OF assms(2) _ fits, of xs] by simp
  have keys: "top_key = ranking_value RankByTopAllTime" "new_key = ranking_value RankByNew"
    "controversial_key = ranking_value RankByControversial"
    by (simp_all add: fun_eq_iff ranking_value_def top_key_def new_key_def controversial_key_def)
  show ?thesis
    by (cases "fq_strategy q")
      (simp_all only: serve_page_def RankedPosts_def rankedPostsQuery_def trendingQuery_def sqlPaginatedQuery_def
        RankingStrategy.case matching_def [symmetric] Let_def off slice limit_offset_def bindR_simps sum.case
        drop_map take_map nat_int keys trending_list_def shown_score_def,
       simp_all add: drop_map take_map)
qed

interpretation feed_count: counted_pages "\<lambda>q. small_db q" serve_page "\<lambda>q. length (matching q)"
  by unfold_locales (simp add: serve_page_eq)

text \<open>Without ties there is one descending order, whatever the database does.\<close>

lemma descending_unique:
  assumes "mset xs = mset ys" "sorted_wrt (\<lambda>p q. k q \<le> k p) xs" "distinct (map (k :: 'a \<Rightarrow> rat) ys)"
  shows "xs = rev (sort_key k ys)"
proof -
  have s: "set xs = set ys" using assms(1) by (metis set_mset_mset)
  have inj: "inj_on k (set ys)" using assms(3) by (simp add: distinct_map)
  have "distinct ys" using assms(3) by (simp add: distinct_map)
  then have d: "distinct xs" using mset_eq_imp_distinct_iff [OF assms(1)] by simp
  have "rev xs = sort_key k ys"
  proof (rule map_sorted_distinct_set_unique [of k])
    show "inj_on k (set (rev xs) \<union> set (sort_key k ys))" using inj s by simp
    show "sorted (map k (rev xs))" using assms(2) by (simp add: rev_map sorted_wrt_rev sorted_wrt_map)
    show "distinct (map k (rev xs))" using d inj s by (simp add: distinct_map)
    show "distinct (map k (sort_key k ys))" using assms(3) by (simp add: distinct_map)
  qed (simp_all add: s)
  then show ?thesis by (metis rev_rev_ident)
qed

interpretation feed: page_source "\<lambda>q. (\<forall>p. orders_rows (fq_env q p)) \<and> small_db q \<and> no_ties q" serve_page
  "\<lambda>q. length (matching q)" descending
proof
  fix q p
  assume ok: "(\<forall>p. orders_rows (fq_env q p)) \<and> small_db q \<and> no_ties q"
  show "length (descending q) \<le> length (matching q)" by (simp add: descending_def)
  assume p: "1 \<le> p" "(p - 1) * 20 \<le> length (matching q)"
  have "se_order (fq_env q p) (ranking_value (fq_strategy q)) (matching q)
      = rev (sort_key (ranking_value (fq_strategy q)) (matching q))"
    by (rule descending_unique) (use ok in \<open>auto simp: orders_rows_def no_ties_def\<close>)
  then show "serve_page q p = Some (take 20 (drop ((p - 1) * 20) (descending q)), int (length (matching q)))"
    using ok p by (simp add: serve_page_eq no_ties_def descending_def)
qed

end
