(* ===== verification/Browsing.thy ===== *)
theory Browsing
  imports Pages Indexer
begin

text \<open>
  The feed page against the indexer that serves it, and the behaviour of the pages as the user clicks
  through them.
\<close>

section \<open>The feed and its server\<close>

definition strategy_name :: "RankingStrategy \<Rightarrow> jsstring" where
  "strategy_name s =
     (case s of RankByTrending \<Rightarrow> js ''trending'' | RankByTopAllTime \<Rightarrow> js ''top'' | RankByNew \<Rightarrow> js ''new''
      | RankByControversial \<Rightarrow> js ''controversial'')"

definition feed_response ::
    "(RankedPost \<Rightarrow> JsRankedPost) \<Rightarrow> RankedPost list \<Rightarrow> int \<Rightarrow> int \<Rightarrow> int \<Rightarrow> RankingStrategy \<Rightarrow> JsFeedResponse" where
  "feed_response decode posts n page pageSize s =
     \<lparr>fr_posts = map decode posts, fr_totalCount = Num (of_int n), fr_page = Num (of_int page),
      fr_pageSize = Num (of_int pageSize), fr_strategy = strategy_name s\<rparr>"

text \<open>
  One request of the feed: the parameters of \<^verbatim>\<open>getFeed\<close> reach \<^verbatim>\<open>handleFeed\<close> as UTF-8 text.  \<open>decode\<close> stands for
  the way of one post through the JSON of the response.  Every page is its own request, with the clock and the row
  order the indexer has then.
\<close>

definition getPage ::
    "(rat \<Rightarrow> jsstring) \<Rightarrow> (RankedPost \<Rightarrow> JsRankedPost) \<Rightarrow> (nat \<Rightarrow> sql_env) \<Rightarrow> (nat \<Rightarrow> int) \<Rightarrow> DB \<Rightarrow> FeedState \<Rightarrow> nat
      \<Rightarrow> (js_error, JsFeedResponse) result" where
  "getPage fmt decode env now db fs p =
     (let params = feed_params fmt (fs_strategy fs) (fs_channel fs) p in
      case handleFeed (env p) (now p) (TextEncoder_encode (js_or (fp_strategy params) []))
             (TextEncoder_encode (js_or (fp_channel params) []))
             (TextEncoder_encode (js_String fmt (num_or (fp_page params) 1)))
             (TextEncoder_encode (js_String fmt (num_or (fp_pageSize params) 20))) db of
        Inr r \<Rightarrow> Inr (feed_response decode (gfr_Posts r) (gfr_TotalCount r) (gfr_Page r) (gfr_PageSize r) (gfr_Strategy r))
      | Inl _ \<Rightarrow> Inl (ServerError []))"

lemma dec_digits_ascii: "list_all (\<lambda>c. unat c < 128) (dec_digits n)"
  by (auto simp: list_all_iff is_digit_def dest: is_digit_dec_digits)

lemma digits_val_ucast:
  "list_all is_digit s \<Longrightarrow> foldl (\<lambda>n b. 10 * n + int (unat b - 48)) (int a) (map (ucast :: u16 \<Rightarrow> byte) s)
     = int (foldl (\<lambda>n c. 10 * n + digit_val c) a s)"
proof (induction s arbitrary: a)
  case (Cons c s)
  then have "unat (ucast c :: byte) = unat c" by (intro unat_ucast_ascii) (simp add: is_digit_def)
  then have step: "10 * int a + int (unat (ucast c :: byte) - 48) = int (10 * a + digit_val c)"
    by (simp add: digit_val_def)
  show ?case using Cons.IH [of "10 * a + digit_val c"] Cons.prems by (simp only: list.map foldl_Cons step list.pred_inject)
qed simp

lemma Atoi_digits:
  assumes "n < 2 ^ 63"
  shows "Atoi (TextEncoder_encode (dec_digits n)) = int n"
proof -
  define bs :: bytes where "bs = map ucast (dec_digits n)"
  have enc: "TextEncoder_encode (dec_digits n) = bs"
    unfolding bs_def by (rule TextEncoder_encode_ascii [OF dec_digits_ascii])
  have dig: "list_all ascii_digit bs"
    using is_digit_dec_digits [of _ n] unat_ucast_ascii
    by (fastforce simp: bs_def list_all_iff ascii_digit_def is_digit_def)
  have "bs \<noteq> []" by (simp add: bs_def dec_digits_nonempty)
  then have "hd bs \<noteq> 45 \<and> hd bs \<noteq> 43"
    using dig by (cases bs) (auto simp: ascii_digit_def)
  moreover have "digits_val bs = int n"
    using digits_val_ucast [of "dec_digits n" 0] is_digit_dec_digits [of _ n]
    by (simp add: digits_val_def bs_def list_all_iff dec_val_def [symmetric] dec_val_dec_digits)
  ultimately show ?thesis
    unfolding enc using \<open>bs \<noteq> []\<close> dig assms by (simp add: Atoi_def Let_def)
qed

lemma strategyParam_name: "strategyParam (TextEncoder_encode (strategy_name s)) = s"
proof -
  have "TextEncoder_encode (js ''trending'') = go ''trending''" "TextEncoder_encode (js ''top'') = go ''top''"
    "TextEncoder_encode (js ''new'') = go ''new''" "TextEncoder_encode (js ''controversial'') = go ''controversial''"
    by (subst TextEncoder_encode_ascii; simp add: js_def go_def)+
  then show ?thesis by (cases s) (simp_all add: strategy_name_def strategyParam_def go_def)
qed

text \<open>What the feed in state \<open>fs\<close> asks the indexer for.\<close>

definition feed_asks :: "(nat \<Rightarrow> sql_env) \<Rightarrow> (nat \<Rightarrow> int) \<Rightarrow> DB \<Rightarrow> RankingStrategy \<Rightarrow> jsstring \<Rightarrow> feed_query" where
  "feed_asks env now db s channel = \<lparr>fq_env = env, fq_db = db, fq_now = now,
     fq_channel = TextEncoder_encode channel, fq_strategy = s\<rparr>"

lemma feed_asks_simps [simp]:
  "fq_env (feed_asks env now db s channel) = env" "fq_db (feed_asks env now db s channel) = db"
  by (simp_all add: feed_asks_def)

lemma getPage_serve:
  assumes "1 \<le> p" "p < 2 ^ 53" "fs_strategy fs = strategy_name s" "fs_channel fs = JStr channel"
  shows "getPage fmt decode env now db fs p =
    (case serve_page (feed_asks env now db s channel) p of
       Some (posts, n) \<Rightarrow> Inr (feed_response decode posts n (int p) 20 s)
     | None \<Rightarrow> Inl (ServerError []))"
proof -
  have str: "js_String fmt (Num (of_nat n)) = dec_digits n" if "n < 2 ^ 53" for n
    using that by (rule js_String_safe)
  have name: "js_or (Some (strategy_name s)) [] = strategy_name s" for s
    by (cases s) (simp_all add: js_or_def strategy_name_def js_def)
  have ch: "js_or (if channel \<noteq> [] then Some channel else None) [] = channel" by (simp add: js_or_def)
  have params: "pageParams (TextEncoder_encode (dec_digits p)) (TextEncoder_encode (dec_digits 20)) = (int p, 20)"
    using assms by (simp add: pageParams_def Atoi_digits)
  have nums: "num_or (Some (Num (of_nat p))) 1 = Num (of_nat p)"
    "num_or (Some (Num (of_nat PAGE_SIZE))) 20 = Num (of_nat PAGE_SIZE)"
    using assms(1) by (simp_all add: num_or_def js_truthy_def)
  have twenty: "js_String fmt (Num (of_nat PAGE_SIZE)) = dec_digits 20" by (rule str) simp
  show ?thesis
    unfolding getPage_def feed_params_def Let_def FeedParams.simps assms(3,4) json_truthy.simps
      json_toString.simps nums name ch str [OF assms(2)] twenty handleFeed_def params strategyParam_name serve_page_def
    by (auto simp: feed_asks_def split: sum.splits)
qed

section \<open>The feed loads everything\<close>

text \<open>The number of fetches: one, or as many pages of 20 as the counted posts fill.\<close>

definition page_count :: "nat \<Rightarrow> nat" where
  "page_count n = max 1 ((n + 19) div 20)"

lemma page_count_bounds: "(page_count n - 1) * 20 \<le> n" "n \<le> page_count n * 20"
  "m < page_count n \<Longrightarrow> 1 \<le> m \<Longrightarrow> m * 20 < n" "1 \<le> page_count n"
proof -
  show "m * 20 < n" if "m < page_count n" "1 \<le> m"
    using that by (cases "1 \<le> (n + 19) div 20") (simp_all add: page_count_def max_def)
qed (auto simp: page_count_def max_def)

lemma fetch_pages:
  assumes "length (db_posts db) < 2 ^ 52"
    and "fs_strategy fs = strategy_name s" "fs_channel fs = JStr channel"
    and "n \<le> page_count (length (matching q))" and q: "q = feed_asks env now db s channel"
  shows "(fetch_page (getPage fmt decode env now db fs) ^^ n) [] =
    map (\<lambda>p. feed_response decode (opt_val [] fst (serve_page q p)) (int (length (matching q))) (int p) 20 s)
      [1..<Suc n]"
  using assms(4)
proof (induction n)
  case (Suc n)
  define total where "total = length (matching q)"
  define page where "page = (\<lambda>p. feed_response decode (opt_val [] fst (serve_page q p)) (int total) (int p) 20 s)"
  define pages where "pages = map page [1..<Suc n]"
  have ok: "small_db q" using assms(1) by (simp add: q small_db_def)
  have total: "total < 2 ^ 52" using matching_small [of q] assms(1) by (simp add: q total_def)
  have n: "n * 20 \<le> total" "1 \<le> n \<Longrightarrow> n * 20 < total"
    using Suc.prems page_count_bounds(1,3) [of total] page_count_bounds(3) [of n total]
    by (cases n; force simp: total_def)+
  obtain xs where served: "serve_page q (Suc n) = Some (xs, int total)"
    using feed_count.counts [OF ok, of "Suc n"] n(1) by (auto simp: total_def)
  have "getPage fmt decode env now db fs (Suc n) = Inr (page (Suc n))"
    using getPage_serve [of "Suc n" fs s channel fmt decode env now db] assms(2,3) n(1) total served
    by (simp add: q page_def)
  moreover have "(if pages = [] then Some 1 else getNextPageParam (last pages) pages) = Some (Suc n)"
  proof (cases n)
    case (Suc k)
    then have "pages \<noteq> []" "length pages = n" "fr_totalCount (last pages) = Num (of_nat total)"
      by (simp_all add: pages_def last_map page_def feed_response_def)
    moreover have "(of_nat (n * 20) :: rat) < of_nat total" using n(2) Suc by (simp only: of_nat_less_iff)
    ultimately show ?thesis by (simp add: getNextPageParam_def)
  qed (simp add: pages_def)
  ultimately have "fetch_page (getPage fmt decode env now db fs) pages
      = pages @ [page (Suc n)]"
    by (simp add: fetch_page_def)
  then show ?case using Suc by (simp add: pages_def page_def total_def)
qed simp

text \<open>
  C27: scrolling the feed ends, and shows everything where the order is fixed.  For a database that does not change
  meanwhile, whatever the clock and the order of equal rows in each request, there is a next page before
  \<open>page_count\<close> many pages and none after, and no more than 20 posts come with each.  If the strategy is not trending
  and no two posts rank equal, the loaded posts are every top-level post of the channel exactly once, in descending
  order of what the strategy ranks by.
\<close>

theorem feed_loads_everything:
  assumes "\<forall>p. orders_rows (env p)" "length (db_posts db) < 2 ^ 52"
    and "fs_strategy fs = strategy_name s" "fs_channel fs = JStr channel"
  shows "let rows = filter (buildWhere [] (TextEncoder_encode channel)) (db_posts db); n = page_count (length rows);
      pages = (\<lambda>m. (fetch_page (getPage fmt decode env now db fs) ^^ m) [])
    in length (pages n) = n \<and> (\<forall>m. 1 \<le> m \<and> m < n \<longrightarrow> hasNextPage (pages m)) \<and> \<not> hasNextPage (pages n)
      \<and> length (allPosts (pages n)) \<le> n * 20
      \<and> (s \<noteq> RankByTrending \<and> distinct (map (ranking_value s) rows) \<longrightarrow>
          (\<exists>posts. allPosts (pages n) = map decode posts \<and> mset (map fst posts) = mset rows
            \<and> sorted_wrt (\<lambda>x y. ranking_value s (fst y) \<le> ranking_value s (fst x)) posts))"
proof -
  define q where "q = feed_asks env now db s channel"
  define total where "total = length (matching q)"
  define pages where "pages = (\<lambda>m. (fetch_page (getPage fmt decode env now db fs) ^^ m) [])"
  define n where "n = page_count total"
  have rows: "matching q = filter (buildWhere [] (TextEncoder_encode channel)) (db_posts db)" and strat: "fq_strategy q = s"
    by (simp_all add: q_def matching_def feed_asks_def)
  have eq: "pages m = map (\<lambda>p. feed_response decode (opt_val [] fst (serve_page q p)) (int total) (int p) 20 s)
      [1..<Suc m]" if "m \<le> n" for m
    using fetch_pages [OF assms(2-4) _ q_def] that by (simp add: pages_def n_def total_def)
  have ok: "small_db q" "\<forall>p. orders_rows (fq_env q p)" using assms(1,2) by (simp_all add: q_def small_db_def)
  have next_iff: "hasNextPage (pages m) \<longleftrightarrow> m * 20 < total" if "1 \<le> m" "m \<le> n" for m
  proof -
    have "pages m \<noteq> []" "length (pages m) = m" "fr_totalCount (last (pages m)) = Num (of_nat total)"
      using that by (simp_all add: eq last_map feed_response_def)
    then show ?thesis
      using of_nat_less_iff [where ?'a = rat, of "m * 20" total] by (simp add: hasNextPage_def getNextPageParam_def)
  qed
  have all: "allPosts (pages n) = map decode (concat (map (\<lambda>p. opt_val [] fst (serve_page q p)) [1..<Suc n]))"
    by (simp add: allPosts_def eq map_concat comp_def feed_response_def)
  have "length (allPosts (pages n)) \<le> n * 20"
    unfolding all length_map using feed_count.loaded_at_most [OF ok(1), of n] page_count_bounds(1) [of total]
    by (simp add: n_def total_def)
  moreover have "length (pages n) = n" by (simp add: eq)
  moreover have "\<forall>m. 1 \<le> m \<and> m < n \<longrightarrow> hasNextPage (pages m)"
    using next_iff page_count_bounds(3) [of _ total] by (auto simp: n_def)
  moreover have "\<not> hasNextPage (pages n)"
    using next_iff [of n] page_count_bounds(2,4) [of total] by (simp add: n_def)
  moreover have "\<exists>posts. allPosts (pages n) = map decode posts \<and> mset (map fst posts) = mset (matching q)
      \<and> sorted_wrt (\<lambda>x y. ranking_value s (fst y) \<le> ranking_value s (fst x)) posts"
    if "s \<noteq> RankByTrending" "distinct (map (ranking_value s) (matching q))"
  proof (intro exI conjI)
    have "no_ties q" using that by (simp add: no_ties_def strat)
    with ok show "allPosts (pages n) = map decode (descending q)"
      unfolding all using feed.all_pages [of q n] page_count_bounds(1,2) [of total] by (simp add: n_def total_def)
    show "mset (map fst (descending q)) = mset (matching q)" by (simp add: descending_def comp_def)
    have "sorted_wrt (\<lambda>p q. ranking_value s p \<le> ranking_value s q) (sort_key (ranking_value s) (matching q))"
      using sorted_sort_key [of "ranking_value s" "matching q"] by (simp only: sorted_map)
    then show "sorted_wrt (\<lambda>x y. ranking_value s (fst y) \<le> ranking_value s (fst x)) (descending q)"
      by (simp add: descending_def strat sorted_wrt_map sorted_wrt_rev)
  qed
  ultimately show ?thesis unfolding Let_def rows [symmetric] by (simp add: n_def total_def pages_def)
qed

text \<open>
  C28: what a trending page shows: the posts of the channel that are at most 72 hours old at the time of the
  request, ranked by descending score, cut into pages of the requested size, while the count beside them
  is that of all top-level posts of the channel.
\<close>

theorem trending_page:
  assumes "orders_rows env" "pageParams page_param pageSize_param = (int page, int n)" "page * n < 2 ^ 63"
    "0 \<le> now" "now < 2 ^ 63"
  shows "\<exists>all. handleFeed env now (go ''trending'') channel page_param pageSize_param d
      = Inr \<lparr>gfr_Posts = take n (drop ((page - 1) * n) all),
          gfr_TotalCount = int (length (filter (buildWhere [] channel) (db_posts d))),
          gfr_Page = int page, gfr_PageSize = int n, gfr_Strategy = RankByTrending\<rparr>
    \<and> mset (map fst all) = mset (filter (\<lambda>p. ip_ParentPostID p = [] \<and> (channel \<noteq> [] \<longrightarrow> ip_Channel p = channel)
          \<and> ip_CreatedAtTime p > now - 72 * 3600) (db_posts d))
    \<and> sorted_wrt (\<lambda>x y. snd y \<le> snd x) all \<and> (\<forall>x\<in>set all. snd x = se_trendingScore env (fst x) now)"
proof -
  define rows where "rows = filter (buildWhere [] channel) (db_posts d)"
  have pos: "1 \<le> page" "1 \<le> n" using assms(2) by (auto simp: pageParams_def Let_def split: if_splits)
  have cut: "wrap_int (now - 72 * 3600) = now - 72 * 3600" using assms(4,5) by (intro wrap_int_small) simp_all
  have slice: "paginate (int page) (int n) xs = Inr (take n (drop ((page - 1) * n) xs))" for xs :: "RankedPost list"
    by (rule paginate_slice [OF pos assms(3)])
  have "handleFeed env now (go ''trending'') channel page_param pageSize_param d
      = Inr \<lparr>gfr_Posts = take n (drop ((page - 1) * n) (trending_list env now rows)),
          gfr_TotalCount = int (length rows), gfr_Page = int page, gfr_PageSize = int n, gfr_Strategy = RankByTrending\<rparr>"
    by (simp add: slice handleFeed_def assms(2) strategyParam_def RankedPosts_def rankedPostsQuery_def trendingQuery_def Let_def
        rows_def trending_list_def)
  moreover have "filter (\<lambda>p. ip_CreatedAtTime p > now - 72 * 3600) rows
      = filter (\<lambda>p. ip_ParentPostID p = [] \<and> (channel \<noteq> [] \<longrightarrow> ip_Channel p = channel) \<and> ip_CreatedAtTime p > now - 72 * 3600) (db_posts d)"
    by (simp add: rows_def buildWhere_def conj_ac)
  moreover note trending_list_sorted [OF assms(1), of now rows, unfolded cut]
  ultimately show ?thesis unfolding rows_def [symmetric] by (intro exI [of _ "trending_list env now rows"]) (simp only: simp_thms)
qed

text \<open>
  A page number at the top of the integer range crashes the request: the offset wraps around to a negative
  number that the slice expression of the trending query rejects with a panic.
\<close>

theorem feed_page_panic:
  "handleFeed env now (go ''trending'') channel (go ''9223372036854775807'') (go ''20'') db = Inl SliceBounds"
proof -
  have "pageParams (go ''9223372036854775807'') (go ''20'') = (9223372036854775807, 20)"
    by (simp add: pageParams_def Atoi_def go_def ascii_digit_def digits_val_def)
  moreover have "wrap_int (wrap_int (9223372036854775807 - 1) * 20) = - 40" "wrap_int (- 40 + 20) = - 20"
    by (simp_all add: wrap_int_def signed_take_bit_eq_if_positive signed_take_bit_int_eq_self)
  ultimately show ?thesis
    by (simp add: handleFeed_def strategyParam_def RankedPosts_def rankedPostsQuery_def trendingQuery_def
        paginate_def Let_def)
qed

text \<open>A database with 21 posts is loaded in two pages.\<close>

definition demo_env :: sql_env where
  "demo_env = \<lparr>se_order = (\<lambda>k rows. rev (sort_key k rows)), se_scan = (\<lambda>rows. rows), se_trendingScore = (\<lambda>p now. top_key p)\<rparr>"

lemma demo_env_orders: "orders_rows demo_env"
proof -
  have "sorted_wrt (\<lambda>p q. k p \<le> k q) (sort_key k rows)" for k :: "IndexedPost \<Rightarrow> rat" and rows
    using sorted_sort_key [of k rows] by (simp only: sorted_map)
  then show ?thesis by (simp add: orders_rows_def demo_env_def sorted_wrt_rev)
qed

definition demo_post :: "nat \<Rightarrow> IndexedPost" where
  "demo_post n = \<lparr>ip_PostID = [1], ip_Author = [2], ip_Text = [3], ip_Channel = [], ip_ParentPostID = [],
      ip_CreatedAtHeight = of_nat n, ip_CreatedAtTime = 10, ip_TotalStaked = 5, ip_AuthorStaked = 5,
      ip_ThirdPartyStaked = 0, ip_StakerCount = 1, ip_UniqueBoosterCount = 0, ip_LastBoostAtHeight = 0,
      ip_ReplyCount = 0, ip_Withdrawn = False, ip_TotalBurned = 0\<rparr>"

definition demo_db :: DB where
  "demo_db = \<lparr>db_driver = Sqlite, db_posts = map demo_post [1..<22]\<rparr>"

lemma demo_rows: "filter (buildWhere [] []) (db_posts demo_db) = map demo_post [1..<22]"
  by (simp add: demo_db_def buildWhere_def demo_post_def)

lemma demo_heights: "distinct (map (ranking_value RankByNew) (map demo_post [1..<22]))"
  by code_simp

text \<open>The fields of a post as they come out of the JSON of the indexer.\<close>

definition demo_decode :: "RankedPost \<Rightarrow> JsRankedPost" where
  "demo_decode r = (let p = fst r; num = (\<lambda>x. Num (of_nat (unat (x :: u64)))) in
     \<lparr>jp_postId = map ucast (ip_PostID p), jp_author = map ucast (ip_Author p),
      jp_text = JStr (map ucast (ip_Text p)), jp_channel = Some (JStr (map ucast (ip_Channel p))),
      jp_parentPostId = None, jp_createdAtHeight = num (ip_CreatedAtHeight p),
      jp_createdAtTime = Num (of_int (ip_CreatedAtTime p)), jp_totalStaked = num (ip_TotalStaked p),
      jp_totalBurned = num (ip_TotalBurned p), jp_stakerCount = num (ip_StakerCount p),
      jp_withdrawn = ip_Withdrawn p, jr_authorStaked = num (ip_AuthorStaked p),
      jr_thirdPartyStaked = num (ip_ThirdPartyStaked p),
      jr_uniqueBoosterCount = Num (of_int (ip_UniqueBoosterCount p)),
      jr_lastBoostAtHeight = num (ip_LastBoostAtHeight p), jr_replyCount = Num (of_int (ip_ReplyCount p)),
      jr_score = Num (snd r)\<rparr>)"

definition demo_feed :: FeedState where
  "demo_feed = (Feed_init [])\<lparr>fs_strategy := strategy_name RankByNew\<rparr>"

theorem feed_loads_everything_witness:
  "let pages = (\<lambda>m. (fetch_page (getPage sample_fmt demo_decode (\<lambda>p. demo_env) int demo_db demo_feed) ^^ m) [])
   in hasNextPage (pages 1) \<and> \<not> hasNextPage (pages 2)
      \<and> (\<exists>posts. allPosts (pages 2) = map demo_decode posts \<and> mset (map fst posts) = mset (map demo_post [1..<22]))"
proof -
  have "fs_strategy demo_feed = strategy_name RankByNew" "fs_channel demo_feed = JStr []"
    by (simp_all add: demo_feed_def Feed_init_def)
  moreover have "length (db_posts demo_db) < 2 ^ 52" by (simp add: demo_db_def)
  moreover have two_pages: "page_count (length (map demo_post [1..<22])) = 2" by (simp add: page_count_def)
  moreover have "TextEncoder_encode [] = []" by (simp add: TextEncoder_encode_def)
  ultimately have "let n = 2; pages = (\<lambda>m. (fetch_page (getPage sample_fmt demo_decode (\<lambda>p. demo_env) int demo_db demo_feed) ^^ m) [])
    in (\<forall>m. 1 \<le> m \<and> m < n \<longrightarrow> hasNextPage (pages m)) \<and> \<not> hasNextPage (pages n)
      \<and> (\<exists>posts. allPosts (pages n) = map demo_decode posts \<and> mset (map fst posts) = mset (map demo_post [1..<22]))"
    using feed_loads_everything [of "\<lambda>p. demo_env" demo_db demo_feed RankByNew "[]" sample_fmt demo_decode int]
      demo_env_orders demo_heights
    unfolding Let_def demo_rows by (metis RankingStrategy.distinct(3) demo_rows)
  moreover have "1 \<le> (1 :: nat) \<and> 1 < (2 :: nat)" by simp
  ultimately show ?thesis unfolding Let_def by blast
qed

theorem trending_page_witness:
  "\<exists>r all. handleFeed demo_env 20 (go ''trending'') [] (go ''2'') (go ''20'') demo_db = Inr r
     \<and> gfr_Posts r = take 20 (drop 20 all) \<and> gfr_TotalCount r = 21 \<and> mset (map fst all) = mset (map demo_post [1..<22])"
proof -
  have pp: "pageParams (go ''2'') (go ''20'') = (int 2, int 20)"
    by (simp add: pageParams_def Atoi_def go_def ascii_digit_def digits_val_def)
  have f: "filter (\<lambda>p. ip_ParentPostID p = [] \<and> ([] \<noteq> [] \<longrightarrow> ip_Channel p = []) \<and> ip_CreatedAtTime p > 20 - 72 * 3600) (db_posts demo_db)
      = map demo_post [1..<22]"
    by (simp add: demo_db_def demo_post_def)
  from trending_page [OF demo_env_orders pp, of 20 "[]" demo_db] show ?thesis unfolding f demo_rows by auto
qed

section \<open>Dialogs of the feed\<close>

text \<open>Everything that changes the state of the feed page.\<close>

inductive feed_run :: "(rat \<Rightarrow> jsstring) \<Rightarrow> FeedState \<Rightarrow> bool" for fmt where
  init: "feed_run fmt (Feed_init channel)"
| click: "feed_run fmt fs \<Longrightarrow> feed_run fmt (Feed_click fmt st stakes a fs)"
| close: "feed_run fmt fs \<Longrightarrow> feed_run fmt (feed_close fs)"
| hashchange: "feed_run fmt fs \<Longrightarrow> feed_run fmt (feed_hashchange decode h fs)"
| strategy: "feed_run fmt fs \<Longrightarrow> feed_run fmt (feed_setStrategy s fs)"

definition feed_ok :: "FeedState \<Rightarrow> bool" where
  "feed_ok fs \<longleftrightarrow> (fs_modal fs \<in> {Some PM_boost, Some PM_unstake} \<longrightarrow> fs_selectedPost fs \<noteq> None)
     \<and> (fs_modal fs = Some PM_reply \<longrightarrow> fs_replyToId fs \<noteq> None)"

lemmas feed_defs = feed_newPost_def feed_onBoost_def feed_onReply_def feed_onUnstake_def requireWallet_def
  feed_setModal_def feed_setChannel_def Feed_click_def

lemma feed_run_ok: "feed_run fmt fs \<Longrightarrow> feed_ok fs"
proof (induction rule: feed_run.induct)
  case (click fs st stakes a)
  then show ?case
    by (cases a) (auto simp: feed_ok_def feed_defs split: card_action.splits channel_action.splits)
next
  case (close fs)
  then show ?case by (auto simp: feed_ok_def feed_close_def split: option.splits page_modal.splits)
qed (simp_all add: feed_ok_def Feed_init_def feed_hashchange_def feed_setStrategy_def)

text \<open>
  C29: the feed never gets stuck in a dialog it cannot show: whenever a dialog is open its data is there, a reply
  goes to a post, and closing it leaves no dialog.  A dialog that signs a transaction is only opened while the
  wallet is unlocked; otherwise the click leads to the wallet dialog.
\<close>

theorem feed_dialog_ready:
  assumes "feed_run fmt fs"
  shows "(fs_modal fs \<noteq> None \<longrightarrow> feed_dialog fs \<noteq> None)
    \<and> (fs_modal fs = Some PM_reply \<longrightarrow> (\<exists>i. feed_dialog fs = Some (DlgNewPost (Some i))))
    \<and> feed_dialog (feed_close fs) = None
    \<and> (\<not> isUnlocked st \<longrightarrow> fs_modal (Feed_click fmt st stakes a fs)
        \<in> {fs_modal fs, Some (if hasWallet st then PM_wallet_unlock else PM_wallet_create)})"
proof (intro conjI)
  have "feed_ok fs" using assms by (rule feed_run_ok)
  then show "fs_modal fs \<noteq> None \<longrightarrow> feed_dialog fs \<noteq> None"
    "fs_modal fs = Some PM_reply \<longrightarrow> (\<exists>i. feed_dialog fs = Some (DlgNewPost (Some i)))"
    by (auto simp: feed_ok_def feed_dialog_def split: option.splits page_modal.splits)
  show "feed_dialog (feed_close fs) = None"
    by (simp add: feed_dialog_def feed_close_def split: option.splits page_modal.splits)
  show "\<not> isUnlocked st \<longrightarrow> fs_modal (Feed_click fmt st stakes a fs)
      \<in> {fs_modal fs, Some (if hasWallet st then PM_wallet_unlock else PM_wallet_create)}"
    by (cases a) (auto simp: feed_defs split: card_action.splits channel_action.splits)
qed

theorem feed_dialog_ready_witness:
  "fs_modal (Feed_click sample_fmt (WalletProvider_init sample_fmt []) None FeedNewPost (Feed_init []))
    = Some PM_wallet_create"
proof -
  have "WalletProvider_init sample_fmt [] = WalletProvider_init sample_fmt [] \<and>
      \<not> hasWallet (WalletProvider_init sample_fmt []) \<and> \<not> isUnlocked (WalletProvider_init sample_fmt [])"
    by (simp add: hasWallet_def isUnlocked_def WalletProvider_init_def loadActiveWallet_def loadAllWallets_def
        migrate_def case_prod_beta Let_def)
  then show ?thesis
    using feed_dialog_ready [OF feed_run.init [of sample_fmt "[]"], of "WalletProvider_init sample_fmt []" None FeedNewPost]
    by (auto simp: feed_defs)
qed

section \<open>The channel search\<close>

lemma filterR_strings:
  assumes "list_all (\<lambda>c. \<exists>s. ci_channel c = JStr s) cs"
  shows "filterR (\<lambda>c. string_method (ci_channel c) f) cs = Inr (filter (\<lambda>c. f (channel_name c)) cs)"
  using assms by (induction cs) (auto simp: string_method_def channel_name_def)

lemma filterR_throws:
  assumes "c \<in> set cs" "\<And>s. ci_channel c \<noteq> JStr s"
  shows "filterR (\<lambda>c. string_method (ci_channel c) f) cs = Inl (JsError ''TypeError'')"
  using assms(1)
proof (induction cs)
  case (Cons d cs)
  show ?case
  proof (cases "\<exists>s. ci_channel d = JStr s")
    case True
    with Cons assms(2) show ?thesis by (auto simp: string_method_def)
  next
    case False
    then show ?thesis by (cases "ci_channel d") (auto simp: string_method_def)
  qed
qed simp

lemma insert_by_set [simp]: "mset (insert_by cmp x xs) = add_mset x (mset xs)"
  by (induction xs) auto

lemma js_sort_mset [simp]: "mset (js_sort cmp xs) = mset xs"
  by (induction xs) (simp_all add: js_sort_def)

definition collation :: "('a \<Rightarrow> 'a \<Rightarrow> int) \<Rightarrow> bool" where
  "collation cmp \<longleftrightarrow> (\<forall>a b. cmp a b \<le> 0 \<or> cmp b a \<le> 0) \<and> (\<forall>a b c. cmp a b \<le> 0 \<longrightarrow> cmp b c \<le> 0 \<longrightarrow> cmp a c \<le> 0)"

lemma insert_by_sorted:
  assumes "collation cmp" "sorted_wrt (\<lambda>a b. cmp a b \<le> 0) xs"
  shows "sorted_wrt (\<lambda>a b. cmp a b \<le> 0) (insert_by cmp x xs)"
  using assms(2)
proof (induction xs)
  case (Cons y ys)
  have set_eq: "set (insert_by cmp x ys) = insert x (set ys)"
    using insert_by_set [of cmp x ys] by (metis set_mset_add_mset_insert set_mset_mset)
  show ?case
  proof (cases "cmp x y \<le> 0")
    case True
    moreover have "cmp x z \<le> 0" if "z \<in> set ys" for z
      using True that Cons.prems assms(1) unfolding collation_def by (metis list.set_intros(2) sorted_wrt.simps(2))
    ultimately show ?thesis using Cons.prems by simp
  next
    case False
    then have "cmp y x \<le> 0" using assms(1) by (metis collation_def)
    then show ?thesis using False Cons set_eq by auto
  qed
qed simp

lemma js_sort_sorted: "collation cmp \<Longrightarrow> sorted_wrt (\<lambda>a b. cmp a b \<le> 0) (js_sort cmp xs)"
  by (induction xs) (simp_all add: js_sort_def insert_by_sorted)

text \<open>
  The channel search finds what it should: for channels that are strings, at most five results, in
  alphabetical order, all of them starting with the query; when no more than five channels match, all of them.
\<close>

theorem search_results_ok:
  assumes "list_all (\<lambda>c. \<exists>s. ci_channel c = JStr s) channels" "query \<noteq> []" "collation localeCompare"
  shows "\<exists>rs. searchResults lower localeCompare channels query = Inr rs \<and> length rs \<le> 5
    \<and> sorted_wrt (\<lambda>a b. localeCompare (channel_name a) (channel_name b) \<le> 0) rs
    \<and> set rs \<subseteq> {c \<in> set channels. js_startsWith (channel_name c) (lower query)}
    \<and> (length (filter (\<lambda>c. js_startsWith (channel_name c) (lower query)) channels) \<le> 5 \<longrightarrow>
        mset rs = mset (filter (\<lambda>c. js_startsWith (channel_name c) (lower query)) channels))"
proof -
  define cmp where "cmp = (\<lambda>a b. localeCompare (channel_name a) (channel_name b))"
  define cs where "cs = filter (\<lambda>c. js_startsWith (channel_name c) (lower query)) channels"
  have "collation cmp" using assms(3) unfolding collation_def cmp_def by blast
  then have "sorted_wrt (\<lambda>a b. cmp a b \<le> 0) (take 5 (js_sort cmp cs))"
    by (intro sorted_wrt_take js_sort_sorted)
  moreover have "set (take 5 (js_sort cmp cs)) \<subseteq> set cs"
    by (metis js_sort_mset set_mset_mset set_take_subset)
  moreover have "length (js_sort cmp cs) = length cs" by (metis js_sort_mset size_mset)
  moreover have "searchResults lower localeCompare channels query = Inr (take 5 (js_sort cmp cs))"
    using assms(1,2) by (simp add: searchResults_def filterR_strings cs_def cmp_def)
  ultimately show ?thesis
    by (intro exI [of _ "take 5 (js_sort cmp cs)"]) (auto simp: cs_def [symmetric] cmp_def, auto simp: cs_def)
qed

definition demo_channels :: "ChannelInfo list" where
  "demo_channels = [\<lparr>ci_channel = JStr (js ''news''), ci_postCount = Num 3\<rparr>, \<lparr>ci_channel = JStr (js ''art''), ci_postCount = Num 1\<rparr>]"

theorem search_results_ok_witness:
  "\<exists>rs. searchResults (\<lambda>s. s) (\<lambda>a b. int (length a) - int (length b)) demo_channels (js ''a'') = Inr rs
    \<and> mset rs = mset (filter (\<lambda>c. js_startsWith (channel_name c) (js ''a'')) demo_channels)"
proof -
  have "list_all (\<lambda>c. \<exists>s. ci_channel c = JStr s) demo_channels" "js ''a'' \<noteq> []"
    by (simp_all add: demo_channels_def js_def)
  moreover have "collation (\<lambda>a b. int (length (a :: jsstring)) - int (length b))"
    by (auto simp: collation_def)
  moreover have "length (filter (\<lambda>c. js_startsWith (channel_name c) (js ''a'')) demo_channels) \<le> 5"
    by (simp add: demo_channels_def)
  ultimately show ?thesis
    using search_results_ok [of demo_channels "js ''a''" "\<lambda>a b. int (length a) - int (length b)" "\<lambda>s. s"] by blast
qed

lemma dec_val_bound: "list_all is_digit s \<Longrightarrow> dec_val s < 10 ^ length s"
proof (induction s rule: rev_induct)
  case (snoc c s)
  then have "digit_val c < 10" by (auto simp: is_digit_def digit_val_def)
  with snoc show ?case by (simp add: dec_val_append)
qed (simp add: dec_val_def)

lemma digits_safe:
  assumes "list_all is_digit s" "length s \<le> 15"
  shows "dec_val s < 2 ^ 53"
proof -
  have "dec_val s < 10 ^ length s" by (rule dec_val_bound [OF assms(1)])
  also have "\<dots> \<le> 10 ^ 15" using assms(2) by (intro power_increasing) simp_all
  also have "\<dots> < (2 :: nat) ^ 53" by simp
  finally show ?thesis .
qed

text \<open>
  C33: a channel whose name consists of digits breaks the search: the node accepts such a name, the reviver turns
  it into a number, and the first key typed into the search box makes the whole feed page throw.
\<close>

theorem digit_channel_breaks_search:
  assumes "list_all is_digit ch" "3 \<le> length ch" "length ch \<le> 15"
    and "c \<in> set channels" "ci_channel c = numericReviver key (JStr ch)" "cs_query cs \<noteq> []"
  shows "ValidateName (TextEncoder_encode ch) = Inr ()
    \<and> Feed_view fmt lower localeCompare now resolve isLoading txs stakes (Some channels) pages cs fs
        = Inl (JsError ''TypeError'')"
proof -
  have "list_all name_char ch" using assms(1) by (auto simp: list_all_iff is_digit_def name_char_def Let_def)
  moreover have "\<not> js_includes ch (js ''__'')"
    using assms(1) by (induction ch) (auto simp: js_def js_startsWith_def is_digit_def)
  moreover have "hd ch \<noteq> 95" "last ch \<noteq> 95" "ch \<noteq> []"
    using assms(1,2) hd_in_set [of ch] last_in_set [of ch] by (fastforce simp: list_all_iff is_digit_def)+
  ultimately have "validateName ch = None"
    using assms(2,3) by (simp add: validateName_def js_def js_startsWith_hd js_endsWith_last)
  then have name: "ValidateName (TextEncoder_encode ch) = Inr ()" by (simp add: validateName_agrees)
  have "isSafeInteger (js_Number_digits ch)" using js_Number_digits_safe [OF digits_safe [OF assms(1,3)]] by blast
  then have "numericReviver key (JStr ch) = JNum (js_Number_digits ch)"
    using assms(1-3) by (auto simp: numericReviver_def Let_def)
  then have "\<And>s. ci_channel c \<noteq> JStr s" by (simp add: assms(5))
  from filterR_throws [OF assms(4) this] have "searchResults lower localeCompare channels (cs_query cs)
      = Inl (JsError ''TypeError'')"
    using assms(6) by (simp add: searchResults_def)
  with name assms(4) show ?thesis by (auto simp: Feed_view_def ChannelSearch_def Let_def)
qed

definition digit_channel :: ChannelInfo where
  "digit_channel = \<lparr>ci_channel = numericReviver [] (JStr (js ''2024'')), ci_postCount = Num 1\<rparr>"

theorem digit_channel_breaks_search_witness:
  "ValidateName (TextEncoder_encode (js ''2024'')) = Inr ()
    \<and> Feed_view sample_fmt (\<lambda>s. s) (\<lambda>a b. 0) (Num 0) (\<lambda>a. None) False [] None (Some [digit_channel]) []
        \<lparr>cs_searchOpen = True, cs_query = js ''a''\<rparr> (Feed_init [])
      = Inl (JsError ''TypeError'')"
proof (rule digit_channel_breaks_search)
  show "ci_channel digit_channel = numericReviver [] (JStr (js ''2024''))" by (simp only: digit_channel_def ChannelInfo.simps)
qed (simp_all add: js_def is_digit_def)

end
