(* ===== verification/Consensus.thy ===== *)
theory Consensus
  imports Executor
begin

text \<open>
  The node's \<^verbatim>\<open>internal/consensus/proposer.go\<close> and \<^verbatim>\<open>validator.go\<close>: who proposes at a height, how much stake a
  quorum takes, and the checks of a proposed block and of a quorum certificate.  \<^verbatim>\<open>time.Now().Unix()\<close> is the
  argument \<open>now\<close>; an \<^verbatim>\<open>int64\<close> is kept as its word and compared as a signed number.
\<close>

section \<open>proposer.go\<close>

definition TotalStake :: "ValidatorStake list \<Rightarrow> u64" where
  "TotalStake validators = foldl (\<lambda>total v. total + val_StakedBalance v) 0 validators"

definition zeroValidator :: ValidatorStake where
  "zeroValidator = \<lparr>val_Address = zeroAddress, val_PubKey = replicate 32 0, val_StakedBalance = 0\<rparr>"

text \<open>The loop: the first validator whose cumulative stake exceeds the slot.\<close>

fun find_slot :: "u64 \<Rightarrow> u64 \<Rightarrow> ValidatorStake list \<Rightarrow> ValidatorStake option" where
  "find_slot slot cumulative [] = None"
| "find_slot slot cumulative (v # vs) =
     (let cumulative = cumulative + val_StakedBalance v
      in if slot < cumulative then Some v else find_slot slot cumulative vs)"

definition ProposerForHeight :: "ValidatorStake list \<Rightarrow> u64 \<Rightarrow> ValidatorStake" where
  "ProposerForHeight validators height =
     (if validators = [] then zeroValidator
      else (let totalStake = TotalStake validators in
        if totalStake = 0 then validators ! unat (height mod of_nat (length validators))
        else (let slot = height mod totalStake in
          case find_slot slot 0 validators of Some v \<Rightarrow> v | None \<Rightarrow> last validators)))"

definition IsProposer :: "ValidatorStake list \<Rightarrow> u64 \<Rightarrow> address \<Rightarrow> bool" where
  "IsProposer validators height addr \<longleftrightarrow> val_Address (ProposerForHeight validators height) = addr"

text \<open>The divisor is the constant 3, so \<^verbatim>\<open>MulDiv\<close> does not panic and the last case is never taken.\<close>

definition QuorumThreshold :: "ValidatorStake list \<Rightarrow> u64" where
  "QuorumThreshold validators = (case MulDiv (TotalStake validators) 2 3 of Some q \<Rightarrow> q + 1 | None \<Rightarrow> 0)"

definition ValidatorsFromGenesis :: "GenesisValidator list \<Rightarrow> ValidatorStake list" where
  "ValidatorsFromGenesis gv =
     map (\<lambda>g. \<lparr>val_Address = gv_Address g, val_PubKey = gv_PubKey g,
               val_StakedBalance = (if gv_Stake g = 0 then 1 else gv_Stake g)\<rparr>) gv"

section \<open>validator.go\<close>

datatype proposal_error =
    WrongHeight u64 u64
  | WrongParentHash
  | WrongProposer
  | TimestampNotAfterParent u64 u64
  | TimestampInFuture u64 u64
  | TxRootMismatch
  | TooManyTransactions
  | ExecutionFailed block_error
  | StateRootMismatch

definition AllowedFutureDrift :: u64 where
  "AllowedFutureDrift = 15"

definition expectedHeight :: "Block option \<Rightarrow> u64" where
  "expectedHeight lastBlock = (case lastBlock of None \<Rightarrow> 1 | Some b \<Rightarrow> hdr_Height (blk_Header b) + 1)"

definition expectedPrevHash :: "prims \<Rightarrow> Block option \<Rightarrow> bytes" where
  "expectedPrevHash P lastBlock =
     (case lastBlock of None \<Rightarrow> replicate 32 0 | Some b \<Rightarrow> BlockHeader_Hash P (blk_Header b))"

definition ValidateProposedBlock ::
    "prims \<Rightarrow> norm \<Rightarrow> u64 \<Rightarrow> Block \<Rightarrow> WorldState \<Rightarrow> Block option \<Rightarrow> ValidatorStake list \<Rightarrow> GenesisConfig
      \<Rightarrow> (proposal_error, unit) result" where
  "ValidateProposedBlock P N now block currentState lastBlock validators params =
     (let hdr = blk_Header block; maxTime = now + AllowedFutureDrift in
      if hdr_Height hdr \<noteq> expectedHeight lastBlock then Inl (WrongHeight (hdr_Height hdr) (expectedHeight lastBlock))
      else if hdr_PrevHash hdr \<noteq> expectedPrevHash P lastBlock then Inl WrongParentHash
      else if hdr_ProposerAddr hdr \<noteq> val_Address (ProposerForHeight validators (hdr_Height hdr)) then Inl WrongProposer
      else bindR (case lastBlock of
          None \<Rightarrow> Inr ()
        | Some b \<Rightarrow> if sint (hdr_Timestamp hdr) \<le> sint (hdr_Timestamp (blk_Header b))
            then Inl (TimestampNotAfterParent (hdr_Timestamp hdr) (hdr_Timestamp (blk_Header b))) else Inr ()) (\<lambda>_.
      if sint (hdr_Timestamp hdr) > sint maxTime then Inl (TimestampInFuture (hdr_Timestamp hdr) maxTime)
      else if hdr_TxRoot hdr \<noteq> ComputeTxRoot P (blk_Transactions block) then Inl TxRootMismatch
      else if gc_MaxTxPerBlock params > 0 \<and> int (length (blk_Transactions block)) > gc_MaxTxPerBlock params
        then Inl TooManyTransactions
      else (case ApplyBlock P N params currentState block of
          Inl err \<Rightarrow> Inl (ExecutionFailed err)
        | Inr newState \<Rightarrow>
            if hdr_StateRoot hdr \<noteq> ComputeStateRoot P newState then Inl StateRootMismatch else Inr ())))"

datatype qc_error = QCHashMismatch | InsufficientVoteStake u64 u64

definition stake_map :: "ValidatorStake list \<Rightarrow> (address, u64) gomap" where
  "stake_map validators = fold (\<lambda>v. mput (val_Address v) (val_StakedBalance v)) validators []"

text \<open>The loop over the votes, with the set \<open>seen\<close> and the sum so far.\<close>

fun count_votes ::
    "prims \<Rightarrow> QuorumCertificate \<Rightarrow> (address, u64) gomap \<Rightarrow> BlockVote list \<Rightarrow> address list \<Rightarrow> u64 \<Rightarrow> u64" where
  "count_votes P qc m [] seen voteStake = voteStake"
| "count_votes P qc m (vote # votes) seen voteStake =
     (case mget m (vote_VoterAddr vote) of
        None \<Rightarrow> count_votes P qc m votes seen voteStake
      | Some stake \<Rightarrow>
          if vote_VoterAddr vote \<in> set seen then count_votes P qc m votes seen voteStake
          else if vote_Height vote \<noteq> qc_Height qc \<or> vote_BlockHash vote \<noteq> qc_BlockHash qc
            then count_votes P qc m votes seen voteStake
          else if \<not> VerifyBlockVote P vote then count_votes P qc m votes seen voteStake
          else count_votes P qc m votes (vote_VoterAddr vote # seen) (voteStake + stake))"

definition ValidateQuorumCertificate ::
    "prims \<Rightarrow> QuorumCertificate \<Rightarrow> bytes \<Rightarrow> ValidatorStake list \<Rightarrow> (qc_error, unit) result" where
  "ValidateQuorumCertificate P qc blockHash validators =
     (if qc_BlockHash qc \<noteq> blockHash then Inl QCHashMismatch
      else (let voteStake = count_votes P qc (stake_map validators) (qc_Votes qc) [] 0;
                required = QuorumThreshold validators
            in if voteStake < required then Inl (InsufficientVoteStake voteStake required) else Inr ()))"

section \<open>Stakes as numbers\<close>

definition stake_total :: "ValidatorStake list \<Rightarrow> nat" where
  "stake_total vs = sum_list (map (\<lambda>v. unat (val_StakedBalance v)) vs)"

text \<open>A validator set as the state has it: no address twice, and the stakes do not overflow.\<close>

definition wf_set :: "ValidatorStake list \<Rightarrow> bool" where
  "wf_set vs \<longleftrightarrow> distinct (map val_Address vs) \<and> stake_total vs < 2 ^ 64"

lemma foldl_stake:
  "unat c + stake_total vs < 2 ^ 64 \<Longrightarrow>
     unat (foldl (\<lambda>total v. total + val_StakedBalance v) c vs) = unat c + stake_total vs"
proof (induction vs arbitrary: c)
  case (Cons v vs)
  have "unat (c + val_StakedBalance v) = unat c + unat (val_StakedBalance v)"
    using Cons.prems by (intro unat_add_exact) (simp add: stake_total_def)
  with Cons show ?case by (simp add: stake_total_def)
qed (simp add: stake_total_def)

lemma TotalStake_exact: "stake_total vs < 2 ^ 64 \<Longrightarrow> unat (TotalStake vs) = stake_total vs"
  using foldl_stake [of 0 vs] by (simp add: TotalStake_def)

lemma QuorumThreshold_exact:
  assumes "stake_total vs < 2 ^ 64"
  shows "unat (QuorumThreshold vs) = 2 * stake_total vs div 3 + 1"
proof -
  obtain q where q: "MulDiv (TotalStake vs) 2 3 = Some q"
    "unat q = min (unat (TotalStake vs) * unat (2 :: u64) div unat (3 :: u64)) (2 ^ 64 - 1)"
    using MulDiv_Some [of 3 "TotalStake vs" 2] by auto
  have "stake_total vs * 2 div 3 + 1 < 2 ^ 64" using assms by simp
  then have uq: "unat q = stake_total vs * 2 div 3" using q(2) TotalStake_exact [OF assms] by simp
  then have "unat (q + 1) = unat q + 1"
    using unat_add_exact [of q 1] \<open>stake_total vs * 2 div 3 + 1 < 2 ^ 64\<close> by simp
  then show ?thesis using q(1) uq by (simp add: QuorumThreshold_def mult.commute)
qed

section \<open>The proposer schedule\<close>

fun slot_owner :: "nat \<Rightarrow> ValidatorStake list \<Rightarrow> ValidatorStake option" where
  "slot_owner s [] = None"
| "slot_owner s (v # vs) =
     (if s < unat (val_StakedBalance v) then Some v else slot_owner (s - unat (val_StakedBalance v)) vs)"

lemma find_slot_owner:
  assumes "c \<le> slot" "unat c + stake_total vs < 2 ^ 64"
  shows "find_slot slot c vs = slot_owner (unat slot - unat c) vs"
  using assms
proof (induction vs arbitrary: c)
  case (Cons v vs)
  have u: "unat (c + val_StakedBalance v) = unat c + unat (val_StakedBalance v)"
    using Cons.prems(2) by (intro unat_add_exact) (simp add: stake_total_def)
  show ?case
  proof (cases "slot < c + val_StakedBalance v")
    case True
    then show ?thesis using u Cons.prems(1) by (auto simp: Let_def unat_less_exact unat_le_exact)
  next
    case False
    then have "find_slot slot (c + val_StakedBalance v) vs = slot_owner (unat slot - unat (c + val_StakedBalance v)) vs"
      using Cons.prems(2) u by (intro Cons.IH) (simp_all add: stake_total_def not_less)
    moreover have "\<not> unat slot - unat c < unat (val_StakedBalance v)"
      using False u Cons.prems(1) by (simp add: unat_less_exact unat_le_exact)
    ultimately show ?thesis using False u by (simp add: Let_def)
  qed
qed simp

lemma slot_owner_total: "s < stake_total vs \<Longrightarrow> \<exists>v. slot_owner s vs = Some v"
  by (induction vs arbitrary: s) (auto simp: stake_total_def)

lemma slot_owner_in: "slot_owner s vs = Some v \<Longrightarrow> v \<in> set vs"
  by (induction vs arbitrary: s) (auto split: if_splits)

lemma slot_owner_count:
  assumes "distinct vs" "v \<in> set vs"
  shows "card {s. s < stake_total vs \<and> slot_owner s vs = Some v} = unat (val_StakedBalance v)"
  using assms
proof (induction vs)
  case (Cons a vs)
  define k where "k = unat (val_StakedBalance a)"
  define T where "T = {s. s < stake_total vs \<and> slot_owner s vs = Some v}"
  have tot: "stake_total (a # vs) = k + stake_total vs" by (simp add: stake_total_def k_def)
  have split: "{s. s < stake_total (a # vs) \<and> slot_owner s (a # vs) = Some v}
      = {s. s < k \<and> a = v} \<union> (\<lambda>s. s + k) ` T"
  proof (intro set_eqI iffI)
    fix s
    assume s: "s \<in> {s. s < stake_total (a # vs) \<and> slot_owner s (a # vs) = Some v}"
    show "s \<in> {s. s < k \<and> a = v} \<union> (\<lambda>s. s + k) ` T"
    proof (cases "s < k")
      case False
      then have "s - k \<in> T" "s = s - k + k" using s tot by (auto simp: T_def k_def)
      then show ?thesis by blast
    qed (use s in \<open>simp add: k_def\<close>)
  qed (auto simp: tot T_def simp flip: k_def)
  have fin: "finite T" by (simp add: T_def)
  show ?case
  proof (cases "a = v")
    case True
    then have "v \<notin> set vs" using Cons.prems(1) by simp
    then have "T = {}" unfolding T_def using slot_owner_in by blast
    then show ?thesis unfolding split using True by (simp add: k_def)
  next
    case False
    then have "card T = unat (val_StakedBalance v)" unfolding T_def using Cons by simp
    moreover have "card ((\<lambda>s. s + k) ` T) = card T" by (intro card_image inj_onI) simp
    ultimately show ?thesis unfolding split using False by simp
  qed
qed simp

lemma card_window:
  fixes T :: nat
  assumes "0 < T"
  shows "card {h \<in> {n..<n + T}. Q (h mod T)} = card {s. s < T \<and> Q s}"
proof (rule bij_betw_same_card [of "\<lambda>h. h mod T"], rule bij_betwI')
  fix x y
  assume "x \<in> {h \<in> {n..<n + T}. Q (h mod T)}" "y \<in> {h \<in> {n..<n + T}. Q (h mod T)}"
  then have b: "n \<le> x" "x < n + T" "n \<le> y" "y < n + T" by auto
  show "x mod T = y mod T \<longleftrightarrow> x = y"
  proof
    assume eq: "x mod T = y mod T"
    have *: "i = j" if "i \<le> j" "j < i + T" "i mod T = j mod T" for i j
    proof -
      have "T dvd j - i" using that mod_eq_dvd_iff_nat [of i j T] by simp
      moreover have "j - i < T" using that assms by simp
      ultimately show ?thesis using that(1) by (metis dvd_imp_le le_antisym diff_is_0_eq not_le zero_less_diff)
    qed
    from * [of x y] * [of y x] eq b have "x \<le> y \<Longrightarrow> x = y" "y \<le> x \<Longrightarrow> x = y" by auto
    then show "x = y" by linarith
  qed simp
next
  fix s
  assume s: "s \<in> {s. s < T \<and> Q s}"
  define h where "h = n + (s + (T - n mod T)) mod T"
  have "h mod T = s"
  proof -
    have "h mod T = (n mod T + (s + (T - n mod T))) mod T" by (simp add: h_def mod_simps)
    also have "n mod T + (s + (T - n mod T)) = s + T" using mod_less_divisor [OF assms, of n] by linarith
    finally show ?thesis using s by simp
  qed
  moreover have "h \<in> {n..<n + T}" using assms by (simp add: h_def)
  ultimately show "\<exists>x\<in>{h \<in> {n..<n + T}. Q (h mod T)}. s = x mod T" using s by auto
qed (use assms in auto)

text \<open>
  C20: the schedule is fair in the long run: among any \<^verbatim>\<open>TotalStake\<close> consecutive heights each validator is the
  proposer of exactly as many as it has staked.
\<close>

theorem proposer_fair:
  assumes "wf_set vs" "v \<in> set vs" "0 < stake_total vs" "n + stake_total vs \<le> 2 ^ 64"
  shows "card {h \<in> {n..<n + stake_total vs}. ProposerForHeight vs (of_nat h) = v} = unat (val_StakedBalance v)"
proof -
  define T where "T = stake_total vs"
  have T: "unat (TotalStake vs) = T" using assms(1) by (simp add: wf_set_def TotalStake_exact T_def)
  have owner: "Some (ProposerForHeight vs (of_nat h)) = slot_owner (h mod T) vs" if "h < n + T" for h
  proof -
    have h: "unat (of_nat h :: u64) = h" using that assms(4) by (simp add: unat_of_nat T_def)
    then have slot: "unat (of_nat h mod TotalStake vs) = h mod T" by (simp add: unat_mod T)
    have "find_slot (of_nat h mod TotalStake vs) 0 vs = slot_owner (h mod T) vs"
      using find_slot_owner [of 0 "of_nat h mod TotalStake vs" vs] assms(1) slot by (simp add: wf_set_def)
    moreover obtain u where "slot_owner (h mod T) vs = Some u"
      using slot_owner_total [of "h mod T" vs] assms(3) by (auto simp: T_def)
    moreover have "TotalStake vs \<noteq> 0" using T assms(3) by (metis T_def less_irrefl unat_0)
    ultimately show ?thesis using assms(2) by (auto simp: ProposerForHeight_def Let_def)
  qed
  have "{h \<in> {n..<n + T}. ProposerForHeight vs (of_nat h) = v} = {h \<in> {n..<n + T}. slot_owner (h mod T) vs = Some v}"
    using owner by (metis (lifting) atLeastLessThan_iff option.inject)
  also have "card \<dots> = card {s. s < T \<and> slot_owner s vs = Some v}"
    using assms(3) by (intro card_window) (simp add: T_def)
  also have "\<dots> = unat (val_StakedBalance v)"
    using assms(1,2) unfolding T_def by (intro slot_owner_count) (simp_all add: wf_set_def distinct_map)
  finally show ?thesis by (simp add: T_def)
qed

text \<open>Two validators with stakes 1 and 2 take turns of one and two heights.\<close>

definition two_validators :: "ValidatorStake list" where
  "two_validators = [\<lparr>val_Address = replicate 24 1, val_PubKey = replicate 32 1, val_StakedBalance = 1\<rparr>,
     \<lparr>val_Address = replicate 24 2, val_PubKey = replicate 32 2, val_StakedBalance = 2\<rparr>]"

theorem proposer_fair_witness:
  "card {h \<in> {7..<10}. ProposerForHeight two_validators (of_nat h) = two_validators ! 1} = 2"
  using proposer_fair [of two_validators "two_validators ! 1" 7]
  by (simp add: two_validators_def wf_set_def stake_total_def)

section \<open>Quorums\<close>

lemma stake_map_get:
  assumes "distinct (map val_Address vs)"
  shows "mget (stake_map vs) a = map_option val_StakedBalance (find (\<lambda>v. val_Address v = a) vs)"
proof -
  have "mget (fold (\<lambda>v. mput (val_Address v) (val_StakedBalance v)) vs m) a
      = (case find (\<lambda>v. val_Address v = a) vs of Some v \<Rightarrow> Some (val_StakedBalance v) | None \<Rightarrow> mget m a)" for m
    using assms
  proof (induction vs arbitrary: m)
    case (Cons v vs)
    have IH: "mget (fold (\<lambda>v. mput (val_Address v) (val_StakedBalance v)) vs m) a
      = (case find (\<lambda>v. val_Address v = a) vs of Some v \<Rightarrow> Some (val_StakedBalance v) | None \<Rightarrow> mget m a)" for m
      using Cons by simp
    have "find (\<lambda>v. val_Address v = a) vs = None" if "a = val_Address v"
    proof -
      have "a \<notin> val_Address ` set vs" using Cons.prems that by simp
      then show ?thesis unfolding find_None_iff by (simp add: image_iff) metis
    qed
    then show ?case using IH [of "mput (val_Address v) (val_StakedBalance v) m"] by (auto split: option.split)
  qed simp
  from this [of "[]"] show ?thesis by (simp add: stake_map_def split: option.split)
qed

text \<open>The validators among \<open>vs\<close> with a valid vote for the certificate's block.\<close>

definition signers :: "prims \<Rightarrow> QuorumCertificate \<Rightarrow> ValidatorStake list \<Rightarrow> ValidatorStake set" where
  "signers P qc vs = {v \<in> set vs. \<exists>vote\<in>set (qc_Votes qc). vote_VoterAddr vote = val_Address v
     \<and> vote_Height vote = qc_Height qc \<and> vote_BlockHash vote = qc_BlockHash qc \<and> VerifyBlockVote P vote}"

definition stake_of :: "ValidatorStake set \<Rightarrow> nat" where
  "stake_of S = (\<Sum>v\<in>S. unat (val_StakedBalance v))"

lemma stake_of_set: "distinct (map val_Address vs) \<Longrightarrow> stake_of (set vs) = stake_total vs"
  by (simp add: stake_of_def stake_total_def distinct_map sum_list_distinct_conv_sum_set)

lemma stake_of_le: "wf_set vs \<Longrightarrow> S \<subseteq> set vs \<Longrightarrow> stake_of S \<le> stake_total vs"
  using sum_mono2 [of "set vs" S "\<lambda>v. unat (val_StakedBalance v)"] stake_of_set [of vs]
  by (simp add: wf_set_def stake_of_def)

text \<open>What the loop counts: each signer once.\<close>

lemma count_votes_le:
  assumes wf: "wf_set vs" and "unat c \<le> stake_of {v \<in> set vs. val_Address v \<in> set seen}"
  shows "unat (count_votes P qc (stake_map vs) votes seen c)
    \<le> stake_of ({v \<in> set vs. val_Address v \<in> set seen} \<union> signers P (qc\<lparr>qc_Votes := votes\<rparr>) vs)"
  using assms(2)
proof (induction votes arbitrary: seen c)
  case Nil
  then show ?case by (simp add: signers_def)
next
  case (Cons vote votes)
  define A where "A seen = {v \<in> set vs. val_Address v \<in> set seen}" for seen
  have sub: "signers P (qc\<lparr>qc_Votes := votes\<rparr>) vs \<subseteq> signers P (qc\<lparr>qc_Votes := vote # votes\<rparr>) vs"
    by (auto simp: signers_def)
  have mono: "stake_of X \<le> stake_of Y" if "X \<subseteq> Y" "Y \<subseteq> set vs" for X Y
    unfolding stake_of_def using that by (intro sum_mono2) (auto intro: finite_subset)
  have skip: "unat (count_votes P qc (stake_map vs) votes seen c)
      \<le> stake_of (A seen \<union> signers P (qc\<lparr>qc_Votes := vote # votes\<rparr>) vs)"
    by (rule order_trans [OF Cons.IH [OF Cons.prems]], rule mono) (use sub in \<open>auto simp: A_def signers_def\<close>)
  show ?case
  proof (cases "mget (stake_map vs) (vote_VoterAddr vote) = None \<or> vote_VoterAddr vote \<in> set seen
      \<or> vote_Height vote \<noteq> qc_Height qc \<or> vote_BlockHash vote \<noteq> qc_BlockHash qc \<or> \<not> VerifyBlockVote P vote")
    case True
    then show ?thesis using skip by (auto simp: A_def split: option.split)
  next
    case False
    then obtain v where v: "find (\<lambda>v. val_Address v = vote_VoterAddr vote) vs = Some v"
      using wf by (auto simp: stake_map_get wf_set_def)
    then have m: "mget (stake_map vs) (vote_VoterAddr vote) = Some (val_StakedBalance v)"
      using wf by (simp add: stake_map_get wf_set_def)
    have vin: "v \<in> set vs" "val_Address v = vote_VoterAddr vote" using v by (auto simp: find_Some_iff)
    have "inj_on val_Address (set vs)" using wf by (simp add: wf_set_def distinct_map)
    then have "{u \<in> set vs. val_Address u = vote_VoterAddr vote} = {v}"
      using vin inj_onD [of val_Address "set vs"] by fastforce
    moreover have "A (vote_VoterAddr vote # seen) = {u \<in> set vs. val_Address u = vote_VoterAddr vote} \<union> A seen"
      by (auto simp: A_def)
    moreover have "v \<notin> A seen" using vin(2) False by (simp add: A_def)
    ultimately have ins: "A (vote_VoterAddr vote # seen) = insert v (A seen)" "v \<notin> A seen" by simp_all
    then have "stake_of (A (vote_VoterAddr vote # seen)) = unat (val_StakedBalance v) + stake_of (A seen)"
      by (simp add: stake_of_def A_def)
    moreover have "unat (c + val_StakedBalance v) \<le> unat c + unat (val_StakedBalance v)"
      by (simp add: unat_word_ariths)
    ultimately have c: "unat (c + val_StakedBalance v) \<le> stake_of {u \<in> set vs. val_Address u \<in> set (vote_VoterAddr vote # seen)}"
      using Cons.prems by (simp add: A_def)
    have "v \<in> signers P (qc\<lparr>qc_Votes := vote # votes\<rparr>) vs" using False vin by (auto simp: signers_def)
    then have "stake_of (A (vote_VoterAddr vote # seen) \<union> signers P (qc\<lparr>qc_Votes := votes\<rparr>) vs)
        \<le> stake_of (A seen \<union> signers P (qc\<lparr>qc_Votes := vote # votes\<rparr>) vs)"
      unfolding ins by (intro mono) (use sub in \<open>auto simp: A_def signers_def\<close>)
    then show ?thesis using Cons.IH [OF c] m False by (simp add: A_def)
  qed
qed

lemma quorum_stake:
  assumes wf: "wf_set vs" and "ValidateQuorumCertificate P qc h vs = Inr ()"
  shows "2 * stake_total vs < 3 * stake_of (signers P qc vs)"
proof -
  have "QuorumThreshold vs \<le> count_votes P qc (stake_map vs) (qc_Votes qc) [] 0"
    using assms(2) by (auto simp: ValidateQuorumCertificate_def Let_def split: if_splits)
  then have "2 * stake_total vs div 3 + 1 \<le> unat (count_votes P qc (stake_map vs) (qc_Votes qc) [] 0)"
    using wf QuorumThreshold_exact [of vs] by (simp add: wf_set_def unat_le_exact)
  also have "\<dots> \<le> stake_of (signers P qc vs)"
    using count_votes_le [OF wf, of 0 "[]" P qc "qc_Votes qc"] by simp
  finally show ?thesis by linarith
qed

text \<open>The signers two certificates have in common hold more than a third of the stake.\<close>

lemma quorum_overlap:
  assumes wf: "wf_set vs" and "ValidateQuorumCertificate P q1 h1 vs = Inr ()" "ValidateQuorumCertificate P q2 h2 vs = Inr ()"
  shows "stake_total vs < 3 * stake_of (signers P q1 vs \<inter> signers P q2 vs)"
proof -
  have sub: "signers P q vs \<subseteq> set vs" for q by (auto simp: signers_def)
  then have fin: "finite (signers P q vs)" for q by (rule finite_subset) simp
  have "stake_of (signers P q1 vs \<union> signers P q2 vs) + stake_of (signers P q1 vs \<inter> signers P q2 vs)
      = stake_of (signers P q1 vs) + stake_of (signers P q2 vs)"
    unfolding stake_of_def by (rule sum.union_inter [OF fin fin])
  moreover have "stake_of (signers P q1 vs \<union> signers P q2 vs) \<le> stake_total vs"
    using sub by (intro stake_of_le [OF wf]) simp
  ultimately show ?thesis
    using quorum_stake [OF wf assms(2)] quorum_stake [OF wf assms(3)] by linarith
qed

text \<open>
  C10: certificates are accountable up to their height.  If two different blocks carry valid certificates of the
  same validator set, then validators with more than a third of the stake have signed votes for both; each
  such pair of votes is evidence that the executor slashes exactly when the two certificates name the same
  height.  The height is the one written in the certificate: validation does not compare it with the block's.
\<close>

theorem conflicting_finality_slashable:
  assumes "wf_set vs" "h1 \<noteq> h2"
    "ValidateQuorumCertificate P q1 h1 vs = Inr ()" "ValidateQuorumCertificate P q2 h2 vs = Inr ()"
  shows "\<exists>S\<subseteq>set vs. stake_total vs < 3 * (\<Sum>v\<in>S. unat (val_StakedBalance v))
    \<and> (\<forall>v\<in>S. \<exists>a\<in>set (qc_Votes q1). \<exists>b\<in>set (qc_Votes q2).
          vote_VoterAddr a = val_Address v \<and> vote_VoterAddr b = val_Address v
          \<and> VerifyBlockVote P a \<and> VerifyBlockVote P b \<and> vote_BlockHash a = h1 \<and> vote_BlockHash b = h2
          \<and> (SlashEvidence_IsValid P \<lparr>ev_VoteA = a, ev_VoteB = b\<rparr> \<longleftrightarrow> qc_Height q1 = qc_Height q2))"
proof -
  have hash: "qc_BlockHash q1 = h1" "qc_BlockHash q2 = h2"
    using assms(3,4) by (auto simp: ValidateQuorumCertificate_def split: if_splits)
  define S where "S = signers P q1 vs \<inter> signers P q2 vs"
  have "\<exists>a\<in>set (qc_Votes q1). \<exists>b\<in>set (qc_Votes q2).
      vote_VoterAddr a = val_Address v \<and> vote_VoterAddr b = val_Address v
      \<and> VerifyBlockVote P a \<and> VerifyBlockVote P b \<and> vote_BlockHash a = h1 \<and> vote_BlockHash b = h2
      \<and> (SlashEvidence_IsValid P \<lparr>ev_VoteA = a, ev_VoteB = b\<rparr> \<longleftrightarrow> qc_Height q1 = qc_Height q2)" if v: "v \<in> S" for v
  proof -
    obtain a b where votes: "a \<in> set (qc_Votes q1)" "b \<in> set (qc_Votes q2)"
      and f: "vote_VoterAddr a = val_Address v" "vote_Height a = qc_Height q1" "vote_BlockHash a = qc_BlockHash q1" "VerifyBlockVote P a"
        "vote_VoterAddr b = val_Address v" "vote_Height b = qc_Height q2" "vote_BlockHash b = qc_BlockHash q2" "VerifyBlockVote P b"
      using v unfolding S_def signers_def by blast
    then have "SlashEvidence_IsValid P \<lparr>ev_VoteA = a, ev_VoteB = b\<rparr> \<longleftrightarrow> qc_Height q1 = qc_Height q2"
      using assms(2) hash by (simp add: SlashEvidence_IsValid_def)
    then show ?thesis using votes f hash by blast
  qed
  moreover have "S \<subseteq> set vs" by (auto simp: S_def signers_def)
  moreover have "stake_total vs < 3 * (\<Sum>v\<in>S. unat (val_StakedBalance v))"
    using quorum_overlap [OF assms(1,3,4)] by (simp add: S_def stake_of_def)
  ultimately show ?thesis by blast
qed

text \<open>One validator that signs two blocks of height 4.\<close>

definition lone_validator :: "ValidatorStake list" where
  "lone_validator = [\<lparr>val_Address = AddressFromPublicKey open_prims (replicate 32 5), val_PubKey = replicate 32 5,
     val_StakedBalance = 10\<rparr>]"

definition lone_qc :: "byte \<Rightarrow> QuorumCertificate" where
  "lone_qc b = \<lparr>qc_Height = 4, qc_BlockHash = replicate 32 b,
     qc_Votes = [\<lparr>vote_Height = 4, vote_BlockHash = replicate 32 b,
       vote_VoterAddr = AddressFromPublicKey open_prims (replicate 32 5), vote_VoterPubKey = replicate 32 5,
       vote_Signature = replicate 64 0\<rparr>]\<rparr>"

theorem conflicting_finality_slashable_witness:
  "\<exists>S\<subseteq>set lone_validator. stake_total lone_validator < 3 * (\<Sum>v\<in>S. unat (val_StakedBalance v))
     \<and> (\<forall>v\<in>S. \<exists>a b. vote_VoterAddr a = val_Address v \<and> SlashEvidence_IsValid open_prims \<lparr>ev_VoteA = a, ev_VoteB = b\<rparr>)"
proof -
  have q: "ValidateQuorumCertificate open_prims (lone_qc 1) (replicate 32 1) lone_validator = Inr ()"
    "ValidateQuorumCertificate open_prims (lone_qc 2) (replicate 32 2) lone_validator = Inr ()" by code_simp+
  have "qc_Height (lone_qc 1) = qc_Height (lone_qc 2)" by (simp add: lone_qc_def)
  moreover have "wf_set lone_validator" by (simp add: wf_set_def lone_validator_def stake_total_def)
  moreover have "replicate 32 1 \<noteq> replicate 32 (2 :: byte)" by simp
  ultimately show ?thesis using conflicting_finality_slashable [OF _ _ q] by meson
qed

end
