(* ===== verification/Wire.thy ===== *)
theory Wire
  imports GoTypes
begin

text \<open>
  The node's \<^verbatim>\<open>internal/p2p/convert.go\<close>: the conversion of blocks, transactions, votes and certificates to the
  protobuf messages that validators exchange, and back.  The messages are records with the fields that the
  conversion reads and writes; a byte field of a message may have any length, and \<^verbatim>\<open>copy\<close> cuts or pads it
  to the array it goes to.
\<close>

section \<open>Messages\<close>

record pbTransaction =
  pt_Type :: u32
  pt_Sender :: bytes
  pt_Recipient :: bytes
  pt_PostId :: bytes
  pt_Text :: bytes
  pt_Channel :: bytes
  pt_Amount :: u64
  pt_Nonce :: u64
  pt_Signature :: bytes
  pt_PubKey :: bytes

record pbBlockHeader =
  ph_Height :: u64
  ph_PrevHash :: bytes
  ph_ProposerAddr :: bytes
  ph_Timestamp :: u64
  ph_StateRoot :: bytes
  ph_TxRoot :: bytes

record pbBlockVote =
  pv_Height :: u64
  pv_BlockHash :: bytes
  pv_VoterAddress :: bytes
  pv_VoterPubKey :: bytes
  pv_Signature :: bytes

record pbQuorumCertificate =
  pq_Height :: u64
  pq_BlockHash :: bytes
  pq_Votes :: "pbBlockVote list"

record pbBlock =
  pb_Header :: "pbBlockHeader option"
  pb_Transactions :: "pbTransaction list"
  pb_Qc :: "pbQuorumCertificate option"

section \<open>Domain to protobuf\<close>

definition TxToProto :: "Transaction \<Rightarrow> pbTransaction" where
  "TxToProto tx = \<lparr>pt_Type = ucast (tx_Type tx), pt_Sender = tx_Sender tx, pt_Recipient = tx_Recipient tx,
     pt_PostId = tx_PostID tx, pt_Text = tx_Text tx, pt_Channel = tx_Channel tx, pt_Amount = tx_Amount tx,
     pt_Nonce = tx_Nonce tx, pt_Signature = tx_Signature tx, pt_PubKey = tx_PubKey tx\<rparr>"

definition VoteToProto :: "BlockVote \<Rightarrow> pbBlockVote" where
  "VoteToProto v = \<lparr>pv_Height = vote_Height v, pv_BlockHash = vote_BlockHash v, pv_VoterAddress = vote_VoterAddr v,
     pv_VoterPubKey = vote_VoterPubKey v, pv_Signature = vote_Signature v\<rparr>"

definition QCToProto :: "QuorumCertificate \<Rightarrow> pbQuorumCertificate" where
  "QCToProto qc = \<lparr>pq_Height = qc_Height qc, pq_BlockHash = qc_BlockHash qc, pq_Votes = map VoteToProto (qc_Votes qc)\<rparr>"

text \<open>The evidence of the block has no field in the message.\<close>

definition BlockToProto :: "Block \<Rightarrow> pbBlock" where
  "BlockToProto b =
     \<lparr>pb_Header = Some \<lparr>ph_Height = hdr_Height (blk_Header b), ph_PrevHash = hdr_PrevHash (blk_Header b),
        ph_ProposerAddr = hdr_ProposerAddr (blk_Header b), ph_Timestamp = hdr_Timestamp (blk_Header b),
        ph_StateRoot = hdr_StateRoot (blk_Header b), ph_TxRoot = hdr_TxRoot (blk_Header b)\<rparr>,
      pb_Transactions = map TxToProto (blk_Transactions b),
      pb_Qc = map_option QCToProto (blk_QC b)\<rparr>"

section \<open>Protobuf to domain\<close>

definition TxFromProto :: "pbTransaction \<Rightarrow> Transaction" where
  "TxFromProto ptx = \<lparr>tx_Type = ucast (pt_Type ptx), tx_Sender = copy_into AddressLen (pt_Sender ptx),
     tx_Recipient = copy_into AddressLen (pt_Recipient ptx), tx_PostID = copy_into 32 (pt_PostId ptx),
     tx_Text = pt_Text ptx, tx_Channel = pt_Channel ptx, tx_Amount = pt_Amount ptx, tx_Nonce = pt_Nonce ptx,
     tx_Signature = pt_Signature ptx, tx_PubKey = copy_into 32 (pt_PubKey ptx)\<rparr>"

definition VoteFromProto :: "pbBlockVote \<Rightarrow> BlockVote" where
  "VoteFromProto pv = \<lparr>vote_Height = pv_Height pv, vote_BlockHash = copy_into 32 (pv_BlockHash pv),
     vote_VoterAddr = copy_into AddressLen (pv_VoterAddress pv), vote_VoterPubKey = copy_into 32 (pv_VoterPubKey pv),
     vote_Signature = pv_Signature pv\<rparr>"

definition QCFromProto :: "pbQuorumCertificate \<Rightarrow> QuorumCertificate" where
  "QCFromProto pqc = \<lparr>qc_Height = pq_Height pqc, qc_BlockHash = copy_into 32 (pq_BlockHash pqc),
     qc_Votes = map VoteFromProto (pq_Votes pqc)\<rparr>"

text \<open>\<open>None\<close> is the panic on a message without a header.\<close>

definition BlockFromProto :: "pbBlock \<Rightarrow> Block option" where
  "BlockFromProto pb =
     (case pb_Header pb of
        None \<Rightarrow> None
      | Some h \<Rightarrow> Some
          \<lparr>blk_Header = \<lparr>hdr_Height = ph_Height h, hdr_PrevHash = copy_into 32 (ph_PrevHash h),
             hdr_ProposerAddr = copy_into AddressLen (ph_ProposerAddr h), hdr_Timestamp = ph_Timestamp h,
             hdr_StateRoot = copy_into 32 (ph_StateRoot h), hdr_TxRoot = copy_into 32 (ph_TxRoot h)\<rparr>,
           blk_Transactions = map TxFromProto (pb_Transactions pb), blk_Evidence = [],
           blk_QC = map_option QCFromProto (pb_Qc pb)\<rparr>)"

section \<open>Sizes\<close>

text \<open>What the array types guarantee.\<close>

definition tx_sizes :: "Transaction \<Rightarrow> bool" where
  "tx_sizes tx \<longleftrightarrow> length (tx_Sender tx) = 24 \<and> length (tx_Recipient tx) = 24 \<and> length (tx_PostID tx) = 32
     \<and> length (tx_PubKey tx) = 32"

definition vote_sizes :: "BlockVote \<Rightarrow> bool" where
  "vote_sizes v \<longleftrightarrow> length (vote_BlockHash v) = 32 \<and> length (vote_VoterAddr v) = 24 \<and> length (vote_VoterPubKey v) = 32"

definition qc_sizes :: "QuorumCertificate \<Rightarrow> bool" where
  "qc_sizes qc \<longleftrightarrow> length (qc_BlockHash qc) = 32 \<and> list_all vote_sizes (qc_Votes qc)"

definition block_sizes :: "Block \<Rightarrow> bool" where
  "block_sizes b \<longleftrightarrow> wf_header (blk_Header b) \<and> list_all tx_sizes (blk_Transactions b)
     \<and> (case blk_QC b of None \<Rightarrow> True | Some qc \<Rightarrow> qc_sizes qc)"

lemma TxFromProto_sizes: "tx_sizes (TxFromProto t)"
  by (simp add: tx_sizes_def TxFromProto_def)

lemma VoteFromProto_sizes: "vote_sizes (VoteFromProto v)"
  by (simp add: vote_sizes_def VoteFromProto_def)

lemma QCFromProto_sizes: "qc_sizes (QCFromProto q)"
  by (simp add: qc_sizes_def QCFromProto_def list_all_iff VoteFromProto_sizes)

text \<open>
  Whatever lengths the byte fields of a received message have, the block read from it has arrays of the
  right sizes everywhere: header, transactions and the votes of its certificate.  Only a message without a
  header gives no block.
\<close>

lemma BlockFromProto_sizes: "case BlockFromProto pb of None \<Rightarrow> pb_Header pb = None | Some b \<Rightarrow> block_sizes b"
  by (simp add: block_sizes_def BlockFromProto_def wf_header_def list_all_iff TxFromProto_sizes QCFromProto_sizes
      split: option.split)

section \<open>Round trips\<close>

lemma ucast_TxType [simp]: "ucast (ucast (t :: TxType) :: u32) = t"
  by (rule unsigned_word_eqI) (simp add: unsigned_ucast_eq take_bit_word_eq_self)

lemma Tx_wire: "tx_sizes tx \<Longrightarrow> TxFromProto (TxToProto tx) = tx"
  by (simp add: TxFromProto_def TxToProto_def tx_sizes_def)

lemma Vote_wire: "vote_sizes v \<Longrightarrow> VoteFromProto (VoteToProto v) = v"
  by (simp add: VoteFromProto_def VoteToProto_def vote_sizes_def)

lemma QC_wire: "qc_sizes qc \<Longrightarrow> QCFromProto (QCToProto qc) = qc"
  by (simp add: QCFromProto_def QCToProto_def qc_sizes_def map_idI list_all_iff Vote_wire)

lemma Block_wire:
  assumes "block_sizes b"
  shows "BlockFromProto (BlockToProto b) = Some (b\<lparr>blk_Evidence := []\<rparr>)"
proof -
  have "map TxFromProto (map TxToProto (blk_Transactions b)) = blk_Transactions b"
    using assms by (simp add: block_sizes_def list_all_iff map_idI Tx_wire)
  moreover have "map_option QCFromProto (map_option QCToProto (blk_QC b)) = blk_QC b"
    using assms by (cases "blk_QC b") (simp_all add: block_sizes_def QC_wire)
  moreover have "wf_header (blk_Header b)" using assms by (simp add: block_sizes_def)
  ultimately show ?thesis by (simp add: BlockFromProto_def BlockToProto_def wf_header_def)
qed

lemma Block_resent:
  assumes "BlockFromProto pb = Some b"
  shows "BlockFromProto (BlockToProto b) = Some b"
proof -
  have "block_sizes b" using BlockFromProto_sizes [of pb] assms by simp
  moreover have "b\<lparr>blk_Evidence := []\<rparr> = b" using assms by (auto simp: BlockFromProto_def split: option.splits)
  ultimately show ?thesis using Block_wire by simp
qed

text \<open>
  C21: a block survives the way over the network except for its slashing evidence, which the message has no
  field for: the receiver gets the same header, transactions and certificate, hence the same block hash, and
  no evidence; whatever message a node received a block in, sending the block on delivers the same block.
\<close>

theorem block_wire_roundtrip:
  assumes "block_sizes b"
  shows "(\<exists>b'. BlockFromProto (BlockToProto b) = Some b' \<and> b' = b\<lparr>blk_Evidence := []\<rparr>
      \<and> BlockHeader_Hash P (blk_Header b') = BlockHeader_Hash P (blk_Header b))
    \<and> (\<forall>pb b'. BlockFromProto pb = Some b' \<longrightarrow> BlockFromProto (BlockToProto b') = Some b')"
  using Block_wire [OF assms] Block_resent by auto

definition wire_vote :: BlockVote where
  "wire_vote = \<lparr>vote_Height = 7, vote_BlockHash = replicate 32 1, vote_VoterAddr = replicate 24 2,
     vote_VoterPubKey = replicate 32 3, vote_Signature = [4]\<rparr>"

definition wire_block :: Block where
  "wire_block = \<lparr>blk_Header = zeroHeader\<lparr>hdr_Height := 7\<rparr>, blk_Transactions = [zeroTransaction\<lparr>tx_Amount := 5\<rparr>],
     blk_Evidence = [\<lparr>ev_VoteA = wire_vote, ev_VoteB = wire_vote\<lparr>vote_BlockHash := replicate 32 5\<rparr>\<rparr>],
     blk_QC = Some \<lparr>qc_Height = 7, qc_BlockHash = replicate 32 1, qc_Votes = [wire_vote]\<rparr>\<rparr>"

theorem block_wire_roundtrip_witness:
  "BlockFromProto (BlockToProto wire_block) = Some (wire_block\<lparr>blk_Evidence := []\<rparr>)
   \<and> BlockFromProto (BlockToProto (wire_block\<lparr>blk_Evidence := []\<rparr>)) = Some (wire_block\<lparr>blk_Evidence := []\<rparr>)"
proof -
  have "block_sizes wire_block" by code_simp
  from block_wire_roundtrip [OF this] show ?thesis by blast
qed

end
