(* ===== verification/BlockStore.thy ===== *)
theory BlockStore
  imports GoTypes
begin

text \<open>
  The node's \<^verbatim>\<open>internal/store/blockstore.go\<close>: the block history in a key-value database.  The keys are the byte
  strings of the source; a value is the JSON of a block or the eight bytes of a height, kept as what they
  encode.  The database itself (BadgerDB) is the map; a failed transaction of it leaves the map as it is.
\<close>

section \<open>Keys and values\<close>

definition prefixBlockHeight :: bytes where "prefixBlockHeight = go ''block:height:''"
definition prefixBlockHash :: bytes where "prefixBlockHash = go ''block:hash:''"
definition prefixTx :: bytes where "prefixTx = go ''tx:''"
definition keyLatestHeight :: bytes where "keyLatestHeight = go ''meta:latest_height''"

definition makeHeightKey :: "u64 \<Rightarrow> bytes" where
  "makeHeightKey height = prefixBlockHeight @ be_bytes 8 (unat height)"

definition hashKey :: "bytes \<Rightarrow> bytes" where
  "hashKey blockHash = prefixBlockHash @ blockHash"

definition txKey :: "bytes \<Rightarrow> bytes" where
  "txKey txHash = prefixTx @ txHash"

datatype db_value = BlockJSON Block | Height u64

type_synonym block_db = "(bytes, db_value) gomap"

section \<open>Operations\<close>

definition SaveBlock :: "prims \<Rightarrow> Block \<Rightarrow> block_db \<Rightarrow> block_db" where
  "SaveBlock P block db =
     (let blockHash = BlockHeader_Hash P (blk_Header block);
          height = hdr_Height (blk_Header block);
          db = mput (makeHeightKey height) (BlockJSON block) db;
          db = mput (hashKey blockHash) (Height height) db;
          db = fold (\<lambda>tx. mput (txKey (Transaction_Hash P tx)) (Height height)) (blk_Transactions block) db
      in mput keyLatestHeight (Height height) db)"

definition GetBlockByHeight :: "block_db \<Rightarrow> u64 \<Rightarrow> Block option" where
  "GetBlockByHeight db height =
     (case mget db (makeHeightKey height) of Some (BlockJSON block) \<Rightarrow> Some block | _ \<Rightarrow> None)"

definition GetBlockByHash :: "block_db \<Rightarrow> bytes \<Rightarrow> Block option" where
  "GetBlockByHash db hash =
     (case mget db (hashKey hash) of Some (Height height) \<Rightarrow> GetBlockByHeight db height | _ \<Rightarrow> None)"

definition GetLatestBlock :: "block_db \<Rightarrow> Block option" where
  "GetLatestBlock db =
     (case mget db keyLatestHeight of Some (Height height) \<Rightarrow> GetBlockByHeight db height | _ \<Rightarrow> None)"

definition GetTransaction :: "prims \<Rightarrow> block_db \<Rightarrow> bytes \<Rightarrow> (Transaction \<times> u64) option" where
  "GetTransaction P db txHash =
     (case mget db (txKey txHash) of
        Some (Height height) \<Rightarrow>
          (case GetBlockByHeight db height of
             None \<Rightarrow> None
           | Some block \<Rightarrow>
               map_option (\<lambda>tx. (tx, height)) (find (\<lambda>tx. Transaction_Hash P tx = txHash) (blk_Transactions block)))
      | _ \<Rightarrow> None)"

section \<open>Keys do not clash\<close>

lemmas prefix_defs = prefixBlockHeight_def prefixBlockHash_def prefixTx_def keyLatestHeight_def go_def

lemma db_keys_distinct [simp]:
  "makeHeightKey h \<noteq> hashKey b" "hashKey b \<noteq> makeHeightKey h" "makeHeightKey h \<noteq> txKey t" "txKey t \<noteq> makeHeightKey h"
  "makeHeightKey h \<noteq> keyLatestHeight" "keyLatestHeight \<noteq> makeHeightKey h" "hashKey b \<noteq> txKey t" "txKey t \<noteq> hashKey b"
  "hashKey b \<noteq> keyLatestHeight" "keyLatestHeight \<noteq> hashKey b" "txKey t \<noteq> keyLatestHeight" "keyLatestHeight \<noteq> txKey t"
  by (simp_all add: makeHeightKey_def hashKey_def txKey_def prefix_defs)

lemma keys_inj [simp]:
  "makeHeightKey h = makeHeightKey k \<longleftrightarrow> h = k" "hashKey a = hashKey b \<longleftrightarrow> a = b" "txKey a = txKey b \<longleftrightarrow> a = b"
  by (simp_all add: makeHeightKey_def hashKey_def txKey_def)

section \<open>Lookups after a save\<close>

lemma mget_fold_txs:
  "mget (fold (\<lambda>tx. mput (txKey (Transaction_Hash P tx)) v) txs db) k
    = (if \<exists>tx\<in>set txs. k = txKey (Transaction_Hash P tx) then Some v else mget db k)"
  by (induction txs arbitrary: db) auto

lemma SaveBlock_get:
  "GetBlockByHeight (SaveBlock P b db) h = (if h = hdr_Height (blk_Header b) then Some b else GetBlockByHeight db h)"
  "mget (SaveBlock P b db) keyLatestHeight = Some (Height (hdr_Height (blk_Header b)))"
  "mget (SaveBlock P b db) (hashKey x)
    = (if x = BlockHeader_Hash P (blk_Header b) then Some (Height (hdr_Height (blk_Header b))) else mget db (hashKey x))"
  "mget (SaveBlock P b db) (txKey t)
    = (if t \<in> Transaction_Hash P ` set (blk_Transactions b) then Some (Height (hdr_Height (blk_Header b)))
       else mget db (txKey t))"
  by (auto simp: SaveBlock_def GetBlockByHeight_def Let_def mget_fold_txs)

text \<open>The database holds the blocks of a chain whose heights are 1, 2, 3 and so on.\<close>

definition stores :: "prims \<Rightarrow> block_db \<Rightarrow> Block list \<Rightarrow> bool" where
  "stores P db bs \<longleftrightarrow> (\<forall>k<length bs. GetBlockByHeight db (of_nat (Suc k)) = Some (bs ! k))
     \<and> (\<forall>b\<in>set bs. \<forall>tx\<in>set (blk_Transactions b). \<exists>k<length bs.
          mget db (txKey (Transaction_Hash P tx)) = Some (Height (of_nat (Suc k)))
          \<and> Transaction_Hash P tx \<in> Transaction_Hash P ` set (blk_Transactions (bs ! k)))
     \<and> mget db keyLatestHeight = (if bs = [] then None else Some (Height (of_nat (length bs))))"

lemma stores_Nil: "stores P [] []"
  by (simp add: stores_def)

lemma stores_SaveBlock:
  assumes st: "stores P db bs" and h: "hdr_Height (blk_Header b) = of_nat (Suc (length bs))"
    and len: "Suc (length bs) < 2 ^ 64"
  shows "stores P (SaveBlock P b db) (bs @ [b])"
proof -
  have ne: "of_nat (Suc k) \<noteq> (of_nat (Suc (length bs)) :: u64)" if "k < length bs" for k
    using that len by (subst word_unat_eq_iff) (simp add: unat_of_nat del: of_nat_Suc)
  have "GetBlockByHeight (SaveBlock P b db) (of_nat (Suc k)) = Some ((bs @ [b]) ! k)" if "k < Suc (length bs)" for k
    using st that ne [of k] h by (cases "k = length bs") (simp_all add: stores_def SaveBlock_get nth_append)
  moreover have "\<exists>k<Suc (length bs). mget (SaveBlock P b db) (txKey (Transaction_Hash P tx)) = Some (Height (of_nat (Suc k)))
      \<and> Transaction_Hash P tx \<in> Transaction_Hash P ` set (blk_Transactions ((bs @ [b]) ! k))"
    if "c \<in> set (bs @ [b])" "tx \<in> set (blk_Transactions c)" for c tx
  proof (cases "Transaction_Hash P tx \<in> Transaction_Hash P ` set (blk_Transactions b)")
    case True
    then show ?thesis using h by (intro exI [of _ "length bs"]) (simp add: SaveBlock_get nth_append)
  next
    case False
    with that have "c \<in> set bs" by auto
    with st that(2) obtain k where "k < length bs" "mget db (txKey (Transaction_Hash P tx)) = Some (Height (of_nat (Suc k)))"
      "Transaction_Hash P tx \<in> Transaction_Hash P ` set (blk_Transactions (bs ! k))" unfolding stores_def by blast
    with False show ?thesis by (intro exI [of _ k]) (simp add: SaveBlock_get nth_append)
  qed
  ultimately show ?thesis using h by (simp add: stores_def SaveBlock_get)
qed

lemma stored_transaction:
  assumes "stores P db bs" "b \<in> set bs" "tx \<in> set (blk_Transactions b)"
  shows "\<exists>t k. GetTransaction P db (Transaction_Hash P tx) = Some (t, of_nat (Suc k)) \<and> k < length bs
    \<and> t \<in> set (blk_Transactions (bs ! k)) \<and> Transaction_Hash P t = Transaction_Hash P tx"
proof -
  obtain k where k: "k < length bs" "mget db (txKey (Transaction_Hash P tx)) = Some (Height (of_nat (Suc k)))"
    "Transaction_Hash P tx \<in> Transaction_Hash P ` set (blk_Transactions (bs ! k))"
    using assms unfolding stores_def by blast
  then obtain t where t: "find (\<lambda>t. Transaction_Hash P t = Transaction_Hash P tx) (blk_Transactions (bs ! k)) = Some t"
    by (cases "find (\<lambda>t. Transaction_Hash P t = Transaction_Hash P tx) (blk_Transactions (bs ! k))")
      (auto simp: find_None_iff)
  then have "t \<in> set (blk_Transactions (bs ! k))" "Transaction_Hash P t = Transaction_Hash P tx"
    by (auto simp: find_Some_iff)
  moreover have "GetBlockByHeight db (of_nat (Suc k)) = Some (bs ! k)" using assms(1) k(1) by (simp add: stores_def)
  ultimately show ?thesis using k t by (intro exI [of _ t] exI [of _ k]) (simp add: GetTransaction_def)
qed

end
