(* ===== verification/KVStore.thy ===== *)
theory KVStore
  imports Chain
begin

text \<open>
  The node's \<^verbatim>\<open>internal/store/kvstore.go\<close>: the fixed-layout binary encoding of accounts, posts, stakes, validators
  and unbonding entries, and the whole chain state saved to and loaded from a key-value database.  The
  database (BadgerDB) is a map from byte strings to byte strings; an iterator over a prefix visits the entries
  in the order of the list, which stands for any order.
\<close>

section \<open>Integers\<close>

definition be_u64 :: "bytes \<Rightarrow> u64" where
  "be_u64 b = foldl (\<lambda>acc x. acc * 256 + ucast x) 0 (take 8 b)"

definition be_u32 :: "bytes \<Rightarrow> u32" where
  "be_u32 b = foldl (\<lambda>acc x. acc * 256 + ucast x) 0 (take 4 b)"

definition encodeUint64 :: "u64 \<Rightarrow> bytes" where
  "encodeUint64 v = be_bytes 8 (unat v)"

text \<open>\<open>None\<close> is the panic on a slice that is too short.\<close>

definition decodeUint64 :: "bytes \<Rightarrow> u64 option" where
  "decodeUint64 b = (if length b < 8 then None else Some (be_u64 b))"

definition putUint32 :: "nat \<Rightarrow> bytes" where
  "putUint32 n = be_bytes 4 (unat (of_nat n :: u32))"

section \<open>Accounts\<close>

datatype load_error =
    AccountTooShort nat
  | PostTooShort nat
  | PostTextTruncated
  | StakeTooShort
  | LoadPanic

definition encodeAccount :: "Account \<Rightarrow> bytes" where
  "encodeAccount a = acc_Address a @ encodeUint64 (acc_Balance a) @ encodeUint64 (acc_Nonce a)
     @ encodeUint64 (acc_StakedBalance a) @ encodeUint64 (acc_PostStakeBalance a)
     @ putUint32 (length (acc_Name a)) @ acc_Name a"

definition decodeAccount :: "bytes \<Rightarrow> (load_error, Account) result" where
  "decodeAccount b =
     (if length b < 40 then Inl (AccountTooShort (length b))
      else (let a = (newAccount (take 24 b))\<lparr>acc_Balance := be_u64 (drop 24 b), acc_Nonce := be_u64 (drop 32 b)\<rparr> in
        if length b > 48 then
          (let a = a\<lparr>acc_StakedBalance := be_u64 (drop 40 b)\<rparr> in
           if length b > 56 then
             (let a = a\<lparr>acc_PostStakeBalance := be_u64 (drop 48 b)\<rparr> in
              if length b > 60 then
                (let nameLen = unat (be_u32 (drop 56 b)) in
                 if length b \<ge> 60 + nameLen then Inr (a\<lparr>acc_Name := take nameLen (drop 60 b)\<rparr>) else Inr a)
              else Inr a)
           else Inr a)
        else Inr a))"

section \<open>Posts\<close>

definition encodePost :: "Post \<Rightarrow> bytes" where
  "encodePost p = post_PostID p @ post_Author p @ encodeUint64 (post_CreatedAtHeight p)
     @ encodeUint64 (post_CreatedAtTime p) @ encodeUint64 (post_TotalStaked p) @ encodeUint64 (post_TotalBurned p)
     @ encodeUint64 (post_StakerCount p) @ [if post_Withdrawn p then 1 else 0]
     @ putUint32 (length (post_Text p)) @ post_Text p @ putUint32 (length (post_Channel p)) @ post_Channel p
     @ post_ParentPostID p"

text \<open>
  The fixed part has 101 bytes, so the withdrawn flag is always there.  \<open>r\<close> is the slice from the current
  offset on.
\<close>

definition decodePost :: "bytes \<Rightarrow> (load_error, Post) result" where
  "decodePost b =
     (if length b < 101 then Inl (PostTooShort (length b))
      else (let p = \<lparr>post_PostID = take 32 b, post_Author = take 24 (drop 32 b), post_Text = [], post_Channel = [],
                 post_ParentPostID = zeroPostID, post_CreatedAtHeight = be_u64 (drop 56 b),
                 post_CreatedAtTime = be_u64 (drop 64 b), post_TotalStaked = be_u64 (drop 72 b),
                 post_TotalBurned = be_u64 (drop 80 b), post_StakerCount = be_u64 (drop 88 b),
                 post_Withdrawn = (b ! 96 = 1)\<rparr>;
               textLen = unat (be_u32 (drop 97 b)); r = drop 101 b in
        if length r < textLen then Inl PostTextTruncated
        else (let p = p\<lparr>post_Text := take textLen r\<rparr>; r = drop textLen r in
          if length r \<ge> 4 then
            (let chanLen = unat (be_u32 r); r = drop 4 r;
                 (p, r) = (if length r \<ge> chanLen then (p\<lparr>post_Channel := take chanLen r\<rparr>, drop chanLen r) else (p, r))
             in Inr (if length r \<ge> 32 then p\<lparr>post_ParentPostID := take 32 r\<rparr> else p))
          else Inr p)))"

section \<open>Validators, unbonding entries, post stakes\<close>

definition encodeValidator :: "ValidatorStake \<Rightarrow> bytes" where
  "encodeValidator v = val_Address v @ val_PubKey v @ encodeUint64 (val_StakedBalance v)"

definition encodeValidatorSet :: "ValidatorStake list \<Rightarrow> bytes" where
  "encodeValidatorSet vs = putUint32 (length vs) @ concat (map encodeValidator vs)"

fun decode_validators :: "nat \<Rightarrow> bytes \<Rightarrow> ValidatorStake list" where
  "decode_validators 0 b = []"
| "decode_validators (Suc n) b =
     (if length b < 64 then []
      else \<lparr>val_Address = take 24 b, val_PubKey = take 32 (drop 24 b), val_StakedBalance = be_u64 (drop 56 b)\<rparr>
        # decode_validators n (drop 64 b))"

definition decodeValidatorSet :: "bytes \<Rightarrow> ValidatorStake list" where
  "decodeValidatorSet b = (if length b < 4 then [] else decode_validators (unat (be_u32 b)) (drop 4 b))"

definition encodeUnbonding :: "UnbondingEntry \<Rightarrow> bytes" where
  "encodeUnbonding e = unb_Address e @ encodeUint64 (unb_Amount e) @ encodeUint64 (unb_ReleaseHeight e)"

definition encodeUnbondingQueue :: "UnbondingEntry list \<Rightarrow> bytes" where
  "encodeUnbondingQueue es = putUint32 (length es) @ concat (map encodeUnbonding es)"

fun decode_unbonding :: "nat \<Rightarrow> bytes \<Rightarrow> UnbondingEntry list" where
  "decode_unbonding 0 b = []"
| "decode_unbonding (Suc n) b =
     (if length b < 40 then []
      else \<lparr>unb_Address = take 24 b, unb_Amount = be_u64 (drop 24 b), unb_ReleaseHeight = be_u64 (drop 32 b)\<rparr>
        # decode_unbonding n (drop 40 b))"

definition decodeUnbondingQueue :: "bytes \<Rightarrow> UnbondingEntry list" where
  "decodeUnbondingQueue b = (if length b < 4 then [] else decode_unbonding (unat (be_u32 b)) (drop 4 b))"

definition encodePostStake :: "PostStake \<Rightarrow> bytes" where
  "encodePostStake ps = ps_PostID ps @ ps_Staker ps @ encodeUint64 (ps_Amount ps) @ encodeUint64 (ps_Height ps)"

definition decodePostStake :: "bytes \<Rightarrow> (load_error, PostStake) result" where
  "decodePostStake b =
     (if length b < 72 then Inl StakeTooShort
      else Inr \<lparr>ps_PostID = take 32 b, ps_Staker = take 24 (drop 32 b), ps_Amount = be_u64 (drop 56 b),
                ps_Height = be_u64 (drop 64 b)\<rparr>)"

section \<open>The whole state\<close>

definition prefixAccount :: bytes where "prefixAccount = go ''account:''"
definition prefixPost :: bytes where "prefixPost = go ''post:''"
definition prefixPostStake :: bytes where "prefixPostStake = go ''poststake:''"
definition keyBurnedSupply :: bytes where "keyBurnedSupply = go ''meta:burned_supply''"
definition keyIssuedSupply :: bytes where "keyIssuedSupply = go ''meta:issued_supply''"
definition keyChainHeight :: bytes where "keyChainHeight = go ''meta:chain_height''"
definition keyCurrentEpoch :: bytes where "keyCurrentEpoch = go ''meta:current_epoch''"
definition keyActiveValidators :: bytes where "keyActiveValidators = go ''meta:active_validators''"
definition keyUnbondingQueue :: bytes where "keyUnbondingQueue = go ''meta:unbonding_queue''"

type_synonym kv_db = "(bytes, bytes) gomap"

text \<open>\<^verbatim>\<open>encodeValidatorSet\<close> and \<^verbatim>\<open>encodeUnbondingQueue\<close> never return \<^verbatim>\<open>nil\<close>, so both keys are always set.\<close>

definition SaveState :: "WorldState \<Rightarrow> kv_db \<Rightarrow> kv_db" where
  "SaveState ws db =
     (let db = fold (\<lambda>acct. mput (prefixAccount @ acc_Address acct) (encodeAccount acct)) (AllAccounts ws) db;
          db = fold (\<lambda>post. mput (prefixPost @ post_PostID post) (encodePost post)) (AllPosts ws) db;
          db = mput keyBurnedSupply (encodeUint64 (ws_burnedSupply ws)) db;
          db = mput keyIssuedSupply (encodeUint64 (ws_issuedSupply ws)) db;
          db = mput keyChainHeight (encodeUint64 (ws_chainHeight ws)) db;
          db = mput keyCurrentEpoch (encodeUint64 (ws_currentEpoch ws)) db;
          db = mput keyActiveValidators (encodeValidatorSet (ws_activeValidators ws)) db;
          db = mput keyUnbondingQueue (encodeUnbondingQueue (ws_unbondingQueue ws)) db
      in fold (\<lambda>ps. mput (prefixPostStake @ ps_PostID ps @ ps_Staker ps) (encodePostStake ps)) (AllPostStakes ws) db)"

definition with_prefix :: "bytes \<Rightarrow> kv_db \<Rightarrow> kv_db" where
  "with_prefix p db = filter (\<lambda>(k, v). take (length p) k = p) db"

fun load_with :: "(bytes \<Rightarrow> (load_error, 'v) result) \<Rightarrow> ('v \<Rightarrow> 'w \<Rightarrow> 'w) \<Rightarrow> kv_db \<Rightarrow> 'w \<Rightarrow> (load_error, 'w) result" where
  "load_with dec put [] w = Inr w"
| "load_with dec put ((k, v) # es) w = bindR (dec v) (\<lambda>x. load_with dec put es (put x w))"

text \<open>A counter that is missing keeps its zero.\<close>

definition load_counter :: "bytes \<Rightarrow> (u64 \<Rightarrow> WorldState \<Rightarrow> WorldState) \<Rightarrow> kv_db \<Rightarrow> WorldState \<Rightarrow> (load_error, WorldState) result" where
  "load_counter k put db ws =
     (case mget db k of
        None \<Rightarrow> Inr ws
      | Some v \<Rightarrow> (case decodeUint64 v of None \<Rightarrow> Inl LoadPanic | Some n \<Rightarrow> Inr (put n ws)))"

definition LoadState :: "kv_db \<Rightarrow> (load_error, WorldState) result" where
  "LoadState db =
     bindR (load_with decodeAccount SetAccount (with_prefix prefixAccount db) NewWorldState) (\<lambda>ws.
     bindR (load_with decodePost SetPost (with_prefix prefixPost db) ws) (\<lambda>ws.
     bindR (load_counter keyBurnedSupply SetBurnedSupply db ws) (\<lambda>ws.
     bindR (load_counter keyIssuedSupply SetIssuedSupply db ws) (\<lambda>ws.
     bindR (load_counter keyChainHeight SetChainHeight db ws) (\<lambda>ws.
     bindR (load_counter keyCurrentEpoch SetCurrentEpoch db ws) (\<lambda>ws.
     let ws = (case mget db keyActiveValidators of
                 None \<Rightarrow> ws | Some v \<Rightarrow> SetActiveValidators (decodeValidatorSet v) ws);
         ws = (case mget db keyUnbondingQueue of
                 None \<Rightarrow> ws | Some v \<Rightarrow> fold AddUnbondingEntry (decodeUnbondingQueue v) ws);
         ws = fold (\<lambda>(k, v) ws. case decodePostStake v of Inl _ \<Rightarrow> ws | Inr ps \<Rightarrow> SetPostStake ps ws)
                (with_prefix prefixPostStake db) ws
     in Inr ws))))))"

section \<open>Codec round trips\<close>

lemma foldl_be:
  "foldl (\<lambda>acc x. acc * 256 + ucast x) (a :: 'a :: len word) bs = a * 256 ^ length bs + of_nat (be_nat bs)"
proof (induction bs arbitrary: a)
  case (Cons b bs)
  have "(ucast b :: 'a word) = of_nat (unat b)" by simp
  then show ?case using Cons by (simp add: algebra_simps)
qed simp

lemma be_u64_encode [simp, enc_simps]: "be_u64 (encodeUint64 v @ r) = v"
proof -
  have "be_u64 (encodeUint64 v @ r) = of_nat (unat v mod 256 ^ 8)"
    by (simp add: be_u64_def encodeUint64_def foldl_be be_nat_be_bytes)
  also have "unat v mod 256 ^ 8 = unat v" using unat_u64_less [of v] by simp
  finally show ?thesis by simp
qed

lemma be_u32_put [simp, enc_simps]: "n < 2 ^ 32 \<Longrightarrow> unat (be_u32 (putUint32 n @ r)) = n"
proof -
  assume n: "n < 2 ^ 32"
  then have u: "unat (of_nat n :: u32) = n" by (simp add: unat_of_nat)
  have "be_u32 (putUint32 n @ r) = of_nat (n mod 256 ^ 4)"
    unfolding be_u32_def putUint32_def u by (simp add: foldl_be be_nat_be_bytes)
  with n u show ?thesis by simp
qed

lemma encode_lengths [simp, enc_simps]: "length (encodeUint64 v) = 8" "length (putUint32 n) = 4"
  by (simp_all add: encodeUint64_def putUint32_def)

lemma encodeUint64_last [simp]: "be_u64 (encodeUint64 v) = v"
  using be_u64_encode [of v "[]"] by simp

lemma decodeUint64_encode [simp]: "decodeUint64 (encodeUint64 v) = Some v"
  by (simp add: decodeUint64_def)

text \<open>What the types and the validation rules guarantee about sizes.\<close>

definition account_fits :: "Account \<Rightarrow> bool" where
  "account_fits a \<longleftrightarrow> length (acc_Address a) = 24 \<and> length (acc_Name a) < 2 ^ 32"

definition post_fits :: "Post \<Rightarrow> bool" where
  "post_fits p \<longleftrightarrow> length (post_PostID p) = 32 \<and> length (post_Author p) = 24 \<and> length (post_ParentPostID p) = 32
     \<and> length (post_Text p) < 2 ^ 32 \<and> length (post_Channel p) < 2 ^ 32"

definition stake_fits :: "PostStake \<Rightarrow> bool" where
  "stake_fits s \<longleftrightarrow> length (ps_PostID s) = 32 \<and> length (ps_Staker s) = 24"

definition validator_fits :: "ValidatorStake \<Rightarrow> bool" where
  "validator_fits v \<longleftrightarrow> length (val_Address v) = 24 \<and> length (val_PubKey v) = 32"

definition unbonding_fits :: "UnbondingEntry \<Rightarrow> bool" where
  "unbonding_fits e \<longleftrightarrow> length (unb_Address e) = 24"

lemma decode_encodeAccount: "account_fits a \<Longrightarrow> decodeAccount (encodeAccount a) = Inr a"
  by (cases "acc_Name a") (auto simp: account_fits_def decodeAccount_def encodeAccount_def Let_def)

lemma decode_encodePost: "post_fits p \<Longrightarrow> decodePost (encodePost p) = Inr p"
  by (auto simp: post_fits_def decodePost_def encodePost_def Let_def nth_append)

lemma decode_encodePostStake: "stake_fits s \<Longrightarrow> decodePostStake (encodePostStake s) = Inr s"
  by (simp add: stake_fits_def decodePostStake_def encodePostStake_def)

lemma decode_encodeValidatorSet:
  assumes "list_all validator_fits vs" "length vs < 2 ^ 32"
  shows "decodeValidatorSet (encodeValidatorSet vs) = vs"
proof -
  have "decode_validators (length us) (concat (map encodeValidator us)) = us" if "list_all validator_fits us" for us
    using that by (induction us) (simp_all add: validator_fits_def encodeValidator_def)
  with assms show ?thesis by (simp add: decodeValidatorSet_def encodeValidatorSet_def)
qed

lemma decode_encodeUnbondingQueue:
  assumes "list_all unbonding_fits es" "length es < 2 ^ 32"
  shows "decodeUnbondingQueue (encodeUnbondingQueue es) = es"
proof -
  have "decode_unbonding (length us) (concat (map encodeUnbonding us)) = us" if "list_all unbonding_fits us" for us
    using that by (induction us) (simp_all add: unbonding_fits_def encodeUnbonding_def)
  with assms show ?thesis by (simp add: decodeUnbondingQueue_def encodeUnbondingQueue_def)
qed

section \<open>One kind of record in the database\<close>

text \<open>
  Accounts, posts and stakes are saved and loaded in the same way.  The locale is what this takes: the state's
  lookup after a store, a codec that round-trips, and database keys with a common prefix that determine the
  record's key.
\<close>

locale kv_field =
  fixes get :: "'w \<Rightarrow> 'k \<Rightarrow> 'v option"
    and put :: "'v \<Rightarrow> 'w \<Rightarrow> 'w"
    and key :: "'v \<Rightarrow> 'k"
    and pre :: bytes
    and dbkey :: "'v \<Rightarrow> bytes"
    and enc :: "'v \<Rightarrow> bytes"
    and dec :: "bytes \<Rightarrow> (load_error, 'v) result"
    and fits :: "'v \<Rightarrow> bool"
  assumes get_put: "get (put x w) k = (if k = key x then Some x else get w k)"
    and dec_enc: "fits x \<Longrightarrow> dec (enc x) = Inr x"
    and dbkey_pre: "take (length pre) (dbkey x) = pre"
    and dbkey_inj: "fits x \<Longrightarrow> fits y \<Longrightarrow> dbkey x = dbkey y \<longleftrightarrow> key x = key y"
begin

text \<open>The database has nothing but encoded records under the prefix; \<open>in_db\<close> are these records.\<close>

definition saved :: "kv_db \<Rightarrow> bool" where
  "saved db \<longleftrightarrow> mok db \<and> (\<forall>k v. mget db k = Some v \<and> take (length pre) k = pre \<longrightarrow>
     (\<exists>x. fits x \<and> k = dbkey x \<and> v = enc x))"

definition in_db :: "kv_db \<Rightarrow> 'v \<Rightarrow> bool" where
  "in_db db x \<longleftrightarrow> fits x \<and> mget db (dbkey x) = Some (enc x)"

lemma enc_inj: "fits x \<Longrightarrow> fits y \<Longrightarrow> enc x = enc y \<longleftrightarrow> x = y"
  by (metis dec_enc sum.inject(2))

lemma in_db_key: "in_db db x \<Longrightarrow> in_db db y \<Longrightarrow> key x = key y \<Longrightarrow> x = y"
  unfolding in_db_def by (metis dbkey_inj enc_inj option.inject)

lemma saved_cong:
  assumes "saved db" "mok db'" "\<And>k. take (length pre) k = pre \<Longrightarrow> mget db' k = mget db k"
  shows "saved db'" "in_db db' = in_db db"
  using assms(1,2) unfolding saved_def by (metis assms(3), simp add: in_db_def fun_eq_iff dbkey_pre assms(3))

lemma load_records:
  assumes "\<forall>(k, v)\<in>set es. \<exists>x. fits x \<and> k = dbkey x \<and> v = enc x" "distinct (map fst es)"
  shows "\<exists>w'. load_with dec put es w = Inr w'
    \<and> (\<forall>k x. get w' k = Some x \<longleftrightarrow> fits x \<and> key x = k \<and> (dbkey x, enc x) \<in> set es
         \<or> (\<forall>y. fits y \<and> (dbkey y, enc y) \<in> set es \<longrightarrow> key y \<noteq> k) \<and> get w k = Some x)"
  using assms
proof (induction es arbitrary: w)
  case (Cons e es)
  obtain z where z: "fits z" "e = (dbkey z, enc z)" using Cons.prems(1) by (cases e) auto
  obtain w' where w': "load_with dec put es (put z w) = Inr w'"
    and g: "\<And>k x. get w' k = Some x \<longleftrightarrow> fits x \<and> key x = k \<and> (dbkey x, enc x) \<in> set es
         \<or> (\<forall>y. fits y \<and> (dbkey y, enc y) \<in> set es \<longrightarrow> key y \<noteq> k) \<and> get (put z w) k = Some x"
    using Cons.IH [of "put z w"] Cons.prems by auto
  have new: "key y \<noteq> key z" if "fits y" "(dbkey y, enc y) \<in> set es" for y
  proof -
    have "dbkey z \<notin> fst ` set es" using Cons.prems(2) z(2) by simp
    with that(2) have "dbkey y \<noteq> dbkey z" by force
    then show ?thesis using dbkey_inj [OF that(1) z(1)] by simp
  qed
  have same: "(dbkey y, enc y) = e \<longleftrightarrow> y = z" if "fits y" for y
    using z that enc_inj by auto
  have "load_with dec put (e # es) w = Inr w'" using w' z by (simp add: dec_enc)
  moreover have "get w' k = Some x \<longleftrightarrow> fits x \<and> key x = k \<and> (dbkey x, enc x) \<in> set (e # es)
      \<or> (\<forall>y. fits y \<and> (dbkey y, enc y) \<in> set (e # es) \<longrightarrow> key y \<noteq> k) \<and> get w k = Some x" for k x
    unfolding g using new same z(1) by (cases "k = key z") (auto simp: get_put)
  ultimately show ?case by blast
qed simp

lemma load_saved:
  assumes "saved db" "\<And>k. get w k = None"
  shows "\<exists>w'. load_with dec put (with_prefix pre db) w = Inr w'
    \<and> (\<forall>k x. get w' k = Some x \<longleftrightarrow> in_db db x \<and> key x = k)"
proof -
  have m: "mok db" using assms(1) by (simp add: saved_def)
  have "\<forall>(k, v)\<in>set (with_prefix pre db). \<exists>x. fits x \<and> k = dbkey x \<and> v = enc x"
    using assms(1) m by (auto simp: saved_def with_prefix_def mok_def)
  moreover have "distinct (map fst (with_prefix pre db))"
    using m by (simp add: with_prefix_def mok_def distinct_map_filter)
  moreover have "(dbkey x, enc x) \<in> set (with_prefix pre db) \<longleftrightarrow> mget db (dbkey x) = Some (enc x)" for x
    using m by (auto simp: with_prefix_def mok_def dbkey_pre)
  ultimately show ?thesis using load_records [of "with_prefix pre db" w] assms(2) by (auto simp: in_db_def)
qed

text \<open>Saving replaces the records with the same key and leaves every other record in the database.\<close>

lemma save_records:
  assumes "saved db" "\<forall>x\<in>set xs. fits x" "distinct (map key xs)"
    and "db' = fold (\<lambda>x. mput (dbkey x) (enc x)) xs db"
  shows "saved db' \<and> (\<forall>x. in_db db' x \<longleftrightarrow> x \<in> set xs \<or> (\<forall>y\<in>set xs. key y \<noteq> key x) \<and> in_db db x)"
  using assms
proof (induction xs arbitrary: db)
  case (Cons z zs)
  define db1 where "db1 = mput (dbkey z) (enc z) db"
  have fz: "fits z" using Cons.prems(2) by simp
  have "saved db1"
    using Cons.prems(1) fz unfolding saved_def db1_def by (auto simp: map_ok_laws)
  moreover have "in_db db1 x \<longleftrightarrow> x = z \<or> key x \<noteq> key z \<and> in_db db x" for x
    using fz dbkey_inj [of x z] enc_inj [of z x] by (auto simp: in_db_def db1_def)
  moreover have "saved db' \<and> (\<forall>x. in_db db' x \<longleftrightarrow> x \<in> set zs \<or> (\<forall>y\<in>set zs. key y \<noteq> key x) \<and> in_db db1 x)"
    using Cons.prems(2-4) calculation(1) by (intro Cons.IH) (simp_all add: db1_def)
  moreover have "key z \<notin> key ` set zs" using Cons.prems(3) by simp
  ultimately show ?case by (auto simp: image_iff)
qed simp

lemma save_map:
  assumes "saved db" "mok es" and es: "\<forall>(k, x)\<in>set es. k = key x \<and> fits x"
    and db': "mok db'" "\<And>r. mget db' (pre @ r) = mget (fold (\<lambda>x. mput (dbkey x) (enc x)) (map snd es) db) (pre @ r)"
  shows "saved db'" "in_db db' x \<longleftrightarrow> mget es (key x) = Some x \<or> mget es (key x) = None \<and> in_db db x"
proof -
  have keys: "map key (map snd es) = map fst es" using es by auto
  have fit: "\<forall>x\<in>set (map snd es). fits x" using es by auto
  have dist: "distinct (map key (map snd es))" using assms(2) unfolding keys by (simp add: mok_def)
  define db1 where "db1 = fold (\<lambda>x. mput (dbkey x) (enc x)) (map snd es) db"
  note sv = save_records [OF assms(1) fit dist db1_def]
  have eq: "mget db' k = mget db1 k" if "take (length pre) k = pre" for k
    using db'(2) [of "drop (length pre) k"] that by (metis append_take_drop_id db1_def)
  have "saved db1" using sv by blast
  from saved_cong [OF this db'(1) eq] show "saved db'" by blast
  have cong: "in_db db' = in_db db1" by (rule saved_cong [OF \<open>saved db1\<close> db'(1) eq])
  have "x \<in> set (map snd es) \<longleftrightarrow> mget es (key x) = Some x"
    using assms(2) es by (force simp: mok_def)
  moreover have "(\<forall>y\<in>set (map snd es). key y \<noteq> key x) \<longleftrightarrow> mget es (key x) = None"
  proof -
    have eq: "fst ` set es = key ` set (map snd es)" using keys by (metis list.set_map)
    show ?thesis unfolding map_of_eq_None_iff eq image_iff by metis
  qed
  ultimately show "in_db db' x \<longleftrightarrow> mget es (key x) = Some x \<or> mget es (key x) = None \<and> in_db db x"
    using sv unfolding cong by blast
qed

end

interpretation kva: kv_field GetAccount SetAccount acc_Address prefixAccount "\<lambda>a. prefixAccount @ acc_Address a"
  encodeAccount decodeAccount account_fits
  by unfold_locales (auto simp: decode_encodeAccount)

interpretation kvp: kv_field GetPost SetPost post_PostID prefixPost "\<lambda>p. prefixPost @ post_PostID p"
  encodePost decodePost post_fits
  by unfold_locales (auto simp: decode_encodePost GetPost_def SetPost_def)

interpretation kvs: kv_field "\<lambda>w (i, a). GetPostStake w i a" SetPostStake "\<lambda>s. (ps_PostID s, ps_Staker s)" prefixPostStake
  "\<lambda>s. prefixPostStake @ ps_PostID s @ ps_Staker s" encodePostStake decodePostStake stake_fits
  by unfold_locales
    (auto simp: decode_encodePostStake GetPostStake_def SetPostStake_def stake_fits_def split: if_splits)

section \<open>Saving and loading the state\<close>

lemmas kv_keys = prefixAccount_def prefixPost_def prefixPostStake_def keyBurnedSupply_def keyIssuedSupply_def
  keyChainHeight_def keyCurrentEpoch_def keyActiveValidators_def keyUnbondingQueue_def go_def

definition state_fits :: "WorldState \<Rightarrow> bool" where
  "state_fits ws \<longleftrightarrow>
     mok (ws_accounts ws) \<and> (\<forall>(k, a)\<in>set (ws_accounts ws). k = acc_Address a \<and> account_fits a)
     \<and> mok (ws_posts ws) \<and> (\<forall>(k, p)\<in>set (ws_posts ws). k = post_PostID p \<and> post_fits p)
     \<and> mok (ws_postStakes ws) \<and> (\<forall>(k, s)\<in>set (ws_postStakes ws). k = (ps_PostID s, ps_Staker s) \<and> stake_fits s)
     \<and> list_all validator_fits (ws_activeValidators ws) \<and> length (ws_activeValidators ws) < 2 ^ 32
     \<and> list_all unbonding_fits (ws_unbondingQueue ws) \<and> length (ws_unbondingQueue ws) < 2 ^ 32"

lemma mget_fold_other:
  "(\<And>x. x \<in> set xs \<Longrightarrow> f x \<noteq> k) \<Longrightarrow> mget (fold (\<lambda>x. mput (f x) (e x)) xs db) k = mget db k"
  by (induction xs arbitrary: db) auto

lemma mok_fold_mput: "mok db \<Longrightarrow> mok (fold (\<lambda>x. mput (f x) (e x)) xs db)"
  by (induction xs arbitrary: db) auto

lemma SaveState_keys:
  "mget (SaveState ws db) keyBurnedSupply = Some (encodeUint64 (ws_burnedSupply ws))"
  "mget (SaveState ws db) keyIssuedSupply = Some (encodeUint64 (ws_issuedSupply ws))"
  "mget (SaveState ws db) keyChainHeight = Some (encodeUint64 (ws_chainHeight ws))"
  "mget (SaveState ws db) keyCurrentEpoch = Some (encodeUint64 (ws_currentEpoch ws))"
  "mget (SaveState ws db) keyActiveValidators = Some (encodeValidatorSet (ws_activeValidators ws))"
  "mget (SaveState ws db) keyUnbondingQueue = Some (encodeUnbondingQueue (ws_unbondingQueue ws))"
  unfolding SaveState_def Let_def by (subst mget_fold_other; simp add: kv_keys)+

lemma mget_fold_cong:
  "mget db1 k = mget db2 k \<Longrightarrow>
     mget (fold (\<lambda>x. mput (f x) (e x)) xs db1) k = mget (fold (\<lambda>x. mput (f x) (e x)) xs db2) k"
  by (induction xs arbitrary: db1 db2) auto

lemma SaveState_records:
  "mget (SaveState ws db) (prefixAccount @ r)
    = mget (fold (\<lambda>a. mput (prefixAccount @ acc_Address a) (encodeAccount a)) (AllAccounts ws) db) (prefixAccount @ r)"
  "mget (SaveState ws db) (prefixPost @ r)
    = mget (fold (\<lambda>p. mput (prefixPost @ post_PostID p) (encodePost p)) (AllPosts ws) db) (prefixPost @ r)"
  "mget (SaveState ws db) (prefixPostStake @ r)
    = mget (fold (\<lambda>s. mput (prefixPostStake @ ps_PostID s @ ps_Staker s) (encodePostStake s)) (AllPostStakes ws) db)
        (prefixPostStake @ r)"
proof -
  define D where "D = fold (\<lambda>p. mput (prefixPost @ post_PostID p) (encodePost p)) (AllPosts ws)
    (fold (\<lambda>a. mput (prefixAccount @ acc_Address a) (encodeAccount a)) (AllAccounts ws) db)"
  define E where "E = mput keyUnbondingQueue (encodeUnbondingQueue (ws_unbondingQueue ws))
    (mput keyActiveValidators (encodeValidatorSet (ws_activeValidators ws))
    (mput keyCurrentEpoch (encodeUint64 (ws_currentEpoch ws)) (mput keyChainHeight (encodeUint64 (ws_chainHeight ws))
    (mput keyIssuedSupply (encodeUint64 (ws_issuedSupply ws)) (mput keyBurnedSupply (encodeUint64 (ws_burnedSupply ws)) D)))))"
  have S: "SaveState ws db = fold (\<lambda>s. mput (prefixPostStake @ ps_PostID s @ ps_Staker s) (encodePostStake s))
      (AllPostStakes ws) E"
    by (simp add: SaveState_def Let_def E_def D_def)
  have E: "mget E (prefixAccount @ r) = mget D (prefixAccount @ r)" "mget E (prefixPost @ r) = mget D (prefixPost @ r)"
    "mget E (prefixPostStake @ r) = mget D (prefixPostStake @ r)"
    unfolding E_def by (simp_all add: kv_keys)
  show "mget (SaveState ws db) (prefixAccount @ r)
      = mget (fold (\<lambda>a. mput (prefixAccount @ acc_Address a) (encodeAccount a)) (AllAccounts ws) db) (prefixAccount @ r)"
    unfolding S by (subst mget_fold_other) (simp add: kv_keys, unfold E D_def, rule mget_fold_other, simp add: kv_keys)
  show "mget (SaveState ws db) (prefixPost @ r)
      = mget (fold (\<lambda>p. mput (prefixPost @ post_PostID p) (encodePost p)) (AllPosts ws) db) (prefixPost @ r)"
    unfolding S by (subst mget_fold_other)
      (simp add: kv_keys, unfold E D_def, rule mget_fold_cong, rule mget_fold_other, simp add: kv_keys)
  have "mget D (prefixPostStake @ r) = mget db (prefixPostStake @ r)"
    unfolding D_def by (subst mget_fold_other, simp add: kv_keys)+ simp
  then show "mget (SaveState ws db) (prefixPostStake @ r)
    = mget (fold (\<lambda>s. mput (prefixPostStake @ ps_PostID s @ ps_Staker s) (encodePostStake s)) (AllPostStakes ws) db)
        (prefixPostStake @ r)"
    unfolding S using E(3) by (intro mget_fold_cong) simp
qed

lemma mok_SaveState: "mok db \<Longrightarrow> mok (SaveState ws db)"
  unfolding SaveState_def Let_def by (intro mok_fold_mput map_ok_laws)

definition db_ok :: "kv_db \<Rightarrow> bool" where
  "db_ok db \<longleftrightarrow> kva.saved db \<and> kvp.saved db \<and> kvs.saved db"

lemma has_prefix: "take (length p) k = p \<Longrightarrow> \<exists>r. k = p @ r"
  by (metis append_take_drop_id)

lemma SaveState_in_db:
  assumes db: "db_ok db" and ws: "state_fits ws"
  shows "db_ok (SaveState ws db)"
    "kva.in_db (SaveState ws db) a \<longleftrightarrow> GetAccount ws (acc_Address a) = Some a
       \<or> GetAccount ws (acc_Address a) = None \<and> kva.in_db db a"
    "kvp.in_db (SaveState ws db) p \<longleftrightarrow> GetPost ws (post_PostID p) = Some p
       \<or> GetPost ws (post_PostID p) = None \<and> kvp.in_db db p"
    "kvs.in_db (SaveState ws db) s \<longleftrightarrow> GetPostStake ws (ps_PostID s) (ps_Staker s) = Some s
       \<or> GetPostStake ws (ps_PostID s) (ps_Staker s) = None \<and> kvs.in_db db s"
proof -
  have m: "mok (SaveState ws db)" using db by (simp add: db_ok_def kva.saved_def mok_SaveState)
  have a: "kva.saved (SaveState ws db)" "\<And>a. kva.in_db (SaveState ws db) a \<longleftrightarrow> mget (ws_accounts ws) (acc_Address a) = Some a
      \<or> mget (ws_accounts ws) (acc_Address a) = None \<and> kva.in_db db a"
    using kva.save_map [of db "ws_accounts ws" "SaveState ws db"] db ws m SaveState_records(1)
    by (auto simp: db_ok_def state_fits_def AllAccounts_def)
  have p: "kvp.saved (SaveState ws db)" "\<And>p. kvp.in_db (SaveState ws db) p \<longleftrightarrow> mget (ws_posts ws) (post_PostID p) = Some p
      \<or> mget (ws_posts ws) (post_PostID p) = None \<and> kvp.in_db db p"
    using kvp.save_map [of db "ws_posts ws" "SaveState ws db"] db ws m SaveState_records(2)
    by (auto simp: db_ok_def state_fits_def AllPosts_def)
  have s: "kvs.saved (SaveState ws db)" "\<And>s. kvs.in_db (SaveState ws db) s \<longleftrightarrow>
      mget (ws_postStakes ws) (ps_PostID s, ps_Staker s) = Some s
      \<or> mget (ws_postStakes ws) (ps_PostID s, ps_Staker s) = None \<and> kvs.in_db db s"
    using kvs.save_map [of db "ws_postStakes ws" "SaveState ws db"] db ws m SaveState_records(3)
    by (auto simp: db_ok_def state_fits_def AllPostStakes_def)
  show "db_ok (SaveState ws db)" using a p s by (simp add: db_ok_def)
  show "kva.in_db (SaveState ws db) a \<longleftrightarrow> GetAccount ws (acc_Address a) = Some a
       \<or> GetAccount ws (acc_Address a) = None \<and> kva.in_db db a" using a by (simp add: GetAccount_def)
  show "kvp.in_db (SaveState ws db) p \<longleftrightarrow> GetPost ws (post_PostID p) = Some p
       \<or> GetPost ws (post_PostID p) = None \<and> kvp.in_db db p" using p by (simp add: GetPost_def)
  show "kvs.in_db (SaveState ws db) s \<longleftrightarrow> GetPostStake ws (ps_PostID s) (ps_Staker s) = Some s
       \<or> GetPostStake ws (ps_PostID s) (ps_Staker s) = None \<and> kvs.in_db db s" using s by (simp add: GetPostStake_def)
qed

lemma load_with_keeps:
  assumes "\<And>x w. f (put x w) = f w"
  shows "load_with dec put es w = Inr w' \<Longrightarrow> f w' = f w"
  by (induction es arbitrary: w) (auto simp: bindR_eq_Inr assms)

lemma load_counter_saved:
  "mget db k = Some (encodeUint64 v) \<Longrightarrow> load_counter k put db ws = Inr (put v ws)"
  by (simp add: load_counter_def)

lemma load_stakes_eq:
  "load_with decodePostStake SetPostStake es w = Inr w' \<Longrightarrow>
     fold (\<lambda>(k, v) ws. case decodePostStake v of Inl _ \<Rightarrow> ws | Inr ps \<Rightarrow> SetPostStake ps ws) es w = w'"
  by (induction es arbitrary: w) (auto simp: bindR_eq_Inr)

lemma fold_unbonding: "fold AddUnbondingEntry es ws = ws\<lparr>ws_unbondingQueue := ws_unbondingQueue ws @ es\<rparr>"
  by (induction es arbitrary: ws) (simp_all add: AddUnbondingEntry_def)

text \<open>What is loaded after a state was saved on top of an older database.\<close>

lemma LoadState_SaveState:
  assumes db: "db_ok db" and ws: "state_fits ws"
  shows "\<exists>w. LoadState (SaveState ws db) = Inr w
    \<and> (\<forall>k a. GetAccount w k = Some a \<longleftrightarrow> kva.in_db (SaveState ws db) a \<and> acc_Address a = k)
    \<and> (\<forall>k p. GetPost w k = Some p \<longleftrightarrow> kvp.in_db (SaveState ws db) p \<and> post_PostID p = k)
    \<and> (\<forall>i a s. GetPostStake w i a = Some s \<longleftrightarrow> kvs.in_db (SaveState ws db) s \<and> ps_PostID s = i \<and> ps_Staker s = a)
    \<and> ws_activeValidators w = ws_activeValidators ws \<and> ws_unbondingQueue w = ws_unbondingQueue ws
    \<and> ws_slashRecord w = [] \<and> ws_burnedSupply w = ws_burnedSupply ws \<and> ws_issuedSupply w = ws_issuedSupply ws
    \<and> ws_chainHeight w = ws_chainHeight ws \<and> ws_currentEpoch w = ws_currentEpoch ws"
proof -
  define D where "D = SaveState ws db"
  have ok: "kva.saved D" "kvp.saved D" "kvs.saved D"
    using SaveState_in_db(1) [OF assms] by (simp_all add: db_ok_def D_def)
  obtain w1 where w1: "load_with decodeAccount SetAccount (with_prefix prefixAccount D) NewWorldState = Inr w1"
    "\<And>k a. GetAccount w1 k = Some a \<longleftrightarrow> kva.in_db D a \<and> acc_Address a = k"
    using kva.load_saved [OF ok(1), of NewWorldState] by (auto simp: NewWorldState_def GetAccount_def)
  have k1: "ws_posts w1 = []" "ws_postStakes w1 = []" "ws_slashRecord w1 = []" "ws_unbondingQueue w1 = []"
    using load_with_keeps [where f = ws_posts, OF _ w1(1)] load_with_keeps [where f = ws_postStakes, OF _ w1(1)]
      load_with_keeps [where f = ws_slashRecord, OF _ w1(1)] load_with_keeps [where f = ws_unbondingQueue, OF _ w1(1)]
    by (simp_all add: NewWorldState_def)
  obtain w2 where w2: "load_with decodePost SetPost (with_prefix prefixPost D) w1 = Inr w2"
    "\<And>k p. GetPost w2 k = Some p \<longleftrightarrow> kvp.in_db D p \<and> post_PostID p = k"
    using kvp.load_saved [OF ok(2), of w1] k1 by (auto simp: GetPost_def)
  have k2: "ws_accounts w2 = ws_accounts w1" "ws_postStakes w2 = []" "ws_slashRecord w2 = []" "ws_unbondingQueue w2 = []"
    using load_with_keeps [where f = ws_accounts, OF _ w2(1)] load_with_keeps [where f = ws_postStakes, OF _ w2(1)]
      load_with_keeps [where f = ws_slashRecord, OF _ w2(1)] load_with_keeps [where f = ws_unbondingQueue, OF _ w2(1)] k1
    by (simp_all add: SetPost_def)
  define w3 where "w3 = w2\<lparr>ws_burnedSupply := ws_burnedSupply ws, ws_issuedSupply := ws_issuedSupply ws,
    ws_chainHeight := ws_chainHeight ws, ws_currentEpoch := ws_currentEpoch ws,
    ws_activeValidators := ws_activeValidators ws, ws_unbondingQueue := ws_unbondingQueue ws\<rparr>"
  obtain w where w: "load_with decodePostStake SetPostStake (with_prefix prefixPostStake D) w3 = Inr w"
    "\<And>k s. (case k of (i, a) \<Rightarrow> GetPostStake w i a) = Some s \<longleftrightarrow> kvs.in_db D s \<and> (ps_PostID s, ps_Staker s) = k"
    using kvs.load_saved [OF ok(3), of w3] k2 by (auto simp: GetPostStake_def w3_def)
  have k: "ws_accounts w = ws_accounts w3" "ws_posts w = ws_posts w3" "ws_activeValidators w = ws_activeValidators w3"
    "ws_unbondingQueue w = ws_unbondingQueue w3" "ws_slashRecord w = ws_slashRecord w3"
    "ws_burnedSupply w = ws_burnedSupply w3" "ws_issuedSupply w = ws_issuedSupply w3"
    "ws_chainHeight w = ws_chainHeight w3" "ws_currentEpoch w = ws_currentEpoch w3"
    by (rule load_with_keeps [OF _ w(1)]; simp add: SetPostStake_def)+
  have fit: "decodeValidatorSet (encodeValidatorSet (ws_activeValidators ws)) = ws_activeValidators ws"
    "decodeUnbondingQueue (encodeUnbondingQueue (ws_unbondingQueue ws)) = ws_unbondingQueue ws"
    using ws by (simp_all add: state_fits_def decode_encodeValidatorSet decode_encodeUnbondingQueue)
  have "LoadState D = Inr w"
    unfolding LoadState_def w1(1) w2(1) bindR_simps Let_def
      load_counter_saved [OF SaveState_keys(1) [of ws db, folded D_def]]
      load_counter_saved [OF SaveState_keys(2) [of ws db, folded D_def]]
      load_counter_saved [OF SaveState_keys(3) [of ws db, folded D_def]]
      load_counter_saved [OF SaveState_keys(4) [of ws db, folded D_def]]
    using load_stakes_eq [OF w(1)] k2
    by (simp add: SaveState_keys(5,6) [of ws db, folded D_def] fit fold_unbonding w3_def SetBurnedSupply_def
        SetIssuedSupply_def SetChainHeight_def SetCurrentEpoch_def SetActiveValidators_def)
  moreover have "GetAccount w = GetAccount w1" "GetPost w = GetPost w2"
    using k k2 by (simp_all add: GetAccount_def GetPost_def w3_def fun_eq_iff)
  ultimately show ?thesis
    using w1(2) w2(2) w(2) k k2 by (intro exI [of _ w]) (auto simp: w3_def simp flip: D_def)
qed

lemma db_ok_run: "\<forall>w\<in>set wss. state_fits w \<Longrightarrow> db_ok (fold SaveState wss [])"
proof (induction wss rule: rev_induct)
  case Nil
  then show ?case by (simp add: db_ok_def kva.saved_def kvp.saved_def kvs.saved_def)
qed (simp add: SaveState_in_db(1))

lemma loaded_run:
  assumes fits: "\<forall>w\<in>set wss. state_fits w" and ld: "LoadState (fold SaveState wss []) = Inr w0"
    and db: "db = fold SaveState wss []"
  shows "GetAccount w0 k = Some a \<longleftrightarrow> kva.in_db db a \<and> acc_Address a = k"
    "GetPost w0 k = Some p \<longleftrightarrow> kvp.in_db db p \<and> post_PostID p = k"
    "GetPostStake w0 i b = Some s \<longleftrightarrow> kvs.in_db db s \<and> ps_PostID s = i \<and> ps_Staker s = b"
proof -
  have "(\<forall>k a. GetAccount w0 k = Some a \<longleftrightarrow> kva.in_db db a \<and> acc_Address a = k)
    \<and> (\<forall>k p. GetPost w0 k = Some p \<longleftrightarrow> kvp.in_db db p \<and> post_PostID p = k)
    \<and> (\<forall>i a s. GetPostStake w0 i a = Some s \<longleftrightarrow> kvs.in_db db s \<and> ps_PostID s = i \<and> ps_Staker s = a)"
  proof (cases wss rule: rev_cases)
    case Nil
    then have "w0 = NewWorldState" using ld by (simp add: LoadState_def with_prefix_def load_counter_def)
    with Nil db show ?thesis
      by (simp add: kva.in_db_def kvp.in_db_def kvs.in_db_def NewWorldState_def GetAccount_def GetPost_def GetPostStake_def)
  next
    case (snoc us u)
    have "db_ok (fold SaveState us [])" "state_fits u" using db_ok_run fits snoc by simp_all
    from LoadState_SaveState [OF this] ld db snoc show ?thesis by auto
  qed
  then show "GetAccount w0 k = Some a \<longleftrightarrow> kva.in_db db a \<and> acc_Address a = k"
    "GetPost w0 k = Some p \<longleftrightarrow> kvp.in_db db p \<and> post_PostID p = k"
    "GetPostStake w0 i b = Some s \<longleftrightarrow> kvs.in_db db s \<and> ps_PostID s = i \<and> ps_Staker s = b" by blast+
qed

lemma map_add_Some: "(\<And>k x. f k = Some x \<longleftrightarrow> g k = Some x \<or> g k = None \<and> h k = Some x) \<Longrightarrow> f = h ++ g"
proof
  fix k
  assume *: "\<And>k x. f k = Some x \<longleftrightarrow> g k = Some x \<or> g k = None \<and> h k = Some x"
  show "f k = (h ++ g) k"
  proof (cases "g k")
    case None
    then have "f k = Some x \<longleftrightarrow> h k = Some x" for x using * [of k x] by simp
    then have "f k = h k" by (cases "h k") (metis not_Some_eq)+
    with None show ?thesis by (simp add: map_add_def)
  next
    case (Some y)
    then show ?thesis using * [of k y] by (simp add: map_add_def)
  qed
qed

lemma restarted:
  assumes fits: "\<forall>w\<in>set (ws # wss). state_fits w" and ld: "LoadState (fold SaveState wss []) = Inr w0"
  shows "\<exists>w. LoadState (SaveState ws (fold SaveState wss [])) = Inr w
    \<and> GetAccount w = GetAccount w0 ++ GetAccount ws \<and> GetPost w = GetPost w0 ++ GetPost ws
    \<and> (\<forall>i. GetPostStake w i = GetPostStake w0 i ++ GetPostStake ws i)
    \<and> ws_activeValidators w = ws_activeValidators ws \<and> ws_unbondingQueue w = ws_unbondingQueue ws
    \<and> ws_slashRecord w = [] \<and> ws_burnedSupply w = ws_burnedSupply ws \<and> ws_issuedSupply w = ws_issuedSupply ws
    \<and> ws_chainHeight w = ws_chainHeight ws \<and> ws_currentEpoch w = ws_currentEpoch ws"
proof -
  define db where "db = fold SaveState wss []"
  have ok: "db_ok db" "state_fits ws" using fits by (simp_all add: db_def db_ok_run)
  note old = loaded_run [OF _ ld db_def] and new = SaveState_in_db(2-4) [OF ok]
  obtain w where w: "LoadState (SaveState ws db) = Inr w"
    "\<forall>k a. GetAccount w k = Some a \<longleftrightarrow> kva.in_db (SaveState ws db) a \<and> acc_Address a = k"
    "\<forall>k p. GetPost w k = Some p \<longleftrightarrow> kvp.in_db (SaveState ws db) p \<and> post_PostID p = k"
    "\<forall>i a s. GetPostStake w i a = Some s \<longleftrightarrow> kvs.in_db (SaveState ws db) s \<and> ps_PostID s = i \<and> ps_Staker s = a"
    and rest: "ws_activeValidators w = ws_activeValidators ws" "ws_unbondingQueue w = ws_unbondingQueue ws"
    "ws_slashRecord w = []" "ws_burnedSupply w = ws_burnedSupply ws" "ws_issuedSupply w = ws_issuedSupply ws"
    "ws_chainHeight w = ws_chainHeight ws" "ws_currentEpoch w = ws_currentEpoch ws"
    using LoadState_SaveState [OF ok] by blast
  have key: "GetAccount ws k = Some a \<Longrightarrow> acc_Address a = k" "GetPost ws k = Some p \<Longrightarrow> post_PostID p = k"
    "GetPostStake ws i b = Some s \<Longrightarrow> ps_PostID s = i \<and> ps_Staker s = b" for k a p i b s
    using ok(2) by (auto simp: state_fits_def GetAccount_def GetPost_def GetPostStake_def dest!: map_of_SomeD)
  have all: "\<forall>w\<in>set wss. state_fits w" using fits by simp
  have "GetAccount w = GetAccount w0 ++ GetAccount ws"
  proof (rule map_add_Some)
    fix k a
    show "GetAccount w k = Some a \<longleftrightarrow> GetAccount ws k = Some a \<or> GetAccount ws k = None \<and> GetAccount w0 k = Some a"
      unfolding w(2) [rule_format] old(1) [OF all] new(1) [of a] using key(1) [of k a] by blast
  qed
  moreover have "GetPost w = GetPost w0 ++ GetPost ws"
  proof (rule map_add_Some)
    fix k p
    show "GetPost w k = Some p \<longleftrightarrow> GetPost ws k = Some p \<or> GetPost ws k = None \<and> GetPost w0 k = Some p"
      unfolding w(3) [rule_format] old(2) [OF all] new(2) [of p] using key(2) [of k p] by blast
  qed
  moreover have "GetPostStake w i = GetPostStake w0 i ++ GetPostStake ws i" for i
  proof (rule map_add_Some)
    fix b s
    show "GetPostStake w i b = Some s \<longleftrightarrow> GetPostStake ws i b = Some s
        \<or> GetPostStake ws i b = None \<and> GetPostStake w0 i b = Some s"
      unfolding w(4) [rule_format] old(3) [OF all] new(3) [of s] using key(3) [of i b s]
      by (cases "ps_PostID s = i \<and> ps_Staker s = b") auto
  qed
  ultimately show ?thesis using w(1) rest by (simp add: db_def)
qed

lemma map_add_covers: "dom m \<subseteq> dom m' \<Longrightarrow> m ++ m' = m'"
  by (rule ext) (auto simp: map_add_def split: option.split)

text \<open>
  C15: what a node finds when it restarts, after any number of saved states: the accounts, posts and stakes of
  the last saved state, together with those of older saves that the last state no longer has (nothing is ever
  deleted), its validators, unbonding entries and counters, and no slashing records.  If the last state still has
  every account, post and stake of the older saves, the maps are exactly its own.
\<close>

theorem restart_state:
  assumes "\<forall>w\<in>set (ws # wss). state_fits w" "LoadState (fold SaveState wss []) = Inr w0"
  shows "\<exists>w. LoadState (SaveState ws (fold SaveState wss [])) = Inr w
    \<and> GetAccount w = GetAccount w0 ++ GetAccount ws \<and> GetPost w = GetPost w0 ++ GetPost ws
    \<and> (\<forall>i. GetPostStake w i = GetPostStake w0 i ++ GetPostStake ws i)
    \<and> ws_activeValidators w = ws_activeValidators ws \<and> ws_unbondingQueue w = ws_unbondingQueue ws
    \<and> ws_slashRecord w = [] \<and> ws_burnedSupply w = ws_burnedSupply ws \<and> ws_issuedSupply w = ws_issuedSupply ws
    \<and> ws_chainHeight w = ws_chainHeight ws \<and> ws_currentEpoch w = ws_currentEpoch ws
    \<and> (dom (GetAccount w0) \<subseteq> dom (GetAccount ws) \<and> dom (GetPost w0) \<subseteq> dom (GetPost ws)
        \<and> (\<forall>i. dom (GetPostStake w0 i) \<subseteq> dom (GetPostStake ws i))
        \<longrightarrow> GetAccount w = GetAccount ws \<and> GetPost w = GetPost ws \<and> GetPostStake w = GetPostStake ws)"
  using restarted [OF assms] by (elim ex_forward) (simp add: map_add_covers fun_eq_iff [of "GetPostStake _"])

text \<open>A check of the sizes that evaluates on concrete states.\<close>

definition small_state :: "WorldState \<Rightarrow> bool" where
  "small_state ws \<longleftrightarrow>
     distinct (map fst (ws_accounts ws)) \<and> distinct (map fst (ws_posts ws)) \<and> distinct (map fst (ws_postStakes ws))
     \<and> list_all (\<lambda>(k, a). k = acc_Address a \<and> length k = 24 \<and> length (acc_Name a) < 100) (ws_accounts ws)
     \<and> list_all (\<lambda>(k, p). k = post_PostID p \<and> length k = 32 \<and> length (post_Author p) = 24
          \<and> length (post_ParentPostID p) = 32 \<and> length (post_Text p) < 100 \<and> length (post_Channel p) < 100) (ws_posts ws)
     \<and> list_all (\<lambda>(k, s). k = (ps_PostID s, ps_Staker s) \<and> length (ps_PostID s) = 32 \<and> length (ps_Staker s) = 24)
          (ws_postStakes ws)
     \<and> list_all validator_fits (ws_activeValidators ws) \<and> length (ws_activeValidators ws) < 100
     \<and> list_all unbonding_fits (ws_unbondingQueue ws) \<and> length (ws_unbondingQueue ws) < 100"

lemma small_state_fits: "small_state ws \<Longrightarrow> state_fits ws"
  by (auto simp: small_state_def state_fits_def mok_def list_all_iff account_fits_def post_fits_def stake_fits_def)

lemma empty_state: "GetAccount NewWorldState = Map.empty"
  by (simp add: NewWorldState_def GetAccount_def fun_eq_iff)

theorem restart_state_witness:
  "\<exists>w. LoadState (SaveState chain_ws []) = Inr w \<and> GetAccount w = GetAccount chain_ws
     \<and> ws_chainHeight w = ws_chainHeight chain_ws"
proof -
  have "small_state chain_ws" by code_simp
  then have "state_fits chain_ws" by (rule small_state_fits)
  moreover have "LoadState (fold SaveState [] []) = Inr NewWorldState" by code_simp
  ultimately show ?thesis
    using restart_state [of chain_ws "[]" NewWorldState] by (auto simp: empty_state)
qed

section \<open>A withdrawn stake comes back\<close>

lemma refund_keeps_removed:
  "refund_stakers i ls (post, ws) = (post', ws') \<Longrightarrow> GetPostStake ws j a = None \<Longrightarrow> GetPostStake ws' j a = None"
proof (induction ls arbitrary: post ws)
  case (Cons l ls)
  obtain p1 w1 where "refund_stakers i ls (p1, RemovePostStake i (ps_Staker l) w1) = (post', ws')"
    "GetPostStake w1 = GetPostStake ws"
    using Cons.prems(1) by (cases "GetAccount ws (ps_Staker l)") (auto simp: Let_def)
  then show ?case using Cons.IH Cons.prems(2) by simp
qed simp

lemma unstake_removes:
  assumes "applyUnstakePost ws tx = Inr ws'"
  shows "\<exists>s. GetPostStake ws (tx_PostID tx) (tx_Sender tx) = Some s" "GetPostStake ws' (tx_PostID tx) (tx_Sender tx) = None"
proof -
  show "\<exists>s. GetPostStake ws (tx_PostID tx) (tx_Sender tx) = Some s"
    using assms by (auto simp: applyUnstakePost_def split: option.splits)
  obtain sender st post where s: "GetAccount ws (tx_Sender tx) = Some sender"
    "GetPostStake ws (tx_PostID tx) (tx_Sender tx) = Some st" "GetPost ws (tx_PostID tx) = Some post"
    using assms by (auto simp: applyUnstakePost_def split: option.splits)
  define w1 where "w1 = RemovePostStake (tx_PostID tx) (tx_Sender tx)
    (SetAccount (sender\<lparr>acc_Balance := acc_Balance sender + ps_Amount st,
      acc_PostStakeBalance := acc_PostStakeBalance sender - ps_Amount st, acc_Nonce := acc_Nonce sender + 1\<rparr>) ws)"
  have w1: "GetPostStake w1 (tx_PostID tx) (tx_Sender tx) = None" by (simp add: w1_def)
  define post1 where "post1 = post\<lparr>post_TotalStaked := post_TotalStaked post - ps_Amount st,
    post_StakerCount := post_StakerCount post - 1\<rparr>"
  define q where "q = (if tx_Sender tx = post_Author post then post1\<lparr>post_Withdrawn := True\<rparr> else post1)"
  define ls where "ls = (if tx_Sender tx = post_Author post then GetPostStakers w1 (tx_PostID tx) else [])"
  obtain p2 w2 where loop: "refund_stakers (tx_PostID tx) ls (q, w1) = (p2, w2)" by fastforce
  have "ws' = SetPost p2 w2"
    using assms s loop
    by (cases "tx_Sender tx = post_Author post")
      (simp_all add: applyUnstakePost_def post1_def q_def ls_def w1_def Let_def)
  with loop refund_keeps_removed [OF _ w1] show "GetPostStake ws' (tx_PostID tx) (tx_Sender tx) = None" by simp
qed

text \<open>
  C34: taking a stake out of a post does not survive a restart.  The stake is gone from the new state, but the
  database still has the record saved with an earlier block, so the state loaded from it has the stake again
  and the staker can take it out a second time.
\<close>

theorem withdrawn_stake_returns:
  assumes "applyUnstakePost ws tx = Inr ws'" "state_fits ws" "state_fits ws'" "\<forall>w\<in>set wss. state_fits w"
    "LoadState (fold SaveState wss []) = Inr w0"
  shows "GetPostStake ws' (tx_PostID tx) (tx_Sender tx) = None
    \<and> (\<exists>w. LoadState (SaveState ws' (SaveState ws (fold SaveState wss []))) = Inr w
         \<and> GetPostStake w (tx_PostID tx) (tx_Sender tx) = GetPostStake ws (tx_PostID tx) (tx_Sender tx)
         \<and> GetPostStake ws (tx_PostID tx) (tx_Sender tx) \<noteq> None)"
proof -
  note u = unstake_removes [OF assms(1)]
  obtain w1 where w1: "LoadState (fold SaveState (wss @ [ws]) []) = Inr w1"
    "GetPostStake w1 (tx_PostID tx) (tx_Sender tx) = GetPostStake ws (tx_PostID tx) (tx_Sender tx)"
    using restarted [of ws wss w0] assms(2,4,5) u(1) by (auto simp: map_add_def)
  have "\<forall>w\<in>set (ws' # wss @ [ws]). state_fits w" using assms(2-4) by auto
  from restarted [OF this w1(1)] show ?thesis using u w1(2) by (auto simp: map_add_def)
qed

text \<open>The booster of the sample chain takes the stake out after the first block.\<close>

definition staked_ws :: WorldState where
  "staked_ws = (case apply_blocks chain_prims plain_norm chain_params chain_ws0 (take 1 chain_run) of
     Inr ws \<Rightarrow> ws | Inl _ \<Rightarrow> NewWorldState)"

definition unstake_tx :: Transaction where
  "unstake_tx = chain_tx TxUnstakePost 2 zeroAddress chain_post [] 0 2"

definition unstaked_ws :: WorldState where
  "unstaked_ws = (case applyUnstakePost staked_ws unstake_tx of Inr ws \<Rightarrow> ws | Inl _ \<Rightarrow> NewWorldState)"

theorem withdrawn_stake_returns_witness:
  "GetPostStake unstaked_ws chain_post (chain_addr 2) = None
     \<and> (\<exists>w. LoadState (SaveState unstaked_ws (SaveState staked_ws [])) = Inr w
          \<and> GetPostStake w chain_post (chain_addr 2) \<noteq> None)"
proof -
  have ap: "applyUnstakePost staked_ws unstake_tx = Inr unstaked_ws" by code_simp
  have "small_state staked_ws" "small_state unstaked_ws" by code_simp+
  then have fits: "state_fits staked_ws" "state_fits unstaked_ws" by (simp_all add: small_state_fits)
  have ld: "LoadState (fold SaveState [] []) = Inr NewWorldState" by code_simp
  have ids: "tx_PostID unstake_tx = chain_post" "tx_Sender unstake_tx = chain_addr 2"
    by (simp_all add: unstake_tx_def chain_tx_def)
  from withdrawn_stake_returns [OF ap fits _ ld] show ?thesis by (auto simp: ids)
qed

end
