(* ===== verification/Mempool.thy ===== *)
theory Mempool
  imports Chain
begin

text \<open>
  The node's \<^verbatim>\<open>internal/mempool/mempool.go\<close>: the pool of pending transactions and the assembly of a block
  from it.  The pool is a Go map; its association list is in the order in which a loop visits it, and since
  that list is arbitrary so is every order a theorem speaks about: grouping an arbitrary list by sender gives
  the senders in any order, and sorting a group leaves transactions with equal nonces in the order the list
  has them.  The mutex makes each method one step.
\<close>

section \<open>The pool\<close>

record Mempool =
  mp_txs :: "(bytes, Transaction) gomap"
  mp_maxSize :: int

datatype pool_error =
    PoolPubKeyMismatch
  | PoolInvalidSignature
  | PoolNoAccount
  | PoolInsufficientBalance u64 u64
  | PoolNonceTooLow u64 u64
  | PoolDuplicate
  | PoolFull

definition Mempool_New :: "int \<Rightarrow> Mempool" where
  "Mempool_New maxSize = \<lparr>mp_txs = [], mp_maxSize = maxSize\<rparr>"

text \<open>
  \<open>stateChecker\<close> is the reader that \<^verbatim>\<open>SetStateChecker\<close> installed, as it answers at the time of the call:
  the consensus engine installs itself, so it reads the engine's current state.
\<close>

definition checkState :: "Transaction \<Rightarrow> (address \<Rightarrow> Account option) option \<Rightarrow> (pool_error, unit) result" where
  "checkState tx stateChecker =
     (case stateChecker of
        None \<Rightarrow> Inr ()
      | Some sc \<Rightarrow>
          (case sc (tx_Sender tx) of
             None \<Rightarrow> Inl PoolNoAccount
           | Some acct \<Rightarrow>
               if tx_Amount tx > 0 \<and> acc_Balance acct < tx_Amount tx
               then Inl (PoolInsufficientBalance (acc_Balance acct) (tx_Amount tx))
               else if tx_Nonce tx \<le> acc_Nonce acct then Inl (PoolNonceTooLow (acc_Nonce acct) (tx_Nonce tx))
               else Inr ()))"

definition Mempool_Add ::
    "prims \<Rightarrow> (address \<Rightarrow> Account option) option \<Rightarrow> Transaction \<Rightarrow> Mempool \<Rightarrow> (pool_error, Mempool) result" where
  "Mempool_Add P stateChecker tx m =
     (let derived = AddressFromPublicKey P (tx_PubKey tx) in
      if derived \<noteq> tx_Sender tx then Inl PoolPubKeyMismatch
      else if \<not> Verify P (tx_PubKey tx) (SignableBytes tx) (tx_Signature tx) then Inl PoolInvalidSignature
      else bindR (checkState tx stateChecker) (\<lambda>_.
        let txHash = Transaction_Hash P tx in
        if mget (mp_txs m) txHash \<noteq> None then Inl PoolDuplicate
        else if int (length (mp_txs m)) \<ge> mp_maxSize m then Inl PoolFull
        else Inr (m\<lparr>mp_txs := mput txHash tx (mp_txs m)\<rparr>)))"

definition Mempool_Remove :: "bytes list \<Rightarrow> Mempool \<Rightarrow> Mempool" where
  "Mempool_Remove txHashes m = m\<lparr>mp_txs := fold mdel txHashes (mp_txs m)\<rparr>"

definition EvictStale :: "(address \<Rightarrow> u64 option) \<Rightarrow> Mempool \<Rightarrow> Mempool" where
  "EvictStale getAccountNonce m =
     m\<lparr>mp_txs := filter (\<lambda>(h, tx).
        case getAccountNonce (tx_Sender tx) of None \<Rightarrow> False | Some nonce \<Rightarrow> \<not> tx_Nonce tx \<le> nonce) (mp_txs m)\<rparr>"

definition Mempool_Has :: "bytes \<Rightarrow> Mempool \<Rightarrow> bool" where
  "Mempool_Has txHash m \<longleftrightarrow> mget (mp_txs m) txHash \<noteq> None"

definition Mempool_Pending :: "Mempool \<Rightarrow> Transaction list" where
  "Mempool_Pending m = map snd (mp_txs m)"

definition Mempool_Size :: "Mempool \<Rightarrow> int" where
  "Mempool_Size m = int (length (mp_txs m))"

definition Mempool_Flush :: "Mempool \<Rightarrow> Mempool" where
  "Mempool_Flush m = m\<lparr>mp_txs := []\<rparr>"

section \<open>The speculative state\<close>

record speculativeState =
  spec_base :: StateReader
  spec_accounts :: "(address, Account) gomap"

definition newSpeculativeState :: "StateReader \<Rightarrow> speculativeState" where
  "newSpeculativeState base = \<lparr>spec_base = base, spec_accounts = []\<rparr>"

text \<open>\<^verbatim>\<open>GetAccount\<close> returns the override or the base account, of which it keeps a copy.\<close>

definition spec_GetAccount :: "address \<Rightarrow> speculativeState \<Rightarrow> Account option \<times> speculativeState" where
  "spec_GetAccount addr s =
     (case mget (spec_accounts s) addr of
        Some a \<Rightarrow> (Some a, s)
      | None \<Rightarrow> (case sr_GetAccount (spec_base s) addr of
          Some a \<Rightarrow> (Some a, s\<lparr>spec_accounts := mput addr a (spec_accounts s)\<rparr>)
        | None \<Rightarrow> (None, s)))"

definition spec_GetAccountByName :: "speculativeState \<Rightarrow> bytes \<Rightarrow> Account option" where
  "spec_GetAccountByName s name =
     (case find (\<lambda>(k, a). acc_Name a = name) (spec_accounts s) of
        Some (k, a) \<Rightarrow> Some a
      | None \<Rightarrow> sr_GetAccountByName (spec_base s) name)"

definition spec_reader :: "speculativeState \<Rightarrow> StateReader" where
  "spec_reader s = \<lparr>sr_GetAccount = (\<lambda>a. fst (spec_GetAccount a s)), sr_GetPost = sr_GetPost (spec_base s),
     sr_GetAccountByName = spec_GetAccountByName s, sr_GetPostStake = sr_GetPostStake (spec_base s)\<rparr>"

text \<open>
  Whether the validation with this outcome got as far as reading the sender's account, which is then kept.
  The checks that come before the read fail with the other errors; \<^verbatim>\<open>NoPost\<close> comes before it for a boost and
  after it when a post stake is taken out.
\<close>

definition account_read :: "Transaction \<Rightarrow> (tx_error, unit) result \<Rightarrow> bool" where
  "account_read tx r =
     (case r of
        Inr _ \<Rightarrow> True
      | Inl e \<Rightarrow> (case e of
          NoSenderAccount \<Rightarrow> True | InvalidNonce _ _ \<Rightarrow> True | InsufficientBalance _ _ \<Rightarrow> True | AlreadyNamed _ \<Rightarrow> True
        | NameTaken _ \<Rightarrow> True | BelowMinStake _ _ \<Rightarrow> True | InsufficientStake _ _ \<Rightarrow> True
        | RemainingBelowMin _ _ \<Rightarrow> True | NoActiveStake \<Rightarrow> True
        | NoPost \<Rightarrow> tx_Type tx = TxUnstakePost
        | _ \<Rightarrow> False))"

definition spec_validate ::
    "prims \<Rightarrow> norm \<Rightarrow> GenesisConfig \<Rightarrow> Transaction \<Rightarrow> speculativeState
      \<Rightarrow> (tx_error, unit) result \<times> speculativeState" where
  "spec_validate P N params tx s =
     (let r = ValidateTransaction P N tx (spec_reader s) params
      in (r, if account_read tx r then snd (spec_GetAccount (tx_Sender tx) s) else s))"

text \<open>\<^verbatim>\<open>applyTx\<close>: \<open>None\<close> is the panic on an account that was never read.\<close>

definition applyTx :: "Transaction \<Rightarrow> speculativeState \<Rightarrow> speculativeState option" where
  "applyTx tx s =
     (case mget (spec_accounts s) (tx_Sender tx) of
        None \<Rightarrow> None
      | Some acct \<Rightarrow>
          (let acct = acct\<lparr>acc_Nonce := acc_Nonce acct + 1, acc_Balance := acc_Balance acct - tx_Amount tx\<rparr>;
               s = s\<lparr>spec_accounts := mput (tx_Sender tx) acct (spec_accounts s)\<rparr>
           in if tx_Type tx = TxTransfer then
                (let recip = (case mget (spec_accounts s) (tx_Recipient tx) of
                       Some r \<Rightarrow> r
                     | None \<Rightarrow> (case sr_GetAccount (spec_base s) (tx_Recipient tx) of
                         Some r \<Rightarrow> r | None \<Rightarrow> newAccount (tx_Recipient tx)))
                 in Some (s\<lparr>spec_accounts :=
                      mput (tx_Recipient tx) (recip\<lparr>acc_Balance := acc_Balance recip + tx_Amount tx\<rparr>)
                        (spec_accounts s)\<rparr>))
              else Some s))"

section \<open>Assembling a block\<close>

record senderQueue =
  sq_addr :: address
  sq_txs :: "Transaction list"
  sq_idx :: nat

definition bySender :: "Transaction list \<Rightarrow> (address, Transaction list) gomap" where
  "bySender pending = fold (\<lambda>tx m.
     mput (tx_Sender tx) ((case mget m (tx_Sender tx) of None \<Rightarrow> [] | Some txs \<Rightarrow> txs) @ [tx]) m) pending []"

definition sender_queues :: "Transaction list \<Rightarrow> senderQueue list" where
  "sender_queues pending =
     map (\<lambda>(addr, txs). \<lparr>sq_addr = addr, sq_txs = sort_slice (\<lambda>t u. tx_Nonce t < tx_Nonce u) txs, sq_idx = 0\<rparr>)
       (bySender pending)"

text \<open>One pass of the inner loop over the queues; the last component is \<open>changed\<close>.\<close>

type_synonym reap = "senderQueue list \<times> speculativeState \<times> Transaction list \<times> bool"

fun reap_pass ::
    "prims \<Rightarrow> norm \<Rightarrow> GenesisConfig \<Rightarrow> int \<Rightarrow> senderQueue list \<Rightarrow> speculativeState \<Rightarrow> Transaction list \<Rightarrow> bool
      \<Rightarrow> reap option" where
  "reap_pass P N params maxTx [] spec result changed = Some ([], spec, result, changed)"
| "reap_pass P N params maxTx (q # qs) spec result changed =
     (if sq_idx q \<ge> length (sq_txs q)
      then map_option (\<lambda>(qs', r). (q # qs', r)) (reap_pass P N params maxTx qs spec result changed)
      else (let tx = sq_txs q ! sq_idx q; (r, spec) = spec_validate P N params tx spec in
        case r of
          Inl _ \<Rightarrow> map_option (\<lambda>(qs', r). (q # qs', r)) (reap_pass P N params maxTx qs spec result changed)
        | Inr _ \<Rightarrow> (case applyTx tx spec of
            None \<Rightarrow> None
          | Some spec \<Rightarrow>
              (let result = result @ [tx]; q = q\<lparr>sq_idx := Suc (sq_idx q)\<rparr> in
               if int (length result) \<ge> maxTx then Some (q # qs, spec, result, True)
               else map_option (\<lambda>(qs', r). (q # qs', r)) (reap_pass P N params maxTx qs spec result True)))))"

definition left_in :: "senderQueue list \<Rightarrow> nat" where
  "left_in qs = (\<Sum>q\<leftarrow>qs. length (sq_txs q) - sq_idx q)"

text \<open>A pass that changed something took a transaction from a queue, so the outer loop ends.\<close>

lemma reap_pass_left:
  "reap_pass P N params maxTx qs spec result changed = Some (qs', spec', result', changed') \<Longrightarrow>
     left_in qs' + length result' = left_in qs + length result \<and>
     (changed' = changed \<and> qs' = qs \<and> result' = result \<or> changed' \<and> length result < length result')"
proof (induction qs arbitrary: spec result changed qs')
  case Nil
  then show ?case by (simp add: left_in_def)
next
  case (Cons q qs)
  show ?case
    using Cons.prems
    by (auto simp: Let_def left_in_def split: if_splits sum.splits prod.splits option.splits dest!: Cons.IH)
qed

function reap_loop ::
    "prims \<Rightarrow> norm \<Rightarrow> GenesisConfig \<Rightarrow> int \<Rightarrow> senderQueue list \<Rightarrow> speculativeState \<Rightarrow> Transaction list
      \<Rightarrow> Transaction list option" where
  "reap_loop P N params maxTx queues spec result =
     (if int (length result) < maxTx
      then (case reap_pass P N params maxTx queues spec result False of
              None \<Rightarrow> None
            | Some (queues', spec', result', changed) \<Rightarrow>
                if changed then reap_loop P N params maxTx queues' spec' result' else Some result')
      else Some result)"
  by pat_completeness auto

termination
  by (relation "measure (\<lambda>(P, N, params, maxTx, queues, spec, result). left_in queues)")
    (auto dest!: reap_pass_left)

definition ReapForBlock ::
    "prims \<Rightarrow> norm \<Rightarrow> StateReader \<Rightarrow> GenesisConfig \<Rightarrow> int \<Rightarrow> Mempool \<Rightarrow> Transaction list option" where
  "ReapForBlock P N sr params maxTx m =
     reap_loop P N params maxTx (sender_queues (Mempool_Pending m)) (newSpeculativeState sr) []"

section \<open>The pool invariant\<close>

text \<open>One call of a method that changes the pool.\<close>

inductive pool_step :: "prims \<Rightarrow> Mempool \<Rightarrow> Mempool \<Rightarrow> bool" for P where
  add: "Mempool_Add P stateChecker tx m = Inr m' \<Longrightarrow> pool_step P m m'"
| remove: "pool_step P m (Mempool_Remove txHashes m)"
| evict: "pool_step P m (EvictStale getAccountNonce m)"
| flush: "pool_step P m (Mempool_Flush m)"

definition authentic :: "prims \<Rightarrow> Transaction \<Rightarrow> bool" where
  "authentic P tx \<longleftrightarrow> AddressFromPublicKey P (tx_PubKey tx) = tx_Sender tx
     \<and> Verify P (tx_PubKey tx) (SignableBytes tx) (tx_Signature tx)"

definition pool_ok :: "prims \<Rightarrow> Mempool \<Rightarrow> bool" where
  "pool_ok P m \<longleftrightarrow> mok (mp_txs m) \<and> length (mp_txs m) \<le> nat (mp_maxSize m)
     \<and> (\<forall>(h, tx)\<in>set (mp_txs m). h = Transaction_Hash P tx \<and> authentic P tx)"

lemma pool_ok_sub:
  assumes "pool_ok P m" "mok es" "length es \<le> length (mp_txs m)" "set es \<subseteq> set (mp_txs m)"
  shows "pool_ok P (m\<lparr>mp_txs := es\<rparr>)"
  using assms unfolding pool_ok_def by auto

lemma fold_mdel:
  "mok es \<Longrightarrow> mok (fold mdel ks es)" "set (fold mdel ks es) \<subseteq> set es" "length (fold mdel ks es) \<le> length es"
proof -
  show "mok es \<Longrightarrow> mok (fold mdel ks es)" by (induction ks arbitrary: es) auto
  show "set (fold mdel ks es) \<subseteq> set es"
  proof (induction ks arbitrary: es)
    case (Cons k ks)
    have "set (mdel k es) \<subseteq> set es" by (auto simp: AList.delete_eq)
    then show ?case using Cons [of "mdel k es"] by auto
  qed simp
  show "length (fold mdel ks es) \<le> length es"
  proof (induction ks arbitrary: es)
    case (Cons k ks)
    have "length (mdel k es) \<le> length es" by (simp add: AList.length_delete_le)
    then show ?case using Cons [of "mdel k es"] by simp
  qed simp
qed

lemma mput_absent: "mget es k = None \<Longrightarrow> mput k v es = es @ [(k, v)]"
  by (induction es) (auto split: if_splits)

lemma Mempool_Add_Inr:
  "Mempool_Add P sc tx m = Inr m' \<longleftrightarrow> authentic P tx \<and> checkState tx sc = Inr ()
     \<and> \<not> Mempool_Has (Transaction_Hash P tx) m \<and> int (length (mp_txs m)) < mp_maxSize m
     \<and> m' = m\<lparr>mp_txs := mp_txs m @ [(Transaction_Hash P tx, tx)]\<rparr>"
  by (auto simp: Mempool_Add_def authentic_def Let_def bindR_eq_Inr Mempool_Has_def mput_absent split: if_splits)

lemma pool_step_ok:
  assumes "pool_step P m m'" "pool_ok P m"
  shows "pool_ok P m'"
  using assms
proof cases
  case (add sc tx)
  then have "Transaction_Hash P tx \<notin> fst ` set (mp_txs m)"
    by (auto simp: Mempool_Add_Inr Mempool_Has_def map_of_eq_None_iff)
  then show ?thesis using assms(2) add by (auto simp: Mempool_Add_Inr pool_ok_def mok_def)
next
  case (remove txHashes)
  then show ?thesis
    using assms(2) fold_mdel [where es = "mp_txs m" and ks = txHashes] unfolding Mempool_Remove_def
    by (auto intro!: pool_ok_sub simp: pool_ok_def)
next
  case (evict f)
  then show ?thesis
    using assms(2) unfolding evict EvictStale_def
    by (intro pool_ok_sub) (auto simp: pool_ok_def mok_def distinct_map_filter)
next
  case flush
  then show ?thesis using assms(2) unfolding Mempool_Flush_def by (auto intro!: pool_ok_sub)
qed

text \<open>
  C17: whatever sequence of additions, removals, evictions and flushes a pool goes through, it never holds more
  than its maximum, holds each transaction under its own hash and only once, and holds only transactions
  signed by the key that owns the sender address.
\<close>

theorem pool_invariant:
  assumes "(pool_step P)\<^sup>*\<^sup>* (Mempool_New maxSize) m"
  shows "distinct (map fst (mp_txs m)) \<and> Mempool_Size m \<le> max 0 (mp_maxSize m)
    \<and> (\<forall>(h, tx)\<in>set (mp_txs m). h = Transaction_Hash P tx
        \<and> AddressFromPublicKey P (tx_PubKey tx) = tx_Sender tx
        \<and> Verify P (tx_PubKey tx) (SignableBytes tx) (tx_Signature tx))"
proof -
  have "pool_ok P (Mempool_New maxSize)" by (simp add: pool_ok_def Mempool_New_def)
  with assms have "pool_ok P m" by (induction rule: rtranclp_induct) (auto intro: pool_step_ok)
  then show ?thesis by (auto simp: pool_ok_def mok_def authentic_def Mempool_Size_def split: prod.splits)
qed

text \<open>A pool with a post, a transfer and a validator stake.\<close>

definition pool_of :: "Transaction list \<Rightarrow> Mempool" where
  "pool_of txs = \<lparr>mp_txs = map (\<lambda>tx. (Transaction_Hash chain_prims tx, tx)) txs, mp_maxSize = 10000\<rparr>"

definition pool_txs :: "Transaction list" where
  "pool_txs = [chain_tx TxCreatePost 1 zeroAddress zeroPostID [104, 105] 1000 2,
     chain_tx TxTransfer 1 (chain_addr 2) zeroPostID [] 200 1, chain_tx TxStake 2 zeroAddress zeroPostID [] 300 1]"

theorem pool_invariant_witness:
  "\<exists>m. Mempool_Size m = 1 \<and> (\<forall>(h, tx)\<in>set (mp_txs m). h = Transaction_Hash chain_prims tx)"
proof -
  define m where "m = pool_of [pool_txs ! 1]"
  have "Mempool_Add chain_prims (Some (GetAccount chain_ws0)) (pool_txs ! 1) (Mempool_New 10000) = Inr m"
    unfolding m_def by code_simp
  then have "(pool_step chain_prims)\<^sup>*\<^sup>* (Mempool_New 10000) m" by (blast intro: pool_step.add)
  from pool_invariant [OF this] have "\<forall>(h, tx)\<in>set (mp_txs m). h = Transaction_Hash chain_prims tx" by auto
  then show ?thesis by (intro exI [of _ m]) (simp add: Mempool_Size_def m_def pool_of_def)
qed

section \<open>Reaping terminates without a panic\<close>

definition spec_lookup :: "speculativeState \<Rightarrow> address \<Rightarrow> Account option" where
  "spec_lookup s a = fst (spec_GetAccount a s)"

lemma spec_after_read [simp]:
  "spec_lookup (snd (spec_GetAccount b s)) = spec_lookup s"
  "spec_base (snd (spec_GetAccount b s)) = spec_base s"
  "mget (spec_accounts (snd (spec_GetAccount b s))) b = spec_lookup s b"
  by (auto simp: spec_lookup_def spec_GetAccount_def fun_eq_iff split: option.splits)

definition debit :: "Account \<Rightarrow> u64 \<Rightarrow> Account" where
  "debit x n = x\<lparr>acc_Nonce := acc_Nonce x + 1, acc_Balance := acc_Balance x - n\<rparr>"

definition credit_spec :: "address \<Rightarrow> u64 \<Rightarrow> (address \<Rightarrow> Account option) \<Rightarrow> address \<Rightarrow> Account option" where
  "credit_spec r n f =
     (let x = (case f r of Some x \<Rightarrow> x | None \<Rightarrow> newAccount r) in f(r \<mapsto> x\<lparr>acc_Balance := acc_Balance x + n\<rparr>))"

text \<open>What \<^verbatim>\<open>applyTx\<close> does to the accounts that the speculative state shows.\<close>

lemma applyTx_lookup:
  assumes "spec_lookup s (tx_Sender tx) = Some x"
  shows "\<exists>s'. applyTx tx (snd (spec_GetAccount (tx_Sender tx) s)) = Some s' \<and> spec_base s' = spec_base s
    \<and> spec_lookup s' = (let f = (spec_lookup s)(tx_Sender tx \<mapsto> debit x (tx_Amount tx))
         in if tx_Type tx = TxTransfer then credit_spec (tx_Recipient tx) (tx_Amount tx) f else f)"
proof -
  define s1 where "s1 = snd (spec_GetAccount (tx_Sender tx) s)"
  have s1: "spec_base s1 = spec_base s" "mget (spec_accounts s1) (tx_Sender tx) = Some x" "spec_lookup s1 = spec_lookup s"
    using assms by (simp_all add: s1_def)
  have lk: "spec_lookup t b = (case mget (spec_accounts t) b of Some a \<Rightarrow> Some a
      | None \<Rightarrow> sr_GetAccount (spec_base t) b)" for t b
    by (simp add: spec_lookup_def spec_GetAccount_def split: option.split)
  show ?thesis
    unfolding s1_def [symmetric] s1(3) [symmetric] s1(1) [symmetric] applyTx_def s1(2)
    by (auto simp: Let_def debit_def credit_spec_def lk fun_eq_iff split: option.split)
qed

lemma spec_reader_simps [simp]:
  "sr_GetAccount (spec_reader s) = spec_lookup s" "sr_GetPost (spec_reader s) = sr_GetPost (spec_base s)"
  by (simp_all add: spec_reader_def spec_lookup_def fun_eq_iff)

lemma validated_reads:
  assumes "spec_validate P N params tx s = (Inr u, s1)"
  shows "ValidateTransaction P N tx (spec_reader s) params = Inr ()" "s1 = snd (spec_GetAccount (tx_Sender tx) s)"
    "\<exists>x. spec_lookup s (tx_Sender tx) = Some x"
  using assms ValidateTransaction_common [of P N tx "spec_reader s" params]
  by (auto simp: spec_validate_def Let_def account_read_def validateCommonNoBalanceCheck_Inr)

lemma reap_pass_total: "reap_pass P N params maxTx qs spec result changed \<noteq> None"
proof (induction qs arbitrary: spec result changed)
  case (Cons q qs)
  define tx where "tx = sq_txs q ! sq_idx q"
  obtain r s1 where v: "spec_validate P N params tx spec = (r, s1)" by fastforce
  show ?case
  proof (cases r)
    case (Inr u)
    note rd = validated_reads [OF v [unfolded Inr]]
    then obtain s' where "applyTx tx s1 = Some s'" using applyTx_lookup by blast
    then show ?thesis using v Inr by (simp add: Let_def Cons del: not_None_eq flip: tx_def)
  qed (use v in \<open>simp add: Let_def Cons del: not_None_eq flip: tx_def\<close>)
qed simp

definition queued :: "senderQueue list \<Rightarrow> Transaction set" where
  "queued qs = (\<Union>q\<in>set qs. set (sq_txs q))"

lemma reap_pass_grows:
  "reap_pass P N params maxTx qs spec result changed = Some (qs', spec', result', changed') \<Longrightarrow>
     (\<exists>ts. result' = result @ ts \<and> set ts \<subseteq> queued qs) \<and> queued qs' = queued qs
     \<and> (int (length result) < maxTx \<longrightarrow> int (length result') \<le> maxTx)"
proof (induction qs arbitrary: spec result changed qs')
  case (Cons q qs)
  have "sq_txs q ! sq_idx q \<in> set (sq_txs q)" if "\<not> length (sq_txs q) \<le> sq_idx q" using that by simp
  then show ?case
    using Cons.prems
    by (fastforce simp: Let_def queued_def split: if_splits sum.splits prod.splits option.splits dest!: Cons.IH)
qed (simp add: queued_def)

lemma reap_loop_total:
  "\<exists>ts. reap_loop P N params maxTx queues spec result = Some (result @ ts) \<and> set ts \<subseteq> queued queues
     \<and> int (length (result @ ts)) \<le> max maxTx (int (length result))"
proof (induction P N params maxTx queues spec result rule: reap_loop.induct)
  case (1 P N params maxTx queues spec result)
  show ?case
  proof (cases "int (length result) < maxTx")
    case True
    obtain qs' spec' result' changed
      where pass: "reap_pass P N params maxTx queues spec result False = Some (qs', spec', result', changed)"
      using reap_pass_total [of P N params maxTx queues spec result False] by (metis not_None_eq prod_cases4)
    note g = reap_pass_grows [OF pass]
    show ?thesis
    proof (cases changed)
      case c: True
      from 1 [OF True pass refl refl refl c] g True pass c show ?thesis
        by (fastforce simp del: reap_loop.simps simp: reap_loop.simps [of P N params maxTx queues])
    next
      case False
      with g True pass show ?thesis by fastforce
    qed
  qed simp
qed

lemma set_sort_slice [simp]: "set (sort_slice lt xs) = set xs"
proof -
  have "set (insert_by lt x ys) = insert x (set ys)" for x ys by (induction ys) auto
  then show ?thesis by (induction xs) (simp_all add: sort_slice_def)
qed

definition grouped :: "(address, Transaction list) gomap \<Rightarrow> Transaction set" where
  "grouped m = {tx. \<exists>k txs. mget m k = Some txs \<and> tx \<in> set txs}"

lemma bySender_grouped: "mok (bySender pending)" "grouped (bySender pending) = set pending"
proof -
  define add where "add tx m =
    mput (tx_Sender tx) ((case mget m (tx_Sender tx) of None \<Rightarrow> [] | Some txs \<Rightarrow> txs) @ [tx]) m" for tx :: Transaction and m
  have one: "mok (add tx m)" "grouped (add tx m) = insert tx (grouped m)" if "mok m" for tx m
  proof -
    show "mok (add tx m)" using that by (simp add: add_def)
    show "grouped (add tx m) = insert tx (grouped m)"
      by (cases "mget m (tx_Sender tx)") (auto simp: grouped_def add_def split: if_splits, (metis option.sel option.distinct(1))+)
  qed
  have "mok (fold add pending m) \<and> grouped (fold add pending m) = grouped m \<union> set pending" if "mok m" for m
    using that by (induction pending arbitrary: m) (simp_all add: one)
  from this [of "[]"] have "mok (fold add pending []) \<and> grouped (fold add pending []) = set pending"
    by (simp add: grouped_def)
  then show "mok (bySender pending)" "grouped (bySender pending) = set pending"
    by (simp_all add: bySender_def add_def [abs_def])
qed

lemma queued_sender_queues: "queued (sender_queues pending) = set pending"
proof -
  have m: "mok (bySender pending)" by (rule bySender_grouped)
  then have "grouped (bySender pending) = (\<Union>(k, v)\<in>set (bySender pending). set v)"
    by (force simp: grouped_def mok_def)
  moreover have "queued (sender_queues pending) = (\<Union>(k, v)\<in>set (bySender pending). set v)"
    by (auto simp: queued_def sender_queues_def split: prod.splits)
  ultimately show ?thesis by (simp add: bySender_grouped(2))
qed

text \<open>
  C18: assembling a block always ends and never panics, whatever the pool, the state and the parameters are; it
  returns transactions of the pool only, and not more than the maximum.
\<close>

theorem ReapForBlock_total:
  "\<exists>txs. ReapForBlock P N sr params maxTx m = Some txs \<and> set txs \<subseteq> set (Mempool_Pending m)
     \<and> int (length txs) \<le> max 0 maxTx"
  using reap_loop_total [of P N params maxTx "sender_queues (Mempool_Pending m)" "newSpeculativeState sr" "[]"]
  by (auto simp: ReapForBlock_def queued_sender_queues simp del: reap_loop.simps)

end
