(* ===== verification/Reaping.thy ===== *)
theory Reaping
  imports Mempool
begin

text \<open>
  What the mempool reaps for a block and what the executor does with it.  For transfers, posts, boosts and
  validator stakes the speculative state is a pessimistic view of the state in which the reaped transactions
  are applied, so the block applies; for name registrations it is not, and two of them can block the proposer.
\<close>

section \<open>What is reaped applies\<close>

definition posts_kept :: "WorldState \<Rightarrow> WorldState \<Rightarrow> bool" where
  "posts_kept v w \<longleftrightarrow> (\<forall>i p. GetPost v i = Some p \<longrightarrow> (\<exists>q. GetPost w i = Some q
     \<and> post_Withdrawn q = post_Withdrawn p \<and> post_ParentPostID q = post_ParentPostID p))"

lemma posts_kept_refl [simp]: "posts_kept v v" by (simp add: posts_kept_def)

lemma posts_kept_trans: "posts_kept u v \<Longrightarrow> posts_kept v w \<Longrightarrow> posts_kept u w"
  unfolding posts_kept_def by metis

text \<open>
  The speculative state is a pessimistic view of the state in which the reaped transactions are applied: same
  nonces, no more balance or stake; it knows fewer accounts and posts.
\<close>

definition covers :: "WorldState \<Rightarrow> (address \<Rightarrow> Account option) \<Rightarrow> bool" where
  "covers w f \<longleftrightarrow> (\<forall>a x. f a = Some x \<longrightarrow> (\<exists>y. GetAccount w a = Some y \<and> acc_Balance x \<le> acc_Balance y
     \<and> acc_StakedBalance x \<le> acc_StakedBalance y))"

definition spec_nonce :: "(address \<Rightarrow> Account option) \<Rightarrow> address \<Rightarrow> u64" where
  "spec_nonce f a = opt_val 0 acc_Nonce (f a)"

definition spec_sim :: "WorldState \<Rightarrow> speculativeState \<Rightarrow> WorldState \<Rightarrow> bool" where
  "spec_sim ws s w \<longleftrightarrow> spec_base s = ws_reader ws \<and> covers w (spec_lookup s)
     \<and> nonce_of w = spec_nonce (spec_lookup s) \<and> posts_kept ws w"

definition reapable :: "Transaction \<Rightarrow> bool" where
  "reapable tx \<longleftrightarrow> tx_Type tx \<in> {TxTransfer, TxCreatePost, TxBoostPost, TxStake}"

lemma coversD:
  assumes "covers w f" "f a = Some x"
  obtains y where "GetAccount w a = Some y" "acc_Balance x \<le> acc_Balance y"
    "acc_StakedBalance x \<le> acc_StakedBalance y"
  using assms unfolding covers_def by blast

lemma covers_acct_le: "covers v f \<Longrightarrow> acct_le v w \<Longrightarrow> covers w f"
  unfolding covers_def acct_le_def by (fastforce intro: order_trans)

lemma validate_mono:
  assumes sim: "spec_sim ws s w" and ty: "reapable tx"
    and v: "ValidateTransaction P N tx (spec_reader s) params = Inr ()"
  shows "ValidateTransaction P N tx (ws_reader w) params = Inr ()"
proof -
  have common: "\<exists>y. validateCommon P tx (ws_reader w) = Inr y \<and> acc_StakedBalance x \<le> acc_StakedBalance y"
    if "validateCommon P tx (spec_reader s) = Inr x" for x
  proof -
    have x: "spec_lookup s (tx_Sender tx) = Some x"
      using that by (simp add: validateCommon_Inr validateCommonNoBalanceCheck_Inr)
    then obtain y where "GetAccount w (tx_Sender tx) = Some y" "acc_Balance x \<le> acc_Balance y"
      "acc_StakedBalance x \<le> acc_StakedBalance y"
      using sim unfolding spec_sim_def covers_def by blast
    moreover from this x have "acc_Nonce y = acc_Nonce x"
      using sim by (auto simp: spec_sim_def nonce_of_def fun_eq_iff spec_nonce_def dest!: spec [of _ "tx_Sender tx"])
    ultimately have "GetAccount w (tx_Sender tx) = Some y" "acc_Balance x \<le> acc_Balance y"
      "acc_StakedBalance x \<le> acc_StakedBalance y" "acc_Nonce y = acc_Nonce x" by blast+
    then show ?thesis using that
      by (auto simp: validateCommon_Inr validateCommonNoBalanceCheck_Inr ws_reader_def)
  qed
  have post: "\<exists>q. GetPost w i = Some q \<and> post_Withdrawn q = post_Withdrawn p
      \<and> post_ParentPostID q = post_ParentPostID p" if "sr_GetPost (spec_base s) i = Some p" for i p
    using that sim by (simp add: spec_sim_def ws_reader_def posts_kept_def)
  have pw: "sr_GetPost (ws_reader w) = GetPost w" by (simp add: ws_reader_def)
  consider "tx_Type tx = TxTransfer" | "tx_Type tx = TxCreatePost" | "tx_Type tx = TxBoostPost" | "tx_Type tx = TxStake"
    using ty by (auto simp: reapable_def)
  then show ?thesis
  proof cases
    case 1
    then show ?thesis using v common by (auto simp: ValidateTransaction_def validateTransfer_def split: if_splits)
  next
    case 2
    then have r: "validateReply tx (spec_reader s) = Inr ()" and "\<exists>x. validateCommon P tx (spec_reader s) = Inr x"
      using v by (auto simp: ValidateTransaction_def validateCreatePost_def bindR_eq_Inr split: if_splits sum.splits)
    moreover have "validateReply tx (ws_reader w) = Inr ()"
      using r post by (fastforce simp: validateReply_def pw split: if_splits option.splits)
    ultimately show ?thesis
      using v 2 common
      by (auto simp: ValidateTransaction_def validateCreatePost_def bindR_eq_Inr split: if_splits sum.splits)
  next
    case 3
    then show ?thesis using v common post
      by (fastforce simp: ValidateTransaction_def validateBoostPost_def pw split: if_splits option.splits)
  next
    case 4
    then obtain x where x: "validateCommon P tx (spec_reader s) = Inr x" "tx_Amount tx \<noteq> 0"
      "\<not> (acc_StakedBalance x = 0 \<and> gc_MinStake params > 0 \<and> tx_Amount tx < gc_MinStake params)"
      using v by (auto simp: ValidateTransaction_def validateStake_def bindR_eq_Inr split: if_splits)
    with common obtain y where y: "validateCommon P tx (ws_reader w) = Inr y"
      "acc_StakedBalance x \<le> acc_StakedBalance y" by blast
    have "acc_StakedBalance y = 0 \<Longrightarrow> acc_StakedBalance x = 0" using y(2) by simp
    with x y 4 show ?thesis by (auto simp: ValidateTransaction_def validateStake_def)
  qed
qed

lemma covers_debit:
  assumes "covers w f" "f a = Some x" "n \<le> acc_Balance x"
    and y: "GetAccount w a = Some y" "acc_Address y' = a" "acc_Balance y' = acc_Balance y - n"
      "acc_StakedBalance y \<le> acc_StakedBalance y'"
  shows "covers (SetAccount y' w) (f(a \<mapsto> debit x n))"
proof -
  have le: "acc_Balance x \<le> acc_Balance y" "acc_StakedBalance x \<le> acc_StakedBalance y"
    using assms(1,2) y(1) unfolding covers_def by fastforce+
  have "acc_Balance x - n \<le> acc_Balance y - n"
    using le(1) assms(3) by (simp add: unat_le_exact unat_sub_exact)
  then show ?thesis
    using assms(1) y order_trans [OF le(2) y(4)] by (simp add: covers_def debit_def)
qed

lemma covers_credit:
  assumes "covers w f" "\<And>z. GetAccount w r = Some z \<Longrightarrow> acc_Address z = r \<and> unat (acc_Balance z) + unat n < 2 ^ 64"
  shows "covers (credit_or_create r n w) (credit_spec r n f)"
proof (cases "GetAccount w r")
  case None
  then have "f r = None" using coversD [OF assms(1)] by (cases "f r") (simp, metis option.distinct(1))
  then show ?thesis using None assms(1) by (simp add: covers_def credit_spec_def credit_or_create_def Let_def)
next
  case (Some z)
  define x where "x = (case f r of Some x \<Rightarrow> x | None \<Rightarrow> newAccount r)"
  have x: "acc_Balance x \<le> acc_Balance z" "acc_StakedBalance x \<le> acc_StakedBalance z"
    using Some coversD [OF assms(1), of r x] by (cases "f r"; fastforce simp: x_def)+
  then have "acc_Balance x + n \<le> acc_Balance z + n"
    using assms(2) [OF Some] by (simp add: unat_le_exact unat_add_exact)
  then show ?thesis
    using x assms Some by (simp add: covers_def credit_spec_def credit_or_create_def Let_def flip: x_def)
qed

lemma spec_nonce_simps:
  "spec_nonce (f(a \<mapsto> debit x n)) = (spec_nonce f)(a := acc_Nonce x + 1)"
  "spec_nonce (credit_spec r n f) = spec_nonce f"
  by (auto simp: spec_nonce_def debit_def credit_spec_def fun_eq_iff Let_def split: option.split)

text \<open>The effect of the four kinds of transactions on accounts and posts.\<close>

lemma acct_le_same: "GetAccount w = GetAccount v \<Longrightarrow> acct_le v w"
  by (simp add: acct_le_def)

lemma reapable_accounts:
  assumes wf: "wf_ws P B w" "Suc B < 2 ^ 64" "total_supply w < 2 ^ 64" "params_ok params"
    and ty: "reapable tx" and rs: "tx_Type tx = TxTransfer \<Longrightarrow> tx_Recipient tx \<noteq> tx_Sender tx"
    and ap: "ApplyTransaction P params w tx h t = Inr w'"
  shows "\<exists>y y'. GetAccount w (tx_Sender tx) = Some y \<and> acc_Address y' = tx_Sender tx
    \<and> acc_Balance y' = acc_Balance y - tx_Amount tx \<and> acc_StakedBalance y \<le> acc_StakedBalance y'
    \<and> (if tx_Type tx = TxTransfer
        then funds y' + unat (tx_Amount tx) = funds y
          \<and> w' = credit_or_create (tx_Recipient tx) (tx_Amount tx) (SetAccount y' w)
        else acct_le (SetAccount y' w) w')"
proof -
  consider "tx_Type tx = TxTransfer" "applyTransfer w tx = Inr w'"
    | "tx_Type tx = TxCreatePost" "applyCreatePost P params w tx h t = Inr w'"
    | "tx_Type tx = TxBoostPost" "applyBoostPost params w tx h = Inr w'" | "tx_Type tx = TxStake" "applyStake w tx = Inr w'"
    using ty ap by (auto simp: reapable_def ApplyTransaction_def)
  then show ?thesis
  proof cases
    case 1
    then obtain y where y: "GetAccount w (tx_Sender tx) = Some y" "tx_Amount tx \<le> acc_Balance y"
      by (auto simp: applyTransfer_def not_less split: option.splits if_splits)
    define y' where "y' = y\<lparr>acc_Balance := acc_Balance y - tx_Amount tx, acc_Nonce := acc_Nonce y + 1\<rparr>"
    have "w' = credit_or_create (tx_Recipient tx) (tx_Amount tx) (SetAccount y' w)"
      using 1 y rs wfD(5) [OF wf(1) y(1)]
      by (simp add: applyTransfer_def y'_def credit_or_create_def Let_def leD)
    moreover have "funds y' + unat (tx_Amount tx) = funds y"
      using y(2) by (simp add: y'_def funds_def unat_sub_exact unat_le_exact)
    ultimately show ?thesis using y 1 wfD(5) [OF wf(1) y(1)] by (intro exI [of _ y] exI [of _ y']) (simp add: y'_def)
  next
    case 2
    then obtain y d where y: "GetAccount w (tx_Sender tx) = Some y"
      and w': "GetAccount w' = GetAccount (SetAccount (boost_account y (tx_Amount tx) d) w)"
      by (auto simp: applyCreatePost_def boost_account_def Let_def bindR_eq_Inr fun_eq_iff split: option.splits if_splits)
    then have "acct_le (SetAccount (boost_account y (tx_Amount tx) d) w) w'" by (intro acct_le_same)
    then show ?thesis using y 2 wfD(5) [OF wf(1) y]
      by (intro exI [of _ y] exI [of _ "boost_account y (tx_Amount tx) d"]) (simp add: boost_account_def)
  next
    case 3
    then obtain y d where y: "GetAccount w (tx_Sender tx) = Some y"
      "acct_le (SetAccount (boost_account y (tx_Amount tx) d) w) w'"
      using applyBoostPost_ok [OF wf 3(2)] by blast
    then show ?thesis using 3 wfD(5) [OF wf(1) y(1)]
      by (intro exI [of _ y] exI [of _ "boost_account y (tx_Amount tx) d"]) (simp add: boost_account_def)
  next
    case 4
    then obtain y where y: "GetAccount w (tx_Sender tx) = Some y" "tx_Amount tx \<le> acc_Balance y"
      by (auto simp: applyStake_def not_less split: option.splits if_splits)
    define y' where "y' = y\<lparr>acc_Balance := acc_Balance y - tx_Amount tx,
      acc_StakedBalance := acc_StakedBalance y + tx_Amount tx, acc_Nonce := acc_Nonce y + 1\<rparr>"
    have "GetAccount w' = GetAccount (SetAccount y' w)" using 4 y by (auto simp: applyStake_def y'_def Let_def leD)
    then have "acct_le (SetAccount y' w) w'" by (rule acct_le_same)
    moreover have "acc_StakedBalance y \<le> acc_StakedBalance y + tx_Amount tx"
      using account_le_supply [OF wf(1) y(1)] wf(3) y(2)
      by (simp add: funds_def unat_le_exact unat_add_exact)
    ultimately show ?thesis using y 4 wfD(5) [OF wf(1) y(1)] by (intro exI [of _ y] exI [of _ y']) (simp add: y'_def)
  qed
qed

lemma posts_kept_put:
  assumes "\<And>p. GetPost w i = Some p \<Longrightarrow> post_Withdrawn q = post_Withdrawn p \<and> post_ParentPostID q = post_ParentPostID p"
    and "GetPost w' = (GetPost w)(i \<mapsto> q)"
  shows "posts_kept w w'"
  using assms by (simp add: posts_kept_def)

lemma reapable_posts:
  assumes wf: "wf_ws P B w" "Suc B < 2 ^ 64"
    and ty: "reapable tx" and ids: "post_ids_distinct P w'"
    and ap: "ApplyTransaction P params w tx h t = Inr w'"
  shows "posts_kept w w'"
proof -
  consider "applyTransfer w tx = Inr w'" | "applyCreatePost P params w tx h t = Inr w'"
    | "applyBoostPost params w tx h = Inr w'" | "applyStake w tx = Inr w'"
    using ty ap by (auto simp: reapable_def ApplyTransaction_def)
  then show ?thesis
  proof cases
    case 1
    then have "GetPost w' = GetPost w"
      by (auto simp: applyTransfer_def Let_def split: option.splits if_splits)
    then show ?thesis by (simp add: posts_kept_def)
  next
    case 2
    define i where "i = DerivePostID P (tx_Sender tx) (nonce_of w (tx_Sender tx) + 1)"
    obtain y q where y: "GetAccount w (tx_Sender tx) = Some y" and q: "GetPost w' = (GetPost w)(i \<mapsto> q)"
      using 2 by (auto simp: applyCreatePost_def Let_def bindR_eq_Inr i_def nonce_of_def fun_eq_iff
          split: option.splits if_splits)
    note gr = ApplyTransaction_grows [OF wf_bounded [OF wf(1)] wf(2) ap]
    have "nonce_of w' (tx_Sender tx) = acc_Nonce y + 1"
      using nonces_are_eq [OF ApplyTransaction_nonce [OF wf_keyed [OF wf(1)] ap]] y by (simp add: nonce_of_def)
    then obtain y' where y': "GetAccount w' (tx_Sender tx) = Some y'" "acc_Nonce y' = acc_Nonce y + 1"
      using gr(2) y unfolding grows_def nonce_of_def by fastforce
    have "GetPost w i = None"
    proof (rule ccontr)
      assume "GetPost w i \<noteq> None"
      then obtain p where "GetPost w i = Some p" by blast
      from post_origin [OF wf(1) this] obtain b n where b: "GetAccount w (post_Author p) = Some b" "n \<le> acc_Nonce b"
        "i = DerivePostID P (post_Author p) n" .
      then obtain b' where b': "GetAccount w' (post_Author p) = Some b'" "acc_Nonce b \<le> acc_Nonce b'"
        using gr(2) unfolding grows_def by blast
      have "DerivePostID P (post_Author p) n = DerivePostID P (tx_Sender tx) (acc_Nonce y + 1)"
        using b(3) y by (simp add: i_def nonce_of_def)
      then have "post_Author p = tx_Sender tx \<and> n = acc_Nonce y + 1"
        using ids b(2) b' y' unfolding post_ids_distinct_def by (metis order_refl order_trans)
      then show False using b(1,2) y nonce_step(1) [OF wfD(6) [OF wf(1) y] wf(2)] by (auto simp: unat_le_exact)
    qed
    then show ?thesis using q by (intro posts_kept_put) auto
  next
    case 3
    then obtain post y where post: "GetPost w (tx_PostID tx) = Some post"
      and y: "GetAccount w (tx_Sender tx) = Some y" "tx_Amount tx \<le> acc_Balance y"
      by (auto simp: applyBoostPost_def not_less split: option.splits if_splits)
    obtain bp aup sp where pct: "boost_percents params = (bp, aup, sp)" by (metis prod_cases3)
    obtain b r q where m: "mul_div (tx_Amount tx) bp 100 = Inr b" "mul_div (tx_Amount tx) aup 100 = Inr r"
      "mul_div (tx_Amount tx) sp 100 = Inr q"
      using mul_div_100 by metis
    define d where "d = tx_Amount tx - b - r - q"
    define old where "old = GetPostStake w (tx_PostID tx) (tx_Sender tx)"
    obtain v where "boost_pay q (post_TotalStaked post) (GetPostStakers w (tx_PostID tx))
        (boost_reward (post_Author post) r (boost_base (boost_account y (tx_Amount tx) d) b w)) = Inr v"
      and w': "w' = SetPost (boost_post post old d b)
        (SetPostStake (boost_stake old (tx_PostID tx) (tx_Sender tx) d h) v)"
      using 3 unfolding applyBoostPost_eq [OF y post pct m d_def old_def] by (auto simp: bindR_eq_Inr)
    then have "ws_posts v = ws_posts w" using boost_keeps(2,3) by metis
    then have "GetPost w' = (GetPost w)(tx_PostID tx \<mapsto> boost_post post old d b)"
      using wfD(8) [OF wf(1) post]
      by (auto simp: w' GetPost_def SetPost_def SetPostStake_def boost_post_def Let_def fun_eq_iff split: option.split)
    then show ?thesis
      by (rule posts_kept_put [rotated]) (simp add: post boost_post_def Let_def split: option.split)
  next
    case 4
    then have "GetPost w' = GetPost w"
      by (auto simp: applyStake_def Let_def SetValidatorPubKey_def GetPost_def fun_eq_iff split: option.splits if_splits)
    then show ?thesis by (simp add: posts_kept_def)
  qed
qed

lemma spec_step:
  assumes sim: "spec_sim ws s w" and wf: "wf_ws P B w" "Suc B < 2 ^ 64" "total_supply w < 2 ^ 64" "params_ok params"
    and ty: "reapable tx" and v: "ValidateTransaction P N tx (spec_reader s) params = Inr ()"
    and s': "applyTx tx (snd (spec_GetAccount (tx_Sender tx) s)) = Some s'"
    and ap: "ApplyTransaction P params w tx h t = Inr w'" and ids: "post_ids_distinct P w'"
  shows "spec_sim ws s' w'"
proof -
  obtain x where "validateCommon P tx (spec_reader s) = Inr x"
    using v ty by (auto simp: reapable_def validate_defs bindR_eq_Inr split: if_splits sum.splits option.splits)
  then have x: "spec_lookup s (tx_Sender tx) = Some x" "tx_Amount tx \<le> acc_Balance x"
    by (simp_all add: validateCommon_Inr validateCommonNoBalanceCheck_Inr)
  have rs: "tx_Type tx = TxTransfer \<Longrightarrow> tx_Recipient tx \<noteq> tx_Sender tx"
    using v by (auto simp: ValidateTransaction_def validateTransfer_def split: if_splits)
  define f where "f = (spec_lookup s)(tx_Sender tx \<mapsto> debit x (tx_Amount tx))"
  have lk: "spec_lookup s' = (if tx_Type tx = TxTransfer then credit_spec (tx_Recipient tx) (tx_Amount tx) f else f)"
    and base: "spec_base s' = spec_base s"
    using applyTx_lookup [OF x(1)] s' by (auto simp: f_def Let_def)
  obtain y y' where y: "GetAccount w (tx_Sender tx) = Some y" "acc_Address y' = tx_Sender tx"
    "acc_Balance y' = acc_Balance y - tx_Amount tx" "acc_StakedBalance y \<le> acc_StakedBalance y'"
    and w': "if tx_Type tx = TxTransfer then funds y' + unat (tx_Amount tx) = funds y
        \<and> w' = credit_or_create (tx_Recipient tx) (tx_Amount tx) (SetAccount y' w)
      else acct_le (SetAccount y' w) w'"
    using reapable_accounts [OF wf ty rs ap] by blast
  have cov: "covers (SetAccount y' w) f"
    unfolding f_def using sim by (intro covers_debit [where f = "spec_lookup s", OF _ x y]) (simp add: spec_sim_def)
  have "covers w' (spec_lookup s')"
  proof (cases "tx_Type tx = TxTransfer")
    case True
    have mok: "mok (ws_accounts w)" by (rule wfD(1) [OF wf(1)])
    have "acct_sum (SetAccount y' w) + unat (tx_Amount tx) < 2 ^ 64"
      using acct_sum_SetAccount [OF mok, of y'] y(1,2) w' True wf(3) by (simp add: total_supply_def)
    then have nowrap: "acc_Address z = tx_Recipient tx \<and> unat (acc_Balance z) + unat (tx_Amount tx) < 2 ^ 64"
      if z: "GetAccount (SetAccount y' w) (tx_Recipient tx) = Some z" for z
    proof -
      have "funds z \<le> acct_sum (SetAccount y' w)" by (rule account_le_sum [OF _ z]) (simp add: mok)
      then have "unat (acc_Balance z) + unat (tx_Amount tx) < 2 ^ 64"
        using \<open>acct_sum (SetAccount y' w) + unat (tx_Amount tx) < 2 ^ 64\<close> unfolding funds_def by linarith
      moreover have "GetAccount w (tx_Recipient tx) = Some z" using z rs [OF True] y(2) by simp
      ultimately show ?thesis using wfD(5) [OF wf(1), of "tx_Recipient tx" z] by blast
    qed
    have "w' = credit_or_create (tx_Recipient tx) (tx_Amount tx) (SetAccount y' w)"
      "spec_lookup s' = credit_spec (tx_Recipient tx) (tx_Amount tx) f" using w' lk True by simp_all
    with covers_credit [OF cov nowrap] show ?thesis by simp
  next
    case False
    then show ?thesis using w' lk covers_acct_le [OF cov] by simp
  qed
  moreover have "nonce_of w' = spec_nonce (spec_lookup s')"
    using nonces_are_eq [OF ApplyTransaction_nonce [OF wf_keyed [OF wf(1)] ap]] sim x(1)
    by (simp add: lk f_def spec_nonce_simps spec_sim_def) (simp add: spec_nonce_def)
  moreover have "posts_kept ws w'"
    using sim reapable_posts [OF wf(1,2) ty ids ap] posts_kept_trans unfolding spec_sim_def by blast
  ultimately show ?thesis using sim base by (simp add: spec_sim_def)
qed

subsection \<open>The loops\<close>

lemma apply_txs_append:
  "apply_txs P N params hdr i (xs @ ys) ws
    = bindR (apply_txs P N params hdr i xs ws) (apply_txs P N params hdr (i + length xs) ys)"
  by (induction xs arbitrary: i ws) (simp_all split: sum.split)

text \<open>The reaped transactions apply, and the speculative state is a pessimistic view of the outcome.\<close>

definition reaped_ok ::
    "prims \<Rightarrow> norm \<Rightarrow> GenesisConfig \<Rightarrow> BlockHeader \<Rightarrow> nat \<Rightarrow> WorldState \<Rightarrow> WorldState \<Rightarrow> speculativeState
      \<Rightarrow> Transaction list \<Rightarrow> bool" where
  "reaped_ok P N params hdr B ws w0 s result \<longleftrightarrow> (\<exists>w. apply_txs P N params hdr 0 result w0 = Inr w \<and> spec_sim ws s w
     \<and> wf_ws P (B + length result) w \<and> total_supply w < 2 ^ 64)"

text \<open>No prefix of the transactions leads to a state with two posts of one identifier.\<close>

definition no_collisions ::
    "prims \<Rightarrow> norm \<Rightarrow> GenesisConfig \<Rightarrow> BlockHeader \<Rightarrow> WorldState \<Rightarrow> Transaction list \<Rightarrow> bool" where
  "no_collisions P N params hdr w0 txs \<longleftrightarrow>
     (\<forall>k w. apply_txs P N params hdr 0 (take k txs) w0 = Inr w \<longrightarrow> post_ids_distinct P w)"

lemma no_collisions_prefix: "no_collisions P N params hdr w0 (xs @ ys) \<Longrightarrow> no_collisions P N params hdr w0 xs"
  unfolding no_collisions_def
proof (intro allI impI)
  fix k w
  assume *: "\<forall>k w. apply_txs P N params hdr 0 (take k (xs @ ys)) w0 = Inr w \<longrightarrow> post_ids_distinct P w"
    and "apply_txs P N params hdr 0 (take k xs) w0 = Inr w"
  moreover have "take k xs = take (min k (length xs)) (xs @ ys)" by (simp add: min_def)
  ultimately show "post_ids_distinct P w" by metis
qed

lemma reap_step:
  assumes ok: "reaped_ok P N params hdr B ws w0 s result" and v: "spec_validate P N params tx s = (Inr u, s1)"
    and s': "applyTx tx s1 = Some s'" and ty: "reapable tx" and par: "params_ok params"
    and B: "B + length (result @ [tx]) < 2 ^ 64" and ids: "no_collisions P N params hdr w0 (result @ [tx])"
  shows "reaped_ok P N params hdr B ws w0 s' (result @ [tx])"
proof -
  obtain w where w: "apply_txs P N params hdr 0 result w0 = Inr w" "spec_sim ws s w"
    "wf_ws P (B + length result) w" "total_supply w < 2 ^ 64" using ok unfolding reaped_ok_def by blast
  note rd = validated_reads [OF v]
  have valid: "ValidateTransaction P N tx (ws_reader w) params = Inr ()" by (rule validate_mono [OF w(2) ty rd(1)])
  then obtain w' where w': "ApplyTransaction P params w tx (hdr_Height hdr) (hdr_Timestamp hdr) = Inr w'"
    using validated_applies by blast
  have ap: "apply_txs P N params hdr 0 (result @ [tx]) w0 = Inr w'"
    using w(1) valid w' by (simp add: apply_txs_append)
  then have "post_ids_distinct P w'"
    using ids unfolding no_collisions_def by (metis take_all_iff order_refl)
  moreover have "Suc (B + length result) < 2 ^ 64" using B by simp
  ultimately show ?thesis
    using ap ApplyTransaction_ok [OF w(3) _ w(4) par _ w'] w(4)
      spec_step [OF w(2,3) _ w(4) par ty rd(1) s' [unfolded rd(2)] w']
    by (auto simp: reaped_ok_def)
qed

lemma spec_sim_read:
  assumes "spec_validate P N params tx s = (r, s1)"
  shows "spec_sim ws s1 w = spec_sim ws s w"
  using assms by (auto simp: spec_validate_def Let_def spec_sim_def split: if_splits)

lemma reap_pass_ok:
  assumes "params_ok params" "\<forall>tx\<in>queued qs. reapable tx" "reaped_ok P N params hdr B ws w0 spec result"
    "reap_pass P N params maxTx qs spec result changed = Some (qs', spec', result', changed')"
    "B + length result' < 2 ^ 64" "no_collisions P N params hdr w0 result'"
  shows "reaped_ok P N params hdr B ws w0 spec' result'"
  using assms
proof (induction qs arbitrary: spec result changed qs')
  case (Cons q qs)
  have ty: "\<forall>tx\<in>queued qs. reapable tx" using Cons.prems(2) by (simp add: queued_def)
  define tx where "tx = sq_txs q ! sq_idx q"
  obtain r s1 where v: "spec_validate P N params tx spec = (r, s1)" by fastforce
  have read: "reaped_ok P N params hdr B ws w0 s1 result"
    using Cons.prems(3) spec_sim_read [OF v] by (simp add: reaped_ok_def)
  note IH = Cons.IH [OF Cons.prems(1) ty _ _ Cons.prems(5,6)]
  show ?case
  proof (cases "length (sq_txs q) \<le> sq_idx q")
    case True
    then show ?thesis using Cons.prems(4) IH [OF Cons.prems(3)] by (auto split: prod.splits)
  next
    case open_queue: False
    then have "reapable tx" using Cons.prems(2) by (simp add: tx_def queued_def)
    show ?thesis
    proof (cases r)
      case (Inl e)
      then show ?thesis using Cons.prems(4) open_queue v IH [OF read] by (auto simp: Let_def simp flip: tx_def)
    next
      case (Inr u)
      then obtain s' where s': "applyTx tx s1 = Some s'" using Cons.prems(4) open_queue v
        by (auto simp: Let_def simp flip: tx_def split: option.splits)
      obtain qs2 where rest: "int (length (result @ [tx])) \<ge> maxTx \<and> spec' = s' \<and> result' = result @ [tx]
          \<or> reap_pass P N params maxTx qs s' (result @ [tx]) True = Some (qs2, spec', result', changed')"
        using Cons.prems(4) open_queue v Inr s' by (auto simp: Let_def simp flip: tx_def split: if_splits)
      then obtain ts where ts: "result' = (result @ [tx]) @ ts" using reap_pass_grows by (metis append_Nil2)
      have "reaped_ok P N params hdr B ws w0 s' (result @ [tx])"
        using Cons.prems(5) no_collisions_prefix [OF Cons.prems(6) [unfolded ts]]
        by (intro reap_step [OF Cons.prems(3) v [unfolded Inr] s' \<open>reapable tx\<close> Cons.prems(1)]) (simp_all add: ts)
      with rest IH show ?thesis by blast
    qed
  qed
qed simp

lemma reap_loop_ok:
  assumes "params_ok params" "\<forall>tx\<in>queued qs. reapable tx" "reaped_ok P N params hdr B ws w0 spec result"
    "reap_loop P N params maxTx qs spec result = Some txs"
    "B + length txs < 2 ^ 64" "no_collisions P N params hdr w0 txs"
  shows "\<exists>s. reaped_ok P N params hdr B ws w0 s txs"
  using assms
proof (induction P N params maxTx qs spec result rule: reap_loop.induct)
  case (1 P N params maxTx qs spec result)
  show ?case
  proof (cases "int (length result) < maxTx")
    case True
    obtain qs' spec' result' changed
      where pass: "reap_pass P N params maxTx qs spec result False = Some (qs', spec', result', changed)"
      using reap_pass_total [of P N params maxTx qs spec result False] by (metis not_None_eq prod_cases4)
    have rest: "if changed then reap_loop P N params maxTx qs' spec' result' = Some txs else result' = txs"
      using "1.prems"(4) True pass
      by (cases changed) (simp_all add: reap_loop.simps [of P N params maxTx qs] del: reap_loop.simps)
    then obtain ts where ts: "txs = result' @ ts"
      using reap_loop_total [of P N params maxTx qs' spec' result'] by (cases changed) (auto simp del: reap_loop.simps)
    have ok: "reaped_ok P N params hdr B ws w0 spec' result'"
      using "1.prems"(5) no_collisions_prefix [OF "1.prems"(6) [unfolded ts]]
      by (intro reap_pass_ok [OF "1.prems"(1-3) pass]) (simp_all add: ts)
    have q: "\<forall>tx\<in>queued qs'. reapable tx" using reap_pass_grows [OF pass] "1.prems"(2) by simp
    show ?thesis
      using rest ok "1.IH" [OF True pass refl refl refl _ "1.prems"(1) q ok _ "1.prems"(5,6)] by (cases changed) auto
  next
    case False
    then show ?thesis using "1.prems"(3,4) by auto
  qed
qed

lemma release_unbonding_keeps:
  assumes "wf_ws P B ws" "total_supply ws < 2 ^ 64"
  shows "acct_le ws (release_unbonding h ws)" "GetPost (release_unbonding h ws) = GetPost ws"
proof -
  define m where "m = filter (\<lambda>e. unb_ReleaseHeight e \<le> h) (ws_unbondingQueue ws)"
  define w1 where "w1 = ws\<lparr>ws_unbondingQueue := filter (\<lambda>e. \<not> unb_ReleaseHeight e \<le> h) (ws_unbondingQueue ws)\<rparr>"
  have eq: "release_unbonding h ws = fold (\<lambda>e. credit_or_create (unb_Address e) (unb_Amount e)) m w1"
    by (simp add: release_unbonding_def RemoveMaturedUnbonding_def m_def w1_def)
  have "unb_sum m + unb_sum (ws_unbondingQueue w1) = unb_sum (ws_unbondingQueue ws)"
    using unb_sum_partition [of "\<lambda>e. unb_ReleaseHeight e \<le> h" "ws_unbondingQueue ws"] by (simp add: m_def w1_def)
  then have room: "total_supply w1 + unb_sum m < 2 ^ 64"
    using total_supply_fields [of w1 ws] assms(2) by (simp add: w1_def)
  have wf: "wf_ws P B w1" using assms(1) by (subst wf_cong [of w1 ws]) (simp_all add: w1_def)
  have "acct_le v (fold (\<lambda>e. credit_or_create (unb_Address e) (unb_Amount e)) es v)"
    if "wf_ws P B v" "total_supply v + unb_sum es < 2 ^ 64" for es v
    using that
  proof (induction es arbitrary: v)
    case (Cons e es)
    have r: "total_supply v + unat (unb_Amount e) < 2 ^ 64" using Cons.prems(2) by (simp add: unb_sum_def)
    note ok = credit_or_create_ok [OF Cons.prems(1) r, of "unb_Address e"]
    show ?case
      using acct_le_trans [OF credit_acct_le(1) [OF Cons.prems(1) r] Cons.IH [OF ok(1)]] ok(2) Cons.prems(2)
      by (simp add: unb_sum_def)
  qed simp
  from this [OF wf room] have "acct_le w1 (release_unbonding h ws)" by (simp add: eq)
  moreover have "acct_le ws w1" by (rule acct_le_same) (simp add: w1_def GetAccount_def fun_eq_iff)
  ultimately show "acct_le ws (release_unbonding h ws)" using acct_le_trans by blast
  have "ws_posts (fold (\<lambda>e. credit_or_create (unb_Address e) (unb_Amount e)) es v) = ws_posts v"
    for es :: "UnbondingEntry list" and v
    by (induction es arbitrary: v) (simp_all add: credit_or_create_def Let_def)
  then show "GetPost (release_unbonding h ws) = GetPost ws" by (simp add: eq w1_def GetPost_def fun_eq_iff)
qed

lemma reap_start:
  assumes "wf_ws P B ws" "total_supply ws < 2 ^ 64"
  shows "reaped_ok P N params hdr B ws (release_unbonding h ws) (newSpeculativeState (ws_reader ws)) []"
proof -
  have lk: "spec_lookup (newSpeculativeState (ws_reader ws)) = GetAccount ws"
    by (simp add: spec_lookup_def spec_GetAccount_def newSpeculativeState_def ws_reader_def fun_eq_iff split: option.split)
  note k = release_unbonding_keeps [OF assms, of h]
  have "covers ws (GetAccount ws)" by (simp add: covers_def)
  then have "covers (release_unbonding h ws) (GetAccount ws)" using covers_acct_le [OF _ k(1)] by blast
  moreover have "nonce_of (release_unbonding h ws) = spec_nonce (GetAccount ws)"
    using nonces_are_eq [OF block_start_nonces [OF wf_keyed [OF assms(1)], of P params "[]" h]]
    by (simp add: nonce_of_def spec_nonce_def fun_eq_iff)
  moreover have "posts_kept ws (release_unbonding h ws)" using k(2) by (simp add: posts_kept_def)
  ultimately have "spec_sim ws (newSpeculativeState (ws_reader ws)) (release_unbonding h ws)"
    by (simp add: spec_sim_def lk) (simp add: newSpeculativeState_def)
  then show ?thesis using release_unbonding_ok [OF assms, of h] assms(2) by (simp add: reaped_ok_def)
qed

text \<open>
  C16: the speculative state is a sound approximation of the executor for transfers, posts, boosts and validator
  stakes: a block of transactions reaped from a pool of these applies to the state it was reaped against.
\<close>

theorem reaped_block_applies:
  assumes "wf_ws P B ws" "total_supply ws < 2 ^ 64" "params_ok params"
    "\<forall>tx\<in>set (Mempool_Pending m). tx_Type tx \<in> {TxTransfer, TxCreatePost, TxBoostPost, TxStake}"
    "ReapForBlock P N (ws_reader ws) params maxTx m = Some (blk_Transactions block)" "blk_Evidence block = []"
    "B + length (blk_Transactions block) < 2 ^ 64"
    "no_collisions P N params (blk_Header block) (release_unbonding (hdr_Height (blk_Header block)) ws)
       (blk_Transactions block)"
  shows "\<exists>ws'. ApplyBlock P N params ws block = Inr ws'"
proof -
  have "\<forall>tx\<in>queued (sender_queues (Mempool_Pending m)). reapable tx"
    using assms(4) by (simp add: queued_sender_queues reapable_def)
  from reap_loop_ok [OF assms(3) this reap_start [OF assms(1,2)] assms(5) [unfolded ReapForBlock_def] assms(7,8)]
  obtain w where "apply_txs P N params (blk_Header block) 0 (blk_Transactions block)
      (release_unbonding (hdr_Height (blk_Header block)) ws) = Inr w"
    unfolding reaped_ok_def by blast
  then show ?thesis by (simp add: ApplyBlock_def Let_def assms(6))
qed

subsection \<open>A block of the pool\<close>

text \<open>Key 2 does not own a thing but the 5000 of the genesis; key 1's transactions are put in nonce order.\<close>

definition pool_block :: Block where
  "pool_block = chain_block 1 [pool_txs ! 1, pool_txs ! 2, pool_txs ! 0]"

lemma pool_reaped:
  "ReapForBlock chain_prims plain_norm (ws_reader chain_ws0) chain_params 10 (pool_of pool_txs)
    = Some (blk_Transactions pool_block)"
  by code_simp

lemma chain_ids_length:
  assumes "list_all (\<lambda>(a, x). length a = 24) (ws_accounts w)"
  shows "post_ids_distinct chain_prims w"
proof -
  have "length a = 24" if "GetAccount w a = Some x" for a x
    using that assms by (auto simp: list_all_iff GetAccount_def dest: map_of_SomeD)
  then show ?thesis unfolding post_ids_distinct_def by (auto simp: chain_post_id)
qed

lemma pool_no_collisions:
  "no_collisions chain_prims plain_norm chain_params (blk_Header pool_block)
     (release_unbonding (hdr_Height (blk_Header pool_block)) chain_ws0) (blk_Transactions pool_block)"
proof -
  define r where "r k = apply_txs chain_prims plain_norm chain_params (blk_Header pool_block) 0
    (take k (blk_Transactions pool_block)) (release_unbonding (hdr_Height (blk_Header pool_block)) chain_ws0)" for k
  have "list_all (\<lambda>k. case r k of Inl e \<Rightarrow> True | Inr w \<Rightarrow> list_all (\<lambda>(a, x). length a = 24) (ws_accounts w)) [0, 1, 2, 3]"
    unfolding r_def by code_simp
  then have "list_all (\<lambda>(a, x). length a = 24) (ws_accounts w)" if "r k = Inr w" "k \<in> {0, 1, 2, 3}" for k w
    using that by auto
  moreover have "r k = r (min k 3)" for k
    by (cases "k \<le> 3") (simp_all add: r_def pool_block_def chain_block_def min_def)
  moreover have "min k 3 \<in> {0, 1, 2, 3}" for k :: nat by auto
  ultimately have "post_ids_distinct chain_prims w" if "r k = Inr w" for k w
    using that by (metis chain_ids_length)
  then show ?thesis by (simp add: no_collisions_def r_def)
qed

theorem reaped_block_applies_witness:
  "\<exists>ws'. ApplyBlock chain_prims plain_norm chain_params chain_ws0 pool_block = Inr ws'"
proof -
  have "params_ok chain_params" by code_simp
  moreover have "list_all (\<lambda>tx. tx_Type tx \<in> {TxTransfer, TxCreatePost, TxBoostPost, TxStake}) (Mempool_Pending (pool_of pool_txs))"
    by code_simp
  moreover have "length (blk_Transactions pool_block) = 3" "blk_Evidence pool_block = []" by code_simp+
  ultimately show ?thesis
    using reaped_block_applies [OF chain_ws0_wf(1) _ _ _ pool_reaped _ _ pool_no_collisions] chain_ws0_wf(2)
    by (simp add: list_all_iff)
qed

section \<open>Two registrations of one name\<close>

text \<open>
  \<^verbatim>\<open>applyTx\<close> does not record a registered name in the speculative account, so the comment in
  \<^verbatim>\<open>GetAccountByName\<close> is not true and nothing keeps a second registration of the name out.
\<close>

lemma spec_reader_new: "spec_reader (newSpeculativeState sr) = sr"
  by (simp add: spec_reader_def newSpeculativeState_def spec_GetAccount_def spec_GetAccountByName_def fun_eq_iff
      split: option.split)

lemma register_Inr:
  "tx_Type tx = TxRegisterName \<Longrightarrow> ValidateTransaction P N tx sr params = Inr () \<longleftrightarrow>
     tx_Amount tx = 0 \<and> ValidateName (tx_Text tx) = Inr () \<and>
     (\<exists>acct. validateCommon P tx sr = Inr acct \<and> acc_Name acct = []) \<and> sr_GetAccountByName sr (tx_Text tx) = None"
  by (auto simp: ValidateTransaction_def validateRegisterName_def bindR_eq_Inr split: sum.splits)

lemma register_once:
  assumes v: "ValidateTransaction P N t sr params = Inr ()" "tx_Type t = TxRegisterName"
  shows "\<exists>x. sr_GetAccount sr (tx_Sender t) = Some x \<and> acc_Name x = []
    \<and> spec_validate P N params t (newSpeculativeState sr) = (Inr (), \<lparr>spec_base = sr, spec_accounts = [(tx_Sender t, x)]\<rparr>)
    \<and> applyTx t \<lparr>spec_base = sr, spec_accounts = [(tx_Sender t, x)]\<rparr>
        = Some \<lparr>spec_base = sr, spec_accounts = [(tx_Sender t, debit x (tx_Amount t))]\<rparr>"
proof -
  obtain x where "validateCommon P t sr = Inr x" "acc_Name x = []" using v by (auto simp: register_Inr)
  then show ?thesis
    using v
    by (auto simp: validateCommon_Inr validateCommonNoBalanceCheck_Inr spec_validate_def Let_def
        spec_reader_new [unfolded newSpeculativeState_def]
        account_read_def spec_GetAccount_def newSpeculativeState_def applyTx_def debit_def)
qed

lemma register_again:
  assumes v: "ValidateTransaction P N u sr params = Inr ()" "tx_Type u = TxRegisterName"
    and a: "a \<noteq> tx_Sender u" "acc_Name x = []"
  shows "\<exists>s s'. spec_validate P N params u \<lparr>spec_base = sr, spec_accounts = [(a, x)]\<rparr> = (Inr (), s)
    \<and> applyTx u s = Some s'"
proof -
  define s0 where "s0 = \<lparr>spec_base = sr, spec_accounts = [(a, x)]\<rparr>"
  have lk: "spec_lookup s0 (tx_Sender u) = sr_GetAccount sr (tx_Sender u)"
    using a(1) by (simp add: s0_def spec_lookup_def spec_GetAccount_def split: option.split)
  have "ValidateName [] \<noteq> Inr ()" by code_simp
  then have "tx_Text u \<noteq> []" using v by (auto simp: register_Inr)
  then have "sr_GetAccountByName (spec_reader s0) (tx_Text u) = sr_GetAccountByName sr (tx_Text u)"
    using a(2) by (simp add: s0_def spec_reader_def spec_GetAccountByName_def)
  moreover have "validateCommon P u (spec_reader s0) = validateCommon P u sr"
    by (simp add: validateCommon_def lk)
  ultimately have ok: "ValidateTransaction P N u (spec_reader s0) params = Inr ()"
    using v by (simp add: register_Inr)
  then have "spec_validate P N params u s0 = (Inr (), snd (spec_GetAccount (tx_Sender u) s0))"
    by (simp add: spec_validate_def Let_def account_read_def)
  moreover from validated_reads(3) [OF this] obtain y where "spec_lookup s0 (tx_Sender u) = Some y" ..
  ultimately show ?thesis using applyTx_lookup by (metis s0_def)
qed

lemma reap_two:
  assumes v: "ValidateTransaction P N t sr params = Inr ()" "ValidateTransaction P N u sr params = Inr ()"
    and ty: "tx_Type t = TxRegisterName" "tx_Type u = TxRegisterName" and ne: "tx_Sender t \<noteq> tx_Sender u"
    and pool: "Mempool_Pending m = [t, u]" and max: "2 \<le> maxTx"
  shows "ReapForBlock P N sr params maxTx m = Some [t, u]"
proof -
  obtain x s1 where x: "acc_Name (debit x (tx_Amount t)) = []"
    and s: "spec_validate P N params t (newSpeculativeState sr) = (Inr (), s1)"
      "applyTx t s1 = Some \<lparr>spec_base = sr, spec_accounts = [(tx_Sender t, debit x (tx_Amount t))]\<rparr>"
    using register_once [OF v(1) ty(1)] by (auto simp: debit_def)
  obtain s3 s4 where s': "spec_validate P N params u
      \<lparr>spec_base = sr, spec_accounts = [(tx_Sender t, debit x (tx_Amount t))]\<rparr> = (Inr (), s3)" "applyTx u s3 = Some s4"
    using register_again [OF v(2) ty(2) ne x] by blast
  define q where "q tx i = \<lparr>sq_addr = tx_Sender tx, sq_txs = [tx], sq_idx = i\<rparr>" for tx i
  have queues: "sender_queues (Mempool_Pending m) = [q t 0, q u 0]"
    using ne by (simp add: pool sender_queues_def bySender_def sort_slice_def q_def)
  have one: "reap_pass P N params maxTx [q t 0, q u 0] (newSpeculativeState sr) [] False
      = Some ([q t 1, q u 1], s4, [t, u], True)"
    using s s' max by (auto simp: q_def Let_def)
  have two: "reap_pass P N params maxTx [q t 1, q u 1] s4 [t, u] False = Some ([q t 1, q u 1], s4, [t, u], False)"
    by (simp add: q_def)
  have "reap_loop P N params maxTx [q t 1, q u 1] s4 [t, u] = Some [t, u]"
    by (subst reap_loop.simps) (simp add: two del: reap_loop.simps reap_pass.simps One_nat_def)
  then have "reap_loop P N params maxTx [q t 0, q u 0] (newSpeculativeState sr) [] = Some [t, u]"
    using max by (subst reap_loop.simps) (simp add: one del: reap_loop.simps reap_pass.simps One_nat_def)
  then show ?thesis by (simp add: ReapForBlock_def queues del: reap_loop.simps)
qed

lemma registered_name_taken:
  assumes "keyed w" "tx_Type t = TxRegisterName" "tx_Type u = TxRegisterName" "tx_Text t = tx_Text u"
  shows "\<exists>err. apply_txs P N params hdr i [t, u] w = Inl err"
proof (cases "ApplyTransaction P params w t (hdr_Height hdr) (hdr_Timestamp hdr)")
  case (Inr w1)
  then obtain x where "GetAccount w (tx_Sender t) = Some x"
    and w1: "w1 = RegisterName (tx_Sender t) (tx_Text t)
      (SetAccount (x\<lparr>acc_Nonce := acc_Nonce x + 1, acc_Name := tx_Text t\<rparr>) w)"
    using assms(2) by (auto simp: ApplyTransaction_def applyRegisterName_def Let_def split: option.splits)
  moreover from this assms(1) have "acc_Address x = tx_Sender t" by (simp add: keyed_def)
  ultimately have "GetAccountByName w1 (tx_Text u) \<noteq> None"
    using assms(4) by (simp add: GetAccountByName_def RegisterName_def GetAccount_def)
  then have "ValidateTransaction P N u (ws_reader w1) params \<noteq> Inr ()"
    using assms(3) by (simp add: register_Inr ws_reader_def)
  then obtain e where "ValidateTransaction P N u (ws_reader w1) params = Inl e"
    by (cases "ValidateTransaction P N u (ws_reader w1) params") auto
  then show ?thesis using Inr by (simp split: sum.split)
qed (simp split: sum.split)

text \<open>
  C36: a pool that holds two registrations of one free name, by two senders, is reaped into a block that the
  executor rejects.  The proposer's trial execution fails, nothing is committed, and since only a committed
  block evicts transactions the next attempt fails in the same way.
\<close>

theorem name_conflict_blocks:
  assumes "Mempool_Pending m = [t, u]" "tx_Type t = TxRegisterName" "tx_Type u = TxRegisterName"
    "tx_Text t = tx_Text u" "tx_Sender t \<noteq> tx_Sender u" "2 \<le> maxTx" "keyed ws"
    "ValidateTransaction P N t (ws_reader ws) params = Inr ()" "ValidateTransaction P N u (ws_reader ws) params = Inr ()"
  shows "ReapForBlock P N (ws_reader ws) params maxTx m = Some [t, u]
    \<and> (\<forall>block. blk_Transactions block = [t, u] \<longrightarrow> (\<exists>err. ApplyBlock P N params ws block = Inl err))"
proof -
  have "\<exists>err. ApplyBlock P N params ws block = Inl err" if b: "blk_Transactions block = [t, u]" for block
  proof -
    define w where "w = fold (applySlashEvidence P params) (blk_Evidence block)
      (release_unbonding (hdr_Height (blk_Header block)) ws)"
    have "keyed w" unfolding w_def by (rule nonces_are_keyed [OF block_start_nonces [OF assms(7)]])
    from registered_name_taken [OF this assms(2-4), of P N params "blk_Header block" 0] obtain err
      where "apply_txs P N params (blk_Header block) 0 [t, u] w = Inl err" by blast
    then show ?thesis by (simp add: ApplyBlock_def b Let_def del: apply_txs.simps flip: w_def)
  qed
  then show ?thesis using reap_two [OF assms(8,9,2,3,5,1,6)] by blast
qed

theorem name_conflict_blocks_witness:
  "\<exists>txs. ReapForBlock chain_prims plain_norm (ws_reader chain_ws0) chain_params 10
       (pool_of [chain_tx TxRegisterName 1 zeroAddress zeroPostID (go ''drana'') 0 1,
         chain_tx TxRegisterName 2 zeroAddress zeroPostID (go ''drana'') 0 1]) = Some txs
     \<and> (\<exists>err. ApplyBlock chain_prims plain_norm chain_params chain_ws0 (chain_block 1 txs) = Inl err)"
proof -
  define t u where "t = chain_tx TxRegisterName 1 zeroAddress zeroPostID (go ''drana'') 0 1"
    and "u = chain_tx TxRegisterName 2 zeroAddress zeroPostID (go ''drana'') 0 1"
  have v: "ValidateTransaction chain_prims plain_norm t (ws_reader chain_ws0) chain_params = Inr ()"
    "ValidateTransaction chain_prims plain_norm u (ws_reader chain_ws0) chain_params = Inr ()"
    unfolding t_def u_def by code_simp+
  have n: "tx_Sender t \<noteq> tx_Sender u" unfolding t_def u_def by code_simp
  have p: "Mempool_Pending (pool_of [t, u]) = [t, u]" by (simp add: pool_of_def Mempool_Pending_def)
  have ty: "tx_Type t = TxRegisterName" "tx_Type u = TxRegisterName" "tx_Text t = tx_Text u"
    by (simp_all add: t_def u_def chain_tx_def)
  from name_conflict_blocks [OF p ty n _ wf_keyed [OF chain_ws0_wf(1)] v, of 10] show ?thesis
    by (simp add: chain_block_def flip: t_def u_def)
qed

end
