(* ===== verification/Engine.thy ===== *)
theory Engine
  imports Consensus Wire BlockStore KVStore Reaping
begin

text \<open>
  The node's \<^verbatim>\<open>internal/consensus/engine.go\<close>: the state of one validator node and the handlers that change it.
  The engine's lock makes each handler one step.  What comes from outside is an argument: the clock, the
  replies of the peers, and whether the two databases accept a write.
\<close>

section \<open>The engine\<close>

record Engine =
  eng_Params :: GenesisConfig
  eng_GenesisValSet :: "GenesisValidator list"
  eng_PrivKey :: privkey
  eng_Address :: address
  eng_State :: WorldState
  eng_Mempool :: Mempool
  eng_BlockStore :: block_db
  eng_KVStore :: kv_db
  eng_currentHeight :: u64
  eng_lastBlock :: "Block option"

definition NewEngine ::
    "GenesisConfig \<Rightarrow> GenesisValidator list \<Rightarrow> privkey \<Rightarrow> address \<Rightarrow> WorldState \<Rightarrow> Mempool \<Rightarrow> block_db \<Rightarrow> kv_db \<Rightarrow> Engine" where
  "NewEngine params validators privKey addr ws mp bs kv =
     \<lparr>eng_Params = params, eng_GenesisValSet = validators, eng_PrivKey = privKey, eng_Address = addr, eng_State = ws,
      eng_Mempool = mp, eng_BlockStore = bs, eng_KVStore = kv, eng_currentHeight = ws_chainHeight ws, eng_lastBlock = None\<rparr>"

definition SetLastBlock :: "Block option \<Rightarrow> Engine \<Rightarrow> Engine" where
  "SetLastBlock b e =
     (let e = e\<lparr>eng_lastBlock := b\<rparr>
      in case b of None \<Rightarrow> e | Some blk \<Rightarrow> e\<lparr>eng_currentHeight := hdr_Height (blk_Header blk)\<rparr>)"

definition activeValidators :: "Engine \<Rightarrow> ValidatorStake list" where
  "activeValidators e =
     (let vs = ws_activeValidators (eng_State e)
      in if length vs > 0 then vs else ValidatorsFromGenesis (eng_GenesisValSet e))"

datatype engine_error =
    EnginePanic
  | TrialExecute block_error
  | InsufficientVotes u64 u64
  | SaveBlockFailed
  | SaveStateFailed
  | InvalidProposal proposal_error
  | InvalidQC qc_error
  | InvalidBlock proposal_error
  | ApplyFailed block_error
  | SyncRequestFailed

section \<open>Committing a block\<close>

text \<open>What the two databases do with the writes of a commit.\<close>

datatype io = IoOk | BlockStoreFails | KVStoreFails

definition commitBlock ::
    "prims \<Rightarrow> io \<Rightarrow> Block \<Rightarrow> WorldState \<Rightarrow> Engine \<Rightarrow> (engine_error, unit) result \<times> Engine" where
  "commitBlock P io block newState e =
     (if io = BlockStoreFails then (Inl SaveBlockFailed, e)
      else (let e = e\<lparr>eng_BlockStore := SaveBlock P block (eng_BlockStore e)\<rparr> in
        if io = KVStoreFails then (Inl SaveStateFailed, e)
        else (let e = e\<lparr>eng_KVStore := SaveState newState (eng_KVStore e)\<rparr>;
                  hashes = map (Transaction_Hash P) (blk_Transactions block);
                  mp = Mempool_Remove hashes (eng_Mempool e);
                  mp = EvictStale (\<lambda>addr. map_option acc_Nonce (GetAccount newState addr)) mp
              in (Inr (), e\<lparr>eng_Mempool := mp, eng_State := newState, eng_lastBlock := Some block,
                            eng_currentHeight := hdr_Height (blk_Header block)\<rparr>))))"

section \<open>Proposing\<close>

text \<open>The block with its state root, and the state it leads to.\<close>

definition buildBlock ::
    "prims \<Rightarrow> norm \<Rightarrow> u64 \<Rightarrow> u64 \<Rightarrow> Engine \<Rightarrow> (engine_error, Block \<times> WorldState) result" where
  "buildBlock P N now height e =
     (case ReapForBlock P N (ws_reader (eng_State e)) (eng_Params e) (gc_MaxTxPerBlock (eng_Params e)) (eng_Mempool e) of
        None \<Rightarrow> Inl EnginePanic
      | Some txs \<Rightarrow>
          (let block = \<lparr>blk_Header = \<lparr>hdr_Height = height, hdr_PrevHash = expectedPrevHash P (eng_lastBlock e),
                          hdr_ProposerAddr = eng_Address e, hdr_Timestamp = now, hdr_StateRoot = replicate 32 0,
                          hdr_TxRoot = ComputeTxRoot P txs\<rparr>,
                        blk_Transactions = txs, blk_Evidence = [], blk_QC = None\<rparr>
           in case ApplyBlock P N (eng_Params e) (eng_State e) block of
                Inl err \<Rightarrow> Inl (TrialExecute err)
              | Inr newState \<Rightarrow>
                  Inr (block\<lparr>blk_Header := (blk_Header block)\<lparr>hdr_StateRoot := ComputeStateRoot P newState\<rparr>\<rparr>, newState)))"

definition signVote :: "prims \<Rightarrow> Engine \<Rightarrow> Block \<Rightarrow> BlockVote" where
  "signVote P e block =
     SignBlockVote P \<lparr>vote_Height = hdr_Height (blk_Header block), vote_BlockHash = BlockHeader_Hash P (blk_Header block),
       vote_VoterAddr = eng_Address e, vote_VoterPubKey = replicate 32 0, vote_Signature = []\<rparr> (eng_PrivKey e)"

text \<open>The loop that adds up the stake behind the votes; a missing key of the Go map reads as zero.\<close>

definition voteStake :: "prims \<Rightarrow> u64 \<Rightarrow> bytes \<Rightarrow> (address, u64) gomap \<Rightarrow> BlockVote list \<Rightarrow> u64" where
  "voteStake P height blockHash m votes =
     foldl (\<lambda>acc v. if VerifyBlockVote P v \<and> vote_Height v = height \<and> vote_BlockHash v = blockHash
                    then acc + opt_val 0 id (mget m (vote_VoterAddr v)) else acc) 0 votes"

text \<open>\<open>peers\<close> is what the peers answer to the proposal, \<open>None\<close> for one whose call fails.\<close>

definition proposeBlock ::
    "prims \<Rightarrow> norm \<Rightarrow> u64 \<Rightarrow> io \<Rightarrow> (pbBlock \<Rightarrow> pbBlockVote option list) \<Rightarrow> u64 \<Rightarrow> Engine
      \<Rightarrow> (engine_error, unit) result \<times> Engine" where
  "proposeBlock P N now io peers height e =
     (case buildBlock P N now height e of
        Inl err \<Rightarrow> (Inl err, e)
      | Inr (block, newState) \<Rightarrow>
          (let blockHash = BlockHeader_Hash P (blk_Header block);
               replies = map VoteFromProto (concat (map (\<lambda>r. case r of None \<Rightarrow> [] | Some v \<Rightarrow> [v]) (peers (BlockToProto block))));
               votes = signVote P e block # replies;
               activeSet = activeValidators e;
               stake = voteStake P height blockHash (stake_map activeSet) votes;
               required = QuorumThreshold activeSet
           in if stake < required then (Inl (InsufficientVotes stake required), e)
              else commitBlock P io
                (block\<lparr>blk_QC := Some \<lparr>qc_Height = height, qc_BlockHash = blockHash, qc_Votes = votes\<rparr>\<rparr>) newState e))"

section \<open>Handlers\<close>

definition OnProposal :: "prims \<Rightarrow> norm \<Rightarrow> u64 \<Rightarrow> pbBlock option \<Rightarrow> Engine \<Rightarrow> (engine_error, pbBlockVote) result" where
  "OnProposal P N now proposal e =
     (case Option.bind proposal BlockFromProto of
        None \<Rightarrow> Inl EnginePanic
      | Some block \<Rightarrow>
          (case ValidateProposedBlock P N now block (eng_State e) (eng_lastBlock e) (activeValidators e) (eng_Params e) of
             Inl err \<Rightarrow> Inl (InvalidProposal err)
           | Inr _ \<Rightarrow> Inr (VoteToProto (signVote P e block))))"

record pbFinalizedBlock =
  fb_Block :: "pbBlock option"
  fb_Qc :: "pbQuorumCertificate option"

record pbPeerStatus =
  pst_Address :: bytes
  pst_LatestHeight :: u64
  pst_ChainId :: bytes
  pst_LatestBlockHash :: bytes

definition statusProto :: "prims \<Rightarrow> Engine \<Rightarrow> pbPeerStatus" where
  "statusProto P e = \<lparr>pst_Address = eng_Address e, pst_LatestHeight = eng_currentHeight e,
     pst_ChainId = gc_ChainID (eng_Params e),
     pst_LatestBlockHash = (case eng_lastBlock e of None \<Rightarrow> [] | Some b \<Rightarrow> BlockHeader_Hash P (blk_Header b))\<rparr>"

text \<open>Validate, apply and commit, as both \<^verbatim>\<open>OnFinalizedBlock\<close> and \<^verbatim>\<open>SyncToNetwork\<close> do.\<close>

definition acceptBlock ::
    "prims \<Rightarrow> norm \<Rightarrow> u64 \<Rightarrow> io \<Rightarrow> Block \<Rightarrow> Block \<Rightarrow> Engine \<Rightarrow> (engine_error, unit) result \<times> Engine" where
  "acceptBlock P N now io block certified e =
     (case ValidateProposedBlock P N now block (eng_State e) (eng_lastBlock e) (activeValidators e) (eng_Params e) of
        Inl err \<Rightarrow> (Inl (InvalidBlock err), e)
      | Inr _ \<Rightarrow>
          (case ApplyBlock P N (eng_Params e) (eng_State e) block of
             Inl err \<Rightarrow> (Inl (ApplyFailed err), e)
           | Inr newState \<Rightarrow> commitBlock P io certified newState e))"

definition OnFinalizedBlock ::
    "prims \<Rightarrow> norm \<Rightarrow> u64 \<Rightarrow> io \<Rightarrow> pbFinalizedBlock \<Rightarrow> Engine \<Rightarrow> (engine_error, pbPeerStatus) result \<times> Engine" where
  "OnFinalizedBlock P N now io fb e =
     (case (Option.bind (fb_Block fb) BlockFromProto, map_option QCFromProto (fb_Qc fb)) of
        (Some block, Some qc) \<Rightarrow>
          (case ValidateQuorumCertificate P qc (BlockHeader_Hash P (blk_Header block)) (activeValidators e) of
             Inl err \<Rightarrow> (Inl (InvalidQC err), e)
           | Inr _ \<Rightarrow>
               if hdr_Height (blk_Header block) \<le> eng_currentHeight e then (Inr (statusProto P e), e)
               else (let (r, e') = acceptBlock P N now io block (block\<lparr>blk_QC := Some qc\<rparr>) e
                     in (bindR r (\<lambda>_. Inr (statusProto P e')), e')))
      | _ \<Rightarrow> (Inl EnginePanic, e))"

text \<open>The loop stops at the first height the store does not have; there are at most 100 heights.\<close>

definition OnSyncRequest :: "u64 \<Rightarrow> u64 \<Rightarrow> Engine \<Rightarrow> pbFinalizedBlock list" where
  "OnSyncRequest from to e =
     (let to = (if to = 0 \<or> to > eng_currentHeight e then eng_currentHeight e else to) in
      if from > to then []
      else (let to = (if to - from + 1 > 100 then from + 99 else to);
                heights = map (\<lambda>k. from + of_nat k) [0..<Suc (unat (to - from))];
                found = takeWhile (\<lambda>b. b \<noteq> None) (map (GetBlockByHeight (eng_BlockStore e)) heights)
            in map (\<lambda>b. \<lparr>fb_Block = Some (BlockToProto b), fb_Qc = map_option QCToProto (blk_QC b)\<rparr>) (map the found)))"

definition OnGetStatus :: "prims \<Rightarrow> Engine \<Rightarrow> pbPeerStatus" where
  "OnGetStatus P e = statusProto P e"

definition OnSubmitTx :: "prims \<Rightarrow> pbTransaction \<Rightarrow> Engine \<Rightarrow> (pool_error, unit) result \<times> Engine" where
  "OnSubmitTx P ptx e =
     (case Mempool_Add P (Some (GetAccount (eng_State e))) (TxFromProto ptx) (eng_Mempool e) of
        Inl err \<Rightarrow> (Inl err, e)
      | Inr mp \<Rightarrow> (Inr (), e\<lparr>eng_Mempool := mp\<rparr>))"

section \<open>Catching up\<close>

text \<open>One response of a peer.  \<open>clock\<close> and \<open>io\<close> say when each block is checked and how its commit goes.\<close>

fun sync_blocks ::
    "prims \<Rightarrow> norm \<Rightarrow> (Block \<Rightarrow> u64) \<Rightarrow> (Block \<Rightarrow> io) \<Rightarrow> pbFinalizedBlock list \<Rightarrow> Engine
      \<Rightarrow> (engine_error, unit) result \<times> Engine" where
  "sync_blocks P N clock io [] e = (Inr (), e)"
| "sync_blocks P N clock io (fb # fbs) e =
     (case Option.bind (fb_Block fb) BlockFromProto of
        None \<Rightarrow> (Inl EnginePanic, e)
      | Some block \<Rightarrow>
          (case (case fb_Qc fb of
                   None \<Rightarrow> Inr block
                 | Some pqc \<Rightarrow>
                     (case ValidateQuorumCertificate P (QCFromProto pqc) (BlockHeader_Hash P (blk_Header block))
                             (activeValidators e) of
                        Inl err \<Rightarrow> Inl (InvalidQC err)
                      | Inr _ \<Rightarrow> Inr (block\<lparr>blk_QC := Some (QCFromProto pqc)\<rparr>))) of
             Inl err \<Rightarrow> (Inl err, e)
           | Inr block \<Rightarrow>
               (case acceptBlock P N (clock block) (io block) block block e of
                  (Inl err, e) \<Rightarrow> (Inl err, e)
                | (Inr _, e) \<Rightarrow> sync_blocks P N clock io fbs e)))"

text \<open>The outer loop, with fuel; \<open>ask\<close> is the chosen peer's answer to \<^verbatim>\<open>SyncBlocks\<close>.\<close>

fun sync_loop ::
    "prims \<Rightarrow> norm \<Rightarrow> (Block \<Rightarrow> u64) \<Rightarrow> (Block \<Rightarrow> io) \<Rightarrow> (u64 \<Rightarrow> u64 \<Rightarrow> pbFinalizedBlock list option) \<Rightarrow> u64 \<Rightarrow> nat
      \<Rightarrow> Engine \<Rightarrow> ((engine_error, unit) result \<times> Engine) option" where
  "sync_loop P N clock io ask bestHeight 0 e = None"
| "sync_loop P N clock io ask bestHeight (Suc fuel) e =
     (if eng_currentHeight e < bestHeight then
        (case ask (eng_currentHeight e + 1) bestHeight of
           None \<Rightarrow> Some (Inl SyncRequestFailed, e)
         | Some [] \<Rightarrow> Some (Inr (), e)
         | Some fbs \<Rightarrow>
             (case sync_blocks P N clock io fbs e of
                (Inl err, e) \<Rightarrow> Some (Inl err, e)
              | (Inr _, e) \<Rightarrow> sync_loop P N clock io ask bestHeight fuel e))
      else Some (Inr (), e))"

text \<open>The peer with the highest reported height, the first one among equals.\<close>

definition bestPeer :: "(u64 option \<times> 'p) list \<Rightarrow> u64 \<times> 'p option" where
  "bestPeer peers = foldl (\<lambda>(h, p) (status, peer).
     case status of None \<Rightarrow> (h, p) | Some height \<Rightarrow> if height > h then (height, Some peer) else (h, p)) (0, None) peers"

definition SyncToNetwork ::
    "prims \<Rightarrow> norm \<Rightarrow> (Block \<Rightarrow> u64) \<Rightarrow> (Block \<Rightarrow> io)
      \<Rightarrow> (u64 option \<times> (u64 \<Rightarrow> u64 \<Rightarrow> pbFinalizedBlock list option)) list \<Rightarrow> nat \<Rightarrow> Engine
      \<Rightarrow> ((engine_error, unit) result \<times> Engine) option" where
  "SyncToNetwork P N clock io peers fuel e =
     (case bestPeer peers of
        (bestHeight, None) \<Rightarrow> Some (Inr (), e)
      | (bestHeight, Some ask) \<Rightarrow>
          if bestHeight \<le> eng_currentHeight e then Some (Inr (), e)
          else sync_loop P N clock io ask bestHeight fuel e)"

end
