(* ===== verification/EngineChain.thy ===== *)
theory EngineChain
  imports Engine
begin

text \<open>
  What a node's engine does, seen from outside: its handlers and its main loop, in whatever order and with whatever
  messages, clocks and database failures, only ever append blocks that an auditor replaying the chain from the
  genesis state accepts.  The main loop reads the height to propose before it waits and proposes later; what an
  auditor can check about the heights depends on whether a block came in meanwhile.
\<close>

section \<open>The abstract chain\<close>

text \<open>
  The specification: replaying a list of blocks.  Each block has the hash of its predecessor, its transaction root
  and its state root are right, and it applies (\<open>block_links\<close>); a strict auditor also wants the next height
  (\<open>block_fits\<close>).
\<close>

definition block_links :: "prims \<Rightarrow> Block option \<Rightarrow> Block \<Rightarrow> bool" where
  "block_links P prev b \<longleftrightarrow>
     hdr_PrevHash (blk_Header b) = expectedPrevHash P prev \<and> hdr_TxRoot (blk_Header b) = ComputeTxRoot P (blk_Transactions b)"

definition block_fits :: "prims \<Rightarrow> Block option \<Rightarrow> Block \<Rightarrow> bool" where
  "block_fits P prev b \<longleftrightarrow> hdr_Height (blk_Header b) = expectedHeight prev \<and> block_links P prev b"

fun replay ::
    "(Block option \<Rightarrow> Block \<Rightarrow> bool) \<Rightarrow> prims \<Rightarrow> norm \<Rightarrow> GenesisConfig \<Rightarrow> Block option \<Rightarrow> WorldState \<Rightarrow> Block list \<Rightarrow> WorldState option" where
  "replay fits P N params prev ws [] = Some ws"
| "replay fits P N params prev ws (b # bs) =
     (if fits prev b
      then (case ApplyBlock P N params ws b of
              Inl _ \<Rightarrow> None
            | Inr ws' \<Rightarrow> if hdr_StateRoot (blk_Header b) = ComputeStateRoot P ws'
                then replay fits P N params (Some b) ws' bs else None)
      else None)"

definition tip :: "Block option \<Rightarrow> Block list \<Rightarrow> Block option" where
  "tip prev bs = (if bs = [] then prev else Some (last bs))"

definition tip_height :: "Block option \<Rightarrow> u64" where
  "tip_height prev = (case prev of None \<Rightarrow> 0 | Some b \<Rightarrow> hdr_Height (blk_Header b))"

lemma expectedHeight_tip: "expectedHeight prev = tip_height prev + 1"
  by (simp add: expectedHeight_def tip_height_def split: option.split)

lemma replay_snoc:
  "replay fits P N params prev ws (bs @ [b]) = Some ws' \<longleftrightarrow>
     (\<exists>w. replay fits P N params prev ws bs = Some w \<and> fits (tip prev bs) b
        \<and> ApplyBlock P N params w b = Inr ws' \<and> hdr_StateRoot (blk_Header b) = ComputeStateRoot P ws')"
proof (induction bs arbitrary: prev ws)
  case Nil
  then show ?case by (auto simp: tip_def split: sum.splits)
next
  case (Cons c cs)
  have "tip prev (c # cs) = tip (Some c) cs" by (simp add: tip_def)
  with Cons show ?case by (auto split: sum.splits)
qed

lemma replay_apply_blocks: "replay fits P N params prev ws bs = Some w \<Longrightarrow> apply_blocks P N params ws bs = Inr w"
  by (induction bs arbitrary: prev ws) (auto simp: bindR_eq_Inr split: if_splits sum.splits)

text \<open>A strict auditor finds the heights 1, 2, 3 and so on.\<close>

lemma replay_heights:
  "replay (block_fits P) P N params None ws bs = Some w \<Longrightarrow> tip_height (tip None bs) = of_nat (length bs)"
proof (induction bs arbitrary: w rule: rev_induct)
  case Nil
  then show ?case by (simp add: tip_def tip_height_def)
next
  case (snoc b bs)
  then have "tip_height (tip None bs) = of_nat (length bs)" "hdr_Height (blk_Header b) = expectedHeight (tip None bs)"
    unfolding replay_snoc block_fits_def by blast+
  then show ?case unfolding expectedHeight_tip by (simp add: tip_def tip_height_def)
qed

section \<open>The refinement relation\<close>

definition holds_chain ::
    "(Block option \<Rightarrow> Block \<Rightarrow> bool) \<Rightarrow> prims \<Rightarrow> norm \<Rightarrow> GenesisConfig \<Rightarrow> WorldState \<Rightarrow> Engine \<Rightarrow> Block list \<Rightarrow> bool" where
  "holds_chain fits P N params ws0 e bs \<longleftrightarrow> eng_Params e = params \<and> replay fits P N params None ws0 bs = Some (eng_State e)
     \<and> eng_lastBlock e = tip None bs \<and> eng_currentHeight e = tip_height (tip None bs) \<and> pool_ok P (eng_Mempool e)"

lemma holdsD:
  assumes "holds_chain fits P N params ws0 e bs"
  shows "eng_Params e = params" "replay fits P N params None ws0 bs = Some (eng_State e)" "eng_lastBlock e = tip None bs"
    "eng_currentHeight e = tip_height (eng_lastBlock e)" "pool_ok P (eng_Mempool e)"
  using assms unfolding holds_chain_def by auto

lemma ApplyBlock_same:
  assumes "hdr_Height (blk_Header b) = hdr_Height (blk_Header c)" "hdr_Timestamp (blk_Header b) = hdr_Timestamp (blk_Header c)"
    "hdr_ProposerAddr (blk_Header b) = hdr_ProposerAddr (blk_Header c)" "blk_Transactions b = blk_Transactions c"
    "blk_Evidence b = blk_Evidence c"
  shows "ApplyBlock P N params ws b = ApplyBlock P N params ws c"
proof -
  have "apply_txs P N params (blk_Header b) i txs w = apply_txs P N params (blk_Header c) i txs w" for i txs w
    using assms(1,2) by (induction txs arbitrary: i w) (simp_all split: sum.split)
  then show ?thesis using assms by (simp add: ApplyBlock_def Let_def)
qed

lemma commit_pool_ok:
  "pool_ok P (eng_Mempool e) \<Longrightarrow> commitBlock P io b w e = (r, e') \<Longrightarrow> pool_ok P (eng_Mempool e')"
  by (auto simp: commitBlock_def Let_def split: if_splits intro!: pool_step_ok [OF pool_step.evict]
      pool_step_ok [OF pool_step.remove])

lemma commit_holds:
  assumes h: "holds_chain fits P N params ws0 e bs" and fit: "fits (eng_lastBlock e) b"
    and ap: "ApplyBlock P N params (eng_State e) b = Inr w" and root: "hdr_StateRoot (blk_Header b) = ComputeStateRoot P w"
    and c: "commitBlock P io b w e = (r, e')"
  shows "\<exists>bs'. holds_chain fits P N params ws0 e' (bs @ bs')"
proof (cases r)
  case (Inl err)
  then have "holds_chain fits P N params ws0 e' bs"
    using h c commit_pool_ok [OF _ c] by (auto simp: holds_chain_def commitBlock_def Let_def split: if_splits)
  then show ?thesis by (metis append_Nil2)
next
  case (Inr u)
  have e': "eng_Params e' = eng_Params e" "eng_State e' = w" "eng_lastBlock e' = Some b"
    "eng_currentHeight e' = hdr_Height (blk_Header b)"
    using c Inr by (auto simp: commitBlock_def Let_def split: if_splits)
  moreover have "replay fits P N params None ws0 (bs @ [b]) = Some w"
    unfolding replay_snoc using h fit ap root by (simp add: holds_chain_def)
  moreover have "pool_ok P (eng_Mempool e')" using h commit_pool_ok [OF _ c] by (simp add: holds_chain_def)
  ultimately have "holds_chain fits P N params ws0 e' (bs @ [b])"
    using h by (simp add: holds_chain_def tip_def tip_height_def)
  then show ?thesis by blast
qed

lemma validated_fits:
  assumes "ValidateProposedBlock P N now b ws prev vs params = Inr ()"
  shows "block_fits P prev b" "\<exists>w. ApplyBlock P N params ws b = Inr w \<and> hdr_StateRoot (blk_Header b) = ComputeStateRoot P w"
  using assms
  by (auto simp: ValidateProposedBlock_def block_fits_def block_links_def bindR_eq_Inr Let_def split: if_splits sum.splits)

lemma ApplyBlock_QC [simp]: "ApplyBlock P N params ws (b\<lparr>blk_QC := q\<rparr>) = ApplyBlock P N params ws b"
  by (rule ApplyBlock_same) simp_all

section \<open>The handlers\<close>

lemma buildBlock_Inr:
  assumes "buildBlock P N now height e = Inr (b, w)"
  shows "ReapForBlock P N (ws_reader (eng_State e)) (eng_Params e) (gc_MaxTxPerBlock (eng_Params e)) (eng_Mempool e)
      = Some (blk_Transactions b)"
    "blk_Header b = \<lparr>hdr_Height = height, hdr_PrevHash = expectedPrevHash P (eng_lastBlock e),
       hdr_ProposerAddr = eng_Address e, hdr_Timestamp = now, hdr_StateRoot = ComputeStateRoot P w,
       hdr_TxRoot = ComputeTxRoot P (blk_Transactions b)\<rparr>"
    "blk_Evidence b = []" "blk_QC b = None" "ApplyBlock P N (eng_Params e) (eng_State e) b = Inr w"
proof -
  obtain txs where txs: "ReapForBlock P N (ws_reader (eng_State e)) (eng_Params e) (gc_MaxTxPerBlock (eng_Params e))
      (eng_Mempool e) = Some txs"
    using assms by (auto simp: buildBlock_def split: option.splits)
  define b0 where "b0 = \<lparr>blk_Header = \<lparr>hdr_Height = height, hdr_PrevHash = expectedPrevHash P (eng_lastBlock e),
      hdr_ProposerAddr = eng_Address e, hdr_Timestamp = now, hdr_StateRoot = replicate 32 0,
      hdr_TxRoot = ComputeTxRoot P txs\<rparr>, blk_Transactions = txs, blk_Evidence = [], blk_QC = None\<rparr>"
  have ap: "ApplyBlock P N (eng_Params e) (eng_State e) b0 = Inr w"
    and b: "b = b0\<lparr>blk_Header := (blk_Header b0)\<lparr>hdr_StateRoot := ComputeStateRoot P w\<rparr>\<rparr>"
    using assms unfolding buildBlock_def txs Let_def option.case b0_def [symmetric] by (auto split: sum.splits)
  show "ReapForBlock P N (ws_reader (eng_State e)) (eng_Params e) (gc_MaxTxPerBlock (eng_Params e)) (eng_Mempool e)
      = Some (blk_Transactions b)" using txs by (simp add: b b0_def)
  show "blk_Header b = \<lparr>hdr_Height = height, hdr_PrevHash = expectedPrevHash P (eng_lastBlock e),
       hdr_ProposerAddr = eng_Address e, hdr_Timestamp = now, hdr_StateRoot = ComputeStateRoot P w,
       hdr_TxRoot = ComputeTxRoot P (blk_Transactions b)\<rparr>" by (simp add: b b0_def)
  show "blk_Evidence b = []" "blk_QC b = None" by (simp_all add: b b0_def)
  show "ApplyBlock P N (eng_Params e) (eng_State e) b = Inr w"
    using ap ApplyBlock_same [of b b0] by (simp add: b)
qed

text \<open>
  What the handlers need of an auditor's rule: it accepts a block that passed validation, and it does not look at
  the certificate.
\<close>

locale chain_rule =
  fixes fits :: "prims \<Rightarrow> Block option \<Rightarrow> Block \<Rightarrow> bool"
  assumes accepts_valid: "block_fits P prev b \<Longrightarrow> fits P prev b"
    and ignores_QC: "fits P prev (b\<lparr>blk_QC := q\<rparr>) = fits P prev b"
begin

lemma accept_holds:
  assumes h: "holds_chain (fits P) P N params ws0 e bs" and c: "c = b \<or> (\<exists>q. c = b\<lparr>blk_QC := q\<rparr>)"
    and a: "acceptBlock P N now io b c e = (r, e')"
  shows "\<exists>bs'. holds_chain (fits P) P N params ws0 e' (bs @ bs')"
proof (cases "ValidateProposedBlock P N now b (eng_State e) (eng_lastBlock e) (activeValidators e) (eng_Params e)")
  case (Inl err)
  then show ?thesis using h a by (metis acceptBlock_def append_Nil2 old.sum.simps(5) prod.inject)
next
  case (Inr u)
  then have v: "ValidateProposedBlock P N now b (eng_State e) (eng_lastBlock e) (activeValidators e) (eng_Params e) = Inr ()"
    by simp
  obtain w where w: "ApplyBlock P N (eng_Params e) (eng_State e) b = Inr w"
    "hdr_StateRoot (blk_Header b) = ComputeStateRoot P w" using validated_fits(2) [OF v] by blast
  have "commitBlock P io c w e = (r, e')" using a v w by (simp add: acceptBlock_def)
  moreover have "eng_Params e = params" using h by (simp add: holds_chain_def)
  moreover have "fits P (eng_lastBlock e) c"
    using accepts_valid [OF validated_fits(1) [OF v]] c by (auto simp: ignores_QC)
  ultimately show ?thesis using w c by (intro commit_holds [OF h, of c]) auto
qed

text \<open>A proposal of any height; \<open>fit\<close> is what the rule wants of the height.\<close>

lemma propose_holds:
  assumes h: "holds_chain (fits P) P N params ws0 e bs"
    and fit: "\<And>b. block_links P (eng_lastBlock e) b \<Longrightarrow> hdr_Height (blk_Header b) = height \<Longrightarrow> fits P (eng_lastBlock e) b"
    and p: "proposeBlock P N now io peers height e = (r, e')"
  shows "\<exists>bs'. holds_chain (fits P) P N params ws0 e' (bs @ bs')"
proof (cases "buildBlock P N now height e")
  case (Inl err)
  then have "e' = e" using p by (simp add: proposeBlock_def)
  then show ?thesis using h by (metis append_Nil2)
next
  case (Inr bw)
  obtain b w where bw: "bw = (b, w)" by fastforce
  then have built: "buildBlock P N now height e = Inr (b, w)" using Inr by simp
  have params: "eng_Params e = params" using h by (simp add: holds_chain_def)
  note bb = buildBlock_Inr [OF built]
  have b: "fits P (eng_lastBlock e) b" by (rule fit) (simp_all add: block_links_def bb(2))
  have ap: "ApplyBlock P N params (eng_State e) b = Inr w" using bb(5) params by simp
  have root: "hdr_StateRoot (blk_Header b) = ComputeStateRoot P w" unfolding bb(2) by simp
  show ?thesis
  proof (cases "e' = e")
    case True
    then show ?thesis using h by (metis append_Nil2)
  next
    case False
    then obtain q where "commitBlock P io (b\<lparr>blk_QC := q\<rparr>) w e = (r, e')"
      using p built by (auto simp: proposeBlock_def Let_def split: if_splits)
    then show ?thesis using b ap root by (intro commit_holds [OF h]) (auto simp: ignores_QC)
  qed
qed

lemma finalized_holds:
  assumes h: "holds_chain (fits P) P N params ws0 e bs" and f: "OnFinalizedBlock P N now io fb e = (r, e')"
  shows "\<exists>bs'. holds_chain (fits P) P N params ws0 e' (bs @ bs')"
proof (cases "e' = e")
  case True
  then show ?thesis using h by (metis append_Nil2)
next
  case False
  then obtain b qc r' where "acceptBlock P N now io b (b\<lparr>blk_QC := Some qc\<rparr>) e = (r', e')"
    using f by (auto simp: OnFinalizedBlock_def Let_def split: option.splits sum.splits if_splits prod.splits)
  then show ?thesis by (intro accept_holds [OF h]) auto
qed

lemma sync_holds:
  assumes "holds_chain (fits P) P N params ws0 e bs" "sync_blocks P N clock io fbs e = (r, e')"
  shows "\<exists>bs'. holds_chain (fits P) P N params ws0 e' (bs @ bs')"
  using assms
proof (induction fbs arbitrary: e bs)
  case Nil
  then show ?case by (metis append_Nil2 prod.inject sync_blocks.simps(1))
next
  case (Cons fb fbs)
  show ?case
  proof (cases "e' = e")
    case True
    then show ?thesis using Cons.prems(1) by (metis append_Nil2)
  next
    case False
    then obtain b r1 e1 where a: "acceptBlock P N (clock b) (io b) b b e = (r1, e1)"
      and rest: "e' = e1 \<or> sync_blocks P N clock io fbs e1 = (r, e')"
      using Cons.prems(2) by (auto split: option.splits sum.splits prod.splits)
    obtain bs1 where h1: "holds_chain (fits P) P N params ws0 e1 (bs @ bs1)" using accept_holds [OF Cons.prems(1) _ a] by blast
    show ?thesis using rest h1 Cons.IH [OF h1] by (metis append.assoc)
  qed
qed

lemma submit_holds:
  assumes "holds_chain (fits P) P N params ws0 e bs" "Mempool_Add P accounts tx (eng_Mempool e) = Inr mp"
  shows "holds_chain (fits P) P N params ws0 (e\<lparr>eng_Mempool := mp\<rparr>) bs"
  using assms by (auto simp: holds_chain_def intro: pool_step_ok [OF pool_step.add])

end

interpretation strict: chain_rule block_fits
  by unfold_locales (simp_all add: block_fits_def block_links_def)

interpretation linked: chain_rule block_links
  by unfold_locales (simp_all add: block_fits_def block_links_def)

section \<open>Runs of a node\<close>

text \<open>
  A node is its engine and, while the main loop is between reading the next height and proposing, the height it
  read: \<^verbatim>\<open>Run\<close> reads \<^verbatim>\<open>currentHeight + 1\<close> without the lock, waits for the block interval and then calls
  \<^verbatim>\<open>proposeBlock\<close> with it.  Whether the node is the proposer of that height decides only if it reads at all, so
  leaving the check out adds runs.  A proposal, a finalized block and one response to a sync request are handled
  under the lock; a submitted transaction is checked against accounts that may be those of an older state and
  added later under the lock of the pool.  An addition while a proposal is out is ordered after it.
\<close>

inductive engine_step :: "prims \<Rightarrow> norm \<Rightarrow> Engine \<times> u64 option \<Rightarrow> Engine \<times> u64 option \<Rightarrow> bool" for P N where
  next_height: "engine_step P N (e, None) (e, Some (eng_currentHeight e + 1))"
| propose: "proposeBlock P N now io peers h e = (r, e') \<Longrightarrow> engine_step P N (e, Some h) (e', None)"
| finalized: "OnFinalizedBlock P N now io fb e = (r, e') \<Longrightarrow> engine_step P N (e, k) (e', k)"
| sync: "sync_blocks P N clock ios fbs e = (r, e') \<Longrightarrow> engine_step P N (e, k) (e', k)"
| submit: "Mempool_Add P (Some accounts) (TxFromProto ptx) (eng_Mempool e) = Inr mp \<Longrightarrow>
     engine_step P N (e, k) (e\<lparr>eng_Mempool := mp\<rparr>, k)"

text \<open>A timely step: a height that is proposed is still the next one.\<close>

definition timely_step :: "prims \<Rightarrow> norm \<Rightarrow> Engine \<times> u64 option \<Rightarrow> Engine \<times> u64 option \<Rightarrow> bool" where
  "timely_step P N s s' \<longleftrightarrow> engine_step P N s s'
     \<and> (\<forall>h. snd s = Some h \<and> snd s' = None \<longrightarrow> h = eng_currentHeight (fst s) + 1)"

lemma OnSubmitTx_step: "OnSubmitTx P ptx e = (r, e') \<Longrightarrow> (timely_step P N)\<^sup>*\<^sup>* (e, k) (e', k)"
  using engine_step.submit [of P "GetAccount (eng_State e)" ptx e _ N k]
  by (auto simp: OnSubmitTx_def timely_step_def split: sum.splits)

lemma timely_steps: "(timely_step P N)\<^sup>*\<^sup>* s s' \<Longrightarrow> (engine_step P N)\<^sup>*\<^sup>* s s'"
  by (erule rtranclp_mono [THEN predicate2D, rotated]) (auto simp: timely_step_def)

lemma linked_step:
  assumes "engine_step P N s s'" "holds_chain (block_links P) P N params ws0 (fst s) bs"
  shows "\<exists>bs'. holds_chain (block_links P) P N params ws0 (fst s') (bs @ bs')"
  using assms(1)
proof cases
  case (next_height e)
  then show ?thesis using assms(2) by (metis append_Nil2 fst_conv)
next
  case (submit accounts ptx e mp k)
  then show ?thesis using linked.submit_holds assms(2) by (metis append_Nil2 fst_conv)
qed (use assms(2) in \<open>auto intro: linked.propose_holds linked.finalized_holds linked.sync_holds\<close>)

lemma strict_step:
  assumes "timely_step P N s s'" "holds_chain (block_fits P) P N params ws0 (fst s) bs"
  shows "\<exists>bs'. holds_chain (block_fits P) P N params ws0 (fst s') (bs @ bs')"
proof -
  have "engine_step P N s s'" using assms(1) by (simp add: timely_step_def)
  then show ?thesis
  proof cases
    case (next_height e)
    then show ?thesis using assms(2) by (metis append_Nil2 fst_conv)
  next
    case (propose now io peers h e r e')
    then have "h = eng_currentHeight e + 1" using assms(1) by (simp add: timely_step_def)
    then have "h = expectedHeight (eng_lastBlock e)"
      using holdsD(4) [OF assms(2)] propose by (simp add: expectedHeight_tip)
    then show ?thesis using propose assms(2) by (auto intro: strict.propose_holds simp: block_fits_def)
  next
    case (submit accounts ptx e mp k)
    then show ?thesis using strict.submit_holds assms(2) by (metis append_Nil2 fst_conv)
  qed (use assms(2) in \<open>auto intro: strict.finalized_holds strict.sync_holds\<close>)
qed

lemma steps_hold:
  assumes "\<And>s s' bs. step s s' \<Longrightarrow> holds_chain fits P N params ws0 (fst s) bs
      \<Longrightarrow> \<exists>bs'. holds_chain fits P N params ws0 (fst s') (bs @ bs')"
    and "step\<^sup>*\<^sup>* s s'" "holds_chain fits P N params ws0 (fst s) bs"
  shows "\<exists>bs'. holds_chain fits P N params ws0 (fst s') (bs @ bs')"
  using assms(2,3)
proof (induction rule: rtranclp_induct)
  case base
  then show ?case by (metis append_Nil2)
next
  case (step y z)
  then obtain cs where "holds_chain fits P N params ws0 (fst y) (bs @ cs)" by blast
  from assms(1) [OF step.hyps(2) this] show ?case by (metis append.assoc)
qed

lemma linked_steps:
  assumes "(engine_step P N)\<^sup>*\<^sup>* s s'" "holds_chain (block_links P) P N params ws0 (fst s) bs"
  shows "\<exists>bs'. holds_chain (block_links P) P N params ws0 (fst s') (bs @ bs')"
  by (rule steps_hold [OF _ assms]) (rule linked_step)

lemma strict_steps:
  assumes "(timely_step P N)\<^sup>*\<^sup>* s s'" "holds_chain (block_fits P) P N params ws0 (fst s) bs"
  shows "\<exists>bs'. holds_chain (block_fits P) P N params ws0 (fst s') (bs @ bs')"
  by (rule steps_hold [OF _ assms]) (rule strict_step)

lemma start_holds:
  assumes "ws_chainHeight ws0 = 0"
  shows "holds_chain fits P N params ws0 (NewEngine params vals priv addr ws0 (Mempool_New n) db kv) []"
  using assms by (simp add: holds_chain_def NewEngine_def tip_def tip_height_def pool_ok_def Mempool_New_def)

text \<open>
  C3: a node refines the abstract chain.  After any run of its main loop and its handlers, with arbitrary messages
  from peers, clocks and database failures, the node's state is the result of replaying a list of blocks from the
  genesis state, each with the hash of its predecessor and the right roots, its last block is the last of the
  list, and whatever happens later the list only grows.  If no block came in between reading a height and
  proposing it, the blocks have the heights 1, 2, 3 and so on, and the node is at the last of them.
\<close>

theorem engine_refines_chain:
  assumes "ws_chainHeight ws0 = 0" "start = (NewEngine params vals priv addr ws0 (Mempool_New n) db kv, None)"
    "(engine_step P N)\<^sup>*\<^sup>* start s" "(engine_step P N)\<^sup>*\<^sup>* s s'"
  shows "(\<exists>bs bs'. replay (block_links P) P N params None ws0 bs = Some (eng_State (fst s)) \<and> eng_lastBlock (fst s) = tip None bs
      \<and> replay (block_links P) P N params None ws0 (bs @ bs') = Some (eng_State (fst s'))
      \<and> eng_lastBlock (fst s') = tip None (bs @ bs'))
    \<and> ((timely_step P N)\<^sup>*\<^sup>* start s' \<longrightarrow>
        (\<exists>bs. replay (block_fits P) P N params None ws0 bs = Some (eng_State (fst s')) \<and> eng_lastBlock (fst s') = tip None bs
          \<and> eng_currentHeight (fst s') = of_nat (length bs)))"
proof (intro conjI impI)
  have start: "holds_chain fits P N params ws0 (fst start) []" for fits using start_holds [OF assms(1)] by (simp add: assms(2))
  obtain bs where bs: "holds_chain (block_links P) P N params ws0 (fst s) bs"
    using linked_steps [OF assms(3) start] by auto
  obtain bs' where "holds_chain (block_links P) P N params ws0 (fst s') (bs @ bs')"
    using linked_steps [OF assms(4) bs] by auto
  with bs show "\<exists>bs bs'. replay (block_links P) P N params None ws0 bs = Some (eng_State (fst s)) \<and> eng_lastBlock (fst s) = tip None bs
      \<and> replay (block_links P) P N params None ws0 (bs @ bs') = Some (eng_State (fst s'))
      \<and> eng_lastBlock (fst s') = tip None (bs @ bs')"
    unfolding holds_chain_def by blast
  assume "(timely_step P N)\<^sup>*\<^sup>* start s'"
  from strict_steps [OF this start]
  obtain cs where "holds_chain (block_fits P) P N params ws0 (fst s') cs" by auto
  then show "\<exists>bs. replay (block_fits P) P N params None ws0 bs = Some (eng_State (fst s')) \<and> eng_lastBlock (fst s') = tip None bs
      \<and> eng_currentHeight (fst s') = of_nat (length bs)"
    unfolding holds_chain_def using replay_heights by metis
qed

text \<open>A node that starts on a genesis state and is sent a transaction.\<close>

definition start_node :: Engine where
  "start_node = NewEngine chain_params [] [] (chain_addr 1) chain_ws0 (Mempool_New 10) [] []"

definition start_submit :: Engine where
  "start_submit = snd (OnSubmitTx chain_prims (TxToProto (chain_tx TxTransfer 1 (chain_addr 2) zeroPostID [] 200 1)) start_node)"

theorem engine_refines_chain_witness:
  "length (mp_txs (eng_Mempool start_submit)) = 1
   \<and> (\<exists>bs. replay (block_fits chain_prims) chain_prims plain_norm chain_params None chain_ws0 bs = Some (eng_State start_submit)
        \<and> eng_lastBlock start_submit = tip None bs \<and> eng_currentHeight start_submit = of_nat (length bs))"
proof -
  have run: "(timely_step chain_prims plain_norm)\<^sup>*\<^sup>* (start_node, None) (start_submit, None)"
    unfolding start_submit_def by (rule OnSubmitTx_step [OF prod.collapse [symmetric]])
  moreover have "ws_chainHeight chain_ws0 = 0" by code_simp
  moreover have "length (mp_txs (eng_Mempool start_submit)) = 1" by code_simp
  ultimately show ?thesis
    using engine_refines_chain [of chain_ws0 "(start_node, None)" chain_params "[]" "[]" "chain_addr 1" 10 "[]" "[]"
        chain_prims plain_norm "(start_submit, None)" "(start_submit, None)"] timely_steps [OF run]
    by (auto simp: start_node_def)
qed

end
