(* ===== verification/Finality.thy ===== *)
theory Finality
  imports EngineChain
begin

text \<open>
  A round of consensus among several nodes: the proposer's block goes over the wire to peers with the same
  chain, their votes come back, and the certified block is committed everywhere.
\<close>

section \<open>Votes of honest nodes\<close>

text \<open>A node whose address is that of its signing key, with an Ed25519 that verifies what it signs.\<close>

definition own_key :: "prims \<Rightarrow> Engine \<Rightarrow> bool" where
  "own_key P e \<longleftrightarrow> ed25519_correct P (eng_PrivKey e) \<and> length (eng_PrivKey e) = 64
     \<and> eng_Address e = AddressFromPublicKey P (drop 32 (eng_PrivKey e))"

lemma own_key_address: "own_key P e \<Longrightarrow> length (eng_Address e) = 24"
  by (simp add: own_key_def)

lemma signVote_fields [simp]:
  "vote_Height (signVote P e b) = hdr_Height (blk_Header b)"
  "vote_BlockHash (signVote P e b) = BlockHeader_Hash P (blk_Header b)"
  "vote_VoterAddr (signVote P e b) = eng_Address e"
  by (simp_all add: signVote_def SignBlockVote_def Let_def)

lemma signVote_verifies: "own_key P e \<Longrightarrow> VerifyBlockVote P (signVote P e b)"
  by (auto simp: own_key_def ed25519_correct_def VerifyBlockVote_def signVote_def SignBlockVote_def Let_def
      Sign_def Verify_def BlockVote_SignableBytes_def)

lemma length_header_hash: "sha256_len P \<Longrightarrow> length (BlockHeader_Hash P h) = 32"
  by (simp add: BlockHeader_Hash_def Sum256_def sha256_len_def Let_def)

lemma signVote_sizes: "sha256_len P \<Longrightarrow> own_key P e \<Longrightarrow> vote_sizes (signVote P e b)"
  by (simp add: vote_sizes_def own_key_address length_header_hash)
    (simp add: signVote_def SignBlockVote_def Let_def)

section \<open>Counting the votes of a round\<close>

definition good_vote :: "prims \<Rightarrow> u64 \<Rightarrow> bytes \<Rightarrow> BlockVote \<Rightarrow> bool" where
  "good_vote P height hash v \<longleftrightarrow> VerifyBlockVote P v \<and> vote_Height v = height \<and> vote_BlockHash v = hash"

definition stake_at :: "(address, u64) gomap \<Rightarrow> address \<Rightarrow> u64" where
  "stake_at m a = opt_val 0 id (mget m a)"

lemma voteStake_good:
  assumes "\<forall>v\<in>set votes. good_vote P h hash v"
  shows "voteStake P h hash m votes = foldl (\<lambda>acc v. acc + stake_at m (vote_VoterAddr v)) 0 votes"
  unfolding voteStake_def using assms
  by (intro foldl_cong) (simp_all add: good_vote_def stake_at_def)

text \<open>The proposer's count and that of the receivers agree on votes of different voters.\<close>

lemma count_votes_good:
  assumes "\<forall>v\<in>set votes. good_vote P (qc_Height qc) (qc_BlockHash qc) v" "distinct (map vote_VoterAddr votes)"
    "set seen \<inter> vote_VoterAddr ` set votes = {}"
  shows "count_votes P qc m votes seen c = foldl (\<lambda>acc v. acc + stake_at m (vote_VoterAddr v)) c votes"
  using assms by (induction votes arbitrary: seen c) (auto simp: good_vote_def stake_at_def split: option.split)

lemma foldl_word_sum: "foldl (\<lambda>acc v. acc + f v) c vs = c + of_nat (sum_list (map (\<lambda>v. unat (f v)) vs))"
  for f :: "'a \<Rightarrow> u64"
  by (induction vs arbitrary: c) (simp_all add: add.assoc)

lemma sum_voters:
  assumes "wf_set vs" "distinct addrs"
  shows "sum_list (map (\<lambda>a. unat (stake_at (stake_map vs) a)) addrs) = stake_of {v \<in> set vs. val_Address v \<in> set addrs}"
proof -
  have inj: "inj_on val_Address (set vs)" and d: "distinct (map val_Address vs)"
    using assms(1) by (simp_all add: wf_set_def distinct_map)
  have at: "stake_at (stake_map vs) (val_Address v) = val_StakedBalance v" if "v \<in> set vs" for v
  proof -
    have "find (\<lambda>u. val_Address u = val_Address v) vs \<noteq> None" using that by (auto simp: find_None_iff)
    then obtain u where u: "find (\<lambda>u. val_Address u = val_Address v) vs = Some u" by blast
    then have "u \<in> set vs" "val_Address u = val_Address v" by (auto simp: find_Some_iff)
    with u show ?thesis using inj_onD [OF inj, of u v] that by (simp add: stake_at_def stake_map_get [OF d] opt_val_def)
  qed
  have none: "stake_at (stake_map vs) a = 0" if "a \<notin> val_Address ` set vs" for a
  proof -
    have "find (\<lambda>v. val_Address v = a) vs = None" using that by (auto simp: find_None_iff)
    then show ?thesis by (simp add: stake_at_def stake_map_get [OF d] opt_val_def)
  qed
  define V where "V = {v \<in> set vs. val_Address v \<in> set addrs}"
  have img: "val_Address ` V \<subseteq> set addrs" by (auto simp: V_def)
  have zero: "unat (stake_at (stake_map vs) a) = 0" if "a \<in> set addrs - val_Address ` V" for a
  proof -
    have "a \<notin> val_Address ` set vs" using that by (auto simp: V_def)
    then show ?thesis by (simp add: none)
  qed
  have "sum_list (map (\<lambda>a. unat (stake_at (stake_map vs) a)) addrs) = (\<Sum>a\<in>set addrs. unat (stake_at (stake_map vs) a))"
    using assms(2) by (rule sum_list_distinct_conv_sum_set)
  also have "\<dots> = (\<Sum>a\<in>val_Address ` V. unat (stake_at (stake_map vs) a))"
    using img zero by (intro sum.mono_neutral_right) auto
  also have "\<dots> = (\<Sum>v\<in>V. unat (stake_at (stake_map vs) (val_Address v)))"
    by (intro sum.reindex_cong [of val_Address]) (auto intro: inj_on_subset [OF inj] simp: V_def)
  also have "\<dots> = stake_of V" unfolding stake_of_def by (intro sum.cong) (auto simp: V_def at)
  finally show ?thesis by (simp add: V_def)
qed

lemma round_reaches_quorum:
  assumes "wf_set vs" "distinct addrs" "2 * stake_total vs < 3 * stake_of {v \<in> set vs. val_Address v \<in> set addrs}"
    and "map vote_VoterAddr votes = addrs"
  shows "QuorumThreshold vs \<le> foldl (\<lambda>acc v. acc + stake_at (stake_map vs) (vote_VoterAddr v)) 0 votes"
proof -
  define S where "S = stake_of {v \<in> set vs. val_Address v \<in> set addrs}"
  have "S \<le> stake_total vs" unfolding S_def by (rule stake_of_le [OF assms(1)]) auto
  then have S: "S < 2 ^ 64" using assms(1) by (simp add: wf_set_def)
  have "sum_list (map (\<lambda>v. unat (stake_at (stake_map vs) (vote_VoterAddr v))) votes)
      = sum_list (map (\<lambda>a. unat (stake_at (stake_map vs) a)) (map vote_VoterAddr votes))"
    by (simp add: comp_def)
  also have "\<dots> = S" unfolding assms(4) S_def by (rule sum_voters [OF assms(1,2)])
  finally have "foldl (\<lambda>acc v. acc + stake_at (stake_map vs) (vote_VoterAddr v)) 0 votes = of_nat S"
    by (simp add: foldl_word_sum)
  moreover have "unat (of_nat S :: u64) = S" using S by (simp add: unat_of_nat)
  moreover have "2 * stake_total vs div 3 + 1 \<le> S" using assms(3) by (simp add: S_def)
  ultimately show ?thesis using QuorumThreshold_exact [of vs] assms(1) by (simp add: wf_set_def unat_le_exact)
qed

section \<open>A proposal is valid for every node with the same chain\<close>

definition in_sync :: "Engine \<Rightarrow> Engine \<Rightarrow> bool" where
  "in_sync e p \<longleftrightarrow> eng_State p = eng_State e \<and> eng_lastBlock p = eng_lastBlock e \<and> eng_Params p = eng_Params e
     \<and> eng_GenesisValSet p = eng_GenesisValSet e \<and> eng_currentHeight p = eng_currentHeight e"

lemma in_sync_validators: "in_sync e p \<Longrightarrow> activeValidators p = activeValidators e"
  by (auto simp: in_sync_def activeValidators_def Let_def)

text \<open>The clocks: the proposer's is past the last block and not too far ahead of the voter's.\<close>

definition clocks_agree :: "Engine \<Rightarrow> u64 \<Rightarrow> u64 \<Rightarrow> bool" where
  "clocks_agree e now now' \<longleftrightarrow> (case eng_lastBlock e of None \<Rightarrow> True | Some l \<Rightarrow> sint (hdr_Timestamp (blk_Header l)) < sint now)
     \<and> sint now \<le> sint (now' + AllowedFutureDrift)"

lemma reaped_from_pool:
  assumes "ReapForBlock P N sr params maxTx m = Some txs"
  shows "set txs \<subseteq> set (Mempool_Pending m)" "int (length txs) \<le> max 0 maxTx"
  using assms reap_loop_total [of P N params maxTx "sender_queues (Mempool_Pending m)" "newSpeculativeState sr" "[]"]
  by (auto simp: ReapForBlock_def queued_sender_queues simp del: reap_loop.simps)

definition may_propose :: "Engine \<Rightarrow> bool" where
  "may_propose e \<longleftrightarrow> expectedHeight (eng_lastBlock e) = eng_currentHeight e + 1
     \<and> IsProposer (activeValidators e) (eng_currentHeight e + 1) (eng_Address e)"

lemma built_valid:
  assumes built: "buildBlock P N now (eng_currentHeight e + 1) e = Inr (b, w)" and m: "may_propose e"
    and sync: "in_sync e p" and clk: "clocks_agree e now now'"
  shows "ValidateProposedBlock P N now' (b\<lparr>blk_QC := q\<rparr>) (eng_State p) (eng_lastBlock p) (activeValidators p) (eng_Params p) = Inr ()"
proof -
  note bb = buildBlock_Inr [OF built]
  have len: "int (length (blk_Transactions b)) \<le> max 0 (gc_MaxTxPerBlock (eng_Params e))"
    by (rule reaped_from_pool(2) [OF bb(1)])
  have ap: "ApplyBlock P N (eng_Params e) (eng_State e) (b\<lparr>blk_QC := q\<rparr>) = Inr w" using bb(5) by simp
  have p: "eng_State p = eng_State e" "eng_lastBlock p = eng_lastBlock e" "eng_Params p = eng_Params e"
    using sync by (simp_all add: in_sync_def)
  have hdr: "blk_Header (b\<lparr>blk_QC := q\<rparr>) = blk_Header b" "blk_Transactions (b\<lparr>blk_QC := q\<rparr>) = blk_Transactions b"
    by simp_all
  show ?thesis
    unfolding ValidateProposedBlock_def Let_def p in_sync_validators [OF sync] ap hdr bb(2)
    using m clk len by (auto simp: may_propose_def IsProposer_def clocks_agree_def split: option.splits)
qed

lemma built_sizes:
  assumes built: "buildBlock P N now height e = Inr (b, w)" and "sha256_len P" "length (eng_Address e) = 24"
    and txs: "\<forall>tx\<in>set (Mempool_Pending (eng_Mempool e)). tx_sizes tx" and "case q of None \<Rightarrow> True | Some qc \<Rightarrow> qc_sizes qc"
  shows "block_sizes (b\<lparr>blk_QC := q\<rparr>)"
proof -
  note bb = buildBlock_Inr [OF built]
  have "length (expectedPrevHash P l) = 32" for l
    using assms(2) by (simp add: expectedPrevHash_def length_header_hash split: option.split)
  moreover have "length (ComputeTxRoot P ts) = 32" "length (ComputeStateRoot P w) = 32" for ts
    using assms(2) by (simp_all add: ComputeTxRoot_def ComputeStateRoot_def Sum256_def sha256_len_def Let_def)
  ultimately have "wf_header (blk_Header b)" unfolding bb(2) using assms(3) by (simp add: wf_header_def)
  moreover have "list_all tx_sizes (blk_Transactions b)"
    using reaped_from_pool(1) [OF bb(1)] txs by (auto simp: list_all_iff)
  ultimately show ?thesis using assms(5) by (simp add: block_sizes_def)
qed

section \<open>One round\<close>

text \<open>What the peers answer to a proposal, each with its own clock, and the message about the committed block.\<close>

definition answers :: "prims \<Rightarrow> norm \<Rightarrow> (Engine \<Rightarrow> u64) \<Rightarrow> Engine list \<Rightarrow> pbBlock \<Rightarrow> pbBlockVote option list" where
  "answers P N clock ps pb = map (\<lambda>p. case OnProposal P N (clock p) (Some pb) p of Inl _ \<Rightarrow> None | Inr v \<Rightarrow> Some v) ps"

definition finalizedMessage :: "Block \<Rightarrow> pbFinalizedBlock" where
  "finalizedMessage b = \<lparr>fb_Block = Some (BlockToProto b), fb_Qc = map_option QCToProto (blk_QC b)\<rparr>"

definition honest_peer :: "prims \<Rightarrow> Engine \<Rightarrow> u64 \<Rightarrow> (Engine \<Rightarrow> u64) \<Rightarrow> Engine \<Rightarrow> bool" where
  "honest_peer P e now clock p \<longleftrightarrow> in_sync e p \<and> own_key P p \<and> clocks_agree e now (clock p)"

lemma built_wire:
  assumes "buildBlock P N now height e = Inr (b, w)" "sha256_len P" "length (eng_Address e) = 24"
    "\<forall>tx\<in>set (Mempool_Pending (eng_Mempool e)). tx_sizes tx" "case q of None \<Rightarrow> True | Some qc \<Rightarrow> qc_sizes qc"
  shows "BlockFromProto (BlockToProto (b\<lparr>blk_QC := q\<rparr>)) = Some (b\<lparr>blk_QC := q\<rparr>)"
proof -
  have "b\<lparr>blk_QC := q, blk_Evidence := []\<rparr> = b\<lparr>blk_QC := q\<rparr>"
    using buildBlock_Inr(3) [OF assms(1)] by (cases b) simp
  then show ?thesis using Block_wire [OF built_sizes [OF assms]] by simp
qed

lemma honest_vote:
  assumes built: "buildBlock P N now (eng_currentHeight e + 1) e = Inr (b, w)" and "may_propose e" "sha256_len P" "own_key P e"
    and pool: "\<forall>tx\<in>set (Mempool_Pending (eng_Mempool e)). tx_sizes tx" and p: "honest_peer P e now clock p"
  shows "OnProposal P N (clock p) (Some (BlockToProto b)) p = Inr (VoteToProto (signVote P p b))"
proof -
  have q: "b\<lparr>blk_QC := None\<rparr> = b" using buildBlock_Inr(4) [OF built] by (cases b) simp
  have "BlockFromProto (BlockToProto b) = Some b"
    using built_wire [OF built assms(3) own_key_address [OF assms(4)] pool, of None] by (simp add: q)
  moreover have "ValidateProposedBlock P N (clock p) b (eng_State p) (eng_lastBlock p) (activeValidators p) (eng_Params p) = Inr ()"
    using built_valid [OF built assms(2), of p "clock p" None] p by (simp add: q honest_peer_def)
  ultimately show ?thesis by (simp add: OnProposal_def)
qed

lemma honest_answers:
  assumes "buildBlock P N now (eng_currentHeight e + 1) e = Inr (b, w)" "may_propose e" "sha256_len P" "own_key P e"
    "\<forall>tx\<in>set (Mempool_Pending (eng_Mempool e)). tx_sizes tx" "\<forall>p\<in>set ps. honest_peer P e now clock p"
  shows "map VoteFromProto (concat (map (\<lambda>r. case r of None \<Rightarrow> [] | Some v \<Rightarrow> [v]) (answers P N clock ps (BlockToProto b))))
    = map (\<lambda>p. signVote P p b) ps"
  using assms(6)
proof (induction ps)
  case (Cons p ps)
  have "VoteFromProto (VoteToProto (signVote P p b)) = signVote P p b"
    using Cons.prems assms(3) by (intro Vote_wire signVote_sizes) (auto simp: honest_peer_def)
  then show ?case using Cons honest_vote [OF assms(1-5), of clock p] by (simp add: answers_def)
qed (simp add: answers_def)

text \<open>The certificate of the round, and that both the proposer and the receivers accept it.\<close>

definition round_qc :: "prims \<Rightarrow> Engine list \<Rightarrow> Block \<Rightarrow> QuorumCertificate" where
  "round_qc P nodes b = \<lparr>qc_Height = hdr_Height (blk_Header b), qc_BlockHash = BlockHeader_Hash P (blk_Header b),
     qc_Votes = map (\<lambda>p. signVote P p b) nodes\<rparr>"

lemma round_qc_ok:
  assumes "wf_set vs" "distinct (map eng_Address nodes)" "\<forall>p\<in>set nodes. own_key P p"
    "2 * stake_total vs < 3 * stake_of {v \<in> set vs. val_Address v \<in> eng_Address ` set nodes}"
  shows "ValidateQuorumCertificate P (round_qc P nodes b) (BlockHeader_Hash P (blk_Header b)) vs = Inr ()"
    "QuorumThreshold vs \<le> voteStake P (hdr_Height (blk_Header b)) (BlockHeader_Hash P (blk_Header b)) (stake_map vs)
      (map (\<lambda>p. signVote P p b) nodes)"
proof -
  define votes where "votes = map (\<lambda>p. signVote P p b) nodes"
  have addrs: "map vote_VoterAddr votes = map eng_Address nodes" by (simp add: votes_def)
  have good: "\<forall>v\<in>set votes. good_vote P (hdr_Height (blk_Header b)) (BlockHeader_Hash P (blk_Header b)) v"
    using assms(3) by (auto simp: votes_def good_vote_def signVote_verifies)
  have q: "QuorumThreshold vs \<le> foldl (\<lambda>acc v. acc + stake_at (stake_map vs) (vote_VoterAddr v)) 0 votes"
    by (rule round_reaches_quorum [OF assms(1,2) _ addrs]) (use assms(4) in simp)
  show "QuorumThreshold vs \<le> voteStake P (hdr_Height (blk_Header b)) (BlockHeader_Hash P (blk_Header b)) (stake_map vs)
      (map (\<lambda>p. signVote P p b) nodes)"
    using q unfolding votes_def [symmetric] voteStake_good [OF good] .
  have "count_votes P (round_qc P nodes b) (stake_map vs) votes [] 0
      = foldl (\<lambda>acc v. acc + stake_at (stake_map vs) (vote_VoterAddr v)) 0 votes"
    using good assms(2) addrs by (intro count_votes_good) (simp_all add: round_qc_def)
  then show "ValidateQuorumCertificate P (round_qc P nodes b) (BlockHeader_Hash P (blk_Header b)) vs = Inr ()"
    using q by (simp add: ValidateQuorumCertificate_def Let_def round_qc_def votes_def not_less)
qed

lemma commit_ok:
  "\<exists>e'. commitBlock P IoOk b w e = (Inr (), e') \<and> eng_State e' = w \<and> eng_lastBlock e' = Some b
     \<and> eng_currentHeight e' = hdr_Height (blk_Header b) \<and> eng_Params e' = eng_Params e \<and> eng_GenesisValSet e' = eng_GenesisValSet e"
  by (simp add: commitBlock_def Let_def)

lemma receiver_commits:
  assumes built: "buildBlock P N now (eng_currentHeight e + 1) e = Inr (b, w)" and "may_propose e" "sha256_len P" "own_key P e"
    and pool: "\<forall>tx\<in>set (Mempool_Pending (eng_Mempool e)). tx_sizes tx" and sync: "in_sync e p" "clocks_agree e now now'"
    and h: "unat (eng_currentHeight e) + 1 < 2 ^ 64"
    and qc: "qc_sizes qc" "ValidateQuorumCertificate P qc (BlockHeader_Hash P (blk_Header b)) (activeValidators e) = Inr ()"
  shows "\<exists>st p'. OnFinalizedBlock P N now' IoOk (finalizedMessage (b\<lparr>blk_QC := Some qc\<rparr>)) p = (Inr st, p')
    \<and> eng_State p' = w \<and> eng_lastBlock p' = Some (b\<lparr>blk_QC := Some qc\<rparr>) \<and> eng_currentHeight p' = hdr_Height (blk_Header b)
    \<and> eng_Params p' = eng_Params e \<and> eng_GenesisValSet p' = eng_GenesisValSet e"
proof -
  define c where "c = b\<lparr>blk_QC := Some qc\<rparr>"
  have c: "blk_Header c = blk_Header b" "c\<lparr>blk_QC := Some qc\<rparr> = c" "blk_QC c = Some qc" by (simp_all add: c_def)
  have wire: "BlockFromProto (BlockToProto c) = Some c" "QCFromProto (QCToProto qc) = qc"
    using built_wire [OF built assms(3) own_key_address [OF assms(4)] pool, of "Some qc"] qc(1) by (simp_all add: c_def QC_wire)
  have p: "eng_State p = eng_State e" "eng_Params p = eng_Params e" "eng_GenesisValSet p = eng_GenesisValSet e"
    "eng_currentHeight p = eng_currentHeight e" using sync(1) by (simp_all add: in_sync_def)
  have "unat (eng_currentHeight e + 1) = unat (eng_currentHeight e) + 1" using h unat_add_exact [of "eng_currentHeight e" 1] by simp
  moreover have "hdr_Height (blk_Header b) = eng_currentHeight e + 1" unfolding buildBlock_Inr(2) [OF built] by simp
  ultimately have new: "\<not> hdr_Height (blk_Header b) \<le> eng_currentHeight p" by (simp add: p unat_le_exact)
  have v: "ValidateProposedBlock P N now' c (eng_State p) (eng_lastBlock p) (activeValidators p) (eng_Params p) = Inr ()"
    unfolding c_def by (rule built_valid [OF built assms(2) sync])
  have ap: "ApplyBlock P N (eng_Params p) (eng_State p) c = Inr w"
    using buildBlock_Inr(5) [OF built] by (simp add: c_def p)
  obtain p' where p': "commitBlock P IoOk c w p = (Inr (), p')" "eng_State p' = w" "eng_lastBlock p' = Some c"
    "eng_currentHeight p' = hdr_Height (blk_Header c)" "eng_Params p' = eng_Params p" "eng_GenesisValSet p' = eng_GenesisValSet p"
    using commit_ok by blast
  have "acceptBlock P N now' IoOk c (c\<lparr>blk_QC := Some qc\<rparr>) p = (Inr (), p')"
    unfolding c(2) using v ap p'(1) by (simp add: acceptBlock_def)
  then have "OnFinalizedBlock P N now' IoOk (finalizedMessage c) p = (Inr (statusProto P p'), p')"
    using wire qc(2) new c(1,3) in_sync_validators [OF sync(1)] by (simp add: OnFinalizedBlock_def finalizedMessage_def bindR_def)
  then show ?thesis using p' p c(1) by (auto simp: c_def)
qed

text \<open>
  C8: a round with honest peers succeeds.  If the proposer of the next height can build a block and it and the
  peers that are in sync with it, have roughly the same time and hold more than two thirds of the stake, then
  every one of these peers votes for the block it receives, the proposer reaches the quorum and commits, and
  each peer that gets the finalized block accepts its certificate, commits the same block and ends in the same
  state as the proposer, ready for the next height.
\<close>

theorem round_commits:
  assumes "buildBlock P N now (eng_currentHeight e + 1) e = Inr (b, w)" "may_propose e"
    "unat (eng_currentHeight e) + 1 < 2 ^ 64" "sha256_len P" "own_key P e"
    "\<forall>tx\<in>set (Mempool_Pending (eng_Mempool e)). tx_sizes tx"
    "\<forall>p\<in>set ps. honest_peer P e now clock p \<and> clocks_agree e now (later p)"
    "wf_set (activeValidators e)" "distinct (map eng_Address (e # ps))"
    "2 * stake_total (activeValidators e)
       < 3 * stake_of {v \<in> set (activeValidators e). val_Address v \<in> eng_Address ` set (e # ps)}"
  shows "\<exists>e' b'. proposeBlock P N now IoOk (answers P N clock ps) (eng_currentHeight e + 1) e = (Inr (), e')
    \<and> eng_lastBlock e' = Some b' \<and> blk_Header b' = blk_Header b \<and> blk_Transactions b' = blk_Transactions b \<and> eng_State e' = w
    \<and> (\<forall>p\<in>set ps. \<exists>v. OnProposal P N (clock p) (Some (BlockToProto b)) p = Inr v)
    \<and> (\<forall>p\<in>set ps. \<exists>st p'. OnFinalizedBlock P N (later p) IoOk (finalizedMessage b') p = (Inr st, p') \<and> in_sync e' p')"
proof -
  define h where "h = eng_currentHeight e + 1"
  define qc where "qc = round_qc P (e # ps) b"
  have hdr: "hdr_Height (blk_Header b) = h" unfolding buildBlock_Inr(2) [OF assms(1)] h_def by simp
  have keys: "\<forall>p\<in>set (e # ps). own_key P p" using assms(5,7) by (simp add: honest_peer_def)
  note q = round_qc_ok [OF assms(8,9) keys assms(10), of b, folded qc_def]
  have "\<forall>p\<in>set ps. honest_peer P e now clock p" using assms(7) by blast
  note replies = honest_answers [OF assms(1,2,4,5,6) this]
  obtain e' where e': "commitBlock P IoOk (b\<lparr>blk_QC := Some qc\<rparr>) w e = (Inr (), e')" "eng_State e' = w"
    "eng_lastBlock e' = Some (b\<lparr>blk_QC := Some qc\<rparr>)" "eng_currentHeight e' = hdr_Height (blk_Header b)"
    "eng_Params e' = eng_Params e" "eng_GenesisValSet e' = eng_GenesisValSet e"
    using commit_ok [of P "b\<lparr>blk_QC := Some qc\<rparr>" w e] by auto
  have "proposeBlock P N now IoOk (answers P N clock ps) h e = (Inr (), e')"
    using assms(1) q(2) e'(1) unfolding proposeBlock_def h_def [symmetric] Let_def replies
    by (simp add: replies not_less hdr qc_def round_qc_def)
  moreover have "\<exists>st p'. OnFinalizedBlock P N (later p) IoOk (finalizedMessage (b\<lparr>blk_QC := Some qc\<rparr>)) p = (Inr st, p') \<and> in_sync e' p'"
    if p: "p \<in> set ps" for p
  proof -
    have "qc_sizes qc" using keys assms(4)
      by (auto simp: qc_def round_qc_def qc_sizes_def list_all_iff length_header_hash intro!: signVote_sizes)
    moreover have "in_sync e p" "clocks_agree e now (later p)" using assms(7) p by (simp_all add: honest_peer_def)
    ultimately show ?thesis
      using receiver_commits [OF assms(1,2,4,5,6) _ _ assms(3) _ q(1)] e' by (fastforce simp: in_sync_def)
  qed
  moreover have "\<exists>v. OnProposal P N (clock p) (Some (BlockToProto b)) p = Inr v" if "p \<in> set ps" for p
    using honest_vote [OF assms(1,2,4,5,6)] assms(7) that by blast
  ultimately show ?thesis using e' unfolding h_def by fastforce
qed

text \<open>Two validators with equal stakes at the first height; the second one proposes.\<close>

definition node :: "byte \<Rightarrow> Engine" where
  "node k = NewEngine chain_params
     (map (\<lambda>j. \<lparr>gv_Address = chain_addr j, gv_PubKey = chain_key j, gv_Name = [], gv_Stake = 1\<rparr>) [1, 2])
     (chain_key k @ chain_key k) (chain_addr k) (chain_ws0\<lparr>ws_activeValidators := []\<rparr>) (Mempool_New 10) [] []"

definition node_block :: "Block \<times> WorldState" where
  "node_block = (case buildBlock chain_prims plain_norm 100 1 (node 2) of Inr bw \<Rightarrow> bw)"

lemma node_built: "buildBlock chain_prims plain_norm 100 1 (node 2) = Inr (fst node_block, snd node_block)"
  by code_simp

lemma chain_sha256: "sha256_len chain_prims"
  unfolding sha256_len_def chain_prims_def by (simp add: length_drop) arith

lemma node_keys: "own_key chain_prims (node k)"
  by (simp add: own_key_def node_def NewEngine_def ed25519_correct_def chain_prims_def chain_key_def chain_addr_def)

lemma node_validators: "activeValidators (node k) =
    map (\<lambda>j. \<lparr>val_Address = chain_addr j, val_PubKey = chain_key j, val_StakedBalance = 1\<rparr>) [1, 2]"
  by (simp add: activeValidators_def node_def NewEngine_def ValidatorsFromGenesis_def)

lemma node_quorum:
  "wf_set (activeValidators (node 2))" "distinct (map eng_Address (node 2 # [node 1]))"
  "2 * stake_total (activeValidators (node 2))
     < 3 * stake_of {v \<in> set (activeValidators (node 2)). val_Address v \<in> eng_Address ` set (node 2 # [node 1])}"
proof -
  have d: "chain_addr 1 \<noteq> chain_addr 2" by code_simp
  have a: "eng_Address (node k) = chain_addr k" for k by (simp add: node_def NewEngine_def)
  show wf: "wf_set (activeValidators (node 2))"
    unfolding node_validators using d by (simp add: wf_set_def stake_total_def)
  show "distinct (map eng_Address (node 2 # [node 1]))" using d a by simp
  have "{v \<in> set (activeValidators (node 2)). val_Address v \<in> eng_Address ` set (node 2 # [node 1])} = set (activeValidators (node 2))"
    unfolding node_validators by (auto simp: a)
  moreover have "stake_total (activeValidators (node 2)) = 2" unfolding node_validators by (simp add: stake_total_def)
  ultimately show "2 * stake_total (activeValidators (node 2))
     < 3 * stake_of {v \<in> set (activeValidators (node 2)). val_Address v \<in> eng_Address ` set (node 2 # [node 1])}"
    using stake_of_set [of "activeValidators (node 2)"] wf by (simp add: wf_set_def)
qed

theorem round_commits_witness:
  "\<exists>e' b' st p'. proposeBlock chain_prims plain_norm 100 IoOk (answers chain_prims plain_norm (\<lambda>p. 95) [node 1]) 1 (node 2) = (Inr (), e')
    \<and> eng_lastBlock e' = Some b' \<and> OnFinalizedBlock chain_prims plain_norm 102 IoOk (finalizedMessage b') (node 1) = (Inr st, p')
    \<and> in_sync e' p'"
proof -
  have z: "eng_currentHeight (node 2) = 0" by code_simp
  then have h: "eng_currentHeight (node 2) + 1 = 1" "unat (eng_currentHeight (node 2)) + 1 < 2 ^ 64" by simp_all
  have m: "may_propose (node 2)" by code_simp
  have pool: "\<forall>tx\<in>set (Mempool_Pending (eng_Mempool (node 2))). tx_sizes tx"
    by (simp add: node_def NewEngine_def Mempool_New_def Mempool_Pending_def)
  have peer: "\<forall>p\<in>set [node 1]. honest_peer chain_prims (node 2) 100 (\<lambda>p. 95) p \<and> clocks_agree (node 2) 100 102"
    using node_keys by (simp add: honest_peer_def in_sync_def clocks_agree_def node_def NewEngine_def AllowedFutureDrift_def)
  have "buildBlock chain_prims plain_norm 100 (eng_currentHeight (node 2) + 1) (node 2) = Inr (fst node_block, snd node_block)"
    unfolding h(1) by (rule node_built)
  from round_commits [OF this m h(2) chain_sha256 node_keys pool peer node_quorum]
  show ?thesis unfolding h(1) by auto
qed

section \<open>A second attempt\<close>

lemma two_votes_are_evidence:
  assumes "own_key P e" "own_key P e'" "eng_Address e' = eng_Address e"
    "hdr_Height (blk_Header b1) = hdr_Height (blk_Header b2)"
    "BlockHeader_Hash P (blk_Header b1) \<noteq> BlockHeader_Hash P (blk_Header b2)"
  shows "SlashEvidence_IsValid P \<lparr>ev_VoteA = signVote P e b1, ev_VoteB = signVote P e' b2\<rparr>"
  using assms by (simp add: SlashEvidence_IsValid_def signVote_verifies)

lemma failed_attempt_unchanged:
  "proposeBlock P N now io peers height e = (Inl (InsufficientVotes s r), e') \<Longrightarrow> e' = e"
  by (auto simp: proposeBlock_def commitBlock_def Let_def split: sum.splits if_splits)

text \<open>
  C37: retrying a proposal makes honest nodes double-sign.  When a proposal misses the quorum, the main loop
  builds a new block of the same height with the new time.  A peer that voted for the first block votes for
  the second one too, as nothing of its first vote is kept, and so does the proposer itself; each pair of
  votes is valid evidence for slashing.
\<close>

theorem retry_double_signs:
  assumes "proposeBlock P N now1 io (answers P N clock1 ps) (eng_currentHeight e + 1) e = (Inl (InsufficientVotes s r), e')"
    "buildBlock P N now1 (eng_currentHeight e + 1) e = Inr (b1, w1)" "buildBlock P N now2 (eng_currentHeight e' + 1) e' = Inr (b2, w2)"
    "BlockHeader_Hash P (blk_Header b1) \<noteq> BlockHeader_Hash P (blk_Header b2)"
    "may_propose e" "sha256_len P" "own_key P e" "\<forall>tx\<in>set (Mempool_Pending (eng_Mempool e)). tx_sizes tx"
    "p \<in> set ps" "honest_peer P e now1 clock1 p" "honest_peer P e' now2 clock2 p"
  shows "\<exists>v1 v2. OnProposal P N (clock1 p) (Some (BlockToProto b1)) p = Inr v1
      \<and> OnProposal P N (clock2 p) (Some (BlockToProto b2)) p = Inr v2
      \<and> SlashEvidence_IsValid P \<lparr>ev_VoteA = VoteFromProto v1, ev_VoteB = VoteFromProto v2\<rparr>
      \<and> SlashEvidence_IsValid P \<lparr>ev_VoteA = signVote P e b1, ev_VoteB = signVote P e' b2\<rparr>"
proof -
  have e': "e' = e" by (rule failed_attempt_unchanged [OF assms(1)])
  have h: "hdr_Height (blk_Header b1) = hdr_Height (blk_Header b2)"
    unfolding buildBlock_Inr(2) [OF assms(2)] buildBlock_Inr(2) [OF assms(3)] by (simp add: e')
  have p: "own_key P p" using assms(10) by (simp add: honest_peer_def)
  have wire: "VoteFromProto (VoteToProto (signVote P p b)) = signVote P p b" for b
    using assms(6) p by (intro Vote_wire signVote_sizes)
  note v1 = honest_vote [OF assms(2,5,6,7,8,10)]
  note v2 = honest_vote [OF assms(3,5,6,7,8,11) [unfolded e']]
  have "SlashEvidence_IsValid P \<lparr>ev_VoteA = signVote P e b1, ev_VoteB = signVote P e' b2\<rparr>"
    unfolding e' by (rule two_votes_are_evidence [OF assms(7,7) refl h assms(4)])
  then show ?thesis using v1 v2 two_votes_are_evidence [OF p p refl h assms(4)] by (simp add: wire)
qed

text \<open>Three validators of which one does not answer; the hash here keeps the time of a header.\<close>

definition retry_prims :: prims where
  "retry_prims = chain_prims\<lparr>sha256 := \<lambda>x. if length x = 32 then x else take 32 (drop 64 x @ replicate 32 0)\<rparr>"

definition retry_node :: "byte \<Rightarrow> Engine" where
  "retry_node k = NewEngine chain_params
     (map (\<lambda>j. \<lparr>gv_Address = AddressFromPublicKey retry_prims (chain_key j), gv_PubKey = chain_key j, gv_Name = [], gv_Stake = 1\<rparr>) [1, 2, 3])
     (chain_key k @ chain_key k) (AddressFromPublicKey retry_prims (chain_key k)) NewWorldState (Mempool_New 10) [] []"

definition retry_block :: "u64 \<Rightarrow> Block \<times> WorldState" where
  "retry_block now = (case buildBlock retry_prims plain_norm now 1 (retry_node 2) of Inr bw \<Rightarrow> bw)"

lemma retry_built:
  "buildBlock retry_prims plain_norm 100 1 (retry_node 2) = Inr (fst (retry_block 100), snd (retry_block 100))"
  "buildBlock retry_prims plain_norm 102 1 (retry_node 2) = Inr (fst (retry_block 102), snd (retry_block 102))"
  by code_simp+

lemma retry_keys: "own_key retry_prims (retry_node k)" "sha256_len retry_prims"
  by (simp add: own_key_def retry_node_def NewEngine_def ed25519_correct_def retry_prims_def chain_prims_def chain_key_def)
    (auto simp: sha256_len_def retry_prims_def)

lemma retry_attempt:
  "\<exists>s r. proposeBlock retry_prims plain_norm 100 IoOk (answers retry_prims plain_norm (\<lambda>p. 95) [retry_node 1]) 1 (retry_node 2)
     = (Inl (InsufficientVotes s r), retry_node 2)"
proof -
  have "(case fst (proposeBlock retry_prims plain_norm 100 IoOk (answers retry_prims plain_norm (\<lambda>p. 95) [retry_node 1]) 1 (retry_node 2)) of
      Inl (InsufficientVotes s r) \<Rightarrow> True | _ \<Rightarrow> False)" by code_simp
  then show ?thesis using failed_attempt_unchanged
    by (auto simp: split: sum.splits engine_error.splits) (metis prod.collapse)
qed

theorem retry_double_signs_witness:
  "\<exists>v1 v2. OnProposal retry_prims plain_norm 95 (Some (BlockToProto (fst (retry_block 100)))) (retry_node 1) = Inr v1
     \<and> OnProposal retry_prims plain_norm 97 (Some (BlockToProto (fst (retry_block 102)))) (retry_node 1) = Inr v2
     \<and> SlashEvidence_IsValid retry_prims \<lparr>ev_VoteA = VoteFromProto v1, ev_VoteB = VoteFromProto v2\<rparr>"
proof -
  have h: "eng_currentHeight (retry_node 2) + 1 = 1" by code_simp
  have m: "may_propose (retry_node 2)" by code_simp
  have ne: "BlockHeader_Hash retry_prims (blk_Header (fst (retry_block 100))) \<noteq> BlockHeader_Hash retry_prims (blk_Header (fst (retry_block 102)))"
    by code_simp
  have pool: "\<forall>tx\<in>set (Mempool_Pending (eng_Mempool (retry_node 2))). tx_sizes tx"
    by (simp add: retry_node_def NewEngine_def Mempool_New_def Mempool_Pending_def)
  have peer: "honest_peer retry_prims (retry_node 2) 100 (\<lambda>p. 95) (retry_node 1)" "honest_peer retry_prims (retry_node 2) 102 (\<lambda>p. 97) (retry_node 1)"
    using retry_keys by (simp_all add: honest_peer_def in_sync_def clocks_agree_def retry_node_def NewEngine_def AllowedFutureDrift_def)
  obtain s r where a: "proposeBlock retry_prims plain_norm 100 IoOk (answers retry_prims plain_norm (\<lambda>p. 95) [retry_node 1]) 1 (retry_node 2)
     = (Inl (InsufficientVotes s r), retry_node 2)" using retry_attempt by blast
  from retry_double_signs [of retry_prims plain_norm 100 IoOk "\<lambda>p. 95" "[retry_node 1]" "retry_node 2" _ _ "retry_node 2", unfolded h, OF a retry_built ne m
      retry_keys(2,1) pool _ peer]
  show ?thesis by auto
qed

section \<open>A height that was read too early\<close>

text \<open>
  A proposal of a height that is taken makes a second block of that height.  The main loop reads the height,
  waits and proposes it without looking again; if a block of that height was committed meanwhile and the votes
  suffice, the node commits its own block on top of it with the same height, and no node that has the first block
  as its last one accepts the second.
\<close>

theorem stale_proposal_repeats_height:
  assumes "eng_lastBlock e = Some b" "hdr_Height (blk_Header b) = h" "proposeBlock P N now io peers h e = (Inr (), e')"
  shows "\<exists>b'. eng_lastBlock e' = Some b' \<and> hdr_Height (blk_Header b') = h \<and> eng_currentHeight e' = h
    \<and> hdr_PrevHash (blk_Header b') = BlockHeader_Hash P (blk_Header b)
    \<and> ValidateProposedBlock P N clock b' ws (Some b) vs params \<noteq> Inr ()"
proof -
  obtain c w where built: "buildBlock P N now h e = Inr (c, w)"
    using assms(3) by (cases "buildBlock P N now h e") (auto simp: proposeBlock_def)
  note c = buildBlock_Inr(2) [OF built]
  obtain q where "commitBlock P io (c\<lparr>blk_QC := q\<rparr>) w e = (Inr (), e')"
    using assms(3) built by (auto simp: proposeBlock_def Let_def split: if_splits)
  then have e': "eng_lastBlock e' = Some (c\<lparr>blk_QC := q\<rparr>)" "eng_currentHeight e' = h"
    using c by (auto simp: commitBlock_def Let_def split: if_splits)
  have "\<not> block_fits P (Some b) (c\<lparr>blk_QC := q\<rparr>)"
    unfolding block_fits_def expectedHeight_tip using assms(2) c by (simp add: tip_height_def)
  then have "ValidateProposedBlock P N clock (c\<lparr>blk_QC := q\<rparr>) ws (Some b) vs params \<noteq> Inr ()"
    using validated_fits(1) by blast
  then show ?thesis using e' c assms(1) by (simp add: expectedPrevHash_def)
qed

text \<open>A validator that holds all the stake and got a block of height 1 proposes the height 1.\<close>

definition stale_node :: Engine where
  "stale_node = (NewEngine chain_params [\<lparr>gv_Address = chain_addr 2, gv_PubKey = chain_key 2, gv_Name = [], gv_Stake = 1\<rparr>]
     (chain_key 2 @ chain_key 2) (chain_addr 2) (chain_ws0\<lparr>ws_activeValidators := []\<rparr>) (Mempool_New 10) [] [])
     \<lparr>eng_lastBlock := Some (chain_block 1 []), eng_currentHeight := 1\<rparr>"

definition stale_block :: "Block \<times> WorldState" where
  "stale_block = (case buildBlock chain_prims plain_norm 200 1 stale_node of Inr bw \<Rightarrow> bw)"

lemma stale_built: "buildBlock chain_prims plain_norm 200 1 stale_node = Inr (fst stale_block, snd stale_block)"
  by code_simp

lemma stale_validators: "activeValidators stale_node =
    [\<lparr>val_Address = chain_addr 2, val_PubKey = chain_key 2, val_StakedBalance = 1\<rparr>]"
  by (simp add: activeValidators_def stale_node_def NewEngine_def ValidatorsFromGenesis_def)

lemma stale_commits: "\<exists>e'. proposeBlock chain_prims plain_norm 200 IoOk (\<lambda>p. []) 1 stale_node = (Inr (), e')"
proof -
  define b w where "b = fst stale_block" and "w = snd stale_block"
  have keys: "\<forall>p\<in>set [stale_node]. own_key chain_prims p"
    by (simp add: own_key_def stale_node_def NewEngine_def ed25519_correct_def chain_prims_def chain_key_def chain_addr_def)
  have a: "eng_Address stale_node = chain_addr 2" by (simp add: stale_node_def NewEngine_def)
  have wf: "wf_set (activeValidators stale_node)" unfolding stale_validators by (simp add: wf_set_def stake_total_def)
  have all: "{v \<in> set (activeValidators stale_node). val_Address v \<in> eng_Address ` set [stale_node]} = set (activeValidators stale_node)"
    unfolding stale_validators by (auto simp: a)
  have "2 * stake_total (activeValidators stale_node)
     < 3 * stake_of {v \<in> set (activeValidators stale_node). val_Address v \<in> eng_Address ` set [stale_node]}"
    unfolding all using stake_of_set [of "activeValidators stale_node"] wf
    by (simp add: wf_set_def) (simp add: stale_validators stake_total_def)
  note q = round_qc_ok [OF wf _ keys this, of b]
  have built: "buildBlock chain_prims plain_norm 200 1 stale_node = Inr (b, w)" unfolding b_def w_def by (rule stale_built)
  have hdr: "hdr_Height (blk_Header b) = 1" unfolding buildBlock_Inr(2) [OF built] by simp
  show ?thesis
    using built q(2) commit_ok [of chain_prims _ w stale_node] unfolding proposeBlock_def Let_def
    by (auto simp: not_less hdr)
qed

theorem stale_proposal_repeats_height_witness:
  "\<exists>e' b'. proposeBlock chain_prims plain_norm 200 IoOk (\<lambda>p. []) 1 stale_node = (Inr (), e')
     \<and> eng_lastBlock e' = Some b' \<and> hdr_Height (blk_Header b') = hdr_Height (blk_Header (chain_block 1 []))
     \<and> hdr_PrevHash (blk_Header b') = BlockHeader_Hash chain_prims (blk_Header (chain_block 1 []))"
proof -
  have b: "eng_lastBlock stale_node = Some (chain_block 1 [])" "hdr_Height (blk_Header (chain_block 1 [])) = 1"
    by (simp_all add: stale_node_def chain_block_def)
  obtain e' where e': "proposeBlock chain_prims plain_norm 200 IoOk (\<lambda>p. []) 1 stale_node = (Inr (), e')"
    using stale_commits by blast
  from stale_proposal_repeats_height [OF b e'] e' show ?thesis unfolding b(2) by blast
qed

end
