(* ===== verification/Rpc.thy ===== *)
theory Rpc
  imports Engine Indexer
begin

text \<open>
  The node's \<^verbatim>\<open>internal/rpc/server.go\<close>: the HTTP handlers that the application calls.  A request is its method,
  path and query values; a handler answers with a status and the value it passes to \<^verbatim>\<open>json.Encode\<close>.  The types of
  \<^verbatim>\<open>types.go\<close> are records.  \<^verbatim>\<open>sort.Slice\<close>, which is not stable, is an argument, and so is the state of the engine.
\<close>

section \<open>Requests and replies\<close>

record Request =
  rq_Method :: bytes
  rq_Path :: bytes
  rq_Query :: "bytes \<Rightarrow> bytes"

datatype rpc_error =
    MethodNotAllowed
  | NoBlocksYet
  | InvalidHeight
  | BlockNotFound
  | InvalidBlockHash
  | InvalidAddress address_error
  | MissingName
  | NameNotFound
  | InvalidPostID
  | PostNotFound
  | InvalidAuthor address_error
  | InvalidBody
  | UnknownTxType
  | InvalidSender address_error
  | InvalidRecipient address_error
  | InvalidParentPostID
  | InvalidSignatureHex
  | InvalidPubKey
  | InvalidTxHash
  | TransactionNotFound

text \<open>\<open>NoBody\<close> is a return without a write, \<open>Panic\<close> a panic that the HTTP server recovers from.\<close>

datatype 'a http = OK 'a | NoBody | Panic | Fail nat rpc_error

definition isGet :: "Request \<Rightarrow> bool" where
  "isGet r \<longleftrightarrow> rq_Method r = go ''GET''"

definition TrimPrefix :: "bytes \<Rightarrow> bytes \<Rightarrow> bytes" where
  "TrimPrefix s p = (if take (length p) s = p then drop (length p) s else s)"

definition HasSuffix :: "bytes \<Rightarrow> bytes \<Rightarrow> bool" where
  "HasSuffix s p \<longleftrightarrow> length p \<le> length s \<and> drop (length s - length p) s = p"

definition TrimSuffix :: "bytes \<Rightarrow> bytes \<Rightarrow> bytes" where
  "TrimSuffix s p = (if HasSuffix s p then take (length s - length p) s else s)"

text \<open>\<^verbatim>\<open>strconv.ParseUint(s, 10, 64)\<close>: digits only, and in range.\<close>

definition ParseUint :: "bytes \<Rightarrow> u64 option" where
  "ParseUint s =
     (if s = [] \<or> \<not> list_all ascii_digit s \<or> digits_val s \<ge> 2 ^ 64 then None else Some (of_int (digits_val s)))"

text \<open>A 32-byte value in hexadecimal, as four handlers read it.\<close>

definition decode32 :: "bytes \<Rightarrow> bytes option" where
  "decode32 s = (case DecodeString s of Inr b \<Rightarrow> if length b = 32 then Some (copy_into 32 b) else None | Inl _ \<Rightarrow> None)"

section \<open>Responses\<close>

text \<open>\<^verbatim>\<open>fmt.Sprintf("unknown(%d)", t)\<close>.\<close>

definition unknownType :: "TxType \<Rightarrow> bytes" where
  "unknownType t = go ''unknown('' @ map ucast (dec_digits (unat t)) @ go '')''"

definition txTypeString :: "TxType \<Rightarrow> bytes" where
  "txTypeString t =
     (if t = TxTransfer then go ''transfer''
      else if t = TxCreatePost then go ''create_post''
      else if t = TxBoostPost then go ''boost_post''
      else if t = TxRegisterName then go ''register_name''
      else if t = TxStake then go ''stake''
      else if t = TxUnstake then go ''unstake''
      else if t = TxUnstakePost then go ''unstake_post''
      else unknownType t)"

definition parseTxType :: "bytes \<Rightarrow> TxType option" where
  "parseTxType s =
     (if s = go ''transfer'' then Some TxTransfer
      else if s = go ''create_post'' then Some TxCreatePost
      else if s = go ''boost_post'' then Some TxBoostPost
      else if s = go ''register_name'' then Some TxRegisterName
      else if s = go ''stake'' then Some TxStake
      else if s = go ''unstake'' then Some TxUnstake
      else if s = go ''unstake_post'' then Some TxUnstakePost
      else None)"

record TransactionResponse =
  tr_Hash :: bytes
  tr_Type :: bytes
  tr_Sender :: bytes
  tr_Recipient :: bytes
  tr_PostID :: bytes
  tr_ParentPostID :: bytes
  tr_Text :: bytes
  tr_Channel :: bytes
  tr_Amount :: u64
  tr_Nonce :: u64
  tr_BlockHeight :: u64

record BlockResponse =
  br_Height :: u64
  br_Hash :: bytes
  br_PrevHash :: bytes
  br_ProposerAddr :: bytes
  br_Timestamp :: u64
  br_StateRoot :: bytes
  br_TxRoot :: bytes
  br_TxCount :: nat
  br_Transactions :: "TransactionResponse list"

record PostResponse =
  por_PostID :: bytes
  por_Author :: bytes
  por_Text :: bytes
  por_Channel :: bytes
  por_ParentPostID :: bytes
  por_CreatedAtHeight :: u64
  por_CreatedAtTime :: u64
  por_TotalStaked :: u64
  por_TotalBurned :: u64
  por_StakerCount :: u64
  por_Withdrawn :: bool

definition txToResponse :: "prims \<Rightarrow> Transaction \<Rightarrow> u64 \<Rightarrow> TransactionResponse" where
  "txToResponse P tx blockHeight =
     (let resp = \<lparr>tr_Hash = EncodeToString (Transaction_Hash P tx), tr_Type = txTypeString (tx_Type tx),
            tr_Sender = Address_String (tx_Sender tx), tr_Recipient = [], tr_PostID = [], tr_ParentPostID = [],
            tr_Text = [], tr_Channel = [], tr_Amount = tx_Amount tx, tr_Nonce = tx_Nonce tx, tr_BlockHeight = blockHeight\<rparr>
      in if tx_Type tx = TxTransfer then resp\<lparr>tr_Recipient := Address_String (tx_Recipient tx)\<rparr>
         else if tx_Type tx = TxCreatePost
           then (let resp = resp\<lparr>tr_Text := tx_Text tx, tr_Channel := tx_Channel tx\<rparr>
                 in if tx_PostID tx \<noteq> zeroPostID then resp\<lparr>tr_ParentPostID := EncodeToString (tx_PostID tx)\<rparr> else resp)
         else if tx_Type tx = TxBoostPost then resp\<lparr>tr_PostID := EncodeToString (tx_PostID tx)\<rparr>
         else resp)"

definition blockToResponse :: "prims \<Rightarrow> Block \<Rightarrow> bool \<Rightarrow> BlockResponse" where
  "blockToResponse P block includeTxs =
     (let h = blk_Header block
      in \<lparr>br_Height = hdr_Height h, br_Hash = EncodeToString (BlockHeader_Hash P h),
          br_PrevHash = EncodeToString (hdr_PrevHash h), br_ProposerAddr = Address_String (hdr_ProposerAddr h),
          br_Timestamp = hdr_Timestamp h, br_StateRoot = EncodeToString (hdr_StateRoot h),
          br_TxRoot = EncodeToString (hdr_TxRoot h), br_TxCount = length (blk_Transactions block),
          br_Transactions = (if includeTxs then map (\<lambda>tx. txToResponse P tx (hdr_Height h)) (blk_Transactions block) else [])\<rparr>)"

definition postToResponse :: "Post \<Rightarrow> PostResponse" where
  "postToResponse p =
     \<lparr>por_PostID = EncodeToString (post_PostID p), por_Author = Address_String (post_Author p),
      por_Text = post_Text p, por_Channel = post_Channel p,
      por_ParentPostID = (if post_ParentPostID p \<noteq> zeroPostID then EncodeToString (post_ParentPostID p) else []),
      por_CreatedAtHeight = post_CreatedAtHeight p, por_CreatedAtTime = post_CreatedAtTime p,
      por_TotalStaked = post_TotalStaked p, por_TotalBurned = post_TotalBurned p,
      por_StakerCount = post_StakerCount p, por_Withdrawn = post_Withdrawn p\<rparr>"

record NodeInfoResponse =
  ni_ChainID :: bytes
  ni_LatestHeight :: u64
  ni_LatestHash :: bytes
  ni_GenesisTime :: u64
  ni_BlockInterval :: int
  ni_BlockReward :: u64
  ni_BurnedSupply :: u64
  ni_IssuedSupply :: u64
  ni_ValidatorCount :: nat
  ni_CurrentEpoch :: u64
  ni_EpochLength :: u64
  ni_BlocksUntilNextEpoch :: u64

record AccountResponse =
  ar_Address :: bytes
  ar_Balance :: u64
  ar_Nonce :: u64
  ar_Name :: bytes
  ar_StakedBalance :: u64
  ar_PostStakeBalance :: u64

record stakeResp =
  sr_PostID :: bytes
  sr_Amount :: u64
  sr_Height :: u64

record stakesResponse =
  ss_Stakes :: "stakeResp list"
  ss_TotalCount :: nat
  ss_TotalStaked :: u64

record UnbondingEntryResponse =
  ue_Amount :: u64
  ue_ReleaseHeight :: u64

record UnbondingResponse =
  ur_Address :: bytes
  ur_Entries :: "UnbondingEntryResponse list"
  ur_Total :: u64

record PostListResponse =
  pl_Posts :: "PostResponse list"
  pl_TotalCount :: nat
  pl_Page :: int
  pl_PageSize :: int

record GoSubmitTxResponse =
  gsr_Accepted :: bool
  gsr_TxHash :: bytes
  gsr_Error :: "pool_error option"

datatype TxState = Confirmed u64 | Pending | Unknown

record TxStatusResponse =
  ts_Hash :: bytes
  ts_Status :: TxState

record MempoolResponse =
  mr_Transactions :: "TransactionResponse list"
  mr_Count :: nat

record ValidatorResponse =
  vr_Address :: bytes
  vr_Name :: bytes
  vr_PubKey :: bytes
  vr_StakedBalance :: u64

section \<open>Chain and blocks\<close>

definition handleGetNodeInfo :: "prims \<Rightarrow> GenesisConfig \<Rightarrow> Request \<Rightarrow> Engine \<Rightarrow> NodeInfoResponse http" where
  "handleGetNodeInfo P genesis r e =
     (if \<not> isGet r then Fail 405 MethodNotAllowed
      else (let ws = eng_State e; height = eng_currentHeight e; epochLen = gc_EpochLength genesis
            in OK \<lparr>ni_ChainID = gc_ChainID genesis, ni_LatestHeight = height,
                   ni_LatestHash = (case GetLatestBlock (eng_BlockStore e) of
                      Some b \<Rightarrow> EncodeToString (BlockHeader_Hash P (blk_Header b)) | None \<Rightarrow> []),
                   ni_GenesisTime = gc_GenesisTime genesis, ni_BlockInterval = gc_BlockIntervalSec genesis,
                   ni_BlockReward = gc_BlockReward genesis, ni_BurnedSupply = ws_burnedSupply ws,
                   ni_IssuedSupply = ws_issuedSupply ws, ni_ValidatorCount = length (ws_activeValidators ws),
                   ni_CurrentEpoch = ws_currentEpoch ws, ni_EpochLength = epochLen,
                   ni_BlocksUntilNextEpoch = (if epochLen > 0 \<and> height > 0 then epochLen - height mod epochLen else 0)\<rparr>))"

definition wantsFull :: "Request \<Rightarrow> bool" where
  "wantsFull r \<longleftrightarrow> rq_Query r (go ''full'') = go ''true''"

definition handleGetLatestBlock :: "prims \<Rightarrow> Request \<Rightarrow> Engine \<Rightarrow> BlockResponse http" where
  "handleGetLatestBlock P r e =
     (if \<not> isGet r then Fail 405 MethodNotAllowed
      else case GetLatestBlock (eng_BlockStore e) of
        None \<Rightarrow> Fail 404 NoBlocksYet
      | Some block \<Rightarrow> OK (blockToResponse P block (wantsFull r)))"

definition handleGetBlockByHeight :: "prims \<Rightarrow> Request \<Rightarrow> Engine \<Rightarrow> BlockResponse http" where
  "handleGetBlockByHeight P r e =
     (if \<not> isGet r then Fail 405 MethodNotAllowed
      else (let heightStr = TrimPrefix (rq_Path r) (go ''/v1/blocks/'') in
        if heightStr = [] \<or> heightStr = go ''latest'' \<or> take 5 heightStr = go ''hash/'' then NoBody
        else case ParseUint heightStr of
          None \<Rightarrow> Fail 400 InvalidHeight
        | Some height \<Rightarrow>
            (case GetBlockByHeight (eng_BlockStore e) height of
               None \<Rightarrow> Fail 404 BlockNotFound
             | Some block \<Rightarrow> OK (blockToResponse P block (wantsFull r)))))"

definition handleGetBlockByHash :: "prims \<Rightarrow> Request \<Rightarrow> Engine \<Rightarrow> BlockResponse http" where
  "handleGetBlockByHash P r e =
     (if \<not> isGet r then Fail 405 MethodNotAllowed
      else case decode32 (TrimPrefix (rq_Path r) (go ''/v1/blocks/hash/'')) of
        None \<Rightarrow> Fail 400 InvalidBlockHash
      | Some hash \<Rightarrow>
          (case GetBlockByHash (eng_BlockStore e) hash of
             None \<Rightarrow> Fail 404 BlockNotFound
           | Some block \<Rightarrow> OK (blockToResponse P block (wantsFull r))))"

section \<open>Accounts\<close>

definition accountResponse :: "Account \<Rightarrow> AccountResponse" where
  "accountResponse acct = \<lparr>ar_Address = Address_String (acc_Address acct), ar_Balance = acc_Balance acct,
     ar_Nonce = acc_Nonce acct, ar_Name = acc_Name acct, ar_StakedBalance = acc_StakedBalance acct,
     ar_PostStakeBalance = acc_PostStakeBalance acct\<rparr>"

definition handleGetPostStakes :: "prims \<Rightarrow> Request \<Rightarrow> bytes \<Rightarrow> Engine \<Rightarrow> stakesResponse http" where
  "handleGetPostStakes P r addrStr e =
     (if \<not> isGet r then Fail 405 MethodNotAllowed
      else case ParseAddress P addrStr of
        Inl err \<Rightarrow> Fail 400 (InvalidAddress err)
      | Inr addr \<Rightarrow>
          (let stakes = GetStakesByAddress (eng_State e) addr;
               items = map (\<lambda>ps. \<lparr>sr_PostID = EncodeToString (ps_PostID ps), sr_Amount = ps_Amount ps, sr_Height = ps_Height ps\<rparr>) stakes
           in OK \<lparr>ss_Stakes = items, ss_TotalCount = length items,
                  ss_TotalStaked = foldl (\<lambda>t ps. t + ps_Amount ps) 0 stakes\<rparr>))"

definition handleGetAccount :: "prims \<Rightarrow> Request \<Rightarrow> Engine \<Rightarrow> AccountResponse http" where
  "handleGetAccount P r e =
     (if \<not> isGet r then Fail 405 MethodNotAllowed
      else case ParseAddress P (TrimPrefix (rq_Path r) (go ''/v1/accounts/'')) of
        Inl err \<Rightarrow> Fail 400 (InvalidAddress err)
      | Inr addr \<Rightarrow>
          (case GetAccount (eng_State e) addr of
             None \<Rightarrow> OK \<lparr>ar_Address = Address_String addr, ar_Balance = 0, ar_Nonce = 0, ar_Name = [],
                         ar_StakedBalance = 0, ar_PostStakeBalance = 0\<rparr>
           | Some acct \<Rightarrow> OK (accountResponse acct)))"

definition handleGetUnbonding :: "prims \<Rightarrow> Request \<Rightarrow> bytes \<Rightarrow> Engine \<Rightarrow> UnbondingResponse http" where
  "handleGetUnbonding P r addrStr e =
     (if \<not> isGet r then Fail 405 MethodNotAllowed
      else case ParseAddress P addrStr of
        Inl err \<Rightarrow> Fail 400 (InvalidAddress err)
      | Inr addr \<Rightarrow>
          (let own = filter (\<lambda>u. unb_Address u = addr) (ws_unbondingQueue (eng_State e))
           in OK \<lparr>ur_Address = Address_String addr,
                  ur_Entries = map (\<lambda>u. \<lparr>ue_Amount = unb_Amount u, ue_ReleaseHeight = unb_ReleaseHeight u\<rparr>) own,
                  ur_Total = foldl (\<lambda>t u. t + unb_Amount u) 0 own\<rparr>))"

definition handleGetAccountByName :: "Request \<Rightarrow> Engine \<Rightarrow> AccountResponse http" where
  "handleGetAccountByName r e =
     (if \<not> isGet r then Fail 405 MethodNotAllowed
      else (let name = TrimPrefix (rq_Path r) (go ''/v1/accounts/name/'') in
        if name = [] then Fail 400 MissingName
        else case GetAccountByName (eng_State e) name of
          None \<Rightarrow> Fail 404 NameNotFound
        | Some acct \<Rightarrow> OK (accountResponse acct)))"

text \<open>The three shapes of an account request.\<close>

datatype account_reply =
    AccountStakes "stakesResponse http"
  | AccountUnbonding "UnbondingResponse http"
  | AccountInfo "AccountResponse http"

definition handleAccountRoutes :: "prims \<Rightarrow> Request \<Rightarrow> Engine \<Rightarrow> account_reply" where
  "handleAccountRoutes P r e =
     (let path = TrimPrefix (rq_Path r) (go ''/v1/accounts/'') in
      if HasSuffix path (go ''/unbonding'') then AccountUnbonding (handleGetUnbonding P r (TrimSuffix path (go ''/unbonding'')) e)
      else if HasSuffix path (go ''/post-stakes'')
        then AccountStakes (handleGetPostStakes P r (TrimSuffix path (go ''/post-stakes'')) e)
      else AccountInfo (handleGetAccount P r e))"

section \<open>Posts\<close>

text \<open>The loop over all posts.  The author is only parsed when a post gets that far.\<close>

fun list_filter :: "prims \<Rightarrow> bool \<Rightarrow> bytes \<Rightarrow> bytes \<Rightarrow> Post list \<Rightarrow> (address_error, Post list) result" where
  "list_filter P includeReplies authorFilter channelFilter [] = Inr []"
| "list_filter P includeReplies authorFilter channelFilter (p # ps) =
     (let rest = list_filter P includeReplies authorFilter channelFilter ps;
          by_channel = (if channelFilter \<noteq> [] \<and> post_Channel p \<noteq> channelFilter then rest
                        else bindR rest (\<lambda>qs. Inr (p # qs)))
      in if \<not> includeReplies \<and> post_ParentPostID p \<noteq> zeroPostID then rest
         else if authorFilter \<noteq> []
           then (case ParseAddress P authorFilter of
                   Inl err \<Rightarrow> Inl err
                 | Inr addr \<Rightarrow> if post_Author p \<noteq> addr then rest else by_channel)
         else by_channel)"

definition newer :: "Post \<Rightarrow> Post \<Rightarrow> bool" where
  "newer p q \<longleftrightarrow> post_CreatedAtHeight p > post_CreatedAtHeight q"

definition handleListPosts ::
    "prims \<Rightarrow> ((Post \<Rightarrow> Post \<Rightarrow> bool) \<Rightarrow> Post list \<Rightarrow> Post list) \<Rightarrow> Request \<Rightarrow> Engine \<Rightarrow> PostListResponse http" where
  "handleListPosts P sortSlice r e =
     (let (page, pageSize) = pageParams (rq_Query r (go ''page'')) (rq_Query r (go ''pageSize'')) in
      case list_filter P (rq_Query r (go ''includeReplies'') = go ''true'') (rq_Query r (go ''author''))
             (rq_Query r (go ''channel'')) (AllPosts (eng_State e)) of
        Inl err \<Rightarrow> Fail 400 (InvalidAuthor err)
      | Inr filtered \<Rightarrow>
          (let filtered = sortSlice newer filtered
           in case paginate page pageSize filtered of
                Inl _ \<Rightarrow> Panic
              | Inr posts \<Rightarrow> OK \<lparr>pl_Posts = map postToResponse posts, pl_TotalCount = length filtered,
                                 pl_Page = page, pl_PageSize = pageSize\<rparr>))"

datatype posts_reply = PostList "PostListResponse http" | SinglePost "PostResponse http"

definition handlePosts ::
    "prims \<Rightarrow> ((Post \<Rightarrow> Post \<Rightarrow> bool) \<Rightarrow> Post list \<Rightarrow> Post list) \<Rightarrow> Request \<Rightarrow> Engine \<Rightarrow> posts_reply" where
  "handlePosts P sortSlice r e =
     (let path = TrimPrefix (rq_Path r) (go ''/v1/posts'') in
      if path = [] \<or> path = go ''/''
      then PostList (if isGet r then handleListPosts P sortSlice r e else Fail 405 MethodNotAllowed)
      else SinglePost (if \<not> isGet r then Fail 405 MethodNotAllowed
        else case decode32 (TrimPrefix path (go ''/'')) of
          None \<Rightarrow> Fail 400 InvalidPostID
        | Some postID \<Rightarrow>
            (case GetPost (eng_State e) postID of
               None \<Rightarrow> Fail 404 PostNotFound
             | Some post \<Rightarrow> OK (postToResponse post))))"

section \<open>Transactions\<close>

text \<open>The decoded body of a submission; an absent string is empty.\<close>

record SubmitTxRequest =
  sq_Type :: bytes
  sq_Sender :: bytes
  sq_Recipient :: bytes
  sq_PostID :: bytes
  sq_Text :: bytes
  sq_Channel :: bytes
  sq_ParentPostID :: bytes
  sq_Amount :: u64
  sq_Nonce :: u64
  sq_Signature :: bytes
  sq_PubKey :: bytes

text \<open>The optional fields: an empty string keeps the value that is there.\<close>

definition parseRecipient :: "prims \<Rightarrow> bytes \<Rightarrow> address \<Rightarrow> (rpc_error, address) result" where
  "parseRecipient P s old =
     (if s \<noteq> [] then (case ParseAddress P s of Inl err \<Rightarrow> Inl (InvalidRecipient err) | Inr recip \<Rightarrow> Inr recip) else Inr old)"

definition parsePostID :: "rpc_error \<Rightarrow> bytes \<Rightarrow> postid \<Rightarrow> (rpc_error, postid) result" where
  "parsePostID err s old = (if s \<noteq> [] then (case decode32 s of None \<Rightarrow> Inl err | Some pid \<Rightarrow> Inr pid) else Inr old)"

text \<open>The transaction a request stands for.\<close>

definition requestTx :: "prims \<Rightarrow> SubmitTxRequest \<Rightarrow> (rpc_error, Transaction) result" where
  "requestTx P req =
     (case parseTxType (sq_Type req) of
        None \<Rightarrow> Inl UnknownTxType
      | Some txType \<Rightarrow>
          (let tx = zeroTransaction\<lparr>tx_Type := txType, tx_Amount := sq_Amount req, tx_Nonce := sq_Nonce req,
                      tx_Text := sq_Text req, tx_Channel := sq_Channel req\<rparr> in
           case ParseAddress P (sq_Sender req) of
             Inl err \<Rightarrow> Inl (InvalidSender err)
           | Inr sender \<Rightarrow>
               bindR (parseRecipient P (sq_Recipient req) (tx_Recipient tx)) (\<lambda>recip.
               bindR (parsePostID InvalidPostID (sq_PostID req) (tx_PostID tx)) (\<lambda>pid.
               bindR (parsePostID InvalidParentPostID (sq_ParentPostID req) pid) (\<lambda>pid.
               case DecodeString (sq_Signature req) of
                 Inl _ \<Rightarrow> Inl InvalidSignatureHex
               | Inr sig \<Rightarrow>
                   (case decode32 (sq_PubKey req) of
                      None \<Rightarrow> Inl InvalidPubKey
                    | Some pk \<Rightarrow> Inr (tx\<lparr>tx_Sender := sender, tx_Recipient := recip, tx_PostID := pid,
                                        tx_Signature := sig, tx_PubKey := pk\<rparr>)))))))"

text \<open>\<open>body\<close> is what \<^verbatim>\<open>json.Decode\<close> makes of the request, \<open>None\<close> for its error.  The engine never returns an error.\<close>

definition handleSubmitTransaction ::
    "prims \<Rightarrow> SubmitTxRequest option \<Rightarrow> Engine \<Rightarrow> GoSubmitTxResponse http \<times> Engine" where
  "handleSubmitTransaction P body e =
     (case body of
        None \<Rightarrow> (Fail 400 InvalidBody, e)
      | Some req \<Rightarrow>
          (case requestTx P req of
             Inl err \<Rightarrow> (Fail 400 err, e)
           | Inr tx \<Rightarrow>
               (let (resp, e') = OnSubmitTx P (TxToProto tx) e
                in (OK \<lparr>gsr_Accepted = (case resp of Inr _ \<Rightarrow> True | Inl _ \<Rightarrow> False),
                        gsr_TxHash = EncodeToString (Transaction_Hash P tx),
                        gsr_Error = (case resp of Inr _ \<Rightarrow> None | Inl err \<Rightarrow> Some err)\<rparr>, e'))))"

definition handleGetTransaction :: "prims \<Rightarrow> bytes \<Rightarrow> Engine \<Rightarrow> TransactionResponse http" where
  "handleGetTransaction P hashStr e =
     (case decode32 hashStr of
        None \<Rightarrow> Fail 400 InvalidTxHash
      | Some txHash \<Rightarrow>
          (case GetTransaction P (eng_BlockStore e) txHash of
             None \<Rightarrow> Fail 404 TransactionNotFound
           | Some (tx, blockHeight) \<Rightarrow> OK (txToResponse P tx blockHeight)))"

definition handleGetTransactionStatus :: "prims \<Rightarrow> bytes \<Rightarrow> Engine \<Rightarrow> TxStatusResponse http" where
  "handleGetTransactionStatus P hashStr e =
     (case decode32 hashStr of
        None \<Rightarrow> Fail 400 InvalidTxHash
      | Some txHash \<Rightarrow>
          OK \<lparr>ts_Hash = hashStr,
              ts_Status = (case GetTransaction P (eng_BlockStore e) txHash of
                 Some (_, blockHeight) \<Rightarrow> Confirmed blockHeight
               | None \<Rightarrow> if Mempool_Has txHash (eng_Mempool e) then Pending else Unknown)\<rparr>)"

datatype transactions_reply =
    TxSubmit "GoSubmitTxResponse http"
  | TxStatusReply "TxStatusResponse http"
  | TxReply "TransactionResponse http"

definition handleTransactions ::
    "prims \<Rightarrow> Request \<Rightarrow> SubmitTxRequest option \<Rightarrow> Engine \<Rightarrow> transactions_reply \<times> Engine" where
  "handleTransactions P r body e =
     (let path = TrimPrefix (rq_Path r) (go ''/v1/transactions'') in
      if (path = [] \<or> path = go ''/'') \<and> rq_Method r = go ''POST''
      then (let (resp, e') = handleSubmitTransaction P body e in (TxSubmit resp, e'))
      else if \<not> isGet r then (TxReply (Fail 405 MethodNotAllowed), e)
      else if HasSuffix path (go ''/status'')
      then (TxStatusReply (handleGetTransactionStatus P (TrimSuffix (TrimPrefix path (go ''/'')) (go ''/status'')) e), e)
      else (TxReply (handleGetTransaction P (TrimPrefix path (go ''/'')) e), e))"

definition handleMempoolPending :: "prims \<Rightarrow> Request \<Rightarrow> Engine \<Rightarrow> MempoolResponse http" where
  "handleMempoolPending P r e =
     (if \<not> isGet r then Fail 405 MethodNotAllowed
      else (let senderFilter = rq_Query r (go ''sender'');
                reply = (\<lambda>keep. let txs = take 100 (filter keep (Mempool_Pending (eng_Mempool e)))
                  in OK \<lparr>mr_Transactions = map (\<lambda>tx. txToResponse P tx 0) txs, mr_Count = length txs\<rparr>)
            in if senderFilter \<noteq> []
               then (case ParseAddress P senderFilter of
                       Inl err \<Rightarrow> Fail 400 (InvalidSender err)
                     | Inr addr \<Rightarrow> reply (\<lambda>tx. tx_Sender tx = addr))
               else reply (\<lambda>tx. True)))"

section \<open>Network\<close>

definition handleListValidators :: "Request \<Rightarrow> Engine \<Rightarrow> ValidatorResponse list http" where
  "handleListValidators r e =
     (if \<not> isGet r then Fail 405 MethodNotAllowed
      else OK (map (\<lambda>v. \<lparr>vr_Address = Address_String (val_Address v),
          vr_Name = (case GetAccount (eng_State e) (val_Address v) of Some acct \<Rightarrow> acc_Name acct | None \<Rightarrow> []),
          vr_PubKey = EncodeToString (val_PubKey v), vr_StakedBalance = val_StakedBalance v\<rparr>)
        (ws_activeValidators (eng_State e))))"

section \<open>The status of a transaction\<close>

lemma decode32_Encode [simp]: "length h = 32 \<Longrightarrow> decode32 (EncodeToString h) = Some h"
  by (simp add: decode32_def)

lemma length_tx_hash: "sha256_len P \<Longrightarrow> length (Transaction_Hash P tx) = 32"
  by (simp add: Transaction_Hash_def Sum256_def sha256_len_def Let_def)

lemma committed_lookup:
  assumes "commitBlock P IoOk b w e = (Inr (), e')" "tx \<in> set (blk_Transactions b)"
  shows "\<exists>t. GetTransaction P (eng_BlockStore e') (Transaction_Hash P tx) = Some (t, hdr_Height (blk_Header b))"
proof -
  have db: "eng_BlockStore e' = SaveBlock P b (eng_BlockStore e)" using assms(1) by (auto simp: commitBlock_def Let_def)
  obtain t where "find (\<lambda>t. Transaction_Hash P t = Transaction_Hash P tx) (blk_Transactions b) = Some t"
    using assms(2) by (cases "find (\<lambda>t. Transaction_Hash P t = Transaction_Hash P tx) (blk_Transactions b)")
      (auto simp: find_None_iff)
  then show ?thesis using assms(2) by (simp add: db GetTransaction_def SaveBlock_get)
qed

lemma accepted_in_pool:
  assumes "requestTx P req = Inr tx" "tx_sizes tx" "handleSubmitTransaction P (Some req) e = (OK resp, e')" "gsr_Accepted resp"
  shows "gsr_TxHash resp = EncodeToString (Transaction_Hash P tx)" "Mempool_Has (Transaction_Hash P tx) (eng_Mempool e')"
    "eng_BlockStore e' = eng_BlockStore e"
proof -
  show hash: "gsr_TxHash resp = EncodeToString (Transaction_Hash P tx)"
    using assms(1,3) by (auto simp: handleSubmitTransaction_def split: prod.splits)
  obtain u where sub: "OnSubmitTx P (TxToProto tx) e = (Inr u, e')"
    using assms by (auto simp: handleSubmitTransaction_def split: prod.splits sum.splits)
  then obtain mp where mp: "Mempool_Add P (Some (GetAccount (eng_State e))) tx (eng_Mempool e) = Inr mp" "e' = e\<lparr>eng_Mempool := mp\<rparr>"
    using Tx_wire [OF assms(2)] by (auto simp: OnSubmitTx_def split: sum.splits)
  then show "Mempool_Has (Transaction_Hash P tx) (eng_Mempool e')" "eng_BlockStore e' = eng_BlockStore e"
    by (auto simp: Mempool_Add_def Mempool_Has_def bindR_eq_Inr Let_def split: if_splits)
qed

lemma decode32_length: "decode32 s = Some b \<Longrightarrow> length b = 32"
  by (auto simp: decode32_def split: sum.splits if_splits)

lemma parseRecipient_length: "parseRecipient P s old = Inr a \<Longrightarrow> length old = 24 \<Longrightarrow> length a = 24"
  by (auto simp: parseRecipient_def split: if_splits sum.splits dest: ParseAddress_Inr)

lemma parsePostID_length: "parsePostID err s old = Inr i \<Longrightarrow> length old = 32 \<Longrightarrow> length i = 32"
  by (auto simp: parsePostID_def split: if_splits option.splits dest: decode32_length)

lemma requestTx_sizes:
  assumes "requestTx P req = Inr tx"
  shows "tx_sizes tx"
proof -
  obtain sender recip pid pid' pk where parts: "ParseAddress P (sq_Sender req) = Inr sender"
    "parseRecipient P (sq_Recipient req) zeroAddress = Inr recip" "parsePostID InvalidPostID (sq_PostID req) zeroPostID = Inr pid"
    "parsePostID InvalidParentPostID (sq_ParentPostID req) pid = Inr pid'" "decode32 (sq_PubKey req) = Some pk"
    and tx: "tx_Sender tx = sender" "tx_Recipient tx = recip" "tx_PostID tx = pid'" "tx_PubKey tx = pk"
    using assms by (cases "DecodeString (sq_Signature req)"; cases "decode32 (sq_PubKey req)")
      (auto simp: requestTx_def zeroTransaction_def bindR_eq_Inr Let_def split: option.split_asm sum.split_asm)
  have "length pid = 32" by (rule parsePostID_length [OF parts(3)]) (simp add: zeroPostID_def)
  then show ?thesis
    using ParseAddress_Inr [OF parts(1)] parseRecipient_length [OF parts(2)] parsePostID_length [OF parts(4)]
      decode32_length [OF parts(5)] by (simp add: tx_sizes_def tx zeroAddress_def)
qed

lemma mget_mdel: "mget (mdel a es) k = (if k = a then None else mget es k)"
  by (simp add: delete_conv')

lemma fold_mdel_get: "k \<in> set ks \<or> mget es k = None \<Longrightarrow> mget (fold mdel ks es) k = None"
  by (induction ks arbitrary: es) (auto simp: mget_mdel)

lemma committed_leaves_pool:
  assumes "commitBlock P IoOk b w e = (Inr (), e')" "tx \<in> set (blk_Transactions b)"
  shows "\<not> Mempool_Has (Transaction_Hash P tx) (eng_Mempool e')"
proof -
  have "mget (fold mdel (map (Transaction_Hash P) (blk_Transactions b)) (mp_txs (eng_Mempool e))) (Transaction_Hash P tx) = None"
    using assms(2) by (intro fold_mdel_get) simp
  then have "mget (filter Q (fold mdel (map (Transaction_Hash P) (blk_Transactions b)) (mp_txs (eng_Mempool e)))) (Transaction_Hash P tx) = None" for Q
    by (auto simp: map_of_eq_None_iff)
  then show ?thesis
    using assms(1) by (auto simp: commitBlock_def Let_def Mempool_Has_def EvictStale_def Mempool_Remove_def)
qed

text \<open>
  C19: what the status query tells about a transaction that was submitted over HTTP and accepted: it is pending
  right away under the hash in the response, and once any node commits a block with it, that node reports it as
  confirmed at the height of the block and no longer keeps it in its pool.
\<close>

theorem tx_status_lifecycle:
  assumes "sha256_len P" "requestTx P req = Inr tx" "handleSubmitTransaction P (Some req) e = (OK resp, e1)" "gsr_Accepted resp"
    "GetTransaction P (eng_BlockStore e) (Transaction_Hash P tx) = None"
    "commitBlock P IoOk b w e2 = (Inr (), e3)" "tx \<in> set (blk_Transactions b)"
  shows "handleGetTransactionStatus P (gsr_TxHash resp) e1 = OK \<lparr>ts_Hash = gsr_TxHash resp, ts_Status = Pending\<rparr>
    \<and> handleGetTransactionStatus P (gsr_TxHash resp) e3
        = OK \<lparr>ts_Hash = gsr_TxHash resp, ts_Status = Confirmed (hdr_Height (blk_Header b))\<rparr>
    \<and> \<not> Mempool_Has (Transaction_Hash P tx) (eng_Mempool e3)"
proof -
  note pool = accepted_in_pool [OF assms(2) requestTx_sizes [OF assms(2)] assms(3,4)]
  obtain t where "GetTransaction P (eng_BlockStore e3) (Transaction_Hash P tx) = Some (t, hdr_Height (blk_Header b))"
    using committed_lookup [OF assms(6,7)] by blast
  then show ?thesis
    using pool assms(5) length_tx_hash [OF assms(1)] committed_leaves_pool [OF assms(6,7)]
    by (simp add: handleGetTransactionStatus_def)
qed

text \<open>A transfer sent to a fresh node, and a block with it.\<close>

definition rpc_tx :: Transaction where
  "rpc_tx = chain_tx TxTransfer 1 (chain_addr 2) zeroPostID [] 200 1"

definition rpc_request :: SubmitTxRequest where
  "rpc_request = \<lparr>sq_Type = go ''transfer'', sq_Sender = Address_String (chain_addr 1), sq_Recipient = Address_String (chain_addr 2),
     sq_PostID = [], sq_Text = [], sq_Channel = [], sq_ParentPostID = [], sq_Amount = 200, sq_Nonce = 1,
     sq_Signature = EncodeToString (chain_key 1 @ chain_key 1), sq_PubKey = EncodeToString (chain_key 1)\<rparr>"

definition rpc_node :: Engine where
  "rpc_node = NewEngine chain_params [] [] (chain_addr 1) chain_ws0 (Mempool_New 10) [] []"

definition rpc_hash :: bytes where
  "rpc_hash = EncodeToString (Transaction_Hash chain_prims rpc_tx)"

definition rpc_submitted :: Engine where
  "rpc_submitted = snd (handleSubmitTransaction chain_prims (Some rpc_request) rpc_node)"

theorem tx_status_lifecycle_witness:
  "handleGetTransactionStatus chain_prims rpc_hash rpc_submitted = OK \<lparr>ts_Hash = rpc_hash, ts_Status = Pending\<rparr>
   \<and> handleGetTransactionStatus chain_prims rpc_hash (snd (commitBlock chain_prims IoOk (chain_block 1 [rpc_tx]) chain_ws0 rpc_submitted))
       = OK \<lparr>ts_Hash = rpc_hash, ts_Status = Confirmed 1\<rparr>"
proof -
  have len: "sha256_len chain_prims" unfolding sha256_len_def chain_prims_def by (simp add: length_drop) arith
  have req: "requestTx chain_prims rpc_request = Inr rpc_tx" by code_simp
  have "fst (handleSubmitTransaction chain_prims (Some rpc_request) rpc_node)
      = OK \<lparr>gsr_Accepted = True, gsr_TxHash = rpc_hash, gsr_Error = None\<rparr>" by code_simp
  then have sub: "handleSubmitTransaction chain_prims (Some rpc_request) rpc_node
      = (OK \<lparr>gsr_Accepted = True, gsr_TxHash = rpc_hash, gsr_Error = None\<rparr>, rpc_submitted)"
    by (metis prod.collapse rpc_submitted_def)
  have none: "GetTransaction chain_prims (eng_BlockStore rpc_node) (Transaction_Hash chain_prims rpc_tx) = None"
    by (simp add: GetTransaction_def rpc_node_def NewEngine_def)
  define e3 where "e3 = snd (commitBlock chain_prims IoOk (chain_block 1 [rpc_tx]) chain_ws0 rpc_submitted)"
  have "commitBlock chain_prims IoOk (chain_block 1 [rpc_tx]) chain_ws0 rpc_submitted = (Inr (), e3)"
    by (simp add: e3_def commitBlock_def Let_def)
  from tx_status_lifecycle [OF len req sub _ none this] show ?thesis unfolding e3_def [symmetric]
    by (simp add: chain_block_def)
qed

end
