(* ===== verification/Submission.thy ===== *)
theory Submission
  imports Rpc Agreement WalletContext Browsing
begin

text \<open>
  From the wallet to the pool: the request that \<^verbatim>\<open>signAndSubmit\<close> of the application posts, read by the node's
  \<^verbatim>\<open>handleSubmitTransaction\<close>.
\<close>

section \<open>The request on the other side\<close>

text \<open>
  What \<^verbatim>\<open>encoding/json\<close> decodes from the object the application prints: strings as UTF-8, absent members as empty
  strings, and the two fields tagged \<^verbatim>\<open>string\<close> as decimal numbers.
\<close>

definition decodeSubmit :: "JsSubmitTxRequest \<Rightarrow> SubmitTxRequest option" where
  "decodeSubmit r =
     (case (ParseUint (TextEncoder_encode (jr_amount r)), ParseUint (TextEncoder_encode (jr_nonce r))) of
        (Some amount, Some nonce) \<Rightarrow> Some
          \<lparr>sq_Type = TextEncoder_encode (jr_type r), sq_Sender = TextEncoder_encode (jr_sender r),
           sq_Recipient = TextEncoder_encode (or_empty (jr_recipient r)), sq_PostID = TextEncoder_encode (or_empty (jr_postId r)),
           sq_Text = TextEncoder_encode (or_empty (jr_text r)), sq_Channel = TextEncoder_encode (or_empty (jr_channel r)),
           sq_ParentPostID = [], sq_Amount = amount, sq_Nonce = nonce,
           sq_Signature = TextEncoder_encode (jr_signature r), sq_PubKey = TextEncoder_encode (jr_pubKey r)\<rparr>
      | _ \<Rightarrow> None)"

lemma or_empty_undefined [simp]: "or_empty (or_undefined s) = s"
  by (simp add: or_empty_def or_undefined_def)

lemma ucast_twice: "ucast (ucast b :: u16) = b" for b :: byte
  by (rule unsigned_word_eqI) (simp add: unsigned_ucast_eq take_bit_word_eq_self)

lemma encode_widen: "list_all (\<lambda>b. unat b < 128) bs \<Longrightarrow> TextEncoder_encode (widen bs) = bs"
proof -
  assume a: "list_all (\<lambda>b. unat b < 128) bs"
  have u: "unat (ucast b :: u16) = unat b" for b :: byte
    using unsigned_less [of b, where ?'a = nat] by (simp add: unsigned_ucast_eq take_bit_nat_eq_self)
  then have "list_all (\<lambda>c. unat c < 128) (widen bs)" using a by (simp add: widen_def list_all_iff)
  then have "TextEncoder_encode (widen bs) = map ucast (widen bs)" by (rule TextEncoder_encode_ascii)
  also have "\<dots> = bs" by (simp add: widen_def comp_def ucast_twice)
  finally show ?thesis .
qed

lemma TextEncoder_encode_Nil: "TextEncoder_encode [] = []"
  using encode_widen [of "[]"] by (simp add: widen_def)

lemma hex_ascii: "list_all (\<lambda>b. unat b < 128) (EncodeToString bs)"
proof (induction bs)
  case (Cons b bs)
  have "unat (hex_char n) < 128" if "n < 16" for n
    using that by (simp add: hex_char_def unat_of_nat)
  moreover have "unat b div 16 < 16" "unat b mod 16 < 16" using unsigned_less [of b, where ?'a = nat] by simp_all
  ultimately show ?case using Cons by simp
qed simp

lemma encode_toHex: "TextEncoder_encode (toHex bs) = EncodeToString bs"
  using encode_widen [OF hex_ascii, of bs] by (simp add: widen_Encode)

lemma encode_app_address: "TextEncoder_encode (app_address a) = Address_String a"
proof -
  have "list_all (\<lambda>b. unat b < 128) (Address_String a)"
    using hex_ascii [of a] by (simp add: Address_String_def AddressPrefix_def go_def)
  from encode_widen [OF this] show ?thesis by (simp add: widen_Address_String)
qed

lemma ParseUint_digits:
  assumes "n < 2 ^ 64"
  shows "ParseUint (TextEncoder_encode (dec_digits n)) = Some (of_nat n)"
proof -
  define bs :: bytes where "bs = map ucast (dec_digits n)"
  have enc: "TextEncoder_encode (dec_digits n) = bs"
    unfolding bs_def by (rule TextEncoder_encode_ascii [OF dec_digits_ascii])
  have dig: "list_all ascii_digit bs"
    using is_digit_dec_digits [of _ n] unat_ucast_ascii
    by (fastforce simp: bs_def list_all_iff ascii_digit_def is_digit_def)
  have "bs \<noteq> []" by (simp add: bs_def dec_digits_nonempty)
  moreover have "digits_val bs = int n"
    using digits_val_ucast [of "dec_digits n" 0] is_digit_dec_digits [of _ n]
    by (simp add: digits_val_def bs_def list_all_iff dec_val_def [symmetric] dec_val_dec_digits)
  ultimately show ?thesis using assms dig by (simp add: enc ParseUint_def)
qed

lemma ParseUint_app:
  assumes "unat v < 2 ^ 53"
  shows "ParseUint (TextEncoder_encode (js_String fmt (app_number v))) = Some v"
  using js_String_safe [OF assms, of fmt] ParseUint_digits [of "unat v"] assms
  by (simp add: app_number_def)

text \<open>The names of the transaction types are the same on both sides.\<close>

lemma type_name_small:
  assumes "1 \<le> n" "n < 8"
  shows "txTypeName (Num (of_nat n)) = txTypeNames ! n"
proof -
  have "rat_is_int (of_nat n)" using rat_is_int_of_int [of "int n"] by simp
  moreover have "txTypeNames ! n \<noteq> []" if "n \<in> {1, 2, 3, 4, 5, 6, 7}" using that by (auto simp: txTypeNames_def js_def)
  moreover have "n \<in> {1, 2, 3, 4, 5, 6, 7}" using assms by auto
  ultimately show ?thesis using assms by (simp add: txTypeName_def txTypeNames_def)
qed

lemma type_names_agree:
  assumes "t \<in> {TxTransfer, TxCreatePost, TxBoostPost, TxRegisterName, TxStake, TxUnstake, TxUnstakePost}"
  shows "parseTxType (TextEncoder_encode (txTypeName (Num (of_nat (unat t))))) = Some t"
proof -
  have js: "TextEncoder_encode (js str) = go str" if "list_all (\<lambda>c. of_char c < (128 :: nat)) str" for str
  proof -
    have "list_all (\<lambda>b. unat b < 128) (go str)"
      using that by (auto simp: go_def list_all_iff unat_of_nat)
    from encode_widen [OF this] show ?thesis by (simp add: widen_go)
  qed
  have "parseTxType (TextEncoder_encode (txTypeNames ! unat t)) = Some t"
    using assms by (auto simp: txTypeNames_def js parseTxType_def go_def)
  moreover have "1 \<le> unat t" "unat t < 8" using assms by auto
  ultimately show ?thesis using type_name_small [of "unat t"] by (simp only:)
qed

section \<open>A submission arrives\<close>

text \<open>Both optional fields: what the application leaves out is zero in the transaction.\<close>

lemma recipient_arrives:
  assumes "app_field app_address a s" "length a = 24" "s = [] \<or> Address_Validate P a = Inr ()"
  shows "parseRecipient P (TextEncoder_encode s) zeroAddress = Inr a"
proof (cases "s = []")
  case True
  have "app_address a \<noteq> []" by (simp add: app_address_def js_def)
  with True assms(1,2) have "a = zeroAddress" by (auto simp: app_field_def zeroAddress_def)
  then show ?thesis using True by (simp add: parseRecipient_def TextEncoder_encode_Nil)
next
  case False
  then have "s = app_address a" using assms(1) by (simp add: app_field_def)
  moreover have "Address_String a \<noteq> []" by (simp add: Address_String_def AddressPrefix_def go_def)
  ultimately show ?thesis using assms(2,3) False ParseAddress_String [of a P] by (simp add: parseRecipient_def encode_app_address)
qed

lemma postid_arrives:
  assumes "app_field toHex i s" "length i = 32"
  shows "parsePostID err (TextEncoder_encode s) zeroPostID = Inr i"
proof (cases "s = []")
  case True
  have "toHex i \<noteq> []" using assms(2) length_toHex [of i] by (metis list.size(3) mult_is_0 zero_neq_numeral)
  with True assms have "i = zeroPostID" by (auto simp: app_field_def zeroPostID_def)
  then show ?thesis using True by (simp add: parsePostID_def TextEncoder_encode_Nil)
next
  case False
  then have "s = toHex i" using assms(1) by (simp add: app_field_def)
  moreover have "EncodeToString i \<noteq> []" using assms(2) by auto
  ultimately show ?thesis using assms(2) by (simp add: parsePostID_def encode_toHex)
qed

lemma request_arrives:
  assumes "wf_tx tx" "describes s tx" "unat (tx_Amount tx) < 2 ^ 53" "unat (tx_Nonce tx) < 2 ^ 53"
    "tx_Type tx \<in> {TxTransfer, TxCreatePost, TxBoostPost, TxRegisterName, TxStake, TxUnstake, TxUnstakePost}"
    "Address_Validate P (tx_Sender tx) = Inr ()" "st_recipient s = [] \<or> Address_Validate P (tx_Recipient tx) = Inr ()"
  shows "\<exists>req. decodeSubmit (submit_request fmt s (tx_Signature tx)) = Some req \<and> requestTx P req = Inr tx"
proof -
  define req where "req = \<lparr>sq_Type = TextEncoder_encode (txTypeName (st_type s)), sq_Sender = Address_String (tx_Sender tx),
    sq_Recipient = TextEncoder_encode (st_recipient s), sq_PostID = TextEncoder_encode (st_postId s),
    sq_Text = tx_Text tx, sq_Channel = tx_Channel tx, sq_ParentPostID = [], sq_Amount = tx_Amount tx, sq_Nonce = tx_Nonce tx,
    sq_Signature = EncodeToString (tx_Signature tx), sq_PubKey = EncodeToString (tx_PubKey tx)\<rparr>"
  have d: "st_type s = Num (of_nat (unat (tx_Type tx)))" "st_sender s = app_address (tx_Sender tx)"
    "app_field app_address (tx_Recipient tx) (st_recipient s)" "app_field toHex (tx_PostID tx) (st_postId s)"
    "TextEncoder_encode (st_text s) = tx_Text tx" "TextEncoder_encode (st_channel s) = tx_Channel tx"
    "st_amount s = app_number (tx_Amount tx)" "st_nonce s = app_number (tx_Nonce tx)" "st_pubKey s = toHex (tx_PubKey tx)"
    using assms(2) unfolding describes_def by blast+
  have l: "length (tx_Sender tx) = 24" "length (tx_Recipient tx) = 24" "length (tx_PostID tx) = 32" "length (tx_PubKey tx) = 32"
    using assms(1) by (simp_all add: wf_tx_def)
  have "decodeSubmit (submit_request fmt s (tx_Signature tx)) = Some req"
    unfolding decodeSubmit_def submit_request_def req_def
    by (simp add: d(2,5,6,7,8,9) ParseUint_app [OF assms(3)] ParseUint_app [OF assms(4)] encode_app_address encode_toHex)
  moreover have "parseTxType (sq_Type req) = Some (tx_Type tx)"
    using type_names_agree [OF assms(5)] by (simp add: req_def d(1) del: of_nat_unat)
  then have "requestTx P req = Inr tx"
    using recipient_arrives [OF d(3) l(2) assms(7)] postid_arrives [OF d(4) l(3)] ParseAddress_String [OF l(1) assms(6)] l(4)
    by (cases tx) (simp add: requestTx_def req_def zeroTransaction_def parsePostID_def [of _ "[]"] bindR_def Let_def)
  ultimately show ?thesis by blast
qed

lemma submit_accepted:
  assumes "tx_sizes tx" "AddressFromPublicKey P (tx_PubKey tx) = tx_Sender tx"
    "Verify P (tx_PubKey tx) (SignableBytes tx) (tx_Signature tx)"
  shows "fst (OnSubmitTx P (TxToProto tx) e) = Inr () \<longleftrightarrow> checkState tx (Some (GetAccount (eng_State e))) = Inr ()
    \<and> \<not> Mempool_Has (Transaction_Hash P tx) (eng_Mempool e) \<and> Mempool_Size (eng_Mempool e) < mp_maxSize (eng_Mempool e)"
proof -
  have "Mempool_Add P sc tx m = bindR (checkState tx sc) (\<lambda>_.
      if Mempool_Has (Transaction_Hash P tx) m then Inl PoolDuplicate
      else if mp_maxSize m \<le> Mempool_Size m then Inl PoolFull
      else Inr (m\<lparr>mp_txs := mput (Transaction_Hash P tx) tx (mp_txs m)\<rparr>))" for sc m
    using assms(2,3) by (simp add: Mempool_Add_def Mempool_Has_def Mempool_Size_def Let_def)
  then show ?thesis
    by (cases "checkState tx (Some (GetAccount (eng_State e)))") (simp_all add: OnSubmitTx_def Tx_wire [OF assms(1)] bindR_def)
qed

end
