(* ===== verification/EndToEnd.thy ===== *)
theory EndToEnd
  imports Submission
begin

text \<open>
  The whole way of a transaction, from \<^verbatim>\<open>signAndSubmit\<close> of the application to the pool of the node: the wallet asks
  the node for the account, counts its nonce up, signs and posts; the node reads the request and adds it.
\<close>

section \<open>The account query\<close>

text \<open>
  What \<^verbatim>\<open>encoding/json\<close> writes for the response: 64-bit numbers as strings, an empty name not at all.  A name is ASCII.
\<close>

definition accountJSON :: "AccountResponse \<Rightarrow> json" where
  "accountJSON r = JObj
     ([(js ''address'', JStr (widen (ar_Address r))), (js ''balance'', JStr (dec_digits (unat (ar_Balance r)))),
       (js ''nonce'', JStr (dec_digits (unat (ar_Nonce r))))]
      @ (if ar_Name r = [] then [] else [(js ''name'', JStr (widen (ar_Name r)))])
      @ [(js ''stakedBalance'', JStr (dec_digits (unat (ar_StakedBalance r)))),
         (js ''postStakeBalance'', JStr (dec_digits (unat (ar_PostStakeBalance r))))])"

text \<open>The browser's \<^verbatim>\<open>fetch\<close> reaches a node in state \<open>e\<close>: its answer is the text of the handler's response.\<close>

definition serves_account :: "prims \<Rightarrow> Engine \<Rightarrow> jsstring option \<Rightarrow> fetch \<Rightarrow> jsstring \<Rightarrow> bool" where
  "serves_account P e env fetch addr \<longleftrightarrow> (\<exists>res t resp.
     fetch (NODE_RPC env @ getAccount_path addr) = Inr res \<and> res_ok res \<and> res_text res = Inr t
     \<and> handleGetAccount P \<lparr>rq_Method = go ''GET'', rq_Path = TextEncoder_encode (getAccount_path addr), rq_Query = (\<lambda>_. [])\<rparr> e = OK resp
     \<and> JSON_parse t = Inr (accountJSON resp))"

text \<open>The counters of an account that a double can hold.\<close>

definition safe_account :: "Account \<Rightarrow> bool" where
  "safe_account a \<longleftrightarrow> unat (acc_Balance a) < 2 ^ 53 \<and> unat (acc_Nonce a) + 1 < 2 ^ 53 \<and> unat (acc_StakedBalance a) < 2 ^ 53
     \<and> unat (acc_PostStakeBalance a) < 2 ^ 53"

lemma js_keys: "js ''address'' \<noteq> js ''balance''" "js ''address'' \<noteq> js ''nonce''" "js ''balance'' \<noteq> js ''nonce''"
  "js ''address'' \<noteq> js ''name''" "js ''balance'' \<noteq> js ''name''" "js ''nonce'' \<noteq> js ''name''"
  "js ''stakedBalance'' \<noteq> js ''address''" "js ''stakedBalance'' \<noteq> js ''balance''" "js ''stakedBalance'' \<noteq> js ''nonce''"
  "js ''stakedBalance'' \<noteq> js ''name''" "js ''postStakeBalance'' \<noteq> js ''address''" "js ''postStakeBalance'' \<noteq> js ''balance''"
  "js ''postStakeBalance'' \<noteq> js ''nonce''" "js ''postStakeBalance'' \<noteq> js ''name''" "js ''postStakeBalance'' \<noteq> js ''stakedBalance''"
  by (simp_all add: js_def)

lemma counter_revived:
  assumes "unat (v :: u64) < 2 ^ 53"
  shows "json_revive numericReviver k (JStr (dec_digits (unat v))) = JNum (app_number v)"
  using numericReviver_digits [of "unat v" k] assms by (simp add: app_number_def)

lemma account_of_revived:
  assumes "unat (ar_Balance r) < 2 ^ 53" "unat (ar_Nonce r) < 2 ^ 53" "unat (ar_StakedBalance r) < 2 ^ 53" "unat (ar_PostStakeBalance r) < 2 ^ 53"
  shows "\<exists>a. account_of_json (json_revive numericReviver k (accountJSON r)) = Some a \<and> ja_nonce a = app_number (ar_Nonce r)
    \<and> ja_balance a = app_number (ar_Balance r)"
  unfolding account_of_json_def json_num_def accountJSON_def json_get_revive
  by (simp add: js_keys js_keys [symmetric] counter_revived assms [THEN counter_revived] del: json_revive.simps)

lemma account_path: "TextEncoder_encode (getAccount_path (app_address a)) = go ''/v1/accounts/'' @ Address_String a"
proof -
  have p: "getAccount_path (app_address a) = widen (go ''/v1/accounts/'' @ Address_String a)"
    using widen_go [of "''/v1/accounts/''"] widen_Address_String [of a] by (simp add: getAccount_path_def widen_def)
  have "list_all (\<lambda>b. unat b < 128) (go ''/v1/accounts/'' @ Address_String a)"
    using hex_ascii [of a] by (simp add: Address_String_def AddressPrefix_def go_def)
  from encode_widen [OF this] show ?thesis by (simp add: p)
qed

lemma wallet_reads_account:
  assumes "serves_account P e env fetch (app_address a)" "length a = 24" "Address_Validate P a = Inr ()"
    "GetAccount (eng_State e) a = Some acct" "safe_account acct"
  shows "\<exists>ja. getAccount fmt env fetch (app_address a) = Inr ja \<and> ja_nonce ja = app_number (acc_Nonce acct)"
proof -
  obtain res t resp where s: "fetch (NODE_RPC env @ getAccount_path (app_address a)) = Inr res" "res_ok res" "res_text res = Inr t"
    "JSON_parse t = Inr (accountJSON resp)"
    and h: "handleGetAccount P \<lparr>rq_Method = go ''GET'', rq_Path = TextEncoder_encode (getAccount_path (app_address a)), rq_Query = (\<lambda>_. [])\<rparr> e = OK resp"
    using assms(1) unfolding serves_account_def by blast
  have "resp = accountResponse acct"
    using h assms(4) ParseAddress_String [OF assms(2,3)] by (simp add: account_path handleGetAccount_def isGet_def TrimPrefix_def)
  then have "unat (ar_Balance resp) < 2 ^ 53" "unat (ar_Nonce resp) < 2 ^ 53" "unat (ar_StakedBalance resp) < 2 ^ 53"
    "unat (ar_PostStakeBalance resp) < 2 ^ 53" and n: "ar_Nonce resp = acc_Nonce acct"
    using assms(5) by (simp_all add: accountResponse_def safe_account_def)
  from account_of_revived [OF this(1-4), of "[]"] obtain ja
    where "account_of_json (json_revive numericReviver [] (accountJSON resp)) = Some ja" "ja_nonce ja = app_number (acc_Nonce acct)"
    using n by auto
  then show ?thesis using s by (simp add: getAccount_def node_get_def http_get_def JSON_parse_revive_def bindR_def)
qed

section \<open>The transaction a form asks for\<close>

text \<open>\<open>utx\<close> is what a form passes to \<^verbatim>\<open>signAndSubmit\<close>; the transaction it means, with the next nonce and a signature.\<close>

definition means :: "prims \<Rightarrow> UnsignedTx \<Rightarrow> Transaction \<Rightarrow> bool" where
  "means P utx tx \<longleftrightarrow> ut_type utx = Num (of_nat (unat (tx_Type tx)))
     \<and> tx_Type tx \<in> {TxTransfer, TxCreatePost, TxBoostPost, TxRegisterName, TxStake, TxUnstake, TxUnstakePost}
     \<and> app_field app_address (tx_Recipient tx) (or_empty (ut_recipient utx))
     \<and> (or_empty (ut_recipient utx) = [] \<or> Address_Validate P (tx_Recipient tx) = Inr ())
     \<and> app_field toHex (tx_PostID tx) (or_empty (ut_postId utx))
     \<and> TextEncoder_encode (or_empty (ut_text utx)) = tx_Text tx \<and> TextEncoder_encode (or_empty (ut_channel utx)) = tx_Channel tx
     \<and> ut_amount utx = app_number (tx_Amount tx) \<and> unat (tx_Amount tx) < 2 ^ 53 \<and> wf_tx tx"

definition signed_by :: "js_prims \<Rightarrow> prims \<Rightarrow> bytes \<Rightarrow> u64 \<Rightarrow> Transaction \<Rightarrow> Transaction" where
  "signed_by Q P key nonce tx =
     (let tx = tx\<lparr>tx_Sender := AddressFromPublicKey P (drop 32 key), tx_Nonce := nonce, tx_PubKey := drop 32 key\<rparr>
      in tx\<lparr>tx_Signature := sign Q key (SignableBytes tx)\<rparr>)"

text \<open>The node verifies what the wallet signs: both sides implement Ed25519.\<close>

definition same_ed25519 :: "js_prims \<Rightarrow> prims \<Rightarrow> bytes \<Rightarrow> bool" where
  "same_ed25519 Q P key \<longleftrightarrow> (\<forall>m. Verify P (drop 32 key) m (sign Q key m))"

lemma SignableBytes_signature [simp]: "SignableBytes (tx\<lparr>tx_Signature := s\<rparr>) = SignableBytes tx"
  by (simp add: SignableBytes_eq)

lemma signed_by_fields:
  "tx_Sender (signed_by Q P key n tx) = AddressFromPublicKey P (drop 32 key)" "tx_Nonce (signed_by Q P key n tx) = n"
  "tx_PubKey (signed_by Q P key n tx) = drop 32 key" "tx_Type (signed_by Q P key n tx) = tx_Type tx"
  "tx_Amount (signed_by Q P key n tx) = tx_Amount tx" "tx_Recipient (signed_by Q P key n tx) = tx_Recipient tx"
  "tx_PostID (signed_by Q P key n tx) = tx_PostID tx" "tx_Text (signed_by Q P key n tx) = tx_Text tx"
  "tx_Channel (signed_by Q P key n tx) = tx_Channel tx"
  "tx_Signature (signed_by Q P key n tx) = sign Q key (SignableBytes (signed_by Q P key n tx))"
  by (simp_all add: signed_by_def Let_def)

lemma app_number_Suc:
  assumes "unat v + 1 < 2 ^ 53"
  shows "js_add (app_number v) (Num 1) = app_number (v + 1)" "unat (v + 1) < 2 ^ 53"
proof -
  have u: "unat (v + 1) = unat v + 1" using assms unat_add_exact [of v 1] by simp
  then show "unat (v + 1) < 2 ^ 53" using assms by simp
  define m where "m = unat v"
  have "\<bar>int (m + 1)\<bar> \<le> MAX_SAFE_INTEGER" using assms by (simp add: MAX_SAFE_INTEGER_def flip: m_def)
  from js_of_int_safe [OF this] have "js_of_rat (of_nat m + 1) = Num (of_nat m + 1)" by (simp add: add.commute)
  then show "js_add (app_number v) (Num 1) = app_number (v + 1)"
    unfolding app_number_def u m_def [symmetric] by (simp add: add.commute)
qed

lemma describes_fullTx:
  assumes "means P utx tx" "length key = 64" "ja_nonce ja = app_number n" "unat n + 1 < 2 ^ 53"
  shows "describes (fullTx (app_address (AddressFromPublicKey P (drop 32 key))) (toHex (drop 32 key)) ja utx) (signed_by Q P key (n + 1) tx)"
  using assms app_number_Suc(1) [OF assms(4)]
  by (simp add: means_def describes_def fullTx_def signed_by_fields)

lemma pool_after_submit:
  assumes "requestTx P req = Inr tx" "AddressFromPublicKey P (tx_PubKey tx) = tx_Sender tx"
    "Verify P (tx_PubKey tx) (SignableBytes tx) (tx_Signature tx)" "checkState tx (Some (GetAccount (eng_State e))) = Inr ()"
    "Mempool_Size (eng_Mempool e) < mp_maxSize (eng_Mempool e)"
  shows "\<exists>resp e'. handleSubmitTransaction P (Some req) e = (OK resp, e') \<and> Mempool_Has (Transaction_Hash P tx) (eng_Mempool e')"
proof -
  have wire: "TxFromProto (TxToProto tx) = tx" by (rule Tx_wire [OF requestTx_sizes [OF assms(1)]])
  show ?thesis
    using assms by (cases "mget (mp_txs (eng_Mempool e)) (Transaction_Hash P tx)")
      (simp_all add: handleSubmitTransaction_def OnSubmitTx_def wire Mempool_Add_def Mempool_Has_def Mempool_Size_def Let_def bindR_def)
qed

section \<open>From the wallet to the pool\<close>

text \<open>
  C6: a transaction submitted in an unlocked wallet ends up in the pool of the node, if its account exists with
  counters below \<open>2 ^ 53\<close> and can pay, the pool has room and the state of the node does not change between the two
  requests.  The wallet reads the account from the node, uses the next nonce, signs and posts a request which the
  node decodes to exactly that transaction, signed by the owner of the address, and adds to its pool.
\<close>

theorem wallet_to_pool:
  assumes "wc_stored st = Some w" "wc_privateKey st = Some key" "opens Q key w" "same_hash Q P" "sha256_len P" "same_ed25519 Q P key"
    "serves_account P e env fetch (sw_address w)" "GetAccount (eng_State e) (AddressFromPublicKey P (drop 32 key)) = Some acct"
    "safe_account acct" "means P utx tx0" "tx_Amount tx0 \<le> acc_Balance acct"
    "Mempool_Size (eng_Mempool e) < mp_maxSize (eng_Mempool e)"
  shows "\<exists>r req tx resp e'. signAndSubmit fmt Q env fetch post utx st = submitTransaction fmt env post r
    \<and> decodeSubmit r = Some req \<and> tx = signed_by Q P key (acc_Nonce acct + 1) tx0 \<and> requestTx P req = Inr tx
    \<and> handleSubmitTransaction P (Some req) e = (OK resp, e') \<and> Mempool_Has (Transaction_Hash P tx) (eng_Mempool e')"
proof -
  define a where "a = AddressFromPublicKey P (drop 32 key)"
  define tx where "tx = signed_by Q P key (acc_Nonce acct + 1) tx0"
  have key: "length key = 64" and w: "sw_publicKey w = toHex (drop 32 key)" "sw_address w = app_address a"
    using assms(3) address_agrees [OF assms(5,4)] by (simp_all add: opens_def a_def)
  have a: "length a = 24" "Address_Validate P a = Inr ()" by (simp_all add: a_def Address_Validate_derived [OF assms(5)])
  have n: "unat (acc_Nonce acct) + 1 < 2 ^ 53" using assms(9) by (simp add: safe_account_def)
  obtain ja where ja: "getAccount fmt env fetch (app_address a) = Inr ja" "ja_nonce ja = app_number (acc_Nonce acct)"
    using wallet_reads_account [OF assms(7) [unfolded w(2)] a assms(8) [folded a_def] assms(9)] by blast
  define s where "s = fullTx (app_address a) (toHex (drop 32 key)) ja utx"
  have d: "describes s tx" unfolding s_def tx_def a_def by (rule describes_fullTx [OF assms(10) key ja(2) n])
  have wf: "wf_tx tx" using assms(10) key by (simp add: means_def wf_tx_def tx_def signed_by_fields)
  have sig: "sign Q key (SignableBytes tx) = tx_Signature tx" by (simp add: tx_def signed_by_fields(10) [symmetric])
  define r where "r = submit_request fmt s (tx_Signature tx)"
  have ne: "app_address a \<noteq> []" "toHex (drop 32 key) \<noteq> []"
    using key length_toHex [of "drop 32 key"] by (auto simp: app_address_def js_def simp del: length_toHex)
  have "signAndSubmit fmt Q env fetch post utx st = submitTransaction fmt env post r"
    using assms(1,2) ja(1) signable_agrees [OF wf d] ne
    by (simp add: signAndSubmit_def wc_address_def wc_publicKey_def or_empty_def w bindR_def r_def sig flip: s_def)
  moreover have amounts: "unat (tx_Amount tx) < 2 ^ 53" "unat (tx_Nonce tx) < 2 ^ 53"
    "tx_Type tx \<in> {TxTransfer, TxCreatePost, TxBoostPost, TxRegisterName, TxStake, TxUnstake, TxUnstakePost}"
    "Address_Validate P (tx_Sender tx) = Inr ()" "st_recipient s = [] \<or> Address_Validate P (tx_Recipient tx) = Inr ()"
    using assms(10) app_number_Suc(2) [OF n] a(2) by (simp_all add: means_def tx_def signed_by_fields s_def fullTx_def a_def)
  obtain req where req: "decodeSubmit r = Some req" "requestTx P req = Inr tx"
    using request_arrives [OF wf d amounts, of fmt] unfolding r_def by blast
  have "unat (acc_Nonce acct + 1) = unat (acc_Nonce acct) + 1" using n unat_add_exact [of "acc_Nonce acct" 1] by simp
  then have "checkState tx (Some (GetAccount (eng_State e))) = Inr ()"
    using assms(8,11) by (simp add: checkState_def tx_def signed_by_fields unat_le_exact not_less unat_less_exact)
  moreover have "Verify P (tx_PubKey tx) (SignableBytes tx) (tx_Signature tx)"
    using assms(6) by (simp add: same_ed25519_def sig [symmetric]) (simp add: tx_def signed_by_fields)
  ultimately show ?thesis
    using req pool_after_submit [OF req(2), of e] assms(12) unfolding tx_def by (simp add: signed_by_fields) blast
qed

text \<open>A wallet whose signatures are the doubled key, talking to a fresh node.\<close>

definition e2e_prims :: js_prims where
  "e2e_prims = sample_prims\<lparr>noble_sha256 := sha256 chain_prims, ed_sign := (\<lambda>m seed. seed @ seed)\<rparr>"

definition e2e_key :: bytes where
  "e2e_key = chain_key 1 @ chain_key 1"

definition e2e_wallet :: StoredWallet where
  "e2e_wallet = \<lparr>sw_address = deriveAddress e2e_prims (chain_key 1), sw_publicKey = toHex (chain_key 1),
     sw_encryptedKey = encryptPrivateKey e2e_prims [] [] e2e_key [], sw_name = JStr []\<rparr>"

definition e2e_st :: WalletState where
  "e2e_st = (WalletProvider_init sample_fmt [])\<lparr>wc_stored := Some e2e_wallet, wc_privateKey := Some e2e_key\<rparr>"

definition e2e_account :: Account where
  "e2e_account = (case GetAccount chain_ws0 (chain_addr 1) of Some a \<Rightarrow> a | None \<Rightarrow> newAccount (chain_addr 1))"

definition e2e_fetch :: fetch where
  "e2e_fetch url = Inr \<lparr>res_ok = True, res_status = 200,
     res_text = Inr (JSON_stringify sample_fmt (accountJSON (accountResponse e2e_account)))\<rparr>"

definition e2e_utx :: UnsignedTx where
  "e2e_utx = \<lparr>ut_type = Num 1, ut_recipient = Some (app_address (chain_addr 2)), ut_postId = None, ut_text = None,
     ut_channel = None, ut_amount = Num 200\<rparr>"

lemma e2e_account_fields: "acc_Balance e2e_account = 99600" "acc_Nonce e2e_account = 0" "acc_Name e2e_account = []"
  "acc_StakedBalance e2e_account = 400" "acc_PostStakeBalance e2e_account = 0"
  "GetAccount (eng_State rpc_node) (chain_addr 1) = Some e2e_account"
  by code_simp+

lemma e2e_served: "serves_account chain_prims rpc_node None e2e_fetch (app_address (chain_addr 1))"
proof -
  define resp where "resp = accountResponse e2e_account"
  have "Address_Validate chain_prims (chain_addr 1) = Inr ()" by code_simp
  then have "ParseAddress chain_prims (Address_String (chain_addr 1)) = Inr (chain_addr 1)"
    by (intro ParseAddress_String) (simp_all add: chain_addr_def)
  then have "handleGetAccount chain_prims \<lparr>rq_Method = go ''GET'', rq_Path = TextEncoder_encode (getAccount_path (app_address (chain_addr 1))),
      rq_Query = (\<lambda>_. [])\<rparr> rpc_node = OK resp"
    by (simp add: account_path handleGetAccount_def isGet_def TrimPrefix_def e2e_account_fields(6) resp_def)
  moreover have "json_wf (accountJSON resp)"
    by (simp add: accountJSON_def resp_def accountResponse_def e2e_account_fields js_keys js_keys [symmetric])
  then have "JSON_parse (JSON_stringify sample_fmt (accountJSON resp)) = Inr (accountJSON resp)" by (rule JSON_parse_stringify)
  ultimately show ?thesis by (simp add: serves_account_def e2e_fetch_def resp_def [symmetric])
qed

lemma e2e_means: "means chain_prims e2e_utx rpc_tx"
proof -
  have v: "Address_Validate chain_prims (chain_addr 2) = Inr ()" by code_simp
  have "wf_tx rpc_tx" by (simp add: wf_tx_def rpc_tx_def chain_tx_def chain_addr_def chain_key_def zeroPostID_def)
  then show ?thesis using v
    by (simp add: means_def e2e_utx_def rpc_tx_def chain_tx_def app_field_def or_empty_def zeroPostID_def TextEncoder_encode_Nil app_number_def)
qed

theorem wallet_to_pool_witness:
  "\<exists>r req tx resp e'. signAndSubmit sample_fmt e2e_prims None e2e_fetch (\<lambda>_ _. Inl TypeError) e2e_utx e2e_st
       = submitTransaction sample_fmt None (\<lambda>_ _. Inl TypeError) r
     \<and> decodeSubmit r = Some req \<and> requestTx chain_prims req = Inr tx \<and> tx_Nonce tx = 1
     \<and> handleSubmitTransaction chain_prims (Some req) rpc_node = (OK resp, e') \<and> Mempool_Has (Transaction_Hash chain_prims tx) (eng_Mempool e')"
proof -
  have k: "drop 32 e2e_key = chain_key 1" "take 32 e2e_key = chain_key 1" "length e2e_key = 64"
    by (simp_all add: e2e_key_def chain_key_def)
  have hash: "same_hash e2e_prims chain_prims" by (simp add: same_hash_def e2e_prims_def)
  have len: "sha256_len chain_prims" unfolding sha256_len_def chain_prims_def by (simp add: length_drop) arith
  have st: "wc_stored e2e_st = Some e2e_wallet" "wc_privateKey e2e_st = Some e2e_key" by (simp_all add: e2e_st_def)
  have opens: "opens e2e_prims e2e_key e2e_wallet" using k by (simp add: opens_def e2e_wallet_def)
  have ed: "same_ed25519 e2e_prims chain_prims e2e_key"
    by (simp add: same_ed25519_def Verify_def sign_def k Let_def) (simp add: e2e_prims_def chain_prims_def chain_key_def)
  have addr: "sw_address e2e_wallet = app_address (chain_addr 1)" "AddressFromPublicKey chain_prims (drop 32 e2e_key) = chain_addr 1"
    by (simp_all add: e2e_wallet_def address_agrees [OF len hash] chain_addr_def k)
  have acct: "safe_account e2e_account" "tx_Amount rpc_tx \<le> acc_Balance e2e_account"
    by (simp_all add: safe_account_def e2e_account_fields rpc_tx_def chain_tx_def)
  have room: "Mempool_Size (eng_Mempool rpc_node) < mp_maxSize (eng_Mempool rpc_node)"
    by (simp add: rpc_node_def NewEngine_def Mempool_New_def Mempool_Size_def)
  from wallet_to_pool [OF st opens hash len ed, unfolded addr, OF e2e_served e2e_account_fields(6) acct(1) e2e_means acct(2) room,
      of sample_fmt "\<lambda>_ _. Inl TypeError"]
  show ?thesis by (auto simp: e2e_account_fields signed_by_fields)
qed

end
