(* ===== verification/Follower.thy ===== *)
theory Follower
  imports Rpc
begin

text \<open>
  The indexer's \<^verbatim>\<open>follower.go\<close> and the statements of \<^verbatim>\<open>db.go\<close> it runs: the blocks the node serves over HTTP are
  replayed into tables.  A table is a list of rows or, with a primary key, a map; each statement is written as what
  it does to the rows.  Amounts are below \<open>2 ^ 63\<close>, which is what the database can store, and statements do not fail.
\<close>

section \<open>Tables\<close>

record IndexedBoost =
  ib_PostID :: bytes
  ib_Booster :: bytes
  ib_Amount :: u64
  ib_AuthorReward :: u64
  ib_StakerReward :: u64
  ib_BurnAmount :: u64
  ib_StakedAmount :: u64
  ib_BlockHeight :: u64
  ib_BlockTime :: u64
  ib_TxHash :: bytes

record IndexedTransfer =
  it_TxHash :: bytes
  it_Sender :: bytes
  it_Recipient :: bytes
  it_Amount :: u64
  it_BlockHeight :: u64
  it_BlockTime :: u64

record GoRewardEvent =
  re_PostID :: bytes
  re_Recipient :: bytes
  re_Amount :: u64
  re_BlockHeight :: u64
  re_BlockTime :: u64
  re_TriggerTx :: bytes
  re_TriggerAddress :: bytes
  re_Type :: bytes

text \<open>The rows of \<^verbatim>\<open>post_stakes\<close>, by their primary key: amount and height.\<close>

record IndexTables =
  ix_posts :: "IndexedPost list"
  ix_boosts :: "(bytes, IndexedBoost) gomap"
  ix_transfers :: "(bytes, IndexedTransfer) gomap"
  ix_rewards :: "GoRewardEvent list"
  ix_stakes :: "(bytes \<times> bytes, u64 \<times> u64) gomap"
  ix_lastHeight :: u64

record Follower =
  fw_postFeePercent :: u64
  fw_boostBurnPct :: u64
  fw_boostAuthorPct :: u64
  fw_boostStakerPct :: u64

section \<open>Statements\<close>

definition update_posts :: "bytes \<Rightarrow> (IndexedPost \<Rightarrow> IndexedPost) \<Rightarrow> IndexTables \<Rightarrow> IndexTables" where
  "update_posts postID f ix = ix\<lparr>ix_posts := map (\<lambda>p. if ip_PostID p = postID then f p else p) (ix_posts ix)\<rparr>"

definition Index_GetPost :: "IndexTables \<Rightarrow> bytes \<Rightarrow> IndexedPost option" where
  "Index_GetPost ix postID = find (\<lambda>p. ip_PostID p = postID) (ix_posts ix)"

definition InsertPost :: "IndexedPost \<Rightarrow> IndexTables \<Rightarrow> IndexTables" where
  "InsertPost p ix =
     (let ix = (if Index_GetPost ix (ip_PostID p) = None then ix\<lparr>ix_posts := ix_posts ix @ [p]\<rparr> else ix)
      in if ip_ParentPostID p \<noteq> []
         then update_posts (ip_ParentPostID p) (\<lambda>q. q\<lparr>ip_ReplyCount := ip_ReplyCount q + 1\<rparr>) ix else ix)"

definition InsertBoost :: "IndexedBoost \<Rightarrow> bytes \<Rightarrow> IndexTables \<Rightarrow> IndexTables" where
  "InsertBoost b postAuthor ix =
     (let ix = (if mget (ix_boosts ix) (ib_TxHash b) = None then ix\<lparr>ix_boosts := mput (ib_TxHash b) b (ix_boosts ix)\<rparr> else ix);
          ix = update_posts (ib_PostID b) (\<lambda>p.
            (if ib_Booster b = postAuthor
             then p\<lparr>ip_TotalStaked := ip_TotalStaked p + ib_StakedAmount b, ip_AuthorStaked := ip_AuthorStaked p + ib_StakedAmount b,
                    ip_TotalBurned := ip_TotalBurned p + ib_BurnAmount b, ip_StakerCount := ip_StakerCount p + 1,
                    ip_LastBoostAtHeight := ib_BlockHeight b\<rparr>
             else p\<lparr>ip_TotalStaked := ip_TotalStaked p + ib_StakedAmount b, ip_ThirdPartyStaked := ip_ThirdPartyStaked p + ib_StakedAmount b,
                    ip_TotalBurned := ip_TotalBurned p + ib_BurnAmount b, ip_StakerCount := ip_StakerCount p + 1,
                    ip_LastBoostAtHeight := ib_BlockHeight b\<rparr>)) ix;
          boosters = remdups (map ib_Booster (filter (\<lambda>c. ib_PostID c = ib_PostID b) (map snd (ix_boosts ix))))
      in update_posts (ib_PostID b) (\<lambda>p. p\<lparr>ip_UniqueBoosterCount := int (length boosters)\<rparr>) ix)"

definition InsertTransfer :: "IndexedTransfer \<Rightarrow> IndexTables \<Rightarrow> IndexTables" where
  "InsertTransfer t ix =
     (if mget (ix_transfers ix) (it_TxHash t) = None then ix\<lparr>ix_transfers := mput (it_TxHash t) t (ix_transfers ix)\<rparr> else ix)"

definition InsertRewardEvent :: "GoRewardEvent \<Rightarrow> IndexTables \<Rightarrow> IndexTables" where
  "InsertRewardEvent r ix = ix\<lparr>ix_rewards := ix_rewards ix @ [r]\<rparr>"

definition UpsertPostStake :: "bytes \<Rightarrow> bytes \<Rightarrow> u64 \<Rightarrow> u64 \<Rightarrow> IndexTables \<Rightarrow> IndexTables" where
  "UpsertPostStake postID staker amount height ix =
     (let old = (case mget (ix_stakes ix) (postID, staker) of None \<Rightarrow> 0 | Some (a, h) \<Rightarrow> a)
      in ix\<lparr>ix_stakes := mput (postID, staker) (old + amount, height) (ix_stakes ix)\<rparr>)"

definition Index_RemovePostStake :: "bytes \<Rightarrow> bytes \<Rightarrow> IndexTables \<Rightarrow> IndexTables" where
  "Index_RemovePostStake postID staker ix = ix\<lparr>ix_stakes := mdel (postID, staker) (ix_stakes ix)\<rparr>"

definition RemoveAllPostStakes :: "bytes \<Rightarrow> IndexTables \<Rightarrow> IndexTables" where
  "RemoveAllPostStakes postID ix = ix\<lparr>ix_stakes := filter (\<lambda>((i, s), v). i \<noteq> postID) (ix_stakes ix)\<rparr>"

definition GetPostStakePositions :: "IndexTables \<Rightarrow> bytes \<Rightarrow> (bytes \<times> u64) list" where
  "GetPostStakePositions ix postID = map (\<lambda>((i, s), (a, h)). (s, a)) (filter (\<lambda>((i, s), v). i = postID) (ix_stakes ix))"

definition SetLastIndexedHeight :: "u64 \<Rightarrow> IndexTables \<Rightarrow> IndexTables" where
  "SetLastIndexedHeight h ix = ix\<lparr>ix_lastHeight := h\<rparr>"

section \<open>The follower\<close>

text \<open>The divisors are 100 and a positive total, so \<^verbatim>\<open>types.MulDiv\<close> does not panic here.\<close>

definition go_MulDiv :: "u64 \<Rightarrow> u64 \<Rightarrow> u64 \<Rightarrow> u64" where
  "go_MulDiv a b c = (case MulDiv a b c of Some q \<Rightarrow> q | None \<Rightarrow> 0)"

definition findPostID :: "prims \<Rightarrow> bytes \<Rightarrow> u64 \<Rightarrow> bytes" where
  "findPostID P senderDisplay nonce =
     (case ParseAddress P senderDisplay of Inl _ \<Rightarrow> [] | Inr addr \<Rightarrow> EncodeToString (DerivePostID P addr nonce))"

definition index_post :: "prims \<Rightarrow> Follower \<Rightarrow> u64 \<Rightarrow> u64 \<Rightarrow> TransactionResponse \<Rightarrow> IndexTables \<Rightarrow> IndexTables" where
  "index_post P f height time tx ix =
     (let postID = findPostID P (tr_Sender tx) (tr_Nonce tx) in
      if postID = [] then ix
      else (let fee = go_MulDiv (tr_Amount tx) (fw_postFeePercent f) 100;
                stakedAmount = tr_Amount tx - fee;
                ix = InsertPost \<lparr>ip_PostID = postID, ip_Author = tr_Sender tx, ip_Text = tr_Text tx, ip_Channel = tr_Channel tx,
                       ip_ParentPostID = tr_ParentPostID tx, ip_CreatedAtHeight = height, ip_CreatedAtTime = sint time,
                       ip_TotalStaked = stakedAmount, ip_AuthorStaked = stakedAmount, ip_ThirdPartyStaked = 0, ip_StakerCount = 1,
                       ip_UniqueBoosterCount = 0, ip_LastBoostAtHeight = 0, ip_ReplyCount = 0, ip_Withdrawn = False,
                       ip_TotalBurned = fee\<rparr> ix
            in UpsertPostStake postID (tr_Sender tx) stakedAmount height ix))"

definition staker_events :: "u64 \<Rightarrow> u64 \<Rightarrow> TransactionResponse \<Rightarrow> u64 \<Rightarrow> (bytes \<times> u64) list \<Rightarrow> GoRewardEvent list" where
  "staker_events height time tx stakerReward stakers =
     (let totalStaked = foldl (\<lambda>t (s, a). t + a) 0 stakers in
      if totalStaked > 0
      then map (\<lambda>(s, share). \<lparr>re_PostID = tr_PostID tx, re_Recipient = s, re_Amount = share, re_BlockHeight = height,
                 re_BlockTime = time, re_TriggerTx = tr_Hash tx, re_TriggerAddress = tr_Sender tx, re_Type = go ''staker''\<rparr>)
             (filter (\<lambda>(s, share). share > 0) (map (\<lambda>(s, a). (s, go_MulDiv stakerReward a totalStaked)) stakers))
      else [])"

definition index_boost :: "Follower \<Rightarrow> u64 \<Rightarrow> u64 \<Rightarrow> TransactionResponse \<Rightarrow> IndexTables \<Rightarrow> IndexTables" where
  "index_boost f height time tx ix =
     (if tr_PostID tx = [] then ix
      else (let post = Index_GetPost ix (tr_PostID tx);
                author = (case post of Some p \<Rightarrow> ip_Author p | None \<Rightarrow> []);
                burnAmount = go_MulDiv (tr_Amount tx) (fw_boostBurnPct f) 100;
                authorReward = go_MulDiv (tr_Amount tx) (fw_boostAuthorPct f) 100;
                stakerReward = go_MulDiv (tr_Amount tx) (fw_boostStakerPct f) 100;
                stakedAmount = tr_Amount tx - burnAmount - authorReward - stakerReward;
                ix = InsertBoost \<lparr>ib_PostID = tr_PostID tx, ib_Booster = tr_Sender tx, ib_Amount = tr_Amount tx,
                       ib_AuthorReward = authorReward, ib_StakerReward = stakerReward, ib_BurnAmount = burnAmount,
                       ib_StakedAmount = stakedAmount, ib_BlockHeight = height, ib_BlockTime = time, ib_TxHash = tr_Hash tx\<rparr> author ix;
                ix = (if authorReward > 0 \<and> author \<noteq> []
                      then InsertRewardEvent \<lparr>re_PostID = tr_PostID tx, re_Recipient = author, re_Amount = authorReward,
                             re_BlockHeight = height, re_BlockTime = time, re_TriggerTx = tr_Hash tx,
                             re_TriggerAddress = tr_Sender tx, re_Type = go ''author''\<rparr> ix else ix);
                ix = (if stakerReward > 0 \<and> post \<noteq> None
                      then fold InsertRewardEvent
                             (staker_events height time tx stakerReward (GetPostStakePositions ix (tr_PostID tx))) ix else ix)
            in UpsertPostStake (tr_PostID tx) (tr_Sender tx) stakedAmount height ix))"

definition index_unstake :: "TransactionResponse \<Rightarrow> IndexTables \<Rightarrow> IndexTables" where
  "index_unstake tx ix =
     (if tr_PostID tx = [] then ix
      else case Index_GetPost ix (tr_PostID tx) of
        Some post \<Rightarrow>
          if tr_Sender tx = ip_Author post
          then update_posts (tr_PostID tx) (\<lambda>p. p\<lparr>ip_Withdrawn := True, ip_TotalStaked := 0, ip_AuthorStaked := 0,
                 ip_ThirdPartyStaked := 0, ip_StakerCount := 0\<rparr>) (RemoveAllPostStakes (tr_PostID tx) ix)
          else Index_RemovePostStake (tr_PostID tx) (tr_Sender tx) ix
      | None \<Rightarrow> Index_RemovePostStake (tr_PostID tx) (tr_Sender tx) ix)"

definition index_tx :: "prims \<Rightarrow> Follower \<Rightarrow> u64 \<Rightarrow> u64 \<Rightarrow> TransactionResponse \<Rightarrow> IndexTables \<Rightarrow> IndexTables" where
  "index_tx P f height time tx ix =
     (if tr_Type tx = go ''transfer''
      then InsertTransfer \<lparr>it_TxHash = tr_Hash tx, it_Sender = tr_Sender tx, it_Recipient = tr_Recipient tx,
             it_Amount = tr_Amount tx, it_BlockHeight = height, it_BlockTime = time\<rparr> ix
      else if tr_Type tx = go ''create_post'' then index_post P f height time tx ix
      else if tr_Type tx = go ''boost_post'' then index_boost f height time tx ix
      else if tr_Type tx = go ''unstake_post'' then index_unstake tx ix
      else ix)"

definition IndexBlock :: "prims \<Rightarrow> Follower \<Rightarrow> u64 \<Rightarrow> BlockResponse \<Rightarrow> IndexTables \<Rightarrow> IndexTables" where
  "IndexBlock P f height block ix =
     SetLastIndexedHeight height (fold (index_tx P f height (br_Timestamp block)) (br_Transactions block) ix)"

text \<open>The loop of \<^verbatim>\<open>poll\<close>; \<open>node\<close> is what the node serves for a height, \<open>None\<close> for a failed request.\<close>

fun index_heights :: "prims \<Rightarrow> Follower \<Rightarrow> (u64 \<Rightarrow> BlockResponse option) \<Rightarrow> u64 list \<Rightarrow> IndexTables \<Rightarrow> bool \<times> IndexTables" where
  "index_heights P f serve [] ix = (True, ix)"
| "index_heights P f serve (h # hs) ix =
     (case serve h of None \<Rightarrow> (False, ix) | Some block \<Rightarrow> index_heights P f serve hs (IndexBlock P f h block ix))"

definition poll :: "prims \<Rightarrow> Follower \<Rightarrow> (u64 \<Rightarrow> BlockResponse option) \<Rightarrow> u64 option \<Rightarrow> IndexTables \<Rightarrow> bool \<times> IndexTables" where
  "poll P f serve latestHeight ix =
     (case latestHeight of
        None \<Rightarrow> (False, ix)
      | Some latest \<Rightarrow>
          if latest \<le> ix_lastHeight ix then (True, ix)
          else index_heights P f serve (map of_nat [Suc (unat (ix_lastHeight ix))..<Suc (unat latest)]) ix)"

end
