(* ===== verification/Indexing.thy ===== *)
theory Indexing
  imports Follower Chain
begin

text \<open>
  The indexer against the node: the tables the follower fills agree with the chain state it never sees, as long as
  no post stake is withdrawn; and a withdrawal never reaches them.
\<close>

section \<open>What the tables say\<close>

text \<open>
  The columns of a post that the node has too, and the amount of a stake.  The staker count is left out: the
  indexer counts boosts.
\<close>

definition index_view :: "IndexedPost \<Rightarrow> (bytes \<times> bytes \<times> bytes \<times> bytes \<times> u64 \<times> int \<times> bool) \<times> u64 \<times> u64" where
  "index_view q = ((ip_Author q, ip_Text q, ip_Channel q, ip_ParentPostID q, ip_CreatedAtHeight q, ip_CreatedAtTime q,
     ip_Withdrawn q), ip_TotalStaked q, ip_TotalBurned q)"

definition node_view :: "Post \<Rightarrow> (bytes \<times> bytes \<times> bytes \<times> bytes \<times> u64 \<times> int \<times> bool) \<times> u64 \<times> u64" where
  "node_view p = ((Address_String (post_Author p), post_Text p, post_Channel p,
     (if post_ParentPostID p = zeroPostID then [] else EncodeToString (post_ParentPostID p)),
     post_CreatedAtHeight p, sint (post_CreatedAtTime p), post_Withdrawn p), post_TotalStaked p, post_TotalBurned p)"

definition posts_view :: "IndexTables \<Rightarrow> bytes \<Rightarrow> ((bytes \<times> bytes \<times> bytes \<times> bytes \<times> u64 \<times> int \<times> bool) \<times> u64 \<times> u64) option" where
  "posts_view ix i = map_option index_view (Index_GetPost ix i)"

definition stakes_view :: "IndexTables \<Rightarrow> bytes \<times> bytes \<Rightarrow> u64 option" where
  "stakes_view ix k = map_option fst (mget (ix_stakes ix) k)"

definition index_agrees :: "WorldState \<Rightarrow> IndexTables \<Rightarrow> bool" where
  "index_agrees ws ix \<longleftrightarrow>
     (\<forall>i. posts_view ix (EncodeToString i) = map_option node_view (GetPost ws i)) \<and>
     (\<forall>i a. stakes_view ix (EncodeToString i, Address_String a) = map_option ps_Amount (GetPostStake ws i a))"

text \<open>The follower is configured with the percentages of the chain.\<close>

definition same_percents :: "GenesisConfig \<Rightarrow> Follower \<Rightarrow> bool" where
  "same_percents params f \<longleftrightarrow>
     fw_postFeePercent f = (if gc_PostFeePercent params = 0 then 6 else gc_PostFeePercent params) \<and>
     boost_percents params = (fw_boostBurnPct f, fw_boostAuthorPct f, fw_boostStakerPct f)"

lemma Address_String_inj [simp]: "Address_String a = Address_String b \<longleftrightarrow> a = b"
  by (simp add: Address_String_def)

section \<open>Statements\<close>

lemma update_posts_frame [simp]:
  "ix_stakes (update_posts j f ix) = ix_stakes ix" "ix_boosts (update_posts j f ix) = ix_boosts ix"
  "ix_lastHeight (update_posts j f ix) = ix_lastHeight ix"
  by (simp_all add: update_posts_def)

lemma find_map_update:
  "(\<And>q. ip_PostID (f q) = ip_PostID q) \<Longrightarrow>
   find (\<lambda>p. ip_PostID p = i) (map (\<lambda>p. if ip_PostID p = j then f p else p) ps) =
   (if i = j then map_option f (find (\<lambda>p. ip_PostID p = i) ps) else find (\<lambda>p. ip_PostID p = i) ps)"
  by (induction ps) auto

lemma Index_GetPost_update:
  assumes "\<And>q. ip_PostID (f q) = ip_PostID q"
  shows "Index_GetPost (update_posts j f ix) i = (if i = j then map_option f (Index_GetPost ix i) else Index_GetPost ix i)"
  using find_map_update [OF assms] by (simp add: Index_GetPost_def update_posts_def)

lemma posts_view_update:
  assumes "\<And>q. ip_PostID (f q) = ip_PostID q" "\<And>q. index_view (f q) = g (index_view q)"
  shows "posts_view (update_posts j f ix) i = (if i = j then map_option g (posts_view ix i) else posts_view ix i)"
  using assms(2) by (simp add: posts_view_def Index_GetPost_update [OF assms(1)] option.map_comp comp_def)

lemma posts_view_cong: "ix_posts ix = ix_posts jx \<Longrightarrow> posts_view ix = posts_view jx"
  by (simp add: posts_view_def Index_GetPost_def fun_eq_iff)

lemma stakes_view_cong: "ix_stakes ix = ix_stakes jx \<Longrightarrow> stakes_view ix = stakes_view jx"
  by (simp add: stakes_view_def fun_eq_iff)

lemma find_snoc: "find Q (xs @ [x]) = (case find Q xs of Some y \<Rightarrow> Some y | None \<Rightarrow> if Q x then Some x else None)"
  by (induction xs) auto

lemma posts_view_append:
  "posts_view (ix\<lparr>ix_posts := ix_posts ix @ [p]\<rparr>) i =
   (if Index_GetPost ix i = None \<and> i = ip_PostID p then Some (index_view p) else posts_view ix i)"
  by (auto simp: posts_view_def Index_GetPost_def find_snoc split: option.split)

lemma posts_view_InsertPost:
  assumes "Index_GetPost ix (ip_PostID p) = None"
  shows "posts_view (InsertPost p ix) i = (if i = ip_PostID p then Some (index_view p) else posts_view ix i)"
proof -
  define g where "g q = q\<lparr>ip_ReplyCount := ip_ReplyCount q + 1\<rparr>" for q :: IndexedPost
  have g: "posts_view (update_posts j g jx) k = posts_view jx k" for j jx k
    using posts_view_update [of g "\<lambda>v. v"] by (simp add: g_def index_view_def option.map_ident)
  show ?thesis
    using assms g by (simp add: InsertPost_def Let_def posts_view_append flip: g_def)
qed

lemma stakes_view_InsertPost: "stakes_view (InsertPost p ix) = stakes_view ix"
  by (rule stakes_view_cong) (simp add: InsertPost_def Let_def)

lemma posts_view_InsertBoost:
  "posts_view (InsertBoost b au ix) i =
   (if i = ib_PostID b
    then map_option (\<lambda>(c, s, u). (c, s + ib_StakedAmount b, u + ib_BurnAmount b)) (posts_view ix i)
    else posts_view ix i)"
proof -
  define jx where "jx = (if mget (ix_boosts ix) (ib_TxHash b) = None then ix\<lparr>ix_boosts := mput (ib_TxHash b) b (ix_boosts ix)\<rparr> else ix)"
  have j: "posts_view jx = posts_view ix" by (rule posts_view_cong) (simp add: jx_def)
  have n: "posts_view (update_posts k (\<lambda>p. p\<lparr>ip_UniqueBoosterCount := n\<rparr>) kx) i = posts_view kx i" for k n kx
    using posts_view_update [of "\<lambda>p. p\<lparr>ip_UniqueBoosterCount := n\<rparr>" "\<lambda>v. v"]
    by (simp add: index_view_def option.map_ident)
  show ?thesis
    unfolding InsertBoost_def Let_def n jx_def [symmetric]
    by (subst posts_view_update [where g = "\<lambda>(c, s, u). (c, s + ib_StakedAmount b, u + ib_BurnAmount b)"])
      (simp_all add: index_view_def j)
qed

lemma stakes_view_InsertBoost: "stakes_view (InsertBoost b au ix) = stakes_view ix"
  by (rule stakes_view_cong) (simp add: InsertBoost_def Let_def)

lemma stakes_view_Upsert:
  "stakes_view (UpsertPostStake i s x h ix) k =
   (if k = (i, s) then Some ((case stakes_view ix k of None \<Rightarrow> 0 | Some y \<Rightarrow> y) + x) else stakes_view ix k)"
  by (auto simp: stakes_view_def UpsertPostStake_def Let_def split: option.split)

lemma posts_view_Upsert: "posts_view (UpsertPostStake i s x h ix) = posts_view ix"
  by (rule posts_view_cong) (simp add: UpsertPostStake_def Let_def)

lemma fold_rewards:
  "ix_posts (fold InsertRewardEvent es ix) = ix_posts ix" "ix_stakes (fold InsertRewardEvent es ix) = ix_stakes ix"
  by (induction es arbitrary: ix) (simp_all add: InsertRewardEvent_def)

lemma index_boost_view:
  assumes "tr_PostID tx \<noteq> []" "b = go_MulDiv (tr_Amount tx) (fw_boostBurnPct f) 100"
    "d = tr_Amount tx - b - go_MulDiv (tr_Amount tx) (fw_boostAuthorPct f) 100 - go_MulDiv (tr_Amount tx) (fw_boostStakerPct f) 100"
  shows "posts_view (index_boost f h t tx ix) i =
      (if i = tr_PostID tx then map_option (\<lambda>(c, s, u). (c, s + d, u + b)) (posts_view ix i) else posts_view ix i)"
    "stakes_view (index_boost f h t tx ix) k =
      (if k = (tr_PostID tx, tr_Sender tx) then Some ((case stakes_view ix k of None \<Rightarrow> 0 | Some y \<Rightarrow> y) + d)
       else stakes_view ix k)"
proof -
  define au where "au = (case Index_GetPost ix (tr_PostID tx) of Some p \<Rightarrow> ip_Author p | None \<Rightarrow> [])"
  define bo where "bo = \<lparr>ib_PostID = tr_PostID tx, ib_Booster = tr_Sender tx, ib_Amount = tr_Amount tx,
    ib_AuthorReward = go_MulDiv (tr_Amount tx) (fw_boostAuthorPct f) 100,
    ib_StakerReward = go_MulDiv (tr_Amount tx) (fw_boostStakerPct f) 100, ib_BurnAmount = b,
    ib_StakedAmount = d, ib_BlockHeight = h, ib_BlockTime = t, ib_TxHash = tr_Hash tx\<rparr>"
  obtain jx where jx: "index_boost f h t tx ix = UpsertPostStake (tr_PostID tx) (tr_Sender tx) d h jx"
    "ix_posts jx = ix_posts (InsertBoost bo au ix)" "ix_stakes jx = ix_stakes (InsertBoost bo au ix)"
    using assms(1)
    by (simp add: index_boost_def Let_def fold_rewards InsertRewardEvent_def
        flip: au_def assms(2,3) bo_def)
  note v = posts_view_cong [OF jx(2)] stakes_view_cong [OF jx(3)]
  have bf: "ib_PostID bo = tr_PostID tx" "ib_StakedAmount bo = d" "ib_BurnAmount bo = b" by (simp_all add: bo_def)
  show "posts_view (index_boost f h t tx ix) i =
      (if i = tr_PostID tx then map_option (\<lambda>(c, s, u). (c, s + d, u + b)) (posts_view ix i) else posts_view ix i)"
    by (simp add: jx(1) posts_view_Upsert v posts_view_InsertBoost bf)
  show "stakes_view (index_boost f h t tx ix) k =
      (if k = (tr_PostID tx, tr_Sender tx) then Some ((case stakes_view ix k of None \<Rightarrow> 0 | Some y \<Rightarrow> y) + d)
       else stakes_view ix k)"
    by (simp add: jx(1) stakes_view_Upsert v stakes_view_InsertBoost)
qed

section \<open>One transaction\<close>

lemma go_MulDiv_100: "mul_div a b 100 = Inr q \<Longrightarrow> go_MulDiv a b 100 = q"
  by (simp add: mul_div_def go_MulDiv_def split: option.splits)

lemma new_post_fresh:
  assumes wf: "wf_ws P B ws" and B: "Suc B < 2 ^ 64" and x: "GetAccount ws a = Some x"
    and g: "grows ws w" and y: "GetAccount w a = Some y" "acc_Nonce y = acc_Nonce x + 1" and ids: "post_ids_distinct P w"
  shows "GetPost ws (DerivePostID P a (acc_Nonce x + 1)) = None"
proof (rule ccontr)
  assume "GetPost ws (DerivePostID P a (acc_Nonce x + 1)) \<noteq> None"
  then obtain p where "GetPost ws (DerivePostID P a (acc_Nonce x + 1)) = Some p" by blast
  with wf obtain z n where p: "GetAccount ws (post_Author p) = Some z" "n \<le> acc_Nonce z"
    "DerivePostID P a (acc_Nonce x + 1) = DerivePostID P (post_Author p) n" by (rule post_origin)
  obtain z' where "GetAccount w (post_Author p) = Some z'" "acc_Nonce z \<le> acc_Nonce z'"
    using g p(1) by (auto simp: grows_def)
  then have "a = post_Author p \<and> acc_Nonce x + 1 = n"
    using ids [unfolded post_ids_distinct_def, rule_format, of a y "post_Author p" z' "acc_Nonce x + 1" n] y p(2,3)
    by (simp add: order_trans)
  then show False
    using p(1,2) x nonce_step(1) [OF wfD(6) [OF wf x] B] by (auto simp: unat_le_exact)
qed

lemma valid_sender_parses:
  assumes "sha256_len P" "ValidateTransaction P N tx sr params = Inr ()"
  shows "findPostID P (Address_String (tx_Sender tx)) n = EncodeToString (DerivePostID P (tx_Sender tx) n)"
proof -
  obtain acct where "validateCommonNoBalanceCheck P tx sr = Inr acct"
    using ValidateTransaction_common [OF assms(2)] by blast
  then have "tx_Sender tx = AddressFromPublicKey P (tx_PubKey tx)"
    by (simp add: validateCommonNoBalanceCheck_Inr split: if_splits)
  then have "ParseAddress P (Address_String (tx_Sender tx)) = Inr (tx_Sender tx)"
    using Address_Validate_derived [OF assms(1)] by (simp add: ParseAddress_String)
  then show ?thesis by (simp add: findPostID_def)
qed

lemma type_names:
  "txTypeString TxTransfer = go ''transfer''" "txTypeString TxCreatePost = go ''create_post''"
  "txTypeString TxBoostPost = go ''boost_post''" "txTypeString TxUnstakePost = go ''unstake_post''"
  "txTypeString TxRegisterName = go ''register_name''" "txTypeString TxStake = go ''stake''"
  "txTypeString TxUnstake = go ''unstake''"
  by (simp_all add: txTypeString_def)

lemma type_names_distinct:
  "distinct [go ''transfer'', go ''create_post'', go ''boost_post'', go ''unstake_post'', go ''register_name'',
     go ''stake'', go ''unstake'']"
  by code_simp

lemma txToResponse_fields:
  "tr_Type (txToResponse P tx h) = txTypeString (tx_Type tx)" "tr_Hash (txToResponse P tx h) = EncodeToString (Transaction_Hash P tx)"
  "tr_Sender (txToResponse P tx h) = Address_String (tx_Sender tx)" "tr_Amount (txToResponse P tx h) = tx_Amount tx"
  "tr_Nonce (txToResponse P tx h) = tx_Nonce tx"
  "tr_PostID (txToResponse P tx h) = (if tx_Type tx = TxBoostPost then EncodeToString (tx_PostID tx) else [])"
  "tx_Type tx = TxTransfer \<Longrightarrow> tr_Recipient (txToResponse P tx h) = Address_String (tx_Recipient tx)"
  "tx_Type tx = TxCreatePost \<Longrightarrow> tr_Text (txToResponse P tx h) = tx_Text tx"
  "tx_Type tx = TxCreatePost \<Longrightarrow> tr_Channel (txToResponse P tx h) = tx_Channel tx"
  "tx_Type tx = TxCreatePost \<Longrightarrow> tr_ParentPostID (txToResponse P tx h) =
     (if tx_PostID tx = zeroPostID then [] else EncodeToString (tx_PostID tx))"
  by (simp_all add: txToResponse_def Let_def)

lemma index_tx_kinds:
  "tx_Type tx = TxTransfer \<Longrightarrow> index_tx P f h t (txToResponse P tx h) ix =
     InsertTransfer \<lparr>it_TxHash = EncodeToString (Transaction_Hash P tx), it_Sender = Address_String (tx_Sender tx),
       it_Recipient = Address_String (tx_Recipient tx), it_Amount = tx_Amount tx, it_BlockHeight = h, it_BlockTime = t\<rparr> ix"
  "tx_Type tx = TxCreatePost \<Longrightarrow> index_tx P f h t (txToResponse P tx h) ix = index_post P f h t (txToResponse P tx h) ix"
  "tx_Type tx = TxBoostPost \<Longrightarrow> index_tx P f h t (txToResponse P tx h) ix = index_boost f h t (txToResponse P tx h) ix"
  "tx_Type tx = TxUnstakePost \<Longrightarrow> index_tx P f h t (txToResponse P tx h) ix = index_unstake (txToResponse P tx h) ix"
  "tx_Type tx \<in> {TxRegisterName, TxStake, TxUnstake} \<Longrightarrow> index_tx P f h t (txToResponse P tx h) ix = ix"
  using type_names_distinct by (auto simp: index_tx_def type_names txToResponse_fields)

lemma index_agrees_cong:
  assumes "ws_posts ws' = ws_posts ws" "ws_postStakes ws' = ws_postStakes ws" "index_agrees ws ix"
    "posts_view jx = posts_view ix" "stakes_view jx = stakes_view ix"
  shows "index_agrees ws' jx"
  using assms by (simp add: index_agrees_def GetPost_def GetPostStake_def)

lemma other_tx_keeps:
  assumes "ApplyTransaction P params ws tx h t = Inr ws'" "tx_Type tx \<notin> {TxCreatePost, TxBoostPost, TxUnstakePost}"
  shows "ws_posts ws' = ws_posts ws \<and> ws_postStakes ws' = ws_postStakes ws"
  using assms
  by (auto simp: ApplyTransaction_def applyTransfer_def applyRegisterName_def applyStake_def applyUnstake_def Let_def
      RegisterName_def SetValidatorPubKey_def AddUnbondingEntry_def split: if_splits option.splits)

lemma agrees_other:
  assumes "ApplyTransaction P params ws tx h t = Inr ws'" "tx_Type tx \<notin> {TxCreatePost, TxBoostPost, TxUnstakePost}"
    "index_agrees ws ix"
  shows "index_agrees ws' (index_tx P f h t (txToResponse P tx h) ix)"
proof -
  define jx where "jx = index_tx P f h t (txToResponse P tx h) ix"
  have "tx_Type tx \<in> {TxTransfer, TxRegisterName, TxStake, TxUnstake}"
    using assms(1,2) by (auto simp: ApplyTransaction_def split: if_splits)
  then have "ix_posts jx = ix_posts ix" "ix_stakes jx = ix_stakes ix"
    by (auto simp: jx_def index_tx_kinds InsertTransfer_def)
  then show ?thesis
    using other_tx_keeps [OF assms(1,2)] posts_view_cong [of jx ix] stakes_view_cong [of jx ix] assms(3)
    by (auto simp flip: jx_def intro: index_agrees_cong)
qed

lemma applyCreatePost_effect:
  assumes "applyCreatePost P params ws tx h t = Inr ws'" "GetAccount ws (tx_Sender tx) = Some x"
    "i = DerivePostID P (tx_Sender tx) (acc_Nonce x + 1)"
    "fee = go_MulDiv (tx_Amount tx) (if gc_PostFeePercent params = 0 then 6 else gc_PostFeePercent params) 100"
    "d = tx_Amount tx - fee"
  shows "GetPost ws' j = (if j = i then Some \<lparr>post_PostID = i, post_Author = tx_Sender tx, post_Text = tx_Text tx,
      post_Channel = tx_Channel tx, post_ParentPostID = tx_PostID tx, post_CreatedAtHeight = h, post_CreatedAtTime = t,
      post_TotalStaked = d, post_TotalBurned = fee, post_StakerCount = 1, post_Withdrawn = False\<rparr> else GetPost ws j)"
    "GetPostStake ws' j a = (if (j, a) = (i, tx_Sender tx)
      then Some \<lparr>ps_PostID = i, ps_Staker = tx_Sender tx, ps_Amount = d, ps_Height = h\<rparr> else GetPostStake ws j a)"
proof -
  obtain q where q: "mul_div (tx_Amount tx) (if gc_PostFeePercent params = 0 then 6 else gc_PostFeePercent params) 100 = Inr q"
    using mul_div_100 by blast
  then have "q = fee" using go_MulDiv_100 [OF q] assms(4) by simp
  note q = q [unfolded this]
  show "GetPost ws' j = (if j = i then Some \<lparr>post_PostID = i, post_Author = tx_Sender tx, post_Text = tx_Text tx,
      post_Channel = tx_Channel tx, post_ParentPostID = tx_PostID tx, post_CreatedAtHeight = h, post_CreatedAtTime = t,
      post_TotalStaked = d, post_TotalBurned = fee, post_StakerCount = 1, post_Withdrawn = False\<rparr> else GetPost ws j)"
    "GetPostStake ws' j a = (if (j, a) = (i, tx_Sender tx)
      then Some \<lparr>ps_PostID = i, ps_Staker = tx_Sender tx, ps_Amount = d, ps_Height = h\<rparr> else GetPostStake ws j a)"
    using assms(1) by (auto simp: applyCreatePost_def assms(2,3,5) q Let_def split: if_splits)
qed

lemma agrees_create:
  assumes wf: "wf_ws P B ws" and B: "Suc B < 2 ^ 64" and sha: "sha256_len P" and pct: "same_percents params f"
    and val: "ValidateTransaction P N tx (ws_reader ws) params = Inr ()"
    and ty: "tx_Type tx = TxCreatePost" and ap: "ApplyTransaction P params ws tx h t = Inr ws'"
    and ids: "post_ids_distinct P ws'" and ag: "index_agrees ws ix"
  shows "index_agrees ws' (index_tx P f h t (txToResponse P tx h) ix)"
proof -
  obtain x where x: "GetAccount ws (tx_Sender tx) = Some x" "tx_Nonce tx = acc_Nonce x + 1"
    using ValidateTransaction_common [OF val] by (auto simp: validateCommonNoBalanceCheck_Inr ws_reader_def)
  define i where "i = DerivePostID P (tx_Sender tx) (acc_Nonce x + 1)"
  define fee where "fee = go_MulDiv (tx_Amount tx) (fw_postFeePercent f) 100"
  define d where "d = tx_Amount tx - fee"
  have cp: "applyCreatePost P params ws tx h t = Inr ws'" using ap ty by (simp add: ApplyTransaction_def)
  have fee: "fee = go_MulDiv (tx_Amount tx) (if gc_PostFeePercent params = 0 then 6 else gc_PostFeePercent params) 100"
    using pct by (simp add: fee_def same_percents_def)
  note eff = applyCreatePost_effect [OF cp x(1) i_def fee d_def]
  have gr: "grows ws ws'" by (rule ApplyTransaction_grows(2) [OF wf_bounded [OF wf] B ap])
  have "nonce_of ws' (tx_Sender tx) = acc_Nonce x + 1"
    using nonces_are_eq [OF ApplyTransaction_nonce [OF wf_keyed [OF wf] ap]] x(1) by (simp add: nonce_of_def)
  then obtain y where y: "GetAccount ws' (tx_Sender tx) = Some y" "acc_Nonce y = acc_Nonce x + 1"
    using gr x(1) by (fastforce simp: grows_def nonce_of_def)
  have fresh: "GetPost ws i = None" unfolding i_def by (rule new_post_fresh [OF wf B x(1) gr y ids])
  then have nostake: "GetPostStake ws i a = None" for a
    using wf unfolding wf_ws_def stakes_wf_def by (metis not_None_eq)
  have "posts_view ix (EncodeToString i) = None" using ag fresh by (simp add: index_agrees_def)
  then have none: "Index_GetPost ix (EncodeToString i) = None" by (simp add: posts_view_def)
  have nn: "EncodeToString i \<noteq> []"
    using sha by (simp add: i_def DerivePostID_def sha256_len_def flip: length_0_conv)
  define q where "q = \<lparr>ip_PostID = EncodeToString i, ip_Author = Address_String (tx_Sender tx), ip_Text = tx_Text tx,
    ip_Channel = tx_Channel tx, ip_ParentPostID = (if tx_PostID tx = zeroPostID then [] else EncodeToString (tx_PostID tx)),
    ip_CreatedAtHeight = h, ip_CreatedAtTime = sint t, ip_TotalStaked = d, ip_AuthorStaked = d, ip_ThirdPartyStaked = 0,
    ip_StakerCount = 1, ip_UniqueBoosterCount = 0, ip_LastBoostAtHeight = 0, ip_ReplyCount = 0, ip_Withdrawn = False,
    ip_TotalBurned = fee\<rparr>"
  have eq: "index_tx P f h t (txToResponse P tx h) ix
      = UpsertPostStake (EncodeToString i) (Address_String (tx_Sender tx)) d h (InsertPost q ix)"
    using nn by (simp add: index_tx_kinds(2) [OF ty] index_post_def txToResponse_fields(1-6) txToResponse_fields(8-) [OF ty]
        x(2) valid_sender_parses [OF sha val] Let_def q_def d_def fee_def flip: i_def)
  have qf: "ip_PostID q = EncodeToString i" "index_view q = node_view \<lparr>post_PostID = i, post_Author = tx_Sender tx,
      post_Text = tx_Text tx, post_Channel = tx_Channel tx, post_ParentPostID = tx_PostID tx, post_CreatedAtHeight = h,
      post_CreatedAtTime = t, post_TotalStaked = d, post_TotalBurned = fee, post_StakerCount = 1, post_Withdrawn = False\<rparr>"
    by (simp_all add: q_def index_view_def node_view_def)
  show ?thesis
    using ag posts_view_InsertPost [of ix q] none nostake
    by (simp add: index_agrees_def eq posts_view_Upsert stakes_view_Upsert stakes_view_InsertPost eff qf)
qed

lemma agrees_boost:
  assumes pct: "same_percents params f" and val: "ValidateTransaction P N tx (ws_reader ws) params = Inr ()"
    and wf: "wf_ws P B ws" and sha: "sha256_len P"
    and ty: "tx_Type tx = TxBoostPost" and ap: "ApplyTransaction P params ws tx h t = Inr ws'"
    and ag: "index_agrees ws ix"
  shows "index_agrees ws' (index_tx P f h t (txToResponse P tx h) ix)"
proof -
  have bp: "applyBoostPost params ws tx h = Inr ws'" using ap ty by (simp add: ApplyTransaction_def)
  then obtain x post where x: "GetAccount ws (tx_Sender tx) = Some x" "tx_Amount tx \<le> acc_Balance x"
    "GetPost ws (tx_PostID tx) = Some post"
    by (auto simp: applyBoostPost_def not_less split: option.splits if_splits)
  have pc: "boost_percents params = (fw_boostBurnPct f, fw_boostAuthorPct f, fw_boostStakerPct f)"
    using pct by (simp add: same_percents_def)
  obtain b r q where m: "mul_div (tx_Amount tx) (fw_boostBurnPct f) 100 = Inr b"
    "mul_div (tx_Amount tx) (fw_boostAuthorPct f) 100 = Inr r" "mul_div (tx_Amount tx) (fw_boostStakerPct f) 100 = Inr q"
    using mul_div_100 by blast
  define d where "d = tx_Amount tx - b - r - q"
  define i a where "i = tx_PostID tx" and "a = tx_Sender tx"
  define old where "old = GetPostStake ws (tx_PostID tx) (tx_Sender tx)"
  obtain w where pay: "boost_pay q (post_TotalStaked post) (GetPostStakers ws (tx_PostID tx))
      (boost_reward (post_Author post) r (boost_base (boost_account x (tx_Amount tx) d) b ws)) = Inr w"
    and ws': "ws' = SetPost (boost_post post old d b) (SetPostStake (boost_stake old (tx_PostID tx) (tx_Sender tx) d h) w)"
    using bp applyBoostPost_eq [OF x pc m d_def old_def, of h] by (auto simp: bindR_eq_Inr)
  have keep: "GetPost w = GetPost ws" "GetPostStake w = GetPostStake ws"
    using boost_keeps(3) [OF pay] by (simp_all add: boost_keeps(1,2) GetPost_def GetPostStake_def fun_eq_iff)
  have pid: "post_PostID post = i" using wfD(8) [OF wf] x(3) by (simp add: i_def)
  from wf x(3) obtain n where "tx_PostID tx = DerivePostID P (post_Author post) n" by (rule post_origin)
  then have nn: "tr_PostID (txToResponse P tx h) \<noteq> []"
    using sha ty by (simp add: txToResponse_fields DerivePostID_def sha256_len_def flip: length_0_conv)
  have tf: "tr_PostID (txToResponse P tx h) = EncodeToString i" "tr_Sender (txToResponse P tx h) = Address_String a"
    "tr_Amount (txToResponse P tx h) = tx_Amount tx" using ty by (simp_all add: txToResponse_fields i_def a_def)
  note v = index_boost_view [OF nn, of b f d h t ix, unfolded tf go_MulDiv_100 [OF m(1)] go_MulDiv_100 [OF m(2)] go_MulDiv_100 [OF m(3)],
    OF refl d_def]
  have vp: "node_view (boost_post post old d b) = (case node_view post of (c, s, u) \<Rightarrow> (c, s + d, u + b))"
    by (simp add: boost_post_def Let_def node_view_def split: option.split)
  have pid': "post_PostID (boost_post post old d b) = i" using pid by (simp add: boost_post_def Let_def split: option.split)
  have st: "ps_PostID (boost_stake old i a d h) = i" "ps_Staker (boost_stake old i a d h) = a"
    "ps_Amount (boost_stake old i a d h) = (case map_option ps_Amount old of None \<Rightarrow> 0 | Some y \<Rightarrow> y) + d"
    using wfD(10) [OF wf] by (simp_all add: boost_stake_def old_def i_def a_def split: option.split)
  have at: "GetPostStake ws i a = old" "GetPost ws i = Some post" using x(3) by (simp_all add: old_def i_def a_def)
  have old: "stakes_view ix (EncodeToString i, Address_String a) = map_option ps_Amount old"
    using ag at by (simp add: index_agrees_def)
  show ?thesis
    unfolding index_agrees_def index_tx_kinds(3) [OF ty] v ws'
    using ag at by (auto simp: index_agrees_def keep pid' st vp old simp flip: i_def a_def)
qed

lemma agrees_tx:
  assumes "wf_ws P B ws" "Suc B < 2 ^ 64" "sha256_len P" "same_percents params f"
    "ValidateTransaction P N tx (ws_reader ws) params = Inr ()" "tx_Type tx \<noteq> TxUnstakePost"
    "ApplyTransaction P params ws tx h t = Inr ws'" "post_ids_distinct P ws'" "index_agrees ws ix"
  shows "index_agrees ws' (index_tx P f h t (txToResponse P tx h) ix)"
proof -
  consider "tx_Type tx = TxCreatePost" | "tx_Type tx = TxBoostPost" | "tx_Type tx \<notin> {TxCreatePost, TxBoostPost, TxUnstakePost}"
    using assms(6) by auto
  then show ?thesis
  proof cases
    case 1
    then show ?thesis using agrees_create [OF assms(1-5) _ assms(7-9)] by simp
  next
    case 2
    then show ?thesis using agrees_boost [OF assms(4,5,1,3) _ assms(7,9)] by simp
  next
    case 3
    then show ?thesis by (rule agrees_other [OF assms(7) _ assms(9)])
  qed
qed

section \<open>Blocks\<close>

lemma agrees_txs:
  assumes "wf_ws P B ws" "B + length txs < 2 ^ 64" "total_supply ws < 2 ^ 64" "params_ok params" "index_agrees ws ix"
    "apply_txs P N params hdr i txs ws = Inr ws'" "\<forall>tx\<in>set txs. tx_Type tx \<noteq> TxUnstakePost"
    and ids: "post_ids_distinct P ws'" and sha: "sha256_len P" and pct: "same_percents params f"
  shows "index_agrees ws' (fold (index_tx P f (hdr_Height hdr) (hdr_Timestamp hdr)) (map (\<lambda>tx. txToResponse P tx (hdr_Height hdr)) txs) ix)"
  using assms(1-7)
proof (induction txs arbitrary: i ws B ix)
  case (Cons tx txs)
  obtain w where val: "ValidateTransaction P N tx (ws_reader ws) params = Inr ()"
    and w: "ApplyTransaction P params ws tx (hdr_Height hdr) (hdr_Timestamp hdr) = Inr w"
    "apply_txs P N params hdr (Suc i) txs w = Inr ws'"
    using Cons.prems(6) by (auto split: sum.splits)
  have B: "Suc B < 2 ^ 64" "Suc B + length txs < 2 ^ 64" using Cons.prems(2) by simp_all
  have ty: "tx_Type tx \<noteq> TxUnstakePost" "\<forall>tx\<in>set txs. tx_Type tx \<noteq> TxUnstakePost" using Cons.prems(7) by simp_all
  have "grows w ws'"
    using apply_txs_grows [OF ApplyTransaction_grows(1) [OF wf_bounded [OF Cons.prems(1)] B(1) w(1)] B(2) w(2)] by blast
  then have d: "post_ids_distinct P w" using ids by (rule post_ids_distinct_mono)
  note ok = ApplyTransaction_ok [OF Cons.prems(1) B(1) Cons.prems(3,4) d w(1)]
  have "total_supply w < 2 ^ 64" using ok(2) Cons.prems(3) by simp
  from Cons.IH [OF ok(1) B(2) this Cons.prems(4)
      agrees_tx [OF Cons.prems(1) B(1) sha pct val ty(1) w(1) d Cons.prems(5)] w(2) ty(2)]
  show ?case by simp
qed simp

definition same_posts :: "WorldState \<Rightarrow> WorldState \<Rightarrow> bool" where
  "same_posts ws w \<longleftrightarrow> ws_posts w = ws_posts ws \<and> ws_postStakes w = ws_postStakes ws"

lemma same_posts_credit: "same_posts ws (credit_or_create a x ws)"
  by (simp add: same_posts_def credit_or_create_def Let_def)

lemma same_posts_slash: "same_posts ws (applySlashEvidence P params ev ws)"
  by (simp add: same_posts_def applySlashEvidence_def Let_def SlashUnbonding_def RecordSlash_def SetBurnedSupply_def
      split: option.split)

lemma same_posts_fold: "(\<And>x w. same_posts w (g x w)) \<Longrightarrow> same_posts ws (fold g xs ws)"
  by (induction xs arbitrary: ws) (auto simp: same_posts_def)

lemma same_posts_release: "same_posts ws (release_unbonding h ws)"
proof -
  define w where "w = snd (RemoveMaturedUnbonding h ws)"
  have "same_posts ws w" by (simp add: w_def same_posts_def RemoveMaturedUnbonding_def)
  moreover have "same_posts w (release_unbonding h ws)"
    unfolding release_unbonding_def Let_def split_beta w_def [symmetric] by (rule same_posts_fold) (rule same_posts_credit)
  ultimately show ?thesis by (simp add: same_posts_def)
qed

lemma same_posts_end: "same_posts ws (SetChainHeight h (epoch_transition params h (block_reward params a ws)))"
  using same_posts_credit [of ws a "gc_BlockReward params"]
  by (simp add: same_posts_def SetChainHeight_def epoch_transition_def SetCurrentEpoch_def SetActiveValidators_def
      block_reward_def SetIssuedSupply_def Let_def)

lemma agrees_same_posts: "same_posts ws w \<Longrightarrow> index_agrees w ix = index_agrees ws ix"
  by (simp add: same_posts_def index_agrees_def GetPost_def GetPostStake_def)

lemma agrees_SetLast [simp]: "index_agrees ws (SetLastIndexedHeight h ix) = index_agrees ws ix"
  by (simp add: index_agrees_def posts_view_def stakes_view_def Index_GetPost_def SetLastIndexedHeight_def)

lemma agrees_block:
  assumes wf: "wf_ws P B ws" and B: "B + length (blk_Transactions b) < 2 ^ 64"
    and room: "total_supply ws + unat (gc_BlockReward params) < 2 ^ 64" and par: "params_ok params"
    and ids: "post_ids_distinct P ws'" and sha: "sha256_len P" and pct: "same_percents params f"
    and ap: "ApplyBlock P N params ws b = Inr ws'" and ty: "\<forall>tx\<in>set (blk_Transactions b). tx_Type tx \<noteq> TxUnstakePost"
    and ag: "index_agrees ws ix"
  shows "index_agrees ws' (IndexBlock P f (hdr_Height (blk_Header b)) (blockToResponse P b True) ix)"
proof -
  define hdr txs where "hdr = blk_Header b" and "txs = blk_Transactions b"
  define w1 where "w1 = release_unbonding (hdr_Height hdr) ws"
  define w2 where "w2 = fold (applySlashEvidence P params) (blk_Evidence b) w1"
  obtain w3 where w3: "apply_txs P N params hdr 0 txs w2 = Inr w3"
    and res: "ws' = SetChainHeight (hdr_Height hdr) (epoch_transition params (hdr_Height hdr) (block_reward params (hdr_ProposerAddr hdr) w3))"
    using ap by (auto simp: ApplyBlock_def Let_def bindR_eq_Inr w2_def w1_def txs_def hdr_def)
  have 1: "wf_ws P B w1" "total_supply w1 = total_supply ws" using release_unbonding_ok [OF wf] room by (simp_all add: w1_def)
  have 2: "wf_ws P B w2" "total_supply w2 < 2 ^ 64" using evidence_ok [OF 1(1) _ par] 1(2) room by (simp_all add: w2_def)
  have sp: "same_posts ws w1" "same_posts w1 w2" "same_posts w3 ws'"
    by (simp_all add: w1_def w2_def res same_posts_release same_posts_end same_posts_fold same_posts_slash)
  have "bounded (B + length txs) w3" using apply_txs_grows [OF wf_bounded [OF 2(1)] _ w3] B by (simp add: txs_def)
  then have "grows w3 ws'"
    unfolding res by (rule same_nonces_grows(2)) (use \<open>bounded _ w3\<close> in \<open>simp add: bounded_def block_reward_nonces\<close>)
  then have ids3: "post_ids_distinct P w3" using ids by (rule post_ids_distinct_mono)
  have ag2: "index_agrees w2 ix" using ag agrees_same_posts [OF sp(1)] agrees_same_posts [OF sp(2)] by simp
  have "index_agrees w3 (fold (index_tx P f (hdr_Height hdr) (hdr_Timestamp hdr))
      (map (\<lambda>tx. txToResponse P tx (hdr_Height hdr)) txs) ix)"
    by (rule agrees_txs [OF 2(1) _ 2(2) par ag2 w3 _ ids3 sha pct]) (use B ty in \<open>simp_all add: txs_def\<close>)
  then show ?thesis
    using agrees_same_posts [OF sp(3)]
    by (simp add: IndexBlock_def blockToResponse_def Let_def flip: hdr_def txs_def)
qed

definition serves :: "prims \<Rightarrow> (u64 \<Rightarrow> BlockResponse option) \<Rightarrow> u64 \<Rightarrow> Block \<Rightarrow> bool" where
  "serves P serve h b \<longleftrightarrow> serve h = Some (blockToResponse P b True) \<and> hdr_Height (blk_Header b) = h"

lemma agrees_heights:
  assumes "wf_ws P B ws" "B + length (txs_of bs) < 2 ^ 64"
    "total_supply ws + length bs * unat (gc_BlockReward params) < 2 ^ 64" "apply_blocks P N params ws bs = Inr ws'"
    "\<forall>tx\<in>set (txs_of bs). tx_Type tx \<noteq> TxUnstakePost" "index_agrees ws ix" "list_all2 (serves P serve) hs bs"
    and par: "params_ok params" and ids: "post_ids_distinct P ws'" and sha: "sha256_len P" and pct: "same_percents params f"
  shows "\<exists>jx. index_heights P f serve hs ix = (True, jx) \<and> index_agrees ws' jx \<and> ix_lastHeight jx = last (ix_lastHeight ix # hs)"
  using assms(1-7)
proof (induction bs arbitrary: ws B ix hs)
  case Nil
  then show ?case by simp
next
  case (Cons b bs)
  obtain w where w: "ApplyBlock P N params ws b = Inr w" "apply_blocks P N params w bs = Inr ws'"
    using Cons.prems(4) by (auto simp: bindR_eq_Inr)
  obtain h hs' where hs: "hs = h # hs'" "serves P serve h b" "list_all2 (serves P serve) hs' bs"
    using Cons.prems(7) by (auto simp: list_all2_Cons2)
  have B: "B + length (blk_Transactions b) < 2 ^ 64" "B + length (blk_Transactions b) + length (txs_of bs) < 2 ^ 64"
    using Cons.prems(2) by (simp_all add: txs_of_def)
  have ty: "\<forall>tx\<in>set (blk_Transactions b). tx_Type tx \<noteq> TxUnstakePost" "\<forall>tx\<in>set (txs_of bs). tx_Type tx \<noteq> TxUnstakePost"
    using Cons.prems(5) by (auto simp: txs_of_def)
  have "bounded (B + length (blk_Transactions b)) w" by (rule ApplyBlock_used(2) [OF wf_bounded [OF Cons.prems(1)] B(1) w(1)])
  from apply_blocks_used [OF this B(2) w(2)] have d: "post_ids_distinct P w" using ids post_ids_distinct_mono by blast
  have room: "total_supply ws + unat (gc_BlockReward params) < 2 ^ 64" using Cons.prems(3) by simp
  note ok = ApplyBlock_ok [OF Cons.prems(1) B(1) room par d w(1)]
  have rest: "total_supply w + length bs * unat (gc_BlockReward params) < 2 ^ 64" using ok(2) Cons.prems(3) by simp
  define kx where "kx = IndexBlock P f h (blockToResponse P b True) ix"
  have "index_agrees w kx"
    using agrees_block [OF Cons.prems(1) B(1) room par d sha pct w(1) ty(1) Cons.prems(6)] hs(2) by (simp add: kx_def serves_def)
  from Cons.IH [OF ok(1) B(2) rest w(2) ty(2) this hs(3)]
  obtain jx where jx: "index_heights P f serve hs' kx = (True, jx)" "index_agrees ws' jx"
    "ix_lastHeight jx = last (ix_lastHeight kx # hs')" by blast
  have "index_heights P f serve hs ix = (True, jx)" using jx(1) hs(1,2) by (simp add: serves_def kx_def)
  then show ?case using jx hs(1) by (auto simp: kx_def IndexBlock_def SetLastIndexedHeight_def)
qed

text \<open>
  C9: the indexer reproduces the chain.  If its tables agree with a chain state on every post (author, text, channel,
  parent, height, time, withdrawal, staked and burned totals) and on every stake, then one poll that finds new blocks
  reads them all, ends at the node's height, and its tables agree with the state after these blocks, as long as none of
  them withdraws a post stake, the follower has the chain's percentages, and supply and height are below \<open>2 ^ 63\<close>, what a
  database column holds.
\<close>

theorem index_follows_chain:
  assumes "wf_ws P B ws" "B + length (txs_of bs) < 2 ^ 64"
    "total_supply ws + length bs * unat (gc_BlockReward params) < 2 ^ 63" "unat latest < 2 ^ 63" "params_ok params" "sha256_len P"
    "same_percents params f" "apply_blocks P N params ws bs = Inr ws'" "post_ids_distinct P ws'"
    "\<forall>tx\<in>set (txs_of bs). tx_Type tx \<noteq> TxUnstakePost"
    "unat latest = unat (ix_lastHeight ix) + length bs" "bs \<noteq> []"
    "\<forall>k<length bs. serves P serve (ix_lastHeight ix + 1 + of_nat k) (bs ! k)"
    "index_agrees ws ix"
  shows "\<exists>jx. poll P f serve (Some latest) ix = (True, jx) \<and> index_agrees ws' jx \<and> ix_lastHeight jx = latest"
proof -
  have room: "total_supply ws + length bs * unat (gc_BlockReward params) < 2 ^ 64" using assms(3) by simp
  define l where "l = unat (ix_lastHeight ix)"
  define hs :: "u64 list" where "hs = map of_nat [Suc l..<Suc (unat latest)]"
  have len: "length hs = length bs" unfolding hs_def l_def assms(11) length_map length_upt by simp
  have nth: "hs ! k = ix_lastHeight ix + 1 + of_nat k" if "k < length bs" for k
    using that assms(11) by (simp add: hs_def l_def add_ac del: upt_Suc)
  have "list_all2 (serves P serve) hs bs" using assms(13) nth len by (simp add: list_all2_conv_all_nth)
  note run = agrees_heights [OF assms(1,2) room assms(8,10,14) this assms(5,9,6,7)]
  have "hs \<noteq> []" using len assms(12) by auto
  moreover have "Suc l \<le> unat latest" using assms(11,12) by (cases bs) (simp_all add: l_def)
  then have "last hs = latest" by (simp add: hs_def)
  moreover have "\<not> latest \<le> ix_lastHeight ix" using assms(11,12) by (simp add: unat_le_exact)
  ultimately show ?thesis using run by (simp add: poll_def del: upt_Suc flip: hs_def l_def)
qed

text \<open>The first block of the sample chain: a transfer, a post and a boost of it.\<close>

definition empty_index :: IndexTables where
  "empty_index = \<lparr>ix_posts = [], ix_boosts = [], ix_transfers = [], ix_rewards = [], ix_stakes = [], ix_lastHeight = 0\<rparr>"

definition sample_follower :: Follower where
  "sample_follower = \<lparr>fw_postFeePercent = 6, fw_boostBurnPct = 3, fw_boostAuthorPct = 2, fw_boostStakerPct = 1\<rparr>"

definition sample_node :: "u64 \<Rightarrow> BlockResponse option" where
  "sample_node h = (if h = 1 then Some (blockToResponse chain_prims (hd chain_run) True) else None)"

lemma sample_index:
  "sha256_len chain_prims" "params_ok chain_params" "same_percents chain_params sample_follower"
  "index_agrees chain_ws0 empty_index" "serves chain_prims sample_node 1 (hd chain_run)"
  "\<forall>tx\<in>set (txs_of (take 1 chain_run)). tx_Type tx \<noteq> TxUnstakePost"
  "apply_blocks chain_prims plain_norm chain_params chain_ws0 (take 1 chain_run) = Inr staked_ws"
  "length (txs_of (take 1 chain_run)) = 3" "take 1 chain_run = [hd chain_run]"
proof -
  show "sha256_len chain_prims" unfolding sha256_len_def chain_prims_def by (simp add: length_drop) arith
  show "params_ok chain_params" by code_simp
  show "same_percents chain_params sample_follower" by code_simp
  have "ws_posts chain_ws0 = []" "ws_postStakes chain_ws0 = []" by code_simp+
  then show "index_agrees chain_ws0 empty_index"
    by (simp add: index_agrees_def posts_view_def stakes_view_def Index_GetPost_def GetPost_def GetPostStake_def empty_index_def)
  show "serves chain_prims sample_node 1 (hd chain_run)"
    by (simp add: serves_def sample_node_def) (simp add: chain_run_def chain_block_def)
  show "\<forall>tx\<in>set (txs_of (take 1 chain_run)). tx_Type tx \<noteq> TxUnstakePost" "length (txs_of (take 1 chain_run)) = 3"
    by code_simp+
  show "apply_blocks chain_prims plain_norm chain_params chain_ws0 (take 1 chain_run) = Inr staked_ws" by code_simp
  show "take 1 chain_run = [hd chain_run]" by (simp add: chain_run_def)
qed

lemma staked_ids: "post_ids_distinct chain_prims staked_ws"
proof -
  have "list_all (\<lambda>(a, x). length a = 24) (ws_accounts staked_ws)" by code_simp
  then have "length a = 24" if "GetAccount staked_ws a = Some x" for a x
    using that by (auto simp: list_all_iff GetAccount_def dest: map_of_SomeD)
  then show ?thesis unfolding post_ids_distinct_def by (auto simp: chain_post_id)
qed

theorem index_follows_chain_witness:
  "\<exists>jx. poll chain_prims sample_follower sample_node (Some 1) empty_index = (True, jx)
     \<and> index_agrees staked_ws jx \<and> GetPostStake staked_ws chain_post (chain_addr 2) \<noteq> None"
proof -
  have st: "GetPostStake staked_ws chain_post (chain_addr 2) \<noteq> None" by code_simp
  have l: "ix_lastHeight empty_index = 0" by (simp add: empty_index_def)
  note at = sample_index [unfolded sample_index(9)]
  have "\<exists>jx. poll chain_prims sample_follower sample_node (Some 1) empty_index = (True, jx)
      \<and> index_agrees staked_ws jx \<and> ix_lastHeight jx = 1"
    by (rule index_follows_chain [OF chain_ws0_wf(1) _ _ _ at(2,1,3,7) staked_ids at(6) _ _ _ at(4)])
      (use at(5,8) in \<open>simp_all add: l chain_ws0_wf(2) chain_params_def\<close>)
  with st show ?thesis by blast
qed

section \<open>Withdrawals\<close>

lemma index_tx_keeps_stakes:
  assumes "stakes_view ix k \<noteq> None"
  shows "stakes_view (index_tx P f h t (txToResponse P tx g) ix) k \<noteq> None"
proof -
  define r where "r = txToResponse P tx g"
  have "stakes_view (index_post P f h t r ix) k \<noteq> None"
    using assms by (simp add: index_post_def Let_def stakes_view_Upsert stakes_view_InsertPost)
  moreover have "stakes_view (index_boost f h t r ix) k \<noteq> None"
    using assms index_boost_view(2) [of r, OF _ refl refl] by (cases "tr_PostID r = []") (simp_all add: index_boost_def)
  moreover have "stakes_view (InsertTransfer x ix) k \<noteq> None" for x
    using assms by (simp add: InsertTransfer_def stakes_view_def)
  moreover have "tr_Type r = go ''boost_post'' \<or> index_unstake r ix = ix"
    using type_names(3) by (simp add: r_def index_unstake_def txToResponse_fields)
  ultimately show ?thesis
    using assms type_names_distinct unfolding index_tx_def r_def [symmetric] by (simp split: if_splits) metis
qed

lemma index_blocks_keep_stakes:
  assumes "stakes_view ix k \<noteq> None"
  shows "stakes_view (fold (\<lambda>b. IndexBlock P f (hdr_Height (blk_Header b)) (blockToResponse P b True)) bs ix) k \<noteq> None"
proof -
  have txs: "stakes_view (fold (index_tx P f h t) (map (\<lambda>tx. txToResponse P tx g) txs) jx) k \<noteq> None"
    if "stakes_view jx k \<noteq> None" for h t g txs jx
    using that by (induction txs arbitrary: jx) (simp_all add: index_tx_keeps_stakes del: not_None_eq)
  have "stakes_view (SetLastIndexedHeight h jx) = stakes_view jx" for h jx
    by (rule stakes_view_cong) (simp add: SetLastIndexedHeight_def)
  then show ?thesis
    using assms txs by (induction bs arbitrary: ix) (simp_all add: IndexBlock_def blockToResponse_def Let_def del: not_None_eq)
qed

text \<open>
  C35: taking a stake out of a post never reaches the indexer.  The node's block response has no post identifier for
  such a transaction and the follower skips it, so the row of the stake, right before the withdrawal, is wrong after
  it and no sequence of later blocks removes it.
\<close>

theorem unstake_never_indexed:
  assumes "tx_Type tx = TxUnstakePost" "ApplyTransaction P params ws tx h t = Inr ws'" "index_agrees ws ix"
  shows "GetPostStake ws' (tx_PostID tx) (tx_Sender tx) = None
    \<and> index_tx P f h t (txToResponse P tx h) ix = ix
    \<and> stakes_view (fold (\<lambda>b. IndexBlock P f (hdr_Height (blk_Header b)) (blockToResponse P b True)) bs ix)
        (EncodeToString (tx_PostID tx), Address_String (tx_Sender tx)) \<noteq> None"
proof -
  have "applyUnstakePost ws tx = Inr ws'" using assms(1,2) by (simp add: ApplyTransaction_def)
  note u = unstake_removes [OF this]
  then have "stakes_view ix (EncodeToString (tx_PostID tx), Address_String (tx_Sender tx)) \<noteq> None"
    using assms(3) by (auto simp: index_agrees_def)
  moreover have "index_tx P f h t (txToResponse P tx h) ix = ix"
    using assms(1) by (simp add: index_tx_kinds(4) index_unstake_def txToResponse_fields)
  ultimately show ?thesis using u(2) index_blocks_keep_stakes by blast
qed

theorem unstake_never_indexed_witness:
  "\<exists>ix. index_agrees staked_ws ix
     \<and> GetPostStake unstaked_ws chain_post (chain_addr 2) = None
     \<and> index_tx chain_prims sample_follower 2 2 (txToResponse chain_prims unstake_tx 2) ix = ix
     \<and> stakes_view (fold (\<lambda>b. IndexBlock chain_prims sample_follower (hdr_Height (blk_Header b))
           (blockToResponse chain_prims b True)) [chain_block 2 [unstake_tx]] ix)
         (EncodeToString chain_post, Address_String (chain_addr 2)) \<noteq> None"
proof -
  have ty: "tx_Type unstake_tx = TxUnstakePost" "tx_PostID unstake_tx = chain_post" "tx_Sender unstake_tx = chain_addr 2"
    by (simp_all add: unstake_tx_def chain_tx_def)
  have "applyUnstakePost staked_ws unstake_tx = Inr unstaked_ws" by code_simp
  then have ap: "ApplyTransaction chain_prims chain_params staked_ws unstake_tx 2 2 = Inr unstaked_ws"
    using ty(1) by (simp add: ApplyTransaction_def)
  note at = sample_index [unfolded sample_index(9)]
  have srv: "list_all2 (serves chain_prims sample_node) [1] [hd chain_run]" using at(5) by simp
  have "\<exists>jx. index_heights chain_prims sample_follower sample_node [1] empty_index = (True, jx) \<and> index_agrees staked_ws jx
      \<and> ix_lastHeight jx = last [ix_lastHeight empty_index, 1]"
    by (rule agrees_heights [OF chain_ws0_wf(1) _ _ at(7,6,4) srv at(2) staked_ids at(1,3)])
      (use at(8) in \<open>simp_all add: chain_ws0_wf(2) chain_params_def\<close>)
  then obtain ix where ag: "index_agrees staked_ws ix" by blast
  from unstake_never_indexed [OF ty(1) ap ag] show ?thesis using ag unfolding ty(2,3) by blast
qed

end
