(* ===== verification/Spec2Isabelle.thy ===== *)
theory Spec2Isabelle
  imports Chain Agreement Browsing Finality EndToEnd Indexing
begin

text \<open>
  A verification library of DRANA: a proof-of-stake chain for posts on which tokens are staked (a Go node under
  \<^verbatim>\<open>internal/\<close>), an indexer that serves feeds (\<^verbatim>\<open>internal/indexer\<close>), and a browser application with its own wallet
  (TypeScript and React under \<^verbatim>\<open>drana-app/src\<close>).  The wallet builds and signs transactions, submits them to the
  node and follows them; the node validates and executes them block by block; the application shows what node
  and indexer answer.

  \<^bold>\<open>How the code is modelled.\<close>  Structs and interfaces are records with the field names of the source behind a
  prefix, functions are functions of the same name.  A returned \<^verbatim>\<open>error\<close>, a panic and a thrown exception are
  values \<open>Inl e\<close> of the result type.  Go integers are words of their width (\<^verbatim>\<open>int\<close> of the indexer is an integer with
  the wrap-around written out), JavaScript numbers are IEEE doubles as rationals with correct rounding, JavaScript
  strings are lists of 16-bit code units, Go strings and byte slices are lists of bytes, and maps are association
  lists in an arbitrary order.  An asynchronous handler is split at its \<^verbatim>\<open>await\<close>; what it captured is an argument of
  the second part.  A component that renders returns the tree of texts, inputs and buttons it shows (\<open>node\<close>), with
  the action of every button; markup and styles are left out.  Code outside the repository is a parameter: SHA-256
  and Ed25519 of the node (\<open>prims\<close>), the \<^verbatim>\<open>noble\<close> and WebCrypto functions of the wallet (\<open>js_prims\<close>), Unicode
  normalization (\<open>norm\<close>), \<^verbatim>\<open>fetch\<close>, number formatting outside the integers (\<open>fmt\<close>), the collation of the browser,
  \<^verbatim>\<open>ORDER BY\<close> and the floating-point score of the indexer (\<open>sql_env\<close>).  What is assumed of them are named
  predicates (\<open>sha256_len\<close>, \<open>same_hash\<close>, \<open>aes_gcm_correct\<close>, \<open>tag_checked\<close>, \<open>orders_rows\<close>, \<open>collation\<close>),
  and every theorem that uses one has a witness.

  \<^bold>\<open>Shared theories.\<close>
  \<^item> \<open>Prelude\<close>: results, byte encodings, words, finite maps; the locale \<open>go_map\<close>, interpreted by the association lists.
  \<^item> \<open>GoSort\<close>: the insertion sort the Go code writes out, and the locale \<open>sort_order\<close> under which it sorts;
    interpreted for validators in \<open>WorldState\<close> and for scored posts in \<open>Indexer\<close>.
  \<^item> \<open>JsNumber\<close>, \<open>JsString\<close>, \<open>Json\<close>: doubles, strings, \<^verbatim>\<open>JSON.stringify\<close> and \<^verbatim>\<open>JSON.parse\<close> with their round trip.  The
    parser has fuel \<open>2 * length + 2\<close>, which is enough for every text the printer writes.

  \<^bold>\<open>The node.\<close>
  \<^item> \<open>GoCrypto\<close> (\<^verbatim>\<open>internal/crypto\<close>): addresses with checksum, keys, signatures.
  \<^item> \<open>GoTypes\<close> (\<^verbatim>\<open>internal/types\<close>): transactions, blocks, staking, hashing, \<^verbatim>\<open>MulDiv\<close>, JSON forms.
  \<^item> \<open>WorldState\<close>, \<open>Executor\<close> (\<^verbatim>\<open>internal/state\<close>): the state and its accessors; the seven transaction types, slashing,
    block rewards, unbonding, epochs, the state root.
  \<^item> \<open>GoText\<close>, \<open>Validation\<close> (\<^verbatim>\<open>internal/validation\<close>): texts, names and transactions.
  \<^item> \<open>Genesis\<close> (\<^verbatim>\<open>internal/genesis\<close>): loading the genesis file and the first state.
  \<^item> \<open>Ledger\<close>, \<open>LedgerBlocks\<close>, \<open>Chain\<close>: the ledger invariant (\<open>wf_ws\<close>: the total of a post is the sum of its stakes,
    the post-stake balance of an account the sum of its positions), supply accounting and nonces for one
    transaction, one block and a chain of blocks; that a validated transaction always applies; that nothing is
    replayed.
  \<^item> \<open>Mempool\<close>, \<open>Reaping\<close> (\<^verbatim>\<open>internal/mempool\<close>): the pool as a state machine (\<open>pool_step\<close>) with its invariant, the
    speculative state, the reaping loops with their termination; that the speculative state never promises more
    than the executor gives, so a reaped block of transfers, posts, boosts and stakes applies.
  \<^item> \<open>Wire\<close> (\<^verbatim>\<open>internal/p2p/convert.go\<close>): messages and the values read from them.
  \<^item> \<open>BlockStore\<close>, \<open>KVStore\<close> (\<^verbatim>\<open>internal/store\<close>): the keys and byte encodings of blocks and state; saving and loading,
    with the locale \<open>kv_field\<close> for a map kept under a key prefix, interpreted for accounts, posts and post stakes.
  \<^item> \<open>Consensus\<close> (\<^verbatim>\<open>internal/consensus/proposer.go\<close>, \<^verbatim>\<open>validator.go\<close>): the proposer schedule and its fairness, block
    validation, certificates and the overlap of quorums.
  \<^item> \<open>Engine\<close> (\<^verbatim>\<open>internal/consensus/engine.go\<close>): proposing, committing, the handlers and catching up; the clock, the
    replies of peers and failures of the databases are arguments, and the loop of \<^verbatim>\<open>SyncToNetwork\<close> has fuel, as a
    peer may serve blocks for ever.
  \<^item> \<open>EngineChain\<close>: the abstract chain (\<open>replay\<close>: a list of blocks an auditor accepts), the relation \<open>holds_chain\<close> and
    the simulation of every step of a node (\<open>engine_step\<close>) by appending to the list.  The main loop reads a height
    and proposes it in two steps, between which any handler may run.  The locale \<open>chain_rule\<close> is what an auditor's
    rule for one block has to give; it is interpreted for blocks linked by their hashes, which every run keeps, and
    for blocks that also have the next height, which runs keep that never propose a height that is taken.
  \<^item> \<open>Finality\<close>: a round among honest nodes commits everywhere; a repeated round makes them sign twice; a stale height
    is committed a second time.
  \<^item> \<open>Rpc\<close> (\<^verbatim>\<open>internal/rpc\<close>): the HTTP handlers, and what the status of a transaction tells.
  \<^item> \<open>Indexer\<close> (\<^verbatim>\<open>internal/indexer/ranking.go\<close>, \<^verbatim>\<open>api.go\<close>): the feed queries; the locales \<open>counted_pages\<close> (every page is at
    most full and comes with the count of all posts) and \<open>page_source\<close> (the pages are slices of one list) are what a
    client that loads pages relies on, interpreted by the ranked queries.  Every request has its own clock and its own
    order of equal rows, so the second holds only where no two posts rank equal.
  \<^item> \<open>Follower\<close> (\<^verbatim>\<open>internal/indexer/follower.go\<close>, \<^verbatim>\<open>db.go\<close>): blocks read from the node are replayed into tables; a
    statement is what it does to the rows, and \<^verbatim>\<open>poll\<close> runs over the heights the node reports.
  \<^item> \<open>Indexing\<close>: the tables simulate the chain state (\<open>index_agrees\<close>) until a post stake is withdrawn.

  \<^bold>\<open>The application.\<close>
  \<^item> \<open>WalletCrypto\<close>, \<open>WalletSigning\<close>, \<open>WalletStorage\<close>, \<open>WalletContext\<close>, \<open>PendingTxs\<close> (\<^verbatim>\<open>wallet/\<close>): keys and their
    encryption, signable bytes and hashes, \<^verbatim>\<open>localStorage\<close> (the locale \<open>wallet_store\<close>, interpreted by the code), the
    wallet provider (\<open>wallet_run\<close> with reloads, from an empty storage or one of the legacy format; \<open>wallet_inv\<close>) and the pending list (\<open>pending_step\<close> with overlapping callbacks).
  \<^item> \<open>Api\<close> (\<^verbatim>\<open>api/\<close>): requests, errors, the numeric reviver, submission.
  \<^item> \<open>Router\<close>, \<open>Ui\<close>, \<open>Forms\<close>, \<open>WalletForms\<close>, \<open>Cards\<close>, \<open>TopBar\<close>, \<open>Pages\<close> (\<^verbatim>\<open>router.ts\<close>, \<^verbatim>\<open>App.tsx\<close>, \<^verbatim>\<open>components/\<close>,
    \<^verbatim>\<open>wallet/WalletModals.tsx\<close>, \<^verbatim>\<open>pages/\<close>): routes, forms, dialogs, cards, menus and pages.
  \<^item> \<open>Agreement\<close> and this theory: application and node compute the same bytes, hashes, post identifiers and addresses.
  \<^item> \<open>Submission\<close> and this theory: the request the wallet posts arrives in the pool of the node.
  \<^item> \<open>EndToEnd\<close>: \<^verbatim>\<open>signAndSubmit\<close> against the node's handlers, from the button to the pool.
  \<^item> \<open>Browsing\<close>: the feed page against the indexer, the dialogs of the feed, the channel search.

  \<^bold>\<open>Where the code falls short.\<close>  Some theorems show behaviour that is not intended: a first-time staker's key is
  lost (\<open>Chain\<close>), an unlock overtaken by a switch installs the wrong key (\<open>WalletContext\<close>), a poll drops a
  transaction added meanwhile (\<open>PendingTxs\<close>), an amount such as 8.2 is truncated (\<open>Forms\<close>), a channel named by digits
  breaks the search and a huge page number crashes a request (\<open>Browsing\<close>), two registrations of one name in the
  pool stop a proposer (\<open>Reaping\<close>), a withdrawn stake returns after a restart (\<open>KVStore\<close>) and
  stays in the indexer for ever (\<open>Indexing\<close>), a certificate may name another height than its block
  (\<open>Consensus\<close>), a repeated proposal makes honest validators sign evidence against themselves and the proposal of a
  height that was read too early repeats that height (\<open>Finality\<close>).

  \<^bold>\<open>Limits of the statements.\<close>  \<open>index_agrees\<close> compares posts and stakes without the staker count, which the indexer
  raises at every boost, and without the height of a stake.  \<open>account_of_json\<close> stops with an error at a counter of
  \<open>2 ^ 53\<close> or more, which the reviver keeps as a string; the application would go on with the string.  A failing
  database transaction is represented by the argument of \<open>commitBlock\<close>, not inside \<open>SaveState\<close>.

  \<^bold>\<open>Not modelled.\<close>  Of the indexer, opening and migrating the database and the read-only queries of the handlers other
  than the feed; peers, transport and start-up (\<^verbatim>\<open>p2p/peer.go\<close>, \<^verbatim>\<open>server.go\<close>, \<^verbatim>\<open>client.go\<close>, \<^verbatim>\<open>node\<close>, \<^verbatim>\<open>cmd\<close>), which only call
  the modelled code; the routing table and the encoder of the RPC server; locks: a proposal, a finalized block and
  the blocks of one response of a synchronization are handled under the lock of the engine from beginning to end
  and are one step each, while a submitted transaction is checked against accounts that may be older than the state
  and is added under the lock of the pool, which is what the step \<open>submit\<close> of \<open>engine_step\<close> allows; the timers of
  the main loop; the entry point and the loading animation of the application; caching and refetching of
  \<^verbatim>\<open>react-query\<close>; styles.
\<close>

section \<open>What a signature covers\<close>

text \<open>
  C11: the signable bytes determine the transaction: two transactions with the same signable bytes agree in
  every field but the signature, so a signature can never be moved to a transaction with another sender,
  recipient, post, text, channel, amount, nonce or key.
\<close>

theorem SignableBytes_determine_tx:
  assumes "wf_tx tx" "wf_tx tx'" "SignableBytes tx = SignableBytes tx'"
  shows "tx_Type tx' = tx_Type tx \<and> tx_Sender tx' = tx_Sender tx \<and> tx_Recipient tx' = tx_Recipient tx
    \<and> tx_PostID tx' = tx_PostID tx \<and> tx_Text tx' = tx_Text tx \<and> tx_Channel tx' = tx_Channel tx
    \<and> tx_Amount tx' = tx_Amount tx \<and> tx_Nonce tx' = tx_Nonce tx \<and> tx_PubKey tx' = tx_PubKey tx"
  by (rule SignableBytes_inj [OF assms])

definition paid :: Transaction where
  "paid = chain_tx TxTransfer 1 (chain_addr 2) zeroPostID [104, 105] 200 1"

lemma chain_addr_length [simp]: "length (chain_addr b) = 24"
  by (simp add: chain_addr_def chain_prims_def AddressFromPublicKey_def chain_key_def copy_into_def Let_def)

lemma paid_wf: "wf_tx paid" "wf_tx (paid\<lparr>tx_Signature := []\<rparr>)"
  by (simp_all add: wf_tx_def paid_def chain_tx_def zeroPostID_def chain_key_def)

theorem SignableBytes_determine_tx_witness:
  "tx_Amount (paid\<lparr>tx_Signature := []\<rparr>) = tx_Amount paid \<and> paid\<lparr>tx_Signature := []\<rparr> \<noteq> paid"
proof -
  have "SignableBytes paid = SignableBytes (paid\<lparr>tx_Signature := []\<rparr>)" by (simp add: SignableBytes_eq)
  moreover have "tx_Signature paid \<noteq> []" by code_simp
  then have "paid\<lparr>tx_Signature := []\<rparr> \<noteq> paid" by (metis Transaction.select_convs(9) Transaction.surjective Transaction.update_convs(9))
  ultimately show ?thesis using SignableBytes_determine_tx [OF paid_wf] by simp
qed

section \<open>Application and node agree\<close>

text \<open>
  C7: the bytes the browser wallet signs are the bytes the node verifies: for every transaction the wallet can
  describe, \<^verbatim>\<open>computeSignableBytes\<close> of \<^verbatim>\<open>signableBytes.ts\<close> returns exactly \<^verbatim>\<open>Transaction.SignableBytes\<close> of
  \<^verbatim>\<open>transaction.go\<close>, amounts above \<open>2 ^ 53\<close> included as long as the number is the exact integer.
\<close>

theorem app_node_signable:
  assumes "wf_tx tx" "describes s tx"
  shows "computeSignableBytes s = Inr (SignableBytes tx)"
  by (rule signable_agrees [OF assms])

text \<open>
  The transaction hash the wallet computes to follow a pending transaction is the hash the node reports,
  in lower-case hexadecimal.
\<close>

theorem app_node_tx_hash:
  assumes "wf_tx tx" "describes s tx" "same_hash Q P"
  shows "computeTxHash Q s (toHex (tx_Signature tx)) = Inr (widen (EncodeToString (Transaction_Hash P tx)))"
  by (simp add: widen_Encode hash_agrees [OF assms])

text \<open>
  The post identifier the wallet predicts for its own post is the one the node derives when it applies the
  transaction.
\<close>

theorem app_node_post_id:
  assumes "length a = 24" "same_hash Q P"
  shows "derivePostID Q (widen (Address_String a)) (app_number n) = Inr (widen (EncodeToString (DerivePostID P a n)))"
  by (simp add: widen_Encode widen_Address_String post_id_agrees [OF assms])

text \<open>
  C23: the address the wallet shows for a public key is the node's address string for that key, the node parses
  it back to the same address (the checksum holds), and the wallet's own parser reads the same 24 bytes.
\<close>

theorem app_node_address:
  assumes "sha256_len P" "same_hash Q P"
  shows "deriveAddress Q pk = widen (Address_String (AddressFromPublicKey P pk))
    \<and> ParseAddress P (Address_String (AddressFromPublicKey P pk)) = Inr (AddressFromPublicKey P pk)
    \<and> parseAddress (deriveAddress Q pk) = Inr (AddressFromPublicKey P pk)"
proof -
  have "length (sha256 P x) = 32" for x using assms(1) by (simp add: sha256_len_def)
  then have "length (AddressFromPublicKey P pk) = 24"
    by (simp add: AddressFromPublicKey_def copy_into_def Let_def)
  then show ?thesis
    using Address_Validate_derived [OF assms(1)]
    by (simp add: address_agrees [OF assms] widen_Address_String ParseAddress_String parseAddress_app)
qed

definition paid_app :: SignTx where
  "paid_app = \<lparr>st_type = Num 1, st_sender = app_address (chain_addr 1), st_recipient = app_address (chain_addr 2),
     st_postId = [], st_text = js ''hi'', st_channel = [], st_amount = Num 200, st_nonce = Num 1,
     st_pubKey = toHex (chain_key 1)\<rparr>"

lemma paid_describes: "describes paid_app paid"
proof -
  have "TextEncoder_encode (js ''hi'') = [104, 105]" "TextEncoder_encode [] = []"
    by (simp_all add: TextEncoder_encode_def utf8_bytes_def js_def is_high_def is_low_def)
  then show ?thesis
    by (simp add: describes_def paid_app_def paid_def chain_tx_def app_field_def app_number_def zeroPostID_def)
qed

definition demo_prims :: js_prims where
  "demo_prims = sample_prims\<lparr>noble_sha256 := sha256 chain_prims\<rparr>"

lemma demo_same_hash: "same_hash demo_prims chain_prims"
  by (simp add: same_hash_def demo_prims_def)

theorem app_node_signable_witness: "computeSignableBytes paid_app = Inr (SignableBytes paid)"
  by (rule app_node_signable [OF paid_wf(1) paid_describes])

theorem app_node_tx_hash_witness:
  "computeTxHash demo_prims paid_app (toHex (tx_Signature paid))
    = Inr (widen (EncodeToString (Transaction_Hash chain_prims paid)))"
  by (rule app_node_tx_hash [OF paid_wf(1) paid_describes demo_same_hash])

theorem app_node_post_id_witness:
  "derivePostID demo_prims (widen (Address_String (chain_addr 1))) (app_number 2)
    = Inr (widen (EncodeToString chain_post))"
  using app_node_post_id [OF chain_addr_length demo_same_hash] by (simp add: chain_post_def)

theorem app_node_address_witness:
  "deriveAddress demo_prims (chain_key 1) = widen (Address_String (chain_addr 1))
    \<and> ParseAddress chain_prims (Address_String (chain_addr 1)) = Inr (chain_addr 1)"
proof -
  have "sha256_len chain_prims" 
    by (simp only: sha256_len_def chain_prims_def prims.simps length_drop length_append length_replicate
        add_diff_cancel_right' simp_thms)
  from app_node_address [OF this demo_same_hash, of "chain_key 1"] show ?thesis by (simp add: chain_addr_def)
qed

text \<open>
  C5: what the wallet signs is what the node puts into its pool.  The request that the application posts for a
  transaction is decoded by the node to that transaction in every field; the response carries the hash that the
  wallet computes itself; and if the signature is one of the owner of the address, the transaction is accepted
  exactly when the sender's account can pay and has a smaller nonce, the transaction is new and the pool has
  room.
\<close>

theorem wallet_submission_arrives:
  assumes "wf_tx tx" "describes s tx" "same_hash Q P" "unat (tx_Amount tx) < 2 ^ 53" "unat (tx_Nonce tx) < 2 ^ 53"
    "tx_Type tx \<in> {TxTransfer, TxCreatePost, TxBoostPost, TxRegisterName, TxStake, TxUnstake, TxUnstakePost}"
    "Address_Validate P (tx_Sender tx) = Inr ()" "st_recipient s = [] \<or> Address_Validate P (tx_Recipient tx) = Inr ()"
    "AddressFromPublicKey P (tx_PubKey tx) = tx_Sender tx" "Verify P (tx_PubKey tx) (SignableBytes tx) (tx_Signature tx)"
  shows "\<exists>req resp e'. decodeSubmit (submit_request fmt s (tx_Signature tx)) = Some req \<and> requestTx P req = Inr tx
    \<and> handleSubmitTransaction P (Some req) e = (OK resp, e')
    \<and> computeTxHash Q s (toHex (tx_Signature tx)) = Inr (widen (gsr_TxHash resp))
    \<and> (gsr_Accepted resp \<longleftrightarrow> checkState tx (Some (GetAccount (eng_State e))) = Inr ()
          \<and> \<not> Mempool_Has (Transaction_Hash P tx) (eng_Mempool e) \<and> Mempool_Size (eng_Mempool e) < mp_maxSize (eng_Mempool e))"
proof -
  obtain req where req: "decodeSubmit (submit_request fmt s (tx_Signature tx)) = Some req" "requestTx P req = Inr tx"
    using request_arrives [OF assms(1,2,4,5,6,7,8)] by blast
  obtain r e' where sub: "OnSubmitTx P (TxToProto tx) e = (r, e')" by fastforce
  define resp where "resp = \<lparr>gsr_Accepted = (case r of Inr _ \<Rightarrow> True | Inl _ \<Rightarrow> False),
    gsr_TxHash = EncodeToString (Transaction_Hash P tx), gsr_Error = (case r of Inr _ \<Rightarrow> None | Inl err \<Rightarrow> Some err)\<rparr>"
  have "handleSubmitTransaction P (Some req) e = (OK resp, e')"
    using req(2) sub by (simp add: handleSubmitTransaction_def resp_def)
  moreover have "computeTxHash Q s (toHex (tx_Signature tx)) = Inr (widen (gsr_TxHash resp))"
    by (simp add: resp_def hash_agrees [OF assms(1,2,3)] widen_Encode)
  moreover have "gsr_Accepted resp \<longleftrightarrow> checkState tx (Some (GetAccount (eng_State e))) = Inr ()
      \<and> \<not> Mempool_Has (Transaction_Hash P tx) (eng_Mempool e) \<and> Mempool_Size (eng_Mempool e) < mp_maxSize (eng_Mempool e)"
    using submit_accepted [OF requestTx_sizes [OF req(2)] assms(9,10), of e] sub by (cases r) (simp_all add: resp_def)
  ultimately show ?thesis using req by blast
qed

theorem wallet_submission_arrives_witness:
  "\<exists>req resp e'. decodeSubmit (submit_request sample_fmt paid_app (tx_Signature paid)) = Some req
     \<and> requestTx chain_prims req = Inr paid \<and> handleSubmitTransaction chain_prims (Some req) rpc_node = (OK resp, e')
     \<and> gsr_Accepted resp"
proof -
  have c: "tx_Type paid \<in> {TxTransfer, TxCreatePost, TxBoostPost, TxRegisterName, TxStake, TxUnstake, TxUnstakePost}"
    "unat (tx_Amount paid) < 2 ^ 53" "unat (tx_Nonce paid) < 2 ^ 53"
    by (simp_all add: paid_def chain_tx_def)
  have v: "Address_Validate chain_prims (tx_Sender paid) = Inr ()" "Address_Validate chain_prims (tx_Recipient paid) = Inr ()"
    "AddressFromPublicKey chain_prims (tx_PubKey paid) = tx_Sender paid"
    "Verify chain_prims (tx_PubKey paid) (SignableBytes paid) (tx_Signature paid)" by code_simp+
  have pool: "checkState paid (Some (GetAccount (eng_State rpc_node))) = Inr ()"
    "\<not> Mempool_Has (Transaction_Hash chain_prims paid) (eng_Mempool rpc_node)"
    "Mempool_Size (eng_Mempool rpc_node) < mp_maxSize (eng_Mempool rpc_node)" by code_simp+
  show ?thesis
    using wallet_submission_arrives [OF paid_wf(1) paid_describes demo_same_hash c(2,3,1) v(1) disjI2 [OF v(2)] v(3,4),
        of sample_fmt rpc_node] pool by auto
qed

section \<open>Encodings of the node\<close>

text \<open>
  C26: \<^verbatim>\<open>MulDiv\<close> returns \<open>a * b / c\<close> computed without overflow, saturated at the largest 64-bit value, and never
  panics for a divisor that is not zero.
\<close>

theorem MulDiv_exact:
  assumes "c \<noteq> 0"
  shows "\<exists>q. MulDiv a b c = Some q \<and> unat q = min (unat a * unat b div unat c) (2 ^ 64 - 1)"
  by (rule MulDiv_Some [OF assms])

theorem MulDiv_exact_witness:
  "\<exists>q. MulDiv (2 ^ 63) 6 100 = Some q \<and> unat q = 553402322211286548"
  using MulDiv_exact [of 100 "2 ^ 63" 6] by simp

text \<open>
  A transaction survives its JSON form: unmarshalling what \<^verbatim>\<open>MarshalJSON\<close> wrote into a fresh value gives the
  transaction back.
\<close>

theorem transaction_json_roundtrip:
  assumes "wf_tx tx"
  shows "Transaction_UnmarshalJSON zeroTransaction (Transaction_MarshalJSON tx) = Inr tx"
  using assms by (simp add: Transaction_UnmarshalJSON_def Transaction_MarshalJSON_def zeroTransaction_def wf_tx_def
      zeroAddress_def zeroPostID_def)

theorem transaction_json_roundtrip_witness:
  "Transaction_UnmarshalJSON zeroTransaction (Transaction_MarshalJSON paid) = Inr paid"
  by (rule transaction_json_roundtrip [OF paid_wf(1)])

text \<open>So does a block header.\<close>

theorem header_json_roundtrip:
  assumes "wf_header h"
  shows "BlockHeader_UnmarshalJSON zeroHeader (BlockHeader_MarshalJSON h) = Inr h"
  using assms by (simp add: BlockHeader_UnmarshalJSON_def BlockHeader_MarshalJSON_def zeroHeader_def wf_header_def
      zeroAddress_def)

theorem header_json_roundtrip_witness:
  "BlockHeader_UnmarshalJSON zeroHeader (BlockHeader_MarshalJSON (zeroHeader\<lparr>hdr_Height := 7\<rparr>))
    = Inr (zeroHeader\<lparr>hdr_Height := 7\<rparr>)"
  by (rule header_json_roundtrip) (simp add: wf_header_def zeroHeader_def zeroAddress_def)

end
